(* ===== verification/RNet_Prelude.thy ===== *)
theory RNet_Prelude
  imports Main "HOL-Library.Word"
begin

text \<open>
  Shared vocabulary of the recomp-net development: the fixed-width integer types of
  \<^verbatim>\<open>include/recomp_net/types.h\<close>, C arrays as lists of a fixed length, and the generic
  facts about bytes, words and lists that the component theories rely on.

  Conventions used by every component theory.
  \<^item> A C struct reached through a non-NULL handle is a record; an operation takes the record
    and returns the updated one. The guards on a NULL handle have no counterpart, because a
    NULL handle denotes no record. A data pointer whose NULL value selects a behaviour of its
    own (an optional digest, an optional callback, an optional string) is an \<^verbatim>\<open>option\<close>.
  \<^item> A pointer together with its element count is a list.
  \<^item> A fixed-length array is a list whose length is part of the component's invariant.
  \<^item> \<^verbatim>\<open>uint8_t\<close> fields that travel verbatim stay bytes; a 0/1 return value is a \<^verbatim>\<open>bool\<close>.
\<close>

unbundle bit_operations_syntax

section \<open>Integer types\<close>

type_synonym u8 = "8 word"
type_synonym u16 = "16 word"
type_synonym u32 = "32 word"
type_synonym u64 = "64 word"
type_synonym s8 = "8 word"
type_synonym bytes = "u8 list"

section \<open>Bytes and words\<close>

lemma mask8_word: "(0xFF :: 'a::len word) = mask 8"
  by (simp add: mask_eq_exp_minus_1)

lemma ucast_and_255 [simp]: "ucast (v AND 0xFF :: 'a::len word) = (ucast v :: u8)"
  by (rule bit_word_eqI, simp only: mask8_word)
     (auto simp: bit_simps dest: bit_imp_le_length)

lemma u16_bytes_join [simp]:
  "(ucast (ucast v :: u8) OR push_bit 8 (ucast (ucast (drop_bit 8 v) :: u8)) :: u16) = v"
  by (rule bit_word_eqI) (auto simp: bit_simps)

lemma u32_bytes_join [simp]:
  "(ucast (ucast v :: u8) OR push_bit 8 (ucast (ucast (drop_bit 8 v) :: u8)) OR
    push_bit 16 (ucast (ucast (drop_bit 16 v) :: u8)) OR
    push_bit 24 (ucast (ucast (drop_bit 24 v) :: u8)) :: u32) = v"
proof (rule bit_word_eqI)
  fix n :: nat
  assume n: "n < LENGTH(32)"
  consider "n < 8" | "8 \<le> n" "n < 16" | "16 \<le> n" "n < 24" | "24 \<le> n" by linarith
  then show "bit (ucast (ucast v :: u8) OR push_bit 8 (ucast (ucast (drop_bit 8 v) :: u8)) OR
    push_bit 16 (ucast (ucast (drop_bit 16 v) :: u8)) OR
    push_bit 24 (ucast (ucast (drop_bit 24 v) :: u8)) :: u32) n = bit v n"
    using n by cases (auto simp: bit_simps)
qed

text \<open>The 32-bit FNV prime is odd, so multiplying by it loses nothing.\<close>

lemma fnv_prime_cancel: "(x :: u32) * 0x01000193 = y * 0x01000193 \<Longrightarrow> x = y"
proof -
  assume h: "x * 0x01000193 = y * 0x01000193"
  have inv: "(0x01000193 * 0x359C449B :: u32) = 1" by simp
  have "x * (0x01000193 * 0x359C449B) = y * (0x01000193 * 0x359C449B)"
    using h by (simp only: mult.assoc [symmetric])
  then show "x = y" by (simp only: inv mult_1_right)
qed

lemma ucast_u8_u32_inj: "(ucast (a :: u8) :: u32) = ucast b \<longleftrightarrow> a = b"
proof
  assume h: "(ucast a :: u32) = ucast b"
  show "a = b"
  proof (rule bit_word_eqI)
    fix n assume "n < LENGTH(8)"
    then show "bit a n = bit b n"
      using arg_cong [OF h, of "\<lambda>w. bit w n"] by (simp add: bit_simps)
  qed
qed simp

lemma unat_u8_u32: "unat (ucast (d :: u8) :: u32) = unat d"
proof -
  have "unat d < 2 ^ LENGTH(8)" by (rule unsigned_less)
  then have "unat d < 2 ^ 32" by simp
  then show ?thesis by (simp only: unsigned_ucast_eq) (simp add: take_bit_nat_eq_self)
qed

lemma xor_left_cancel: "(a :: 'a::len word) XOR x = a XOR y \<longleftrightarrow> x = y"
proof
  assume "a XOR x = a XOR y"
  then have "a XOR (a XOR x) = a XOR (a XOR y)" by simp
  then show "x = y" by (simp only: xor.assoc [symmetric]) simp
qed simp

lemma xor_right_cancel: "x XOR (a :: 'a::len word) = y XOR a \<longleftrightarrow> x = y"
  using xor_left_cancel [of a x y] by (simp add: xor.commute)

section \<open>Seat masks\<close>

text \<open>\<^verbatim>\<open>mask & (1u << k)\<close> and \<^verbatim>\<open>mask |= 1u << k\<close>, read as membership and insertion.\<close>

lemma mask_test [simp]: "(m :: 'a::len word) AND 2 ^ k = 0 \<longleftrightarrow> \<not> bit m k"
  by (rule and_exp_eq_0_iff_not_bit)

lemma mask_insert [simp]:
  "bit ((m :: 'a::len word) OR 2 ^ k) s \<longleftrightarrow> bit m s \<or> s = k \<and> k < LENGTH('a)"
  by (auto simp: bit_simps dest: bit_imp_le_length)

lemma mask_remove [simp]: "bit ((m :: 'a::len word) AND NOT (2 ^ k)) s \<longleftrightarrow> bit m s \<and> s \<noteq> k"
  by (auto simp: bit_simps dest: bit_imp_le_length)

lemma mask_contains: "(a :: 'a::len word) AND b = b \<longleftrightarrow> (\<forall>s. bit b s \<longrightarrow> bit a s)"
  by (auto simp: bit_eq_iff bit_simps dest: bit_imp_le_length)

lemma low_mask_bit: "n < LENGTH('a) \<Longrightarrow> bit (2 ^ n - 1 :: 'a::len word) k \<longleftrightarrow> k < n"
  by (simp flip: mask_eq_exp_minus_1) (auto simp: bit_simps)

lemma mask_restrict: "bit ((m :: 'a::len word) AND (2 ^ n - 1)) s \<longleftrightarrow> bit m s \<and> s < n"
  by (simp flip: mask_eq_exp_minus_1) (auto simp: bit_simps dest: bit_imp_le_length)

lemma mask8_restrict [simp]: "bit ((m :: u32) AND 255) s \<longleftrightarrow> bit m s \<and> s < 8"
  using mask_restrict [of m 8 s] by simp

section \<open>Lists as arrays\<close>

text \<open>\<open>pad_to n z xs\<close>: a zero-initialised array of \<open>n\<close> elements after \<open>xs\<close> was copied into it.\<close>

definition pad_to :: "nat \<Rightarrow> 'a \<Rightarrow> 'a list \<Rightarrow> 'a list" where
  "pad_to n z xs = xs @ replicate (n - length xs) z"

lemma length_pad_to [simp]: "length xs \<le> n \<Longrightarrow> length (pad_to n z xs) = n"
  by (simp add: pad_to_def)

lemma take_pad_to [simp]: "length xs = k \<Longrightarrow> take k (pad_to n z xs) = xs"
  by (simp add: pad_to_def)

text \<open>The slot of a tick in a 128-entry table, \<^verbatim>\<open>tick % 128\<close>.\<close>

definition ring_slot :: "u32 \<Rightarrow> nat" where
  "ring_slot t = unat t mod 128"

lemma nth_update_if: "i < length xs \<Longrightarrow> xs[i := v] ! j = (if j = i then v else xs ! j)"
  by simp

end
