(* ===== verification/RNet_Wire.thy ===== *)
theory RNet_Wire
  imports RNet_Prelude
begin

text \<open>
  The wire format of \<^verbatim>\<open>src/protocol/rnet_protocol.h\<close> and the encoders of
  \<^verbatim>\<open>src/protocol/rnet_protocol.c\<close>. An encoder is given the capacity of the output buffer and
  returns the bytes it wrote, or \<open>None\<close> where the C function returns -1. The cursor of the C
  code is the length of the bytes written so far.
\<close>

section \<open>Packet types and limits\<close>

abbreviation (input) RNET_PKT_HELLO :: u16 where "RNET_PKT_HELLO \<equiv> 1"
abbreviation (input) RNET_PKT_READY :: u16 where "RNET_PKT_READY \<equiv> 2"
abbreviation (input) RNET_PKT_START :: u16 where "RNET_PKT_START \<equiv> 3"
abbreviation (input) RNET_PKT_INPUT :: u16 where "RNET_PKT_INPUT \<equiv> 4"
abbreviation (input) RNET_PKT_DELAY_SYNC :: u16 where "RNET_PKT_DELAY_SYNC \<equiv> 5"
abbreviation (input) RNET_PKT_INPUT_CONFIRM :: u16 where "RNET_PKT_INPUT_CONFIRM \<equiv> 6"
abbreviation (input) RNET_PKT_BYE :: u16 where "RNET_PKT_BYE \<equiv> 7"
abbreviation (input) RNET_PKT_STATE_BEGIN :: u16 where "RNET_PKT_STATE_BEGIN \<equiv> 8"
abbreviation (input) RNET_PKT_STATE_CHUNK :: u16 where "RNET_PKT_STATE_CHUNK \<equiv> 9"
abbreviation (input) RNET_PKT_STATE_ACK :: u16 where "RNET_PKT_STATE_ACK \<equiv> 10"
abbreviation (input) RNET_PKT_STATE_PROBE :: u16 where "RNET_PKT_STATE_PROBE \<equiv> 11"
abbreviation (input) RNET_PKT_STATE_PROBE_REPLY :: u16 where "RNET_PKT_STATE_PROBE_REPLY \<equiv> 12"
abbreviation (input) RNET_PKT_SIO_MULTI_XFER :: u16 where "RNET_PKT_SIO_MULTI_XFER \<equiv> 13"
abbreviation (input) RNET_PKT_STATE_PROBE_DONE :: u16 where "RNET_PKT_STATE_PROBE_DONE \<equiv> 14"
abbreviation (input) RNET_PKT_RB_SYNC :: u16 where "RNET_PKT_RB_SYNC \<equiv> 20"
abbreviation (input) RNET_PKT_RB_SEAL_ROWS :: u16 where "RNET_PKT_RB_SEAL_ROWS \<equiv> 21"
abbreviation (input) RNET_PKT_RB_BASELINE :: u16 where "RNET_PKT_RB_BASELINE \<equiv> 22"
abbreviation (input) RNET_PKT_RB_POST :: u16 where "RNET_PKT_RB_POST \<equiv> 23"
abbreviation (input) RNET_PKT_RB_FRAME_COMMIT :: u16 where "RNET_PKT_RB_FRAME_COMMIT \<equiv> 24"
abbreviation (input) RNET_PKT_RB_RESOLVED :: u16 where "RNET_PKT_RB_RESOLVED \<equiv> 25"
abbreviation (input) RNET_PKT_MODSET :: u16 where "RNET_PKT_MODSET \<equiv> 26"
abbreviation (input) RNET_PKT_MODSET_ACK :: u16 where "RNET_PKT_MODSET_ACK \<equiv> 27"

abbreviation (input) RNET_MODSET_TEXT_MAX :: nat where "RNET_MODSET_TEXT_MAX \<equiv> 1024"
abbreviation (input) RNET_MODSET_REASON_MAX :: nat where "RNET_MODSET_REASON_MAX \<equiv> 96"
abbreviation (input) RNET_MAX_PACKET :: nat where "RNET_MAX_PACKET \<equiv> 1200"
abbreviation (input) RNET_MAX_BUNDLE :: nat where "RNET_MAX_BUNDLE \<equiv> 21"
abbreviation (input) RNET_STATE_CHUNK_MAX :: nat where "RNET_STATE_CHUNK_MAX \<equiv> 1120"
abbreviation (input) RNET_RB_SEAL_ROWS_WIRE_FRAME_BYTES :: nat
  where "RNET_RB_SEAL_ROWS_WIRE_FRAME_BYTES \<equiv> 9"
abbreviation (input) RNET_RB_SEAL_ROWS_CHUNK_MAX :: nat where "RNET_RB_SEAL_ROWS_CHUNK_MAX \<equiv> 24"
abbreviation (input) RNET_WIRE_VERSION :: u8 where "RNET_WIRE_VERSION \<equiv> 2"
abbreviation (input) RNET_MAX_SLOTS :: nat where "RNET_MAX_SLOTS \<equiv> 8"
abbreviation (input) RNET_INPUT_MAX :: nat where "RNET_INPUT_MAX \<equiv> 32"

section \<open>Frames carried on the wire\<close>

text \<open>\<open>wf_bytes\<close> is the 32-byte array of the C struct; \<open>wf_size\<close> of them are meaningful.\<close>

record RNetWireFrame =
  wf_tick :: u32
  wf_size :: u16
  wf_bytes :: bytes

record RNetRbWireFrame =
  rw_buttons :: u16
  rw_stick_x :: s8
  rw_stick_y :: s8
  rw_source :: u8
  rw_is_predicted :: u8
  rw_is_valid :: u8
  rw_rx :: u8
  rw_ry :: u8

section \<open>Primitive writers and the trailer\<close>

definition write_u16 :: "u16 \<Rightarrow> bytes" where
  "write_u16 v = [ucast (v AND 0xFF), ucast (drop_bit 8 v AND 0xFF)]"

definition write_u32 :: "u32 \<Rightarrow> bytes" where
  "write_u32 v = [ucast (v AND 0xFF), ucast (drop_bit 8 v AND 0xFF),
                  ucast (drop_bit 16 v AND 0xFF), ucast (drop_bit 24 v AND 0xFF)]"

text \<open>The loop body of the checksum, and the loop over the data.\<close>

fun checksum_loop :: "u32 \<Rightarrow> bytes \<Rightarrow> u32" where
  "checksum_loop acc [] = acc"
| "checksum_loop acc (b # bs) = checksum_loop ((acc XOR ucast b) * 0x01000193) bs"

definition rnet_proto_checksum :: "bytes \<Rightarrow> u32" where
  "rnet_proto_checksum data = checksum_loop 0x811c9dc5 data"

definition finish_packet :: "bytes \<Rightarrow> nat \<Rightarrow> bytes option" where
  "finish_packet body cap =
     (if length body + 4 > cap then None
      else Some (body @ write_u32 (rnet_proto_checksum body)))"

definition rnet_proto_is_rb_control :: "u16 \<Rightarrow> bool" where
  "rnet_proto_is_rb_control ty \<longleftrightarrow>
     ty = RNET_PKT_RB_SYNC \<or> ty = RNET_PKT_RB_SEAL_ROWS \<or> ty = RNET_PKT_RB_BASELINE \<or>
     ty = RNET_PKT_RB_POST \<or> ty = RNET_PKT_RB_FRAME_COMMIT \<or> ty = RNET_PKT_RB_RESOLVED"

text \<open>The packet of \<open>size\<close> bytes is the list itself.\<close>

definition rnet_proto_tag_rb_epoch :: "bytes \<Rightarrow> nat \<Rightarrow> u16 \<Rightarrow> bytes option" where
  "rnet_proto_tag_rb_epoch buf cap epoch =
     (if length buf < 14 \<or> length buf + 2 > cap then None
      else finish_packet (take (length buf - 4) buf @ write_u16 epoch) cap)"

section \<open>Session packets\<close>

definition rnet_proto_encode_hello :: "nat \<Rightarrow> u32 \<Rightarrow> u32 \<Rightarrow> u8 \<Rightarrow> u8 \<Rightarrow> u8 \<Rightarrow> bytes option" where
  "rnet_proto_encode_hello cap magic session_id local_slot slot_count delay =
     (if cap < 20 then None
      else finish_packet
        (write_u32 magic @ write_u16 RNET_PKT_HELLO @ write_u32 session_id @
         [local_slot, slot_count, delay, RNET_WIRE_VERSION]) cap)"

definition rnet_proto_encode_ready :: "nat \<Rightarrow> u32 \<Rightarrow> u32 \<Rightarrow> u8 \<Rightarrow> bytes option" where
  "rnet_proto_encode_ready cap magic session_id local_slot =
     (if cap < 16 then None
      else finish_packet
        (write_u32 magic @ write_u16 RNET_PKT_READY @ write_u32 session_id @
         [local_slot, 0, 0, 0]) cap)"

definition rnet_proto_encode_start :: "nat \<Rightarrow> u32 \<Rightarrow> u32 \<Rightarrow> u32 \<Rightarrow> bytes option" where
  "rnet_proto_encode_start cap magic session_id start_tick =
     (if cap < 20 then None
      else finish_packet
        (write_u32 magic @ write_u16 RNET_PKT_START @ write_u32 session_id @
         write_u32 start_tick) cap)"

text \<open>
  The frame loop of \<open>rnet_proto_encode_input\<close>: \<open>c\<close> is what has been written so far; a frame
  that is too large, or that would not leave room for itself and the trailer, aborts.
\<close>

fun encode_input_frames :: "nat \<Rightarrow> bytes \<Rightarrow> RNetWireFrame list \<Rightarrow> bytes option" where
  "encode_input_frames cap c [] = Some c"
| "encode_input_frames cap c (f # fs) =
     (if unat (wf_size f) > RNET_INPUT_MAX then None
      else if length c + 4 + 2 + unat (wf_size f) + 4 > cap then None
      else encode_input_frames cap
             (c @ write_u32 (wf_tick f) @ write_u16 (wf_size f) @
              take (unat (wf_size f)) (wf_bytes f)) fs)"

definition rnet_proto_encode_input ::
  "nat \<Rightarrow> u32 \<Rightarrow> u32 \<Rightarrow> u8 \<Rightarrow> u16 \<Rightarrow> u32 \<Rightarrow> RNetWireFrame list option \<Rightarrow> bytes option" where
  "rnet_proto_encode_input cap magic session_id local_slot input_epoch ack_tick frames =
     (case frames of
        None \<Rightarrow> None
      | Some fs \<Rightarrow>
          if length fs < 1 \<or> length fs > RNET_MAX_BUNDLE then None
          else if cap < 32 then None
          else (case encode_input_frames cap
                 (write_u32 magic @ write_u16 RNET_PKT_INPUT @ write_u32 session_id @
                  [local_slot, of_nat (length fs), ucast (input_epoch AND 0xFF),
                   ucast (drop_bit 8 input_epoch AND 0xFF)] @
                  write_u32 ack_tick) fs of
                 None \<Rightarrow> None
               | Some body \<Rightarrow> finish_packet body cap))"

definition rnet_proto_encode_input_acks ::
  "nat \<Rightarrow> u32 \<Rightarrow> u32 \<Rightarrow> u8 \<Rightarrow> u16 \<Rightarrow> u32 \<Rightarrow> RNetWireFrame list option \<Rightarrow> u32 list option
   \<Rightarrow> bytes option" where
  "rnet_proto_encode_input_acks cap magic session_id local_slot input_epoch ack_tick frames acks =
     (case acks of
        None \<Rightarrow> None
      | Some as \<Rightarrow>
          if length as < 3 \<or> length as > RNET_MAX_SLOTS then None
          else (case rnet_proto_encode_input cap magic session_id local_slot input_epoch ack_tick
                      frames of
                 None \<Rightarrow> None
               | Some out \<Rightarrow>
                   if length out + 1 + 4 * length as > cap then None
                   else finish_packet
                          (take (length out - 4) out @ [of_nat (length as)] @
                           concat (map write_u32 as)) cap))"

definition rnet_proto_encode_delay_sync :: "nat \<Rightarrow> u32 \<Rightarrow> u32 \<Rightarrow> u8 \<Rightarrow> u32 \<Rightarrow> bytes option" where
  "rnet_proto_encode_delay_sync cap magic session_id new_delay effective_tick =
     (if cap < 24 then None
      else finish_packet
        (write_u32 magic @ write_u16 RNET_PKT_DELAY_SYNC @ write_u32 session_id @
         [new_delay, 0, 0, 0] @ write_u32 effective_tick) cap)"

definition rnet_proto_encode_input_confirm ::
  "nat \<Rightarrow> u32 \<Rightarrow> u32 \<Rightarrow> u8 \<Rightarrow> u16 \<Rightarrow> u32 \<Rightarrow> u32 \<Rightarrow> bytes option" where
  "rnet_proto_encode_input_confirm cap magic session_id local_slot input_epoch sim_tick input_hash =
     (if cap < 28 then None
      else finish_packet
        (write_u32 magic @ write_u16 RNET_PKT_INPUT_CONFIRM @ write_u32 session_id @
         [local_slot, ucast (input_epoch AND 0xFF), ucast (drop_bit 8 input_epoch AND 0xFF), 0] @
         write_u32 sim_tick @ write_u32 input_hash) cap)"

definition rnet_proto_encode_bye :: "nat \<Rightarrow> u32 \<Rightarrow> u32 \<Rightarrow> u8 \<Rightarrow> bytes option" where
  "rnet_proto_encode_bye cap magic session_id local_slot =
     (if cap < 16 then None
      else finish_packet
        (write_u32 magic @ write_u16 RNET_PKT_BYE @ write_u32 session_id @
         [local_slot, 0, 0, 0]) cap)"

section \<open>State transfer packets\<close>

definition rnet_proto_encode_state_begin ::
  "nat \<Rightarrow> u32 \<Rightarrow> u32 \<Rightarrow> u8 \<Rightarrow> u8 \<Rightarrow> u8 \<Rightarrow> u32 \<Rightarrow> u32 \<Rightarrow> u32 \<Rightarrow> bytes option" where
  "rnet_proto_encode_state_begin cap magic session_id local_slot opcode slot xfer_id total_size
     payload_crc =
     (if cap < 32 then None
      else finish_packet
        (write_u32 magic @ write_u16 RNET_PKT_STATE_BEGIN @ write_u32 session_id @
         [local_slot, opcode, slot, 0] @
         write_u32 xfer_id @ write_u32 total_size @ write_u32 payload_crc) cap)"

definition rnet_proto_encode_state_chunk ::
  "nat \<Rightarrow> u32 \<Rightarrow> u32 \<Rightarrow> u8 \<Rightarrow> u32 \<Rightarrow> u32 \<Rightarrow> bytes option \<Rightarrow> bytes option" where
  "rnet_proto_encode_state_chunk cap magic session_id local_slot xfer_id offset data =
     (case data of
        None \<Rightarrow> None
      | Some d \<Rightarrow>
          if length d = 0 \<or> length d > RNET_STATE_CHUNK_MAX then None
          else if cap < 28 + length d then None
          else finish_packet
            (write_u32 magic @ write_u16 RNET_PKT_STATE_CHUNK @ write_u32 session_id @
             [local_slot, 0, 0, 0] @ write_u32 xfer_id @ write_u32 offset @
             write_u16 (of_nat (length d)) @ write_u16 0 @ d) cap)"

definition rnet_proto_encode_state_ack ::
  "nat \<Rightarrow> u32 \<Rightarrow> u32 \<Rightarrow> u8 \<Rightarrow> u32 \<Rightarrow> u32 \<Rightarrow> bytes option" where
  "rnet_proto_encode_state_ack cap magic session_id local_slot xfer_id ack_bytes =
     (if cap < 24 then None
      else finish_packet
        (write_u32 magic @ write_u16 RNET_PKT_STATE_ACK @ write_u32 session_id @
         [local_slot, 0, 0, 0] @ write_u32 xfer_id @ write_u32 ack_bytes) cap)"

definition rnet_proto_encode_state_probe_ex ::
  "nat \<Rightarrow> u32 \<Rightarrow> u32 \<Rightarrow> u8 \<Rightarrow> u8 \<Rightarrow> u8 \<Rightarrow> u32 \<Rightarrow> u32 \<Rightarrow> u8 \<Rightarrow> bytes option" where
  "rnet_proto_encode_state_probe_ex cap magic session_id local_slot opcode slot total_size
     payload_crc replied_mask =
     (if cap < 28 then None
      else finish_packet
        (write_u32 magic @ write_u16 RNET_PKT_STATE_PROBE @ write_u32 session_id @
         [local_slot, opcode, slot, replied_mask] @
         write_u32 total_size @ write_u32 payload_crc) cap)"

definition rnet_proto_encode_state_probe ::
  "nat \<Rightarrow> u32 \<Rightarrow> u32 \<Rightarrow> u8 \<Rightarrow> u8 \<Rightarrow> u8 \<Rightarrow> u32 \<Rightarrow> u32 \<Rightarrow> bytes option" where
  "rnet_proto_encode_state_probe cap magic session_id local_slot opcode slot total_size payload_crc =
     rnet_proto_encode_state_probe_ex cap magic session_id local_slot opcode slot total_size
       payload_crc 0"

definition rnet_proto_encode_state_probe_reply ::
  "nat \<Rightarrow> u32 \<Rightarrow> u32 \<Rightarrow> u8 \<Rightarrow> u8 \<Rightarrow> u8 \<Rightarrow> u8 \<Rightarrow> u32 \<Rightarrow> u32 \<Rightarrow> bytes option" where
  "rnet_proto_encode_state_probe_reply cap magic session_id local_slot opcode slot match_flag
     total_size payload_crc =
     (if cap < 28 then None
      else finish_packet
        (write_u32 magic @ write_u16 RNET_PKT_STATE_PROBE_REPLY @ write_u32 session_id @
         [local_slot, opcode, slot, if match_flag \<noteq> 0 then 1 else 0] @
         write_u32 total_size @ write_u32 payload_crc) cap)"

definition rnet_proto_encode_state_probe_done ::
  "nat \<Rightarrow> u32 \<Rightarrow> u32 \<Rightarrow> u8 \<Rightarrow> u8 \<Rightarrow> u8 \<Rightarrow> u32 \<Rightarrow> u32 \<Rightarrow> bytes option" where
  "rnet_proto_encode_state_probe_done cap magic session_id local_slot opcode slot total_size
     payload_crc =
     (if cap < 28 then None
      else finish_packet
        (write_u32 magic @ write_u16 RNET_PKT_STATE_PROBE_DONE @ write_u32 session_id @
         [local_slot, opcode, slot, 0] @ write_u32 total_size @ write_u32 payload_crc) cap)"

definition rnet_proto_encode_sio_multi_xfer ::
  "nat \<Rightarrow> u32 \<Rightarrow> u32 \<Rightarrow> u8 \<Rightarrow> u8 \<Rightarrow> u32 \<Rightarrow> u16 \<Rightarrow> u16 \<Rightarrow> bytes option" where
  "rnet_proto_encode_sio_multi_xfer cap magic session_id local_slot unit_id seqn send confirm_pad =
     (if cap < 24 then None
      else finish_packet
        (write_u32 magic @ write_u16 RNET_PKT_SIO_MULTI_XFER @ write_u32 session_id @
         [local_slot, unit_id] @ write_u32 seqn @ write_u16 send @ write_u16 confirm_pad) cap)"

section \<open>Rollback control packets\<close>

definition rnet_proto_encode_rb_sync ::
  "nat \<Rightarrow> u32 \<Rightarrow> u32 \<Rightarrow> u8 \<Rightarrow> u32 \<Rightarrow> u32 \<Rightarrow> u32 \<Rightarrow> u32 \<Rightarrow> u8 \<Rightarrow> u8 \<Rightarrow> u8 \<Rightarrow> bytes option" where
  "rnet_proto_encode_rb_sync cap magic session_id local_slot epoch_id mismatch_tick load_tick
     target_tick corrected_slot initiator flags =
     (if cap < 36 then None
      else finish_packet
        (write_u32 magic @ write_u16 RNET_PKT_RB_SYNC @ write_u32 session_id @
         [local_slot, corrected_slot, initiator, flags] @
         write_u32 epoch_id @ write_u32 mismatch_tick @ write_u32 load_tick @
         write_u32 target_tick) cap)"

definition write_rb_frame :: "RNetRbWireFrame \<Rightarrow> bytes" where
  "write_rb_frame f =
     write_u16 (rw_buttons f) @
     [rw_stick_x f, rw_stick_y f, rw_source f, rw_is_predicted f, rw_is_valid f, rw_rx f, rw_ry f]"

text \<open>
  \<open>rows = None\<close> is the NULL pointer, which the code accepts only with a zero count: then it
  stands for no rows at all.
  There is no guard on the capacity before the rows are written: where the packet does
  not fit, the result is \<open>None\<close> as in the code, which has by then written past the buffer.
\<close>

definition rnet_proto_encode_rb_seal_rows ::
  "nat \<Rightarrow> u32 \<Rightarrow> u32 \<Rightarrow> u8 \<Rightarrow> u32 \<Rightarrow> u32 \<Rightarrow> u32 \<Rightarrow> u8 \<Rightarrow> u32 \<Rightarrow> RNetRbWireFrame list option \<Rightarrow> u16
   \<Rightarrow> bytes option" where
  "rnet_proto_encode_rb_seal_rows cap magic session_id local_slot epoch_id mismatch_tick target_tick
     slot row_begin rows row_count =
     (if rows = None \<and> row_count \<noteq> 0 then None
      else let n = (if unat row_count > RNET_RB_SEAL_ROWS_CHUNK_MAX
                    then of_nat RNET_RB_SEAL_ROWS_CHUNK_MAX else row_count) in
        finish_packet
          (write_u32 magic @ write_u16 RNET_PKT_RB_SEAL_ROWS @ write_u32 session_id @
           [local_slot, slot] @ write_u16 n @
           write_u32 epoch_id @ write_u32 mismatch_tick @ write_u32 target_tick @
           write_u32 row_begin @
           concat (map write_rb_frame
             (take (unat n) (case rows of None \<Rightarrow> [] | Some rs \<Rightarrow> rs)))) cap)"

definition rnet_proto_encode_rb_baseline ::
  "nat \<Rightarrow> u32 \<Rightarrow> u32 \<Rightarrow> u8 \<Rightarrow> u32 \<Rightarrow> u32 \<Rightarrow> u32 \<Rightarrow> u32 \<Rightarrow> u32 \<Rightarrow> u32 \<Rightarrow> bytes option" where
  "rnet_proto_encode_rb_baseline cap magic session_id local_slot epoch_id load_tick digest_master
     digest_a digest_b digest_c =
     (if cap < 40 then None
      else finish_packet
        (write_u32 magic @ write_u16 RNET_PKT_RB_BASELINE @ write_u32 session_id @
         [local_slot, 0] @
         write_u32 epoch_id @ write_u32 load_tick @ write_u32 digest_master @
         write_u32 digest_a @ write_u32 digest_b @ write_u32 digest_c) cap)"

definition rnet_proto_encode_rb_post ::
  "nat \<Rightarrow> u32 \<Rightarrow> u32 \<Rightarrow> u8 \<Rightarrow> u32 \<Rightarrow> u32 \<Rightarrow> u32 \<Rightarrow> u32 \<Rightarrow> u8 \<Rightarrow> bytes option" where
  "rnet_proto_encode_rb_post cap magic session_id local_slot epoch_id target_tick digest_master
     input_digest match_flag =
     (if cap < 32 then None
      else finish_packet
        (write_u32 magic @ write_u16 RNET_PKT_RB_POST @ write_u32 session_id @
         [local_slot, if match_flag \<noteq> 0 then 1 else 0] @
         write_u32 epoch_id @ write_u32 target_tick @ write_u32 digest_master @
         write_u32 input_digest) cap)"

definition rnet_proto_encode_rb_frame_commit ::
  "nat \<Rightarrow> u32 \<Rightarrow> u32 \<Rightarrow> u8 \<Rightarrow> u32 \<Rightarrow> u32 \<Rightarrow> bytes option" where
  "rnet_proto_encode_rb_frame_commit cap magic session_id local_slot through_tick state_hash =
     (if cap < 24 then None
      else finish_packet
        (write_u32 magic @ write_u16 RNET_PKT_RB_FRAME_COMMIT @ write_u32 session_id @
         [local_slot, 0] @ write_u32 through_tick @ write_u32 state_hash) cap)"

definition rnet_proto_encode_rb_resolved ::
  "nat \<Rightarrow> u32 \<Rightarrow> u32 \<Rightarrow> u8 \<Rightarrow> u32 \<Rightarrow> bytes option" where
  "rnet_proto_encode_rb_resolved cap magic session_id local_slot resolved_through =
     (if cap < 20 then None
      else finish_packet
        (write_u32 magic @ write_u16 RNET_PKT_RB_RESOLVED @ write_u32 session_id @
         [local_slot, 0] @ write_u32 resolved_through) cap)"

section \<open>Mod-set packets\<close>

text \<open>
  A C string is the list of its bytes; the terminator is the first zero byte or the end of the
  list. \<open>clamped_loop\<close> is the scan of \<open>clamped_len\<close>.
\<close>

fun clamped_loop :: "bytes \<Rightarrow> nat \<Rightarrow> nat" where
  "clamped_loop [] cap = 0"
| "clamped_loop (b # bs) cap =
     (if cap = 0 \<or> b = 0 then 0 else Suc (clamped_loop bs (cap - 1)))"

definition clamped_len :: "bytes option \<Rightarrow> nat \<Rightarrow> nat" where
  "clamped_len v cap = (case v of None \<Rightarrow> 0 | Some bs \<Rightarrow> clamped_loop bs cap)"

definition cstr_bytes :: "bytes option \<Rightarrow> bytes" where
  "cstr_bytes v = (case v of None \<Rightarrow> [] | Some bs \<Rightarrow> bs)"

definition rnet_proto_encode_modset :: "nat \<Rightarrow> u32 \<Rightarrow> u32 \<Rightarrow> u8 \<Rightarrow> bytes option \<Rightarrow> bytes option" where
  "rnet_proto_encode_modset cap magic session_id local_slot text =
     (let n = clamped_len text RNET_MODSET_TEXT_MAX in
      if cap < 18 + n then None
      else finish_packet
        (write_u32 magic @ write_u16 RNET_PKT_MODSET @ write_u32 session_id @
         [local_slot, 0] @ write_u16 (of_nat n) @ take n (cstr_bytes text)) cap)"

definition rnet_proto_encode_modset_ack ::
  "nat \<Rightarrow> u32 \<Rightarrow> u32 \<Rightarrow> u8 \<Rightarrow> u8 \<Rightarrow> bytes option \<Rightarrow> bytes option" where
  "rnet_proto_encode_modset_ack cap magic session_id local_slot status reason =
     (let n = clamped_len reason RNET_MODSET_REASON_MAX in
      if cap < 18 + n then None
      else finish_packet
        (write_u32 magic @ write_u16 RNET_PKT_MODSET_ACK @ write_u32 session_id @
         [local_slot, status] @ write_u16 (of_nat n) @ take n (cstr_bytes reason)) cap)"

end
