(* ===== verification/RNet_Decode.thy ===== *)
theory RNet_Decode
  imports RNet_Wire
begin

text \<open>
  The decoder \<^verbatim>\<open>rnet_proto_decode\<close> of \<^verbatim>\<open>src/protocol/rnet_protocol.c\<close>. The reader state is what
  the C cursor sees: the readable memory from \<^verbatim>\<open>c\<close> onwards and the pointer difference
  \<^verbatim>\<open>end - c\<close>, which may be negative. A read of memory that is not there is the value \<open>Fault\<close>;
  a \<^verbatim>\<open>return -1\<close> is \<open>Reject\<close>. The bounds checks of the source compare \<^verbatim>\<open>(size_t)(end - c)\<close>, so
  \<open>size_of_ptrdiff\<close> writes out the conversion to a 64-bit \<^verbatim>\<open>size_t\<close>.
\<close>

section \<open>The reader\<close>

type_synonym rstate = "bytes \<times> int"

datatype 'a rres = Fault | Reject | Ok 'a rstate

definition size_of_ptrdiff :: "int \<Rightarrow> nat" where
  "size_of_ptrdiff d = (if 0 \<le> d then nat d else nat (d + 2 ^ 64))"

definition rd_ok :: "'a \<Rightarrow> rstate \<Rightarrow> 'a rres" where
  "rd_ok a s = Ok a s"

definition rd_bind :: "(rstate \<Rightarrow> 'a rres) \<Rightarrow> ('a \<Rightarrow> rstate \<Rightarrow> 'b rres) \<Rightarrow> rstate \<Rightarrow> 'b rres" where
  "rd_bind m f s = (case m s of Fault \<Rightarrow> Fault | Reject \<Rightarrow> Reject | Ok a s' \<Rightarrow> f a s')"

text \<open>\<open>rd_need n\<close> is the guard \<^verbatim>\<open>if ((size_t)(end - c) < n) return -1;\<close>, \<open>rd_guard\<close> any other.\<close>

definition rd_need :: "nat \<Rightarrow> (rstate \<Rightarrow> 'a rres) \<Rightarrow> rstate \<Rightarrow> 'a rres" where
  "rd_need n f s = (if size_of_ptrdiff (snd s) < n then Reject else f s)"

definition rd_guard :: "bool \<Rightarrow> (rstate \<Rightarrow> 'a rres) \<Rightarrow> rstate \<Rightarrow> 'a rres" where
  "rd_guard ok f s = (if ok then f s else Reject)"

text \<open>\<open>read_u8\<close> is \<^verbatim>\<open>*c++\<close>, \<open>rd_skip n\<close> is \<^verbatim>\<open>c += n\<close> and \<open>read_bytes n\<close> a \<^verbatim>\<open>memcpy\<close> from the cursor.\<close>

fun read_u8 :: "rstate \<Rightarrow> u8 rres" where
  "read_u8 (a # bs, r) = Ok a (bs, r - 1)"
| "read_u8 ([], r) = Fault"

fun read_u16 :: "rstate \<Rightarrow> u16 rres" where
  "read_u16 (a # b # bs, r) = Ok (ucast a OR push_bit 8 (ucast b)) (bs, r - 2)"
| "read_u16 ([], r) = Fault"
| "read_u16 ([a], r) = Fault"

fun read_u32 :: "rstate \<Rightarrow> u32 rres" where
  "read_u32 (a # b # c # d # bs, r) =
     Ok (ucast a OR push_bit 8 (ucast b) OR push_bit 16 (ucast c) OR push_bit 24 (ucast d))
        (bs, r - 4)"
| "read_u32 ([], r) = Fault"
| "read_u32 ([a], r) = Fault"
| "read_u32 ([a, b], r) = Fault"
| "read_u32 ([a, b, c], r) = Fault"

definition rd_skip :: "nat \<Rightarrow> (rstate \<Rightarrow> 'a rres) \<Rightarrow> rstate \<Rightarrow> 'a rres" where
  "rd_skip n f s = f (drop n (fst s), snd s - int n)"

definition read_bytes :: "nat \<Rightarrow> rstate \<Rightarrow> bytes rres" where
  "read_bytes n s =
     (if n \<le> length (fst s) then Ok (take n (fst s)) (drop n (fst s), snd s - int n) else Fault)"

section \<open>The decoded packet\<close>

record RNetDecodedPacket =
  dp_type :: u16
  dp_session_id :: u32
  dp_local_slot :: u8
  dp_slot_count :: u8
  dp_delay :: u8
  dp_wire_version :: u8
  dp_start_tick :: u32
  dp_ack_tick :: u32
  dp_ack_count :: u8
  dp_acks :: "u32 list"
  dp_new_delay :: u8
  dp_effective_tick :: u32
  dp_confirm_sim_tick :: u32
  dp_confirm_hash :: u32
  dp_input_epoch :: u16
  dp_frame_count :: nat
  dp_frames :: "RNetWireFrame list"
  dp_state_op :: u8
  dp_state_slot :: u8
  dp_state_xfer_id :: u32
  dp_state_total_size :: u32
  dp_state_payload_crc :: u32
  dp_state_offset :: u32
  dp_state_chunk_size :: u16
  dp_state_ack_bytes :: u32
  dp_state_chunk :: bytes
  dp_state_probe_match :: u8
  dp_state_probe_replied :: u8
  dp_rb_epoch_id :: u32
  dp_rb_mismatch_tick :: u32
  dp_rb_load_tick :: u32
  dp_rb_target_tick :: u32
  dp_rb_corrected_slot :: u8
  dp_rb_initiator :: u8
  dp_rb_flags :: u8
  dp_rb_slot :: u8
  dp_rb_row_begin :: u32
  dp_rb_row_count :: u16
  dp_rb_rows :: "RNetRbWireFrame list"
  dp_rb_digest_master :: u32
  dp_rb_digest_a :: u32
  dp_rb_digest_b :: u32
  dp_rb_digest_c :: u32
  dp_rb_input_digest :: u32
  dp_rb_match :: u8
  dp_rb_through_tick :: u32
  dp_rb_state_hash :: u32
  dp_rb_resolved_through :: u32
  dp_modset_text :: bytes
  dp_modset_len :: u16
  dp_modset_status :: u8
  dp_modset_reason :: bytes
  dp_sio_unit_id :: u8
  dp_sio_xfer_seq :: u32
  dp_sio_send :: u16
  dp_sio_confirm :: u8
  dp_sio_vblank :: u8

definition zero_wire_frame :: RNetWireFrame where
  "zero_wire_frame = \<lparr>wf_tick = 0, wf_size = 0, wf_bytes = replicate RNET_INPUT_MAX 0\<rparr>"

definition zero_rb_wire_frame :: RNetRbWireFrame where
  "zero_rb_wire_frame = \<lparr>rw_buttons = 0, rw_stick_x = 0, rw_stick_y = 0, rw_source = 0,
     rw_is_predicted = 0, rw_is_valid = 0, rw_rx = 0, rw_ry = 0\<rparr>"

text \<open>\<^verbatim>\<open>memset(out, 0, sizeof(*out))\<close>\<close>

definition zero_packet :: RNetDecodedPacket where
  "zero_packet = \<lparr>
     dp_type = 0, dp_session_id = 0, dp_local_slot = 0, dp_slot_count = 0, dp_delay = 0,
     dp_wire_version = 0, dp_start_tick = 0, dp_ack_tick = 0, dp_ack_count = 0,
     dp_acks = replicate RNET_MAX_SLOTS 0, dp_new_delay = 0, dp_effective_tick = 0,
     dp_confirm_sim_tick = 0, dp_confirm_hash = 0, dp_input_epoch = 0, dp_frame_count = 0,
     dp_frames = replicate RNET_MAX_BUNDLE zero_wire_frame,
     dp_state_op = 0, dp_state_slot = 0, dp_state_xfer_id = 0, dp_state_total_size = 0,
     dp_state_payload_crc = 0, dp_state_offset = 0, dp_state_chunk_size = 0,
     dp_state_ack_bytes = 0, dp_state_chunk = replicate RNET_STATE_CHUNK_MAX 0,
     dp_state_probe_match = 0, dp_state_probe_replied = 0,
     dp_rb_epoch_id = 0, dp_rb_mismatch_tick = 0, dp_rb_load_tick = 0, dp_rb_target_tick = 0,
     dp_rb_corrected_slot = 0, dp_rb_initiator = 0, dp_rb_flags = 0, dp_rb_slot = 0,
     dp_rb_row_begin = 0, dp_rb_row_count = 0,
     dp_rb_rows = replicate RNET_RB_SEAL_ROWS_CHUNK_MAX zero_rb_wire_frame,
     dp_rb_digest_master = 0, dp_rb_digest_a = 0, dp_rb_digest_b = 0, dp_rb_digest_c = 0,
     dp_rb_input_digest = 0, dp_rb_match = 0, dp_rb_through_tick = 0, dp_rb_state_hash = 0,
     dp_rb_resolved_through = 0,
     dp_modset_text = replicate RNET_MODSET_TEXT_MAX 0, dp_modset_len = 0,
     dp_modset_status = 0, dp_modset_reason = replicate RNET_MODSET_REASON_MAX 0,
     dp_sio_unit_id = 0, dp_sio_xfer_seq = 0, dp_sio_send = 0, dp_sio_confirm = 0,
     dp_sio_vblank = 0\<rparr>"

section \<open>One case per packet type\<close>

text \<open>Each definition is one \<^verbatim>\<open>case\<close> of the switch, entered with the cursor after the header.\<close>

definition decode_hello :: "RNetDecodedPacket \<Rightarrow> rstate \<Rightarrow> RNetDecodedPacket rres" where
  "decode_hello p =
     rd_need 4 (rd_bind read_u8 (\<lambda>local_slot. rd_bind read_u8 (\<lambda>slot_count.
     rd_bind read_u8 (\<lambda>delay. rd_bind read_u8 (\<lambda>wire_version.
     rd_ok (p\<lparr>dp_local_slot := local_slot, dp_slot_count := slot_count, dp_delay := delay,
              dp_wire_version := wire_version\<rparr>))))))"

definition decode_slot_only :: "RNetDecodedPacket \<Rightarrow> rstate \<Rightarrow> RNetDecodedPacket rres" where
  "decode_slot_only p =
     rd_need 4 (rd_bind read_u8 (\<lambda>local_slot. rd_skip 3 (
     rd_ok (p\<lparr>dp_local_slot := local_slot\<rparr>))))"

definition decode_start :: "RNetDecodedPacket \<Rightarrow> rstate \<Rightarrow> RNetDecodedPacket rres" where
  "decode_start p =
     rd_need 4 (rd_bind read_u32 (\<lambda>start_tick. rd_ok (p\<lparr>dp_start_tick := start_tick\<rparr>)))"

fun decode_input_frames :: "nat \<Rightarrow> rstate \<Rightarrow> RNetWireFrame list rres" where
  "decode_input_frames 0 = rd_ok []"
| "decode_input_frames (Suc n) =
     rd_need 6 (rd_bind read_u32 (\<lambda>tick. rd_bind read_u16 (\<lambda>sz.
     rd_guard (\<not> unat sz > RNET_INPUT_MAX) (rd_need (unat sz) (
     rd_bind (read_bytes (unat sz)) (\<lambda>bs.
     rd_bind (decode_input_frames n) (\<lambda>fs.
     rd_ok (\<lparr>wf_tick = tick, wf_size = sz, wf_bytes = pad_to RNET_INPUT_MAX 0 bs\<rparr> # fs))))))))"

fun read_acks :: "nat \<Rightarrow> rstate \<Rightarrow> u32 list rres" where
  "read_acks 0 = rd_ok []"
| "read_acks (Suc n) = rd_bind read_u32 (\<lambda>a. rd_bind (read_acks n) (\<lambda>as. rd_ok (a # as)))"

text \<open>The optional per-seat acknowledgments after the frames: present when \<^verbatim>\<open>c != end\<close>.\<close>

definition decode_input_tail :: "RNetDecodedPacket \<Rightarrow> rstate \<Rightarrow> RNetDecodedPacket rres" where
  "decode_input_tail p s =
     (if snd s = 0 then rd_ok p s
      else rd_bind read_u8 (\<lambda>ack_count s'.
        rd_guard (\<not> (unat ack_count < 3 \<or> unat ack_count > RNET_MAX_SLOTS \<or>
                     size_of_ptrdiff (snd s') \<noteq> 4 * unat ack_count))
          (rd_bind (read_acks (unat ack_count)) (\<lambda>as.
           rd_ok (p\<lparr>dp_ack_count := ack_count, dp_acks := pad_to RNET_MAX_SLOTS 0 as\<rparr>))) s') s)"

definition decode_input :: "RNetDecodedPacket \<Rightarrow> rstate \<Rightarrow> RNetDecodedPacket rres" where
  "decode_input p =
     rd_need 8 (rd_bind read_u8 (\<lambda>local_slot. rd_bind read_u8 (\<lambda>frame_count.
     rd_bind read_u8 (\<lambda>e0. rd_bind read_u8 (\<lambda>e1. rd_bind read_u32 (\<lambda>ack_tick.
     rd_guard (\<not> (unat frame_count < 1 \<or> unat frame_count > RNET_MAX_BUNDLE)) (
     rd_bind (decode_input_frames (unat frame_count)) (\<lambda>fs.
     decode_input_tail (p\<lparr>dp_local_slot := local_slot, dp_frame_count := unat frame_count,
       dp_input_epoch := ucast e0 OR push_bit 8 (ucast e1), dp_ack_tick := ack_tick,
       dp_frames := pad_to RNET_MAX_BUNDLE zero_wire_frame fs\<rparr>)))))))))"

definition decode_delay_sync :: "RNetDecodedPacket \<Rightarrow> rstate \<Rightarrow> RNetDecodedPacket rres" where
  "decode_delay_sync p =
     rd_need 8 (rd_bind read_u8 (\<lambda>new_delay. rd_skip 3 (
     rd_bind read_u32 (\<lambda>effective_tick.
     rd_ok (p\<lparr>dp_new_delay := new_delay, dp_effective_tick := effective_tick\<rparr>)))))"

definition decode_input_confirm :: "RNetDecodedPacket \<Rightarrow> rstate \<Rightarrow> RNetDecodedPacket rres" where
  "decode_input_confirm p =
     rd_need 12 (rd_bind read_u8 (\<lambda>local_slot. rd_bind read_u8 (\<lambda>e0. rd_bind read_u8 (\<lambda>e1.
     rd_skip 1 (rd_bind read_u32 (\<lambda>sim_tick. rd_bind read_u32 (\<lambda>h.
     rd_ok (p\<lparr>dp_local_slot := local_slot,
              dp_input_epoch := ucast e0 OR push_bit 8 (ucast e1),
              dp_confirm_sim_tick := sim_tick, dp_confirm_hash := h\<rparr>))))))))"

definition decode_state_begin :: "RNetDecodedPacket \<Rightarrow> rstate \<Rightarrow> RNetDecodedPacket rres" where
  "decode_state_begin p =
     rd_need 16 (rd_bind read_u8 (\<lambda>local_slot. rd_bind read_u8 (\<lambda>opcode. rd_bind read_u8 (\<lambda>slot.
     rd_skip 1 (rd_bind read_u32 (\<lambda>xfer_id. rd_bind read_u32 (\<lambda>total. rd_bind read_u32 (\<lambda>crc.
     rd_ok (p\<lparr>dp_local_slot := local_slot, dp_state_op := opcode, dp_state_slot := slot,
              dp_state_xfer_id := xfer_id, dp_state_total_size := total,
              dp_state_payload_crc := crc\<rparr>)))))))))"

definition decode_state_chunk :: "RNetDecodedPacket \<Rightarrow> rstate \<Rightarrow> RNetDecodedPacket rres" where
  "decode_state_chunk p =
     rd_need 16 (rd_bind read_u8 (\<lambda>local_slot. rd_skip 3 (
     rd_bind read_u32 (\<lambda>xfer_id. rd_bind read_u32 (\<lambda>offset. rd_bind read_u16 (\<lambda>sz.
     rd_bind read_u16 (\<lambda>_.
     rd_guard (\<not> (sz = 0 \<or> unat sz > RNET_STATE_CHUNK_MAX)) (rd_need (unat sz) (
     rd_bind (read_bytes (unat sz)) (\<lambda>bs.
     rd_ok (p\<lparr>dp_local_slot := local_slot, dp_state_xfer_id := xfer_id, dp_state_offset := offset,
              dp_state_chunk_size := sz,
              dp_state_chunk := pad_to RNET_STATE_CHUNK_MAX 0 bs\<rparr>)))))))))))"

definition decode_state_ack :: "RNetDecodedPacket \<Rightarrow> rstate \<Rightarrow> RNetDecodedPacket rres" where
  "decode_state_ack p =
     rd_need 12 (rd_bind read_u8 (\<lambda>local_slot. rd_skip 3 (
     rd_bind read_u32 (\<lambda>xfer_id. rd_bind read_u32 (\<lambda>ack_bytes.
     rd_ok (p\<lparr>dp_local_slot := local_slot, dp_state_xfer_id := xfer_id,
              dp_state_ack_bytes := ack_bytes\<rparr>))))))"

definition decode_state_probe :: "RNetDecodedPacket \<Rightarrow> rstate \<Rightarrow> RNetDecodedPacket rres" where
  "decode_state_probe p =
     rd_need 12 (rd_bind read_u8 (\<lambda>local_slot. rd_bind read_u8 (\<lambda>opcode. rd_bind read_u8 (\<lambda>slot.
     rd_bind read_u8 (\<lambda>replied. rd_bind read_u32 (\<lambda>total. rd_bind read_u32 (\<lambda>crc.
     rd_ok (p\<lparr>dp_local_slot := local_slot, dp_state_op := opcode, dp_state_slot := slot,
              dp_state_probe_replied := replied, dp_state_total_size := total,
              dp_state_payload_crc := crc\<rparr>))))))))"

definition decode_state_probe_reply :: "RNetDecodedPacket \<Rightarrow> rstate \<Rightarrow> RNetDecodedPacket rres" where
  "decode_state_probe_reply p =
     rd_need 12 (rd_bind read_u8 (\<lambda>local_slot. rd_bind read_u8 (\<lambda>opcode. rd_bind read_u8 (\<lambda>slot.
     rd_bind read_u8 (\<lambda>m. rd_bind read_u32 (\<lambda>total. rd_bind read_u32 (\<lambda>crc.
     rd_ok (p\<lparr>dp_local_slot := local_slot, dp_state_op := opcode, dp_state_slot := slot,
              dp_state_probe_match := m, dp_state_total_size := total,
              dp_state_payload_crc := crc\<rparr>))))))))"

definition decode_state_probe_done :: "RNetDecodedPacket \<Rightarrow> rstate \<Rightarrow> RNetDecodedPacket rres" where
  "decode_state_probe_done p =
     rd_need 12 (rd_bind read_u8 (\<lambda>local_slot. rd_bind read_u8 (\<lambda>opcode. rd_bind read_u8 (\<lambda>slot.
     rd_skip 1 (rd_bind read_u32 (\<lambda>total. rd_bind read_u32 (\<lambda>crc.
     rd_ok (p\<lparr>dp_local_slot := local_slot, dp_state_op := opcode, dp_state_slot := slot,
              dp_state_total_size := total, dp_state_payload_crc := crc\<rparr>))))))))"

definition decode_sio_multi_xfer :: "RNetDecodedPacket \<Rightarrow> rstate \<Rightarrow> RNetDecodedPacket rres" where
  "decode_sio_multi_xfer p =
     rd_need 10 (rd_bind read_u8 (\<lambda>local_slot. rd_bind read_u8 (\<lambda>unit_id.
     rd_bind read_u32 (\<lambda>xs. rd_bind read_u16 (\<lambda>send. rd_bind read_u16 (\<lambda>pad.
     rd_ok (p\<lparr>dp_local_slot := local_slot, dp_sio_unit_id := unit_id, dp_sio_xfer_seq := xs,
              dp_sio_send := send, dp_sio_confirm := ucast (pad AND 0xFF),
              dp_sio_vblank := ucast (drop_bit 8 pad AND 0xFF)\<rparr>)))))))"

definition decode_rb_sync :: "RNetDecodedPacket \<Rightarrow> rstate \<Rightarrow> RNetDecodedPacket rres" where
  "decode_rb_sync p =
     rd_need 20 (rd_bind read_u8 (\<lambda>local_slot. rd_bind read_u8 (\<lambda>corrected.
     rd_bind read_u8 (\<lambda>initiator. rd_bind read_u8 (\<lambda>flags. rd_bind read_u32 (\<lambda>epoch.
     rd_bind read_u32 (\<lambda>mismatch. rd_bind read_u32 (\<lambda>load. rd_bind read_u32 (\<lambda>target.
     rd_ok (p\<lparr>dp_local_slot := local_slot, dp_rb_corrected_slot := corrected,
              dp_rb_initiator := initiator, dp_rb_flags := flags, dp_rb_epoch_id := epoch,
              dp_rb_mismatch_tick := mismatch, dp_rb_load_tick := load,
              dp_rb_target_tick := target\<rparr>))))))))))"

definition read_rb_frame :: "rstate \<Rightarrow> RNetRbWireFrame rres" where
  "read_rb_frame =
     rd_bind read_u16 (\<lambda>buttons. rd_bind read_u8 (\<lambda>sx. rd_bind read_u8 (\<lambda>sy.
     rd_bind read_u8 (\<lambda>src. rd_bind read_u8 (\<lambda>predicted. rd_bind read_u8 (\<lambda>valid.
     rd_bind read_u8 (\<lambda>rx. rd_bind read_u8 (\<lambda>ry.
     rd_ok \<lparr>rw_buttons = buttons, rw_stick_x = sx, rw_stick_y = sy, rw_source = src,
            rw_is_predicted = predicted, rw_is_valid = valid, rw_rx = rx, rw_ry = ry\<rparr>))))))))"

fun read_rb_frames :: "nat \<Rightarrow> rstate \<Rightarrow> RNetRbWireFrame list rres" where
  "read_rb_frames 0 = rd_ok []"
| "read_rb_frames (Suc n) =
     rd_bind read_rb_frame (\<lambda>f. rd_bind (read_rb_frames n) (\<lambda>fs. rd_ok (f # fs)))"

definition decode_rb_seal_rows :: "RNetDecodedPacket \<Rightarrow> rstate \<Rightarrow> RNetDecodedPacket rres" where
  "decode_rb_seal_rows p =
     rd_need 20 (rd_bind read_u8 (\<lambda>local_slot. rd_bind read_u8 (\<lambda>slot. rd_bind read_u16 (\<lambda>n.
     rd_bind read_u32 (\<lambda>epoch. rd_bind read_u32 (\<lambda>mismatch. rd_bind read_u32 (\<lambda>target.
     rd_bind read_u32 (\<lambda>row_begin.
     rd_guard (\<not> unat n > RNET_RB_SEAL_ROWS_CHUNK_MAX) (
     rd_need (unat n * RNET_RB_SEAL_ROWS_WIRE_FRAME_BYTES) (
     rd_bind (read_rb_frames (unat n)) (\<lambda>rows.
     rd_ok (p\<lparr>dp_local_slot := local_slot, dp_rb_slot := slot, dp_rb_row_count := n,
              dp_rb_epoch_id := epoch, dp_rb_mismatch_tick := mismatch,
              dp_rb_target_tick := target, dp_rb_row_begin := row_begin,
              dp_rb_rows := pad_to RNET_RB_SEAL_ROWS_CHUNK_MAX zero_rb_wire_frame rows\<rparr>))))))))))))"

definition decode_rb_baseline :: "RNetDecodedPacket \<Rightarrow> rstate \<Rightarrow> RNetDecodedPacket rres" where
  "decode_rb_baseline p =
     rd_need 26 (rd_bind read_u8 (\<lambda>local_slot. rd_bind read_u8 (\<lambda>_.
     rd_bind read_u32 (\<lambda>epoch. rd_bind read_u32 (\<lambda>load. rd_bind read_u32 (\<lambda>master.
     rd_bind read_u32 (\<lambda>da. rd_bind read_u32 (\<lambda>db. rd_bind read_u32 (\<lambda>dc.
     rd_ok (p\<lparr>dp_local_slot := local_slot, dp_rb_epoch_id := epoch, dp_rb_load_tick := load,
              dp_rb_digest_master := master, dp_rb_digest_a := da, dp_rb_digest_b := db,
              dp_rb_digest_c := dc\<rparr>))))))))))"

definition decode_rb_post :: "RNetDecodedPacket \<Rightarrow> rstate \<Rightarrow> RNetDecodedPacket rres" where
  "decode_rb_post p =
     rd_need 18 (rd_bind read_u8 (\<lambda>local_slot. rd_bind read_u8 (\<lambda>m.
     rd_bind read_u32 (\<lambda>epoch. rd_bind read_u32 (\<lambda>target. rd_bind read_u32 (\<lambda>master.
     rd_bind read_u32 (\<lambda>inp.
     rd_ok (p\<lparr>dp_local_slot := local_slot, dp_rb_match := m, dp_rb_epoch_id := epoch,
              dp_rb_target_tick := target, dp_rb_digest_master := master,
              dp_rb_input_digest := inp\<rparr>))))))))"

definition decode_rb_frame_commit :: "RNetDecodedPacket \<Rightarrow> rstate \<Rightarrow> RNetDecodedPacket rres" where
  "decode_rb_frame_commit p =
     rd_need 10 (rd_bind read_u8 (\<lambda>local_slot. rd_bind read_u8 (\<lambda>_.
     rd_bind read_u32 (\<lambda>through. rd_bind read_u32 (\<lambda>h.
     rd_ok (p\<lparr>dp_local_slot := local_slot, dp_rb_through_tick := through,
              dp_rb_state_hash := h\<rparr>))))))"

text \<open>MODSET and MODSET_ACK share a case; they differ in the destination field and its size.\<close>

definition decode_modset :: "RNetDecodedPacket \<Rightarrow> rstate \<Rightarrow> RNetDecodedPacket rres" where
  "decode_modset p =
     rd_need 4 (rd_bind read_u8 (\<lambda>local_slot. rd_bind read_u8 (\<lambda>status. rd_bind read_u16 (\<lambda>n.
     let is_set = (dp_type p = RNET_PKT_MODSET);
         dst_cap = (if is_set then RNET_MODSET_TEXT_MAX else RNET_MODSET_REASON_MAX);
         q = p\<lparr>dp_local_slot := local_slot, dp_modset_status := status, dp_modset_len := n\<rparr> in
     rd_guard (\<not> unat n \<ge> dst_cap) (rd_need (unat n) (
     rd_bind (read_bytes (unat n)) (\<lambda>bs.
     rd_ok (if is_set then q\<lparr>dp_modset_text := pad_to dst_cap 0 bs\<rparr>
            else q\<lparr>dp_modset_reason := pad_to dst_cap 0 bs\<rparr>))))))))"

definition decode_rb_resolved :: "RNetDecodedPacket \<Rightarrow> rstate \<Rightarrow> RNetDecodedPacket rres" where
  "decode_rb_resolved p =
     rd_need 6 (rd_bind read_u8 (\<lambda>local_slot. rd_bind read_u8 (\<lambda>_. rd_bind read_u32 (\<lambda>through.
     rd_ok (p\<lparr>dp_local_slot := local_slot, dp_rb_resolved_through := through\<rparr>)))))"

section \<open>The decoder\<close>

definition decode_body :: "RNetDecodedPacket \<Rightarrow> rstate \<Rightarrow> RNetDecodedPacket rres" where
  "decode_body p =
     (if dp_type p = RNET_PKT_HELLO then decode_hello p
      else if dp_type p = RNET_PKT_READY then decode_slot_only p
      else if dp_type p = RNET_PKT_START then decode_start p
      else if dp_type p = RNET_PKT_INPUT then decode_input p
      else if dp_type p = RNET_PKT_DELAY_SYNC then decode_delay_sync p
      else if dp_type p = RNET_PKT_INPUT_CONFIRM then decode_input_confirm p
      else if dp_type p = RNET_PKT_BYE then decode_slot_only p
      else if dp_type p = RNET_PKT_STATE_BEGIN then decode_state_begin p
      else if dp_type p = RNET_PKT_STATE_CHUNK then decode_state_chunk p
      else if dp_type p = RNET_PKT_STATE_ACK then decode_state_ack p
      else if dp_type p = RNET_PKT_STATE_PROBE then decode_state_probe p
      else if dp_type p = RNET_PKT_STATE_PROBE_REPLY then decode_state_probe_reply p
      else if dp_type p = RNET_PKT_STATE_PROBE_DONE then decode_state_probe_done p
      else if dp_type p = RNET_PKT_SIO_MULTI_XFER then decode_sio_multi_xfer p
      else if dp_type p = RNET_PKT_RB_SYNC then decode_rb_sync p
      else if dp_type p = RNET_PKT_RB_SEAL_ROWS then decode_rb_seal_rows p
      else if dp_type p = RNET_PKT_RB_BASELINE then decode_rb_baseline p
      else if dp_type p = RNET_PKT_RB_POST then decode_rb_post p
      else if dp_type p = RNET_PKT_RB_FRAME_COMMIT then decode_rb_frame_commit p
      else if dp_type p = RNET_PKT_MODSET \<or> dp_type p = RNET_PKT_MODSET_ACK then decode_modset p
      else if dp_type p = RNET_PKT_RB_RESOLVED then decode_rb_resolved p
      else (\<lambda>s. Reject))"

text \<open>The generation trailer of rollback control packets.\<close>

definition decode_rb_trailer :: "RNetDecodedPacket \<Rightarrow> rstate \<Rightarrow> RNetDecodedPacket rres" where
  "decode_rb_trailer p s =
     (if rnet_proto_is_rb_control (dp_type p) then
        if snd s = 2 then rd_bind read_u16 (\<lambda>e. rd_ok (p\<lparr>dp_input_epoch := e\<rparr>)) s
        else if snd s \<noteq> 0 then Reject
        else rd_ok p s
      else rd_ok p s)"

text \<open>
  \<open>buf\<close> is the memory readable from \<^verbatim>\<open>data\<close>, \<open>len\<close> the datagram length. The header reads do not
  look at \<^verbatim>\<open>end\<close>; the checksum is verified before the body and moves \<^verbatim>\<open>end\<close> to the trailer,
  so after the ten header bytes the pointer difference is \<open>len - 14\<close>.
\<close>

datatype decode_result = Decoded RNetDecodedPacket | Rejected | OutOfBounds

definition rd_result :: "RNetDecodedPacket rres \<Rightarrow> decode_result" where
  "rd_result r = (case r of Fault \<Rightarrow> OutOfBounds | Reject \<Rightarrow> Rejected | Ok p s \<Rightarrow> Decoded p)"

definition rnet_proto_decode :: "bytes \<Rightarrow> nat \<Rightarrow> u32 \<Rightarrow> decode_result" where
  "rnet_proto_decode buf len expect_magic = rd_result
     (if len < 10 then Reject
      else rd_bind read_u32 (\<lambda>magic. rd_guard (magic = expect_magic) (
           rd_bind read_u16 (\<lambda>ty. rd_bind read_u32 (\<lambda>session_id s.
             rd_bind read_u32 (\<lambda>expect _.
               rd_guard (rnet_proto_checksum (take (len - 4) buf) = expect)
                 (rd_bind (decode_body (zero_packet\<lparr>dp_type := ty, dp_session_id := session_id\<rparr>))
                    decode_rb_trailer)
                 (fst s, int len - 14))
             (drop (len - 4) buf, 4)))))
           (buf, int len))"

end
