(* ===== verification/RNet_Interfaces.thy ===== *)
theory RNet_Interfaces
  imports RNet_Prelude
begin

text \<open>
  The contracts several components share. \<open>op_system\<close>: an invariant every operation keeps, so
  every sequence of operations keeps it. \<open>tick_ring\<close>: a 128-slot table addressed by the tick
  modulo its size, which the delay-sync input rings, the rollback input history and the local
  digest ring of hash confirmation implement. \<open>bounded_fifo\<close>: a queue with a capacity that
  refuses when full, which the rollback event queue and the session control queues implement.
\<close>

section \<open>Operations that keep an invariant\<close>

locale op_system =
  fixes inv :: "'s \<Rightarrow> bool"
    and step :: "'s \<Rightarrow> 'op \<Rightarrow> 's"
  assumes step_inv: "inv s \<Longrightarrow> inv (step s opn)"
begin

definition reach :: "'s \<Rightarrow> 's \<Rightarrow> bool" where
  "reach s s' \<longleftrightarrow> (\<exists>opns. s' = foldl step s opns)"

lemma run_inv: "inv s \<Longrightarrow> inv (foldl step s opns)"
  by (induction opns arbitrary: s) (auto intro: step_inv)

lemma reach_inv: "reach s s' \<Longrightarrow> inv s \<Longrightarrow> inv s'"
  by (auto simp: reach_def run_inv)

lemma reach_refl: "reach s s"
  unfolding reach_def by (rule exI [of _ "[]"]) simp

lemma reach_step: "reach s s' \<Longrightarrow> reach s (step s' opn)"
proof -
  assume "reach s s'"
  then obtain opns where "s' = foldl step s opns" by (auto simp: reach_def)
  then have "step s' opn = foldl step s (opns @ [opn])" by simp
  then show ?thesis unfolding reach_def by blast
qed

end

text \<open>A quantity that no operation decreases.\<close>

locale monotone_system = op_system inv step
  for inv :: "'s \<Rightarrow> bool" and step :: "'s \<Rightarrow> 'op \<Rightarrow> 's" +
  fixes mark :: "'s \<Rightarrow> 'm :: preorder"
  assumes step_mark: "inv s \<Longrightarrow> mark s \<le> mark (step s opn)"
begin

lemma run_mark: "inv s \<Longrightarrow> mark s \<le> mark (foldl step s opns)"
proof (induction opns arbitrary: s)
  case (Cons a opns)
  then have "mark s \<le> mark (step s a)" "mark (step s a) \<le> mark (foldl step (step s a) opns)"
    by (auto intro: step_mark step_inv)
  then show ?case by (auto intro: order_trans)
qed simp

end

section \<open>Rings addressed by tick\<close>

lemma ring_slot_less [simp]: "ring_slot t < 128"
  by (simp add: ring_slot_def)

lemma ring_slot_add: "ring_slot (t + of_nat i) = (ring_slot t + i) mod 128"
proof -
  have "unat (t + of_nat i) mod 128 = (unat t + i) mod 2 ^ 32 mod 128"
    by (simp add: unat_word_ariths unat_of_nat take_bit_eq_mod mod_simps)
  also have "\<dots> = (unat t + i) mod 128" by (rule mod_mod_cancel) simp
  finally show ?thesis by (simp add: ring_slot_def mod_simps)
qed

lemma tick_Suc: "t + 1 + of_nat i = t + (of_nat (Suc i) :: u32)"
  by simp

lemma ring_slot_near:
  assumes "ring_slot (t + of_nat i) = ring_slot (t + of_nat j)" "i < j"
  shows "i + 128 \<le> j"
proof (rule ccontr)
  assume "\<not> i + 128 \<le> j"
  with assms obtain d where d: "j = i + d" "0 < d" "d < 128"
    by (metis add_less_cancel_left less_imp_add_positive not_le)
  from assms(1) have "(ring_slot t + i) mod 128 = (ring_slot t + i + d) mod 128"
    unfolding ring_slot_add d(1) by (simp only: add.assoc)
  then have "128 dvd d" by (metis add_diff_cancel_left' mod_eq_dvd_iff_nat le_add1)
  with d show False by auto
qed

locale tick_ring =
  fixes inv :: "'s \<Rightarrow> bool"
    and ok :: "u32 \<Rightarrow> 'v \<Rightarrow> bool"
    and store :: "'s \<Rightarrow> u32 \<Rightarrow> 'v \<Rightarrow> 's"
    and lookup :: "'s \<Rightarrow> u32 \<Rightarrow> 'v option"
  assumes store_inv: "inv s \<Longrightarrow> inv (store s t v)"
    and lookup_store: "inv s \<Longrightarrow> ok t v \<Longrightarrow> lookup (store s t v) u =
      (if u = t then Some v else if ring_slot u = ring_slot t then None else lookup s u)"
begin

text \<open>Storing one value per tick, from \<open>t\<close> on.\<close>

fun store_from :: "'s \<Rightarrow> u32 \<Rightarrow> 'v list \<Rightarrow> 's" where
  "store_from s t [] = s"
| "store_from s t (v # vs) = store_from (store s t v) (t + 1) vs"

definition all_ok :: "u32 \<Rightarrow> 'v list \<Rightarrow> bool" where
  "all_ok t vs \<longleftrightarrow> (\<forall>i < length vs. ok (t + of_nat i) (vs ! i))"

lemma all_ok_Cons: "all_ok t (v # vs) \<longleftrightarrow> ok t v \<and> all_ok (t + 1) vs"
proof
  assume h: "all_ok t (v # vs)"
  show "ok t v \<and> all_ok (t + 1) vs"
    unfolding all_ok_def tick_Suc
    using h [unfolded all_ok_def, rule_format, of 0] h [unfolded all_ok_def, rule_format, of "Suc _"]
    by simp
next
  assume h: "ok t v \<and> all_ok (t + 1) vs"
  show "all_ok t (v # vs)"
    unfolding all_ok_def
  proof (intro allI impI)
    fix i assume "i < length (v # vs)"
    with h show "ok (t + of_nat i) ((v # vs) ! i)"
      unfolding all_ok_def tick_Suc by (cases i) auto
  qed
qed

lemma store_from_inv: "inv s \<Longrightarrow> inv (store_from s t vs)"
  by (induction vs arbitrary: s t) (auto intro: store_inv)

lemma store_from_other:
  assumes "inv s" "all_ok t vs" "\<And>i. i < length vs \<Longrightarrow> ring_slot (t + of_nat i) \<noteq> ring_slot u"
  shows "lookup (store_from s t vs) u = lookup s u"
  using assms
proof (induction vs arbitrary: s t)
  case (Cons v vs)
  have ne: "ring_slot t \<noteq> ring_slot u" using Cons.prems(3) [of 0] by simp
  have "lookup (store_from (store s t v) (t + 1) vs) u = lookup (store s t v) u"
  proof (rule Cons.IH)
    show "ring_slot (t + 1 + of_nat i) \<noteq> ring_slot u" if "i < length vs" for i
      unfolding tick_Suc using Cons.prems(3) [of "Suc i"] that by simp
  qed (use Cons.prems in \<open>auto simp: all_ok_Cons intro: store_inv\<close>)
  also have "\<dots> = lookup s u" using Cons.prems ne by (auto simp: all_ok_Cons lookup_store)
  finally show ?case by simp
qed simp

text \<open>The last 128 stored ticks are all there, wrap-around of the tick counter included.\<close>

lemma store_from_window:
  assumes "inv s" "all_ok t vs" "i < length vs" "length vs \<le> i + 128"
  shows "lookup (store_from s t vs) (t + of_nat i) = Some (vs ! i)"
  using assms
proof (induction vs arbitrary: s t i)
  case (Cons v vs)
  then have ok: "ok t v" "all_ok (t + 1) vs" and inv: "inv (store s t v)"
    by (auto simp: all_ok_Cons intro: store_inv)
  show ?case
  proof (cases i)
    case 0
    have "lookup (store_from (store s t v) (t + 1) vs) t = lookup (store s t v) t"
    proof (rule store_from_other [OF inv ok(2)])
      fix j assume "j < length vs"
      with Cons.prems 0 show "ring_slot (t + 1 + of_nat j) \<noteq> ring_slot t"
        unfolding tick_Suc using ring_slot_near [of t 0 "Suc j"] by auto
    qed
    with 0 Cons.prems(1) ok show ?thesis by (simp add: lookup_store)
  next
    case (Suc j)
    with Cons.IH [OF inv ok(2), of j] Cons.prems show ?thesis unfolding tick_Suc by simp
  qed
qed simp

lemma store_from_absent:
  assumes "inv s" "all_ok t vs" "\<And>i. i < length vs \<Longrightarrow> t + of_nat i \<noteq> u" "lookup s u = None"
  shows "lookup (store_from s t vs) u = None"
  using assms
proof (induction vs arbitrary: s t)
  case (Cons v vs)
  have "lookup (store_from (store s t v) (t + 1) vs) u = None"
  proof (rule Cons.IH)
    show "t + 1 + of_nat i \<noteq> u" if "i < length vs" for i
      unfolding tick_Suc using Cons.prems(3) [of "Suc i"] that by simp
    show "lookup (store s t v) u = None"
      using Cons.prems Cons.prems(3) [of 0] by (auto simp: all_ok_Cons lookup_store)
  qed (use Cons.prems in \<open>auto simp: all_ok_Cons intro: store_inv\<close>)
  then show ?case by simp
qed simp

lemma store_from_overwritten:
  assumes "inv s" "all_ok t vs" "\<And>i. i < length vs \<Longrightarrow> t + of_nat i \<noteq> u"
    and "k < length vs" "ring_slot (t + of_nat k) = ring_slot u"
  shows "lookup (store_from s t vs) u = None"
  using assms
proof (induction vs arbitrary: s t k)
  case (Cons v vs)
  have inv: "inv (store s t v)" and ok: "ok t v" "all_ok (t + 1) vs"
    and ne: "\<And>i. i < length vs \<Longrightarrow> t + 1 + of_nat i \<noteq> u"
    using Cons.prems(1,2) Cons.prems(3) [of "Suc _"]
    by (auto simp: all_ok_Cons add.assoc intro: store_inv)
  show ?case
  proof (cases k)
    case 0
    have "lookup (store s t v) u = None"
      using Cons.prems(1,5) ok Cons.prems(3) [of 0] 0 by (auto simp: lookup_store)
    with inv ok(2) ne show ?thesis by (auto intro: store_from_absent)
  next
    case (Suc j)
    have "lookup (store_from (store s t v) (t + 1) vs) u = None"
      by (rule Cons.IH [OF inv ok(2) ne, where k = j])
        (use Suc Cons.prems(4,5) in \<open>simp_all only: tick_Suc, simp_all\<close>)
    then show ?thesis by simp
  qed
qed simp

text \<open>An older tick is reported as absent, never with the data of a newer one.\<close>

lemma store_from_evicted:
  assumes "inv s" "all_ok t vs" "i + 128 < length vs" "length vs \<le> i + 2 ^ 32"
  shows "lookup (store_from s t vs) (t + of_nat i) = None"
  using assms
proof (induction vs arbitrary: s t i)
  case (Cons v vs)
  then have ok: "ok t v" "all_ok (t + 1) vs" and inv: "inv (store s t v)"
    by (auto simp: all_ok_Cons intro: store_inv)
  show ?case
  proof (cases i)
    case 0
    have "lookup (store_from (store s t v) (t + 1) vs) t = None"
    proof (rule store_from_overwritten [OF inv ok(2), where k = 127])
      show "t + 1 + of_nat j \<noteq> t" if "j < length vs" for j
        unfolding tick_Suc using that Cons.prems(4) 0
        by (simp del: of_nat_Suc add: word_of_nat_eq_0_iff nat_dvd_not_less)
      show "ring_slot (t + 1 + of_nat 127) = ring_slot t"
        unfolding tick_Suc using ring_slot_add [of t 128] by (simp add: ring_slot_def)
    qed (use Cons.prems(3) 0 in simp)
    with 0 show ?thesis by simp
  next
    case (Suc j)
    have "lookup (store_from (store s t v) (t + 1) vs) (t + 1 + of_nat j) = None"
      by (rule Cons.IH [OF inv ok(2)]) (use Suc Cons.prems in simp_all)
    then show ?thesis unfolding tick_Suc Suc by simp
  qed
qed simp

end

section \<open>Bounded queues\<close>

locale bounded_fifo =
  fixes inv :: "'s \<Rightarrow> bool"
    and contents :: "'s \<Rightarrow> 'a list"
    and cap :: nat
    and push :: "'s \<Rightarrow> 'a \<Rightarrow> 's"
    and pop :: "'s \<Rightarrow> ('a \<times> 's) option"
  assumes push_inv: "inv s \<Longrightarrow> inv (push s x)"
    and pop_inv: "inv s \<Longrightarrow> pop s = Some (x, s') \<Longrightarrow> inv s'"
    and contents_bound: "inv s \<Longrightarrow> length (contents s) \<le> cap"
    and contents_push: "inv s \<Longrightarrow> contents (push s x) =
      (if length (contents s) < cap then contents s @ [x] else contents s)"
    and pop_empty: "inv s \<Longrightarrow> pop s = None \<longleftrightarrow> contents s = []"
    and pop_first: "inv s \<Longrightarrow> pop s = Some (x, s') \<Longrightarrow> contents s = x # contents s'"
begin

lemma push_all:
  "inv s \<Longrightarrow> inv (foldl push s xs) \<and>
     contents (foldl push s xs) = contents s @ take (cap - length (contents s)) xs"
proof (induction xs arbitrary: s)
  case (Cons x xs)
  show ?case
  proof (cases "length (contents s) < cap")
    case True
    then have "cap - length (contents s) = Suc (cap - length (contents (push s x)))"
      using Cons.prems by (simp add: contents_push)
    with Cons True show ?thesis by (simp add: push_inv contents_push)
  next
    case False
    with Cons.prems contents_bound [of s] have "cap - length (contents s) = 0" by simp
    with Cons False show ?thesis by (simp add: push_inv contents_push)
  qed
qed simp

fun drain :: "nat \<Rightarrow> 's \<Rightarrow> 'a list \<times> 's" where
  "drain 0 s = ([], s)"
| "drain (Suc n) s = (case pop s of
     None \<Rightarrow> ([], s)
   | Some (x, s') \<Rightarrow> (let (xs, s'') = drain n s' in (x # xs, s'')))"

lemma drain_take: "inv s \<Longrightarrow> fst (drain n s) = take n (contents s)"
proof (induction n arbitrary: s)
  case (Suc n)
  show ?case
  proof (cases "pop s")
    case None
    then show ?thesis using Suc.prems pop_empty [of s] by simp
  next
    case (Some p)
    obtain x s' where p: "p = (x, s')" by (cases p)
    with Some Suc.prems have "contents s = x # contents s'" "inv s'"
      by (auto dest: pop_first pop_inv)
    with Some p Suc.IH show ?thesis by (simp add: case_prod_unfold)
  qed
qed simp

text \<open>What is pushed while there is room comes out in the order it went in.\<close>

lemma fifo:
  assumes "inv s" "contents s = []" "length xs \<le> cap" "length xs \<le> n"
  shows "fst (drain n (foldl push s xs)) = xs"
  using push_all [of s xs] assms by (simp add: drain_take)

end

end
