(* ===== verification/RNet_Input.thy ===== *)
theory RNet_Input
  imports RNet_Interfaces
begin

text \<open>
  Session configuration (\<^verbatim>\<open>include/recomp_net/config.h\<close>), input samples and the delay mapping
  (\<^verbatim>\<open>include/recomp_net/input.h\<close>), and the delay-sync input ring (\<^verbatim>\<open>src/input/rnet_rings.c\<close>).
  The ring is shown to implement \<open>tick_ring\<close>.
\<close>

section \<open>Session configuration\<close>

record RNetConfig =
  slot_count :: u8
  local_slot :: u8
  wire_slot :: u8
  input_delay :: u8
  bundle_redundancy :: u8
  session_id :: u32
  protocol_magic :: u32
  occupied_mask :: u32

definition rnet_config_init_defaults :: RNetConfig where
  "rnet_config_init_defaults =
     \<lparr>slot_count = 2, local_slot = 0, wire_slot = 0, input_delay = 2, bundle_redundancy = 3,
      session_id = 1, protocol_magic = 0x524E4554, occupied_mask = 0\<rparr>"

definition rnet_config_is_observer :: "RNetConfig \<Rightarrow> bool" where
  "rnet_config_is_observer cfg \<longleftrightarrow> local_slot cfg \<ge> slot_count cfg"

definition rnet_config_wire_slot :: "RNetConfig \<Rightarrow> u8" where
  "rnet_config_wire_slot cfg = (if wire_slot cfg \<noteq> 0 then wire_slot cfg else local_slot cfg)"

definition rnet_config_slot_occupied :: "RNetConfig \<Rightarrow> u8 \<Rightarrow> bool" where
  "rnet_config_slot_occupied cfg slot =
     (if slot \<ge> 8 \<or> slot \<ge> slot_count cfg then False
      else let mask = (if occupied_mask cfg = 0
                       then (if slot_count cfg \<ge> 32 then 0xffffffff
                             else push_bit (unat (slot_count cfg)) 1 - 1)
                       else occupied_mask cfg)
           in mask AND push_bit (unat slot) 1 \<noteq> 0)"

section \<open>Samples and the input delay\<close>

record RNetInputSample =
  sm_tick :: u32
  sm_size :: u16
  sm_bytes :: bytes
  sm_valid :: u8

definition zero_sample :: RNetInputSample where
  "zero_sample = \<lparr>sm_tick = 0, sm_size = 0, sm_bytes = replicate 32 0, sm_valid = 0\<rparr>"

definition rnet_wire_tick_from_sim :: "u32 \<Rightarrow> u8 \<Rightarrow> u32" where
  "rnet_wire_tick_from_sim sim_tick delay = sim_tick + ucast delay"

definition rnet_sim_tick_from_wire :: "u32 \<Rightarrow> u8 \<Rightarrow> u32" where
  "rnet_sim_tick_from_wire wire_tick delay =
     (if wire_tick < ucast delay then 0 else wire_tick - ucast delay)"

section \<open>The input ring\<close>

record RNetInputRing =
  ring_slots :: "RNetInputSample list"

definition rnet_ring_clear :: RNetInputRing where
  "rnet_ring_clear = \<lparr>ring_slots = replicate 128 zero_sample\<rparr>"

definition rnet_ring_store :: "RNetInputRing \<Rightarrow> RNetInputSample \<Rightarrow> RNetInputRing" where
  "rnet_ring_store ring sample =
     (if sm_valid sample = 0 then ring
      else ring\<lparr>ring_slots := (ring_slots ring)[ring_slot (sm_tick sample) := sample]\<rparr>)"

definition rnet_ring_get :: "RNetInputRing \<Rightarrow> u32 \<Rightarrow> RNetInputSample option" where
  "rnet_ring_get ring tick =
     (let src = ring_slots ring ! ring_slot tick in
      if sm_valid src = 0 \<or> sm_tick src \<noteq> tick then None else Some src)"

text \<open>The scan of \<open>rnet_ring_highest_valid\<close>, with its locals \<open>best\<close> and \<open>found\<close>.\<close>

fun highest_loop :: "u32 \<Rightarrow> bool \<Rightarrow> RNetInputSample list \<Rightarrow> u32" where
  "highest_loop best found [] = (if found then best else 0)"
| "highest_loop best found (x # xs) =
     (if sm_valid x \<noteq> 0 \<and> (\<not> found \<or> sm_tick x > best) then highest_loop (sm_tick x) True xs
      else highest_loop best found xs)"

definition rnet_ring_highest_valid :: "RNetInputRing \<Rightarrow> u32" where
  "rnet_ring_highest_valid ring = highest_loop 0 False (ring_slots ring)"

section \<open>Properties\<close>

definition ring_inv :: "RNetInputRing \<Rightarrow> bool" where
  "ring_inv ring \<longleftrightarrow> length (ring_slots ring) = 128 \<and>
     (\<forall>i < 128. sm_valid (ring_slots ring ! i) \<noteq> 0 \<longrightarrow> ring_slot (sm_tick (ring_slots ring ! i)) = i)"

lemma ring_inv_clear: "ring_inv rnet_ring_clear"
  by (simp add: ring_inv_def rnet_ring_clear_def zero_sample_def)

lemma ring_inv_store: "ring_inv ring \<Longrightarrow> ring_inv (rnet_ring_store ring sample)"
  by (auto simp: ring_inv_def rnet_ring_store_def nth_list_update)

interpretation input_ring: tick_ring ring_inv "\<lambda>t v. sm_valid v \<noteq> 0 \<and> sm_tick v = t"
  "\<lambda>ring t v. rnet_ring_store ring v" rnet_ring_get
  by unfold_locales
     (auto simp: ring_inv_store ring_inv_def rnet_ring_store_def rnet_ring_get_def Let_def
        nth_list_update)

interpretation input_ring_ops: op_system ring_inv rnet_ring_store
  by unfold_locales (rule ring_inv_store)

lemma store_from_foldl: "input_ring.store_from ring t vs = foldl rnet_ring_store ring vs"
  by (induction vs arbitrary: ring t) auto

text \<open>
  C14. The input ring holds exactly the last 128 ticks: after the samples of consecutive ticks have
  been stored, whatever the first tick and with wrap-around of the 32-bit counter included, each
  of the last 128 is returned as stored, and every older one is reported as absent instead of
  answered with the data of the tick that took its slot.
\<close>

theorem input_ring_window:
  assumes "\<forall>k < length vs. sm_valid (vs ! k) \<noteq> 0 \<and> sm_tick (vs ! k) = t + of_nat k"
    and "i < length vs" and "length vs \<le> 2 ^ 32"
  shows "rnet_ring_get (foldl rnet_ring_store rnet_ring_clear vs) (t + of_nat i) =
     (if length vs \<le> i + 128 then Some (vs ! i) else None)"
proof -
  have ok: "input_ring.all_ok t vs" using assms(1) by (simp add: input_ring.all_ok_def)
  note window = input_ring.store_from_window [OF ring_inv_clear ok assms(2)]
  note evicted = input_ring.store_from_evicted [OF ring_inv_clear ok]
  show ?thesis
    using window evicted [of i] assms(3) unfolding store_from_foldl by auto
qed

definition sample_at :: "nat \<Rightarrow> RNetInputSample" where
  "sample_at k = \<lparr>sm_tick = 0xFFFFFFFF + of_nat k, sm_size = 1, sm_bytes = replicate 32 (of_nat k),
     sm_valid = 1\<rparr>"

theorem input_ring_window_witness:
  "rnet_ring_get (foldl rnet_ring_store rnet_ring_clear (map sample_at [0..<130]))
     (0xFFFFFFFF + of_nat 129) = Some (sample_at 129) \<and>
   rnet_ring_get (foldl rnet_ring_store rnet_ring_clear (map sample_at [0..<130]))
     (0xFFFFFFFF + of_nat 1) = None"
proof -
  have 1: "\<forall>k < length (map sample_at [0..<130]). sm_valid (map sample_at [0..<130] ! k) \<noteq> 0 \<and>
      sm_tick (map sample_at [0..<130] ! k) = 0xFFFFFFFF + of_nat k"
    by (simp add: sample_at_def)
  show ?thesis
    using input_ring_window [OF 1, of 129] input_ring_window [OF 1, of 1] by simp
qed

definition valid_ticks :: "RNetInputSample list \<Rightarrow> u32 list" where
  "valid_ticks xs = map sm_tick (filter (\<lambda>x. sm_valid x \<noteq> 0) xs)"

lemma highest_loop_found: "highest_loop best True xs = fold max (valid_ticks xs) best"
  by (induction xs arbitrary: best) (auto simp: valid_ticks_def max_def)

lemma highest_loop_none:
  "highest_loop 0 False xs = (if valid_ticks xs = [] then 0 else Max (set (valid_ticks xs)))"
proof (induction xs)
  case (Cons x xs)
  then show ?case
    using Max.set_eq_fold [of "sm_tick x" "valid_ticks xs"]
    by (cases "sm_valid x = 0") (simp_all add: highest_loop_found valid_ticks_def)
qed (simp add: valid_ticks_def)

lemma ring_ticks:
  assumes "ring_inv ring"
  shows "{t. rnet_ring_get ring t \<noteq> None} = set (valid_ticks (ring_slots ring))"
proof -
  have len: "length (ring_slots ring) = 128" using assms by (simp add: ring_inv_def)
  have "rnet_ring_get ring (sm_tick x) \<noteq> None" if "x \<in> set (ring_slots ring)" "sm_valid x \<noteq> 0" for x
  proof -
    from that len obtain i where "i < 128" "x = ring_slots ring ! i" by (metis in_set_conv_nth)
    with assms that show ?thesis by (auto simp: ring_inv_def rnet_ring_get_def Let_def)
  qed
  moreover have "t \<in> set (valid_ticks (ring_slots ring))" if "rnet_ring_get ring t \<noteq> None" for t
    using that len nth_mem [of "ring_slot t" "ring_slots ring"]
    by (auto simp: rnet_ring_get_def valid_ticks_def Let_def intro!: image_eqI split: if_splits)
  ultimately show ?thesis by (auto simp: valid_ticks_def)
qed

text \<open>
  \<^verbatim>\<open>rnet_ring_highest_valid\<close> returns the largest tick a get would find, and 0 for an empty
  ring, in every state the ring can reach by clearing and storing.
\<close>

theorem ring_highest_valid_max:
  "rnet_ring_highest_valid (foldl rnet_ring_store rnet_ring_clear vs) =
     (let present = {t. rnet_ring_get (foldl rnet_ring_store rnet_ring_clear vs) t \<noteq> None}
      in if present = {} then 0 else Max present)"
proof -
  let ?r = "foldl rnet_ring_store rnet_ring_clear vs"
  have "ring_inv ?r" by (rule input_ring_ops.run_inv [OF ring_inv_clear])
  from ring_ticks [OF this] show ?thesis
    by (auto simp: rnet_ring_highest_valid_def highest_loop_none Let_def)
qed

lemma and_bit: "(m :: u32) AND push_bit k 1 \<noteq> 0 \<longleftrightarrow> bit m k"
  by simp

lemma all_ones_bit: "bit (0xffffffff :: u32) k \<longleftrightarrow> k < 32"
proof -
  have "(0xffffffff :: u32) = -1" by simp
  then show ?thesis by (simp only: bit_minus_1_iff) simp
qed

text \<open>
  Seat occupancy: a seat is a real peer exactly when it is inside both the table and the
  match and the mask, if one is set, names it; a mask of zero means every seat of the match.
\<close>

theorem slot_occupied_iff:
  "rnet_config_slot_occupied cfg slot \<longleftrightarrow>
     slot < 8 \<and> slot < slot_count cfg \<and> (occupied_mask cfg = 0 \<or> bit (occupied_mask cfg) (unat slot))"
proof -
  have "unat (slot_count cfg) < 32" if "\<not> slot_count cfg \<ge> 32"
    using that by (simp add: not_le word_less_nat_alt)
  moreover have "unat slot < 32" if "slot < 8" using that by (simp add: word_less_nat_alt)
  moreover have "bit (0xffffffff :: u32) (unat slot)" if "slot < 8"
    using that unfolding all_ones_bit by (simp add: word_less_nat_alt)
  ultimately show ?thesis
    unfolding rnet_config_slot_occupied_def Let_def and_bit
    by (auto simp: low_mask_bit word_less_nat_alt word_le_nat_alt)
qed

text \<open>
  The delay mapping is a round trip: the simulation tick of the wire tick of a simulation
  tick is that tick, as long as the 32-bit sum does not wrap.
\<close>

theorem delay_roundtrip:
  assumes "unat sim + unat delay < 2 ^ 32"
  shows "rnet_sim_tick_from_wire (rnet_wire_tick_from_sim sim delay) delay = sim"
proof -
  have "unat (sim + ucast delay) = unat sim + unat delay"
    using assms by (simp add: unat_word_ariths unat_u8_u32 take_bit_eq_mod)
  then have "\<not> sim + ucast delay < (ucast delay :: u32)"
    by (simp add: word_less_nat_alt unat_u8_u32)
  then show ?thesis by (simp add: rnet_sim_tick_from_wire_def rnet_wire_tick_from_sim_def)
qed

theorem delay_roundtrip_witness:
  "unat (100 :: u32) + unat (2 :: u8) < 2 ^ 32 \<and>
   rnet_sim_tick_from_wire (rnet_wire_tick_from_sim 100 2) 2 = 100"
proof -
  have h: "unat (100 :: u32) + unat (2 :: u8) < 2 ^ 32" by simp
  from h delay_roundtrip [OF h] show ?thesis by blast
qed

end
