(* ===== verification/RNet_Session_State.thy ===== *)
theory RNet_Session_State
  imports RNet_Decode RNet_Input
begin

text \<open>
  The state of a session, \<^verbatim>\<open>struct RNetSession\<close> of \<^verbatim>\<open>src/session/rnet_session.c\<close>, and the
  helpers every part of the session uses. The C struct is flat; here its fields are grouped into
  the records of the parts that own them: the startup-profile agreement, the input confirmation
  tables, peer liveness, the state transfer, the control queues and the diagnostics.

  Three fields stand for what the C code reaches through the host and the transport.
  \<open>ss_now\<close> is what \<^verbatim>\<open>session_now\<close> returns and \<open>ss_os_now\<close> what \<^verbatim>\<open>rnet_os_monotonic_ms\<close>
  returns while one operation runs; \<open>ss_out\<close> collects the datagrams handed to
  \<^verbatim>\<open>rnet_transport_send\<close>, oldest first. \<open>ss_mode\<close> is \<^verbatim>\<open>transport.mode\<close>. The ICE agents and the
  fields that only feed log lines (\<^verbatim>\<open>last_progress_log_ms\<close>, \<^verbatim>\<open>last_progress_acked\<close>) are not part
  of the model.
\<close>

section \<open>Constants\<close>

abbreviation (input) RNET_HISTORY_LENGTH :: nat where "RNET_HISTORY_LENGTH \<equiv> 128"
abbreviation (input) RNET_RB_CTRL_QUEUE :: nat where "RNET_RB_CTRL_QUEUE \<equiv> 32"
abbreviation (input) RNET_RB_FC_QUEUE :: nat where "RNET_RB_FC_QUEUE \<equiv> 256"
abbreviation (input) RNET_SIO_XFER_QUEUE :: nat where "RNET_SIO_XFER_QUEUE \<equiv> 32"
abbreviation (input) RNET_STATE_MAX :: u32 where "RNET_STATE_MAX \<equiv> 8388608"
abbreviation (input) RNET_STATE_MAX_CHUNKS :: u32 where "RNET_STATE_MAX_CHUNKS \<equiv> 7490"
abbreviation (input) RNET_STATE_TAKEN_TX :: int where "RNET_STATE_TAKEN_TX \<equiv> 8"

abbreviation (input) RNET_STATE_OP_SAVE :: u8 where "RNET_STATE_OP_SAVE \<equiv> 0"
abbreviation (input) RNET_STATE_OP_LOAD :: u8 where "RNET_STATE_OP_LOAD \<equiv> 1"
abbreviation (input) RNET_STATE_OP_SRAM :: u8 where "RNET_STATE_OP_SRAM \<equiv> 2"
abbreviation (input) RNET_STATE_OP_RB_KF :: u8 where "RNET_STATE_OP_RB_KF \<equiv> 3"
abbreviation (input) RNET_STATE_OP_BOOT :: u8 where "RNET_STATE_OP_BOOT \<equiv> 4"
abbreviation (input) RNET_STATE_OP_MEMCARD :: u8 where "RNET_STATE_OP_MEMCARD \<equiv> 5"
abbreviation (input) RNET_STATE_OP_MENU :: u8 where "RNET_STATE_OP_MENU \<equiv> 6"

section \<open>Enumerations\<close>

datatype RNetSessionPhase = PHASE_IDLE | PHASE_LINKING | PHASE_READY | PHASE_RUNNING

datatype RNetTransportMode = TRANSPORT_NONE | TRANSPORT_LAN_UDP | TRANSPORT_ICE | TRANSPORT_ICE_HUB

datatype RNetAdmitStall =
    ADMIT_OK | ADMIT_NOT_RUNNING | ADMIT_STATE_XFER | ADMIT_SIM_MISMATCH | ADMIT_DESYNC
  | ADMIT_WAIT_LOCAL_INPUT | ADMIT_WAIT_REMOTE_INPUT | ADMIT_WAIT_CONFIRM

fun rnet_admit_stall_name :: "RNetAdmitStall \<Rightarrow> string" where
  "rnet_admit_stall_name ADMIT_OK = ''ok''"
| "rnet_admit_stall_name ADMIT_NOT_RUNNING = ''not_running''"
| "rnet_admit_stall_name ADMIT_STATE_XFER = ''state_xfer''"
| "rnet_admit_stall_name ADMIT_SIM_MISMATCH = ''sim_mismatch''"
| "rnet_admit_stall_name ADMIT_DESYNC = ''desync''"
| "rnet_admit_stall_name ADMIT_WAIT_LOCAL_INPUT = ''wait_local_input''"
| "rnet_admit_stall_name ADMIT_WAIT_REMOTE_INPUT = ''wait_remote_input''"
| "rnet_admit_stall_name ADMIT_WAIT_CONFIRM = ''wait_confirm''"

section \<open>Startup profiles\<close>

record RNetProfileCaps =
  pc_cpu_features :: u32
  pc_backends :: u32
  pc_profiles :: u32
  pc_architecture :: u32

record RNetProfiles =
  pf_active :: bool
  pf_refused :: bool
  pf_qualification :: u32
  pf_occupied :: u32
  pf_offers :: u32
  pf_acks :: u32
  pf_acknowledged_by :: u32
  pf_selected :: u32
  pf_transcript :: u32
  pf_caps :: "RNetProfileCaps list"
  pf_last_tx :: u64
  pf_dirty :: bool

section \<open>Confirmation tables\<close>

text \<open>One entry of \<^verbatim>\<open>published_*\<close> or \<^verbatim>\<open>peer_history_*\<close>: a tick, the hash of its resolved
  inputs, and whether the entry holds anything.\<close>

record RNetHashEntry =
  he_tick :: u32
  he_hash :: u32
  he_valid :: bool

record RNetConfirm =
  cf_published :: "RNetHashEntry list"
  cf_peer :: "RNetHashEntry list list"
  cf_last_sent_ms :: "u64 list"
  cf_desync :: bool
  cf_desync_tick :: u32
  cf_desync_local_hash :: u32
  cf_desync_remote_hash :: u32

section \<open>Liveness and diagnostics\<close>

record RNetLiveness =
  lv_last_peer_rx_ms :: u64
  lv_session_start_ms :: u64
  lv_peer_gone :: bool
  lv_peer_rx_ms :: "u64 list"
  lv_peer_gone_mask :: u32

record RNetDiag =
  dg_last_stall :: RNetAdmitStall
  dg_consecutive_stalls :: u32
  dg_admit_ok_count :: u32
  dg_stall_streaks :: u32
  dg_stall_started_ms :: u64
  dg_last_admit_wait_ms :: u32
  dg_max_admit_wait_ms :: u32
  dg_packets_rx :: u32
  dg_input_bundle_sends :: u32
  dg_arr_ms :: "u64 list list"
  dg_arr_tick :: "u32 list list"

section \<open>State transfer\<close>

record RNetStateTx =
  tx_active :: bool
  tx_ready :: bool
  tx_op :: u8
  tx_slot :: u8
  tx_xfer_id :: u32
  tx_total :: u32
  tx_crc :: u32
  tx_buf :: "bytes option"
  tx_expect_mask :: u32
  tx_ack :: "u32 list"
  tx_ack_timer_ms :: "u64 list"
  tx_send_cursor :: u32
  tx_last_tx_ms :: u64
  tx_last_begin_ms :: u64
  tx_start_ms :: u64
  tx_cwnd :: u32
  tx_chunks_cap :: u32
  tx_ack_timeout_ms :: u32

text \<open>\<open>rx_bits\<close> is the chunk bitmap, as the set of the chunk indices whose bit is set.\<close>

record RNetStateRx =
  rx_active :: bool
  rx_ready :: bool
  rx_op :: u8
  rx_slot :: u8
  rx_xfer_id :: u32
  rx_total :: u32
  rx_crc :: u32
  rx_contiguity :: u32
  rx_buf :: "bytes option"
  rx_last_ack_ms :: u64
  rx_start_ms :: u64
  rx_bits :: "nat set"

record RNetStateReceived =
  sr_id :: u32
  sr_total :: u32
  sr_crc :: u32
  sr_op :: u8
  sr_slot :: u8
  sr_finished :: bool
  sr_last_reack_ms :: u64

record RNetProbe =
  pb_active :: bool
  pb_sender :: bool
  pb_expect_mask :: u32
  pb_reply_mask :: u32
  pb_match_mask :: u32
  pb_pending :: bool
  pb_match :: bool
  pb_op :: u8
  pb_slot :: u8
  pb_size :: u32
  pb_crc :: u32
  pb_last_tx_ms :: u64
  pb_parked :: bool

text \<open>The last probe generation released with \<^verbatim>\<open>STATE_PROBE_DONE\<close>.\<close>

record RNetProbeReleased =
  pr_valid :: bool
  pr_op :: u8
  pr_slot :: u8
  pr_size :: u32
  pr_crc :: u32

record RNetStateXfer =
  st_tx :: RNetStateTx
  st_rx :: "RNetStateRx list"
  st_taken :: int
  st_stall_sim :: bool
  st_next_xfer_id :: u32
  st_received :: "RNetStateReceived list"
  st_sticky_cwnd :: u32
  st_sticky_chunks :: u32
  st_probe :: RNetProbe
  st_released :: RNetProbeReleased

section \<open>Control queues\<close>

text \<open>A ring of the C code: the array with its \<^verbatim>\<open>head\<close> (next write), \<^verbatim>\<open>tail\<close> (next read) and
  \<^verbatim>\<open>count\<close>. The capacity is the length of the array.\<close>

record 'a RNetQueue =
  q_slots :: "'a list"
  q_head :: nat
  q_tail :: nat
  q_count :: nat

record RNetRbSyncMsg =
  sy_epoch_id :: u32
  sy_mismatch_tick :: u32
  sy_load_tick :: u32
  sy_target_tick :: u32
  sy_corrected_slot :: u8
  sy_initiator :: u8
  sy_flags :: u8
  sy_from :: u8

record RNetRbSealMsg =
  sl_epoch_id :: u32
  sl_mismatch_tick :: u32
  sl_target_tick :: u32
  sl_row_begin :: u32
  sl_slot :: u8
  sl_row_count :: u16
  sl_rows :: "RNetRbWireFrame list"
  sl_from :: u8

record RNetRbBaseMsg =
  bs_epoch_id :: u32
  bs_load_tick :: u32
  bs_digest_master :: u32
  bs_digest_a :: u32
  bs_digest_b :: u32
  bs_digest_c :: u32
  bs_from :: u8

record RNetRbPostMsg =
  po_epoch_id :: u32
  po_target_tick :: u32
  po_digest_master :: u32
  po_input_digest :: u32
  po_match :: u8
  po_from :: u8

record RNetRbResolvedMsg =
  rs_through :: u32
  rs_from :: u8

record RNetFrameCommitMsg =
  fc_tick :: u32
  fc_hash :: u32
  fc_from :: u8

record RNetSioXferMsg =
  sx_seq :: u32
  sx_send :: u16
  sx_confirm_pad :: u16
  sx_unit_id :: u8

record RNetCtrl =
  ct_peer_slot :: int
  ct_fc_q :: "RNetFrameCommitMsg RNetQueue"
  ct_sync_q :: "RNetRbSyncMsg RNetQueue"
  ct_seal_q :: "RNetRbSealMsg RNetQueue"
  ct_base_q :: "RNetRbBaseMsg RNetQueue"
  ct_post_q :: "RNetRbPostMsg RNetQueue"
  ct_resolved_q :: "RNetRbResolvedMsg RNetQueue"
  ct_sio_q :: "RNetSioXferMsg RNetQueue"
  ct_last_from :: int
  ct_dropped :: u32
  ct_wire_version_mismatch :: u8
  ct_modset_text :: bytes
  ct_modset_pending :: bool
  ct_modset_ack_reason :: "bytes list"
  ct_modset_ack_status :: "u8 list"
  ct_modset_ack_pending :: u32

section \<open>The session\<close>

record RNetSession =
  ss_profiles :: RNetProfiles
  ss_cfg :: RNetConfig
  ss_now :: u64
  ss_os_now :: u64
  ss_mode :: RNetTransportMode
  ss_out :: "bytes list"
  ss_phase :: RNetSessionPhase
  ss_local_ring :: RNetInputRing
  ss_remote_rings :: "RNetInputRing list"
  ss_peer_ready :: "bool list"
  ss_local_ready :: bool
  ss_start_sent :: bool
  ss_delay :: u8
  ss_delay_pending :: bool
  ss_delay_pending_value :: u8
  ss_delay_pending_effective :: u32
  ss_delay_pending_last_tx_ms :: u64
  ss_sim_tick :: u32
  ss_highest_remote_ack :: u32
  ss_remote_contiguous_ack :: "u32 list"
  ss_peer_ack_tick :: "u32 list"
  ss_peer_ack_seen :: "bool list"
  ss_last_hello_ms :: u64
  ss_last_ready_ms :: u64
  ss_last_input_ms :: u64
  ss_last_input_tip :: u32
  ss_last_input_tip_valid :: bool
  ss_is_sim_authority :: bool
  ss_is_observer :: bool
  ss_wire_slot :: u8
  ss_confirm :: RNetConfirm
  ss_live :: RNetLiveness
  ss_state :: RNetStateXfer
  ss_input_send_suppress :: bool
  ss_input_epoch :: u16
  ss_diag :: RNetDiag
  ss_ctrl :: RNetCtrl

section \<open>Zeroed state\<close>

text \<open>What \<^verbatim>\<open>calloc\<close> leaves in each part.\<close>

definition zero_caps :: RNetProfileCaps where
  "zero_caps = \<lparr>pc_cpu_features = 0, pc_backends = 0, pc_profiles = 0, pc_architecture = 0\<rparr>"

definition zero_profiles :: RNetProfiles where
  "zero_profiles = \<lparr>pf_active = False, pf_refused = False, pf_qualification = 0, pf_occupied = 0,
     pf_offers = 0, pf_acks = 0, pf_acknowledged_by = 0, pf_selected = 0, pf_transcript = 0,
     pf_caps = replicate 8 zero_caps, pf_last_tx = 0, pf_dirty = False\<rparr>"

definition zero_entry :: RNetHashEntry where
  "zero_entry = \<lparr>he_tick = 0, he_hash = 0, he_valid = False\<rparr>"

definition zero_confirm :: RNetConfirm where
  "zero_confirm = \<lparr>cf_published = replicate 128 zero_entry,
     cf_peer = replicate 128 (replicate 8 zero_entry), cf_last_sent_ms = replicate 128 0,
     cf_desync = False, cf_desync_tick = 0, cf_desync_local_hash = 0, cf_desync_remote_hash = 0\<rparr>"

definition zero_diag :: RNetDiag where
  "zero_diag = \<lparr>dg_last_stall = ADMIT_OK, dg_consecutive_stalls = 0, dg_admit_ok_count = 0,
     dg_stall_streaks = 0, dg_stall_started_ms = 0, dg_last_admit_wait_ms = 0,
     dg_max_admit_wait_ms = 0, dg_packets_rx = 0, dg_input_bundle_sends = 0,
     dg_arr_ms = replicate 8 (replicate 128 0), dg_arr_tick = replicate 8 (replicate 128 0)\<rparr>"

definition zero_tx :: RNetStateTx where
  "zero_tx = \<lparr>tx_active = False, tx_ready = False, tx_op = 0, tx_slot = 0, tx_xfer_id = 0,
     tx_total = 0, tx_crc = 0, tx_buf = None, tx_expect_mask = 0, tx_ack = replicate 8 0,
     tx_ack_timer_ms = replicate 8 0, tx_send_cursor = 0, tx_last_tx_ms = 0, tx_last_begin_ms = 0,
     tx_start_ms = 0, tx_cwnd = 0, tx_chunks_cap = 0, tx_ack_timeout_ms = 0\<rparr>"

definition zero_rx :: RNetStateRx where
  "zero_rx = \<lparr>rx_active = False, rx_ready = False, rx_op = 0, rx_slot = 0, rx_xfer_id = 0,
     rx_total = 0, rx_crc = 0, rx_contiguity = 0, rx_buf = None, rx_last_ack_ms = 0,
     rx_start_ms = 0, rx_bits = {}\<rparr>"

definition zero_received :: RNetStateReceived where
  "zero_received = \<lparr>sr_id = 0, sr_total = 0, sr_crc = 0, sr_op = 0, sr_slot = 0,
     sr_finished = False, sr_last_reack_ms = 0\<rparr>"

definition zero_probe :: RNetProbe where
  "zero_probe = \<lparr>pb_active = False, pb_sender = False, pb_expect_mask = 0, pb_reply_mask = 0,
     pb_match_mask = 0, pb_pending = False, pb_match = False, pb_op = 0, pb_slot = 0, pb_size = 0,
     pb_crc = 0, pb_last_tx_ms = 0, pb_parked = False\<rparr>"

definition zero_released :: RNetProbeReleased where
  "zero_released = \<lparr>pr_valid = False, pr_op = 0, pr_slot = 0, pr_size = 0, pr_crc = 0\<rparr>"

definition init_state :: RNetStateXfer where
  "init_state = \<lparr>st_tx = zero_tx, st_rx = replicate 8 zero_rx, st_taken = -1,
     st_stall_sim = False, st_next_xfer_id = 0, st_received = replicate 8 zero_received,
     st_sticky_cwnd = 0, st_sticky_chunks = 0, st_probe = zero_probe, st_released = zero_released\<rparr>"

definition empty_queue :: "nat \<Rightarrow> 'a \<Rightarrow> 'a RNetQueue" where
  "empty_queue n z = \<lparr>q_slots = replicate n z, q_head = 0, q_tail = 0, q_count = 0\<rparr>"

definition zero_seal_msg :: RNetRbSealMsg where
  "zero_seal_msg = \<lparr>sl_epoch_id = 0, sl_mismatch_tick = 0, sl_target_tick = 0, sl_row_begin = 0,
     sl_slot = 0, sl_row_count = 0, sl_rows = replicate 24 zero_rb_wire_frame, sl_from = 0\<rparr>"

definition init_ctrl :: RNetCtrl where
  "init_ctrl = \<lparr>ct_peer_slot = -1,
     ct_fc_q = empty_queue 256 \<lparr>fc_tick = 0, fc_hash = 0, fc_from = 0\<rparr>,
     ct_sync_q = empty_queue 32 \<lparr>sy_epoch_id = 0, sy_mismatch_tick = 0, sy_load_tick = 0,
       sy_target_tick = 0, sy_corrected_slot = 0, sy_initiator = 0, sy_flags = 0, sy_from = 0\<rparr>,
     ct_seal_q = empty_queue 32 zero_seal_msg,
     ct_base_q = empty_queue 32 \<lparr>bs_epoch_id = 0, bs_load_tick = 0, bs_digest_master = 0,
       bs_digest_a = 0, bs_digest_b = 0, bs_digest_c = 0, bs_from = 0\<rparr>,
     ct_post_q = empty_queue 32 \<lparr>po_epoch_id = 0, po_target_tick = 0, po_digest_master = 0,
       po_input_digest = 0, po_match = 0, po_from = 0\<rparr>,
     ct_resolved_q = empty_queue 32 \<lparr>rs_through = 0, rs_from = 0\<rparr>,
     ct_sio_q = empty_queue 32 \<lparr>sx_seq = 0, sx_send = 0, sx_confirm_pad = 0, sx_unit_id = 0\<rparr>,
     ct_last_from = -1, ct_dropped = 0, ct_wire_version_mismatch = 0,
     ct_modset_text = replicate 1024 0, ct_modset_pending = False,
     ct_modset_ack_reason = replicate 8 (replicate 96 0), ct_modset_ack_status = replicate 8 0,
     ct_modset_ack_pending = 0\<rparr>"

text \<open>
  \<^verbatim>\<open>rnet_session_create\<close>: \<open>None\<close> where the C function returns NULL. The two clocks are those of
  the call.
\<close>

definition rnet_session_create :: "RNetConfig \<Rightarrow> u64 \<Rightarrow> u64 \<Rightarrow> RNetSession option" where
  "rnet_session_create cfg now os_now =
     (if slot_count cfg < 2 \<or> slot_count cfg > 8 then None
      else if local_slot cfg > slot_count cfg then None
      else if local_slot cfg = slot_count cfg \<and> rnet_config_wire_slot cfg < slot_count cfg then None
      else Some \<lparr>ss_profiles = zero_profiles, ss_cfg = cfg, ss_now = now, ss_os_now = os_now,
        ss_mode = TRANSPORT_NONE, ss_out = [], ss_phase = PHASE_IDLE,
        ss_local_ring = rnet_ring_clear, ss_remote_rings = replicate 8 rnet_ring_clear,
        ss_peer_ready = replicate 8 False, ss_local_ready = False, ss_start_sent = False,
        ss_delay = input_delay cfg, ss_delay_pending = False, ss_delay_pending_value = 0,
        ss_delay_pending_effective = 0, ss_delay_pending_last_tx_ms = 0, ss_sim_tick = 0,
        ss_highest_remote_ack = 0, ss_remote_contiguous_ack = replicate 8 0xffffffff,
        ss_peer_ack_tick = replicate 8 0, ss_peer_ack_seen = replicate 8 False,
        ss_last_hello_ms = 0, ss_last_ready_ms = 0, ss_last_input_ms = 0, ss_last_input_tip = 0,
        ss_last_input_tip_valid = False,
        ss_is_sim_authority = (\<not> rnet_config_is_observer cfg \<and> local_slot cfg = 0),
        ss_is_observer = rnet_config_is_observer cfg, ss_wire_slot = rnet_config_wire_slot cfg,
        ss_confirm = zero_confirm,
        ss_live = \<lparr>lv_last_peer_rx_ms = 0, lv_session_start_ms = os_now, lv_peer_gone = False,
          lv_peer_rx_ms = replicate 8 0, lv_peer_gone_mask = 0\<rparr>,
        ss_state = init_state, ss_input_send_suppress = False, ss_input_epoch = 0,
        ss_diag = zero_diag, ss_ctrl = init_ctrl\<rparr>)"

section \<open>Shared helpers\<close>

text \<open>\<^verbatim>\<open>x ? x : 1u\<close>, the stamp that keeps zero for "never".\<close>

definition stamp :: "u64 \<Rightarrow> u64" where
  "stamp t = (if t \<noteq> 0 then t else 1)"

text \<open>The argument of \<open>send_raw\<close> is an encoder's result; \<open>None\<close> is a length that is not
  positive, which sends nothing.\<close>

definition send_raw :: "RNetSession \<Rightarrow> bytes option \<Rightarrow> RNetSession" where
  "send_raw s pkt =
     (case pkt of
        None \<Rightarrow> s
      | Some buf \<Rightarrow>
          if length buf \<ge> 14 \<and>
             rnet_proto_is_rb_control (ucast (buf ! 4) OR push_bit 8 (ucast (buf ! 5)))
          then (if length buf + 2 > RNET_MAX_PACKET then s
                else (case rnet_proto_tag_rb_epoch buf RNET_MAX_PACKET (ss_input_epoch s) of
                        None \<Rightarrow> s
                      | Some tagged \<Rightarrow> s\<lparr>ss_out := ss_out s @ [tagged]\<rparr>))
          else s\<lparr>ss_out := ss_out s @ [buf]\<rparr>)"

definition note_admit_stall :: "RNetSession \<Rightarrow> RNetAdmitStall \<Rightarrow> RNetSession" where
  "note_admit_stall s reason =
     (let d = ss_diag s;
          started = (if dg_stall_started_ms d = 0 then stamp (ss_now s) else dg_stall_started_ms d);
          waited = ucast (ss_now s - started) :: u32
      in s\<lparr>ss_diag := d\<lparr>dg_last_stall := reason,
           dg_stall_streaks := (if dg_consecutive_stalls d = 0 then dg_stall_streaks d + 1
                                else dg_stall_streaks d),
           dg_consecutive_stalls := dg_consecutive_stalls d + 1,
           dg_stall_started_ms := started,
           dg_last_admit_wait_ms := waited,
           dg_max_admit_wait_ms := (if waited > dg_max_admit_wait_ms d then waited
                                    else dg_max_admit_wait_ms d)\<rparr>\<rparr>)"

definition note_admit_ok :: "RNetSession \<Rightarrow> RNetSession" where
  "note_admit_ok s =
     (let d = ss_diag s;
          waited = (if dg_stall_started_ms d \<noteq> 0
                    then ucast (ss_now s - dg_stall_started_ms d) else 0 :: u32)
      in s\<lparr>ss_diag := d\<lparr>dg_last_stall := ADMIT_OK, dg_consecutive_stalls := 0,
           dg_admit_ok_count := dg_admit_ok_count d + 1, dg_stall_started_ms := 0,
           dg_last_admit_wait_ms := waited,
           dg_max_admit_wait_ms := (if waited > dg_max_admit_wait_ms d then waited
                                    else dg_max_admit_wait_ms d)\<rparr>\<rparr>)"

lemma rnet_session_create_cfg:
  "rnet_session_create cfg now os = Some s \<Longrightarrow>
     ss_cfg s = cfg \<and> 2 \<le> slot_count cfg \<and> slot_count cfg \<le> 8 \<and> local_slot cfg \<le> slot_count cfg"
  by (auto simp: rnet_session_create_def not_less split: if_splits)

end
