(* ===== verification/RNet_Contract.thy ===== *)
theory RNet_Contract
  imports RNet_Interfaces
begin

text \<open>
  The input replace contract (\<^verbatim>\<open>src/input/rnet_input_contract.c\<close>): whether a late wire row that
  differs from the published one is promoted into history or forces a rewind. Stick axes are
  signed bytes read with \<open>sint\<close>; a deadband is an unsigned word the code casts to \<^verbatim>\<open>int32_t\<close>. A host
  gate is \<open>None\<close> when the callback is NULL, otherwise the answer it gives.
\<close>

section \<open>Frames, parameters and gates\<close>

record RNetInputContractFrame =
  cf_tick :: u32
  cf_buttons :: u16
  cf_stick_x :: s8
  cf_stick_y :: s8
  cf_is_predicted :: u8

record RNetInputContractParams =
  confirmed_deadband :: u32
  predict_deadband :: u32
  micro_deadband :: u32
  continuity_deadband :: u32
  analog_min_mag :: u32
  same_intent_min_active :: u32
  same_intent_tolerance :: u32
  onset_facing_thresh :: u32
  onset_large_delta :: u32
  dash_gate_min :: int
  digital_axis_mag :: s8

record RNetInputContractHostGates =
  equal_predicted_force_rewind :: "bool option"
  absorb_stick_replace :: "bool option"
  protect_promote :: "(int \<Rightarrow> int \<Rightarrow> u32 \<Rightarrow> u8 \<Rightarrow> bool) option"
  block_deadband_promote :: "bool option"
  hash_confirm_promote :: "bool option"
  defer_predicted_correction :: "bool option"

datatype RNetInputContractDecision =
    Rewind | RewindEqualDeferred | PromoteEqual | PromoteAbsorb | PromoteProtect | PromoteMicro
  | PromoteContinuity | PromoteHashConfirm | PromoteDefer | PromoteInsignificant

datatype RNetInputContractCorrectionClass =
    ClassButton | ClassRelease | ClassOnsetFromZero | ClassMicroStick
  | ClassSameIntentContinuity | ClassRealStick

definition rnet_input_contract_params_init_defaults :: RNetInputContractParams where
  "rnet_input_contract_params_init_defaults =
     \<lparr>confirmed_deadband = 12, predict_deadband = 14, micro_deadband = 3, continuity_deadband = 12,
      analog_min_mag = 12, same_intent_min_active = 8, same_intent_tolerance = 14,
      onset_facing_thresh = 4, onset_large_delta = 40, dash_gate_min = 56, digital_axis_mag = 85\<rparr>"

fun rnet_input_contract_decision_is_rewind :: "RNetInputContractDecision \<Rightarrow> bool" where
  "rnet_input_contract_decision_is_rewind d \<longleftrightarrow> d = Rewind \<or> d = RewindEqualDeferred"

text \<open>The cast \<^verbatim>\<open>(int32_t)\<close> of an unsigned parameter.\<close>

definition int32_of :: "u32 \<Rightarrow> int" where
  "int32_of u = sint u"

definition gate :: "(RNetInputContractHostGates \<Rightarrow> bool option) \<Rightarrow>
    RNetInputContractHostGates option \<Rightarrow> bool" where
  "gate sel gates = (case gates of None \<Rightarrow> False
     | Some g \<Rightarrow> (case sel g of None \<Rightarrow> False | Some answer \<Rightarrow> answer))"

section \<open>Stick predicates\<close>

definition rnet_input_contract_abs_s8_diff :: "s8 \<Rightarrow> s8 \<Rightarrow> int" where
  "rnet_input_contract_abs_s8_diff a b = (let d = sint a - sint b in if d < 0 then - d else d)"

definition rnet_input_contract_stick_sign :: "s8 \<Rightarrow> int" where
  "rnet_input_contract_stick_sign axis =
     (if sint axis > 0 then 1 else if sint axis < 0 then -1 else 0)"

definition rnet_input_contract_stick_axis_is_digital :: "s8 \<Rightarrow> RNetInputContractParams \<Rightarrow> bool" where
  "rnet_input_contract_stick_axis_is_digital axis params =
     (if digital_axis_mag params = 0 then False
      else axis = digital_axis_mag params \<or> axis = - digital_axis_mag params)"

definition rnet_input_contract_sticks_near_neutral :: "RNetInputContractFrame \<Rightarrow> u32 \<Rightarrow> bool" where
  "rnet_input_contract_sticks_near_neutral frame deadband \<longleftrightarrow>
     rnet_input_contract_abs_s8_diff (cf_stick_x frame) 0 \<le> int32_of deadband \<and>
     rnet_input_contract_abs_s8_diff (cf_stick_y frame) 0 \<le> int32_of deadband"

definition rnet_input_contract_stick_looks_analog ::
  "s8 \<Rightarrow> s8 \<Rightarrow> RNetInputContractParams \<Rightarrow> bool" where
  "rnet_input_contract_stick_looks_analog stick_x stick_y params =
     (if rnet_input_contract_abs_s8_diff stick_x 0 \<le> int32_of (analog_min_mag params) \<and>
         rnet_input_contract_abs_s8_diff stick_y 0 \<le> int32_of (analog_min_mag params) then False
      else if rnet_input_contract_stick_axis_is_digital stick_x params \<or>
         rnet_input_contract_stick_axis_is_digital stick_y params then False
      else True)"

text \<open>The sign test of one axis in \<open>rnet_input_contract_stick_same_analog_intent\<close>.\<close>

definition axis_conflict :: "s8 \<Rightarrow> s8 \<Rightarrow> int \<Rightarrow> bool" where
  "axis_conflict a b min_active \<longleftrightarrow>
     (rnet_input_contract_abs_s8_diff a 0 \<ge> min_active \<or>
      rnet_input_contract_abs_s8_diff b 0 \<ge> min_active) \<and>
     (rnet_input_contract_abs_s8_diff a 0 \<ge> min_active \<and>
      rnet_input_contract_abs_s8_diff b 0 \<ge> min_active \<and>
      rnet_input_contract_stick_sign a \<noteq> rnet_input_contract_stick_sign b)"

definition rnet_input_contract_stick_same_analog_intent ::
  "s8 \<Rightarrow> s8 \<Rightarrow> s8 \<Rightarrow> s8 \<Rightarrow> RNetInputContractParams \<Rightarrow> bool" where
  "rnet_input_contract_stick_same_analog_intent ax ay bx by2 params =
     (if \<not> rnet_input_contract_stick_looks_analog ax ay params \<or>
         \<not> rnet_input_contract_stick_looks_analog bx by2 params then False
      else let min_active = int32_of (same_intent_min_active params) in
        if axis_conflict ax bx min_active then False
        else if axis_conflict ay by2 min_active then False
        else True)"

definition rnet_input_contract_stick_dash_gate_active_x ::
  "s8 \<Rightarrow> RNetInputContractParams \<Rightarrow> bool" where
  "rnet_input_contract_stick_dash_gate_active_x stick_x params \<longleftrightarrow>
     rnet_input_contract_abs_s8_diff stick_x 0 \<ge> dash_gate_min params"

definition rnet_input_contract_stick_dash_gate_disagree_x ::
  "s8 \<Rightarrow> s8 \<Rightarrow> RNetInputContractParams \<Rightarrow> bool" where
  "rnet_input_contract_stick_dash_gate_disagree_x hold_x wire_x params =
     (if dash_gate_min params \<le> 0 then False
      else let hold_dash = rnet_input_contract_stick_dash_gate_active_x hold_x params;
               wire_dash = rnet_input_contract_stick_dash_gate_active_x wire_x params;
               hold_sign = rnet_input_contract_stick_sign hold_x;
               wire_sign = rnet_input_contract_stick_sign wire_x in
        if hold_dash \<noteq> wire_dash then True
        else if hold_dash \<and> hold_sign \<noteq> 0 \<and> wire_sign \<noteq> 0 \<and> hold_sign \<noteq> wire_sign then True
        else False)"

definition stick_magnitude :: "RNetInputContractFrame \<Rightarrow> int" where
  "stick_magnitude f =
     (let x = rnet_input_contract_abs_s8_diff (cf_stick_x f) 0;
          y = rnet_input_contract_abs_s8_diff (cf_stick_y f) 0 in if y > x then y else x)"

definition rnet_input_contract_stick_replace_is_release ::
  "RNetInputContractFrame \<Rightarrow> RNetInputContractFrame \<Rightarrow> RNetInputContractParams \<Rightarrow> bool" where
  "rnet_input_contract_stick_replace_is_release old_frame wire params =
     (let confirmed_db = confirmed_deadband params in
      if rnet_input_contract_sticks_near_neutral old_frame confirmed_db then False
      else if rnet_input_contract_sticks_near_neutral wire confirmed_db then True
      else stick_magnitude wire + int32_of confirmed_db < stick_magnitude old_frame)"

definition rnet_input_contract_false_digital_heuristic_mismatch ::
  "RNetInputContractFrame \<Rightarrow> RNetInputContractFrame \<Rightarrow> RNetInputContractParams \<Rightarrow> bool" where
  "rnet_input_contract_false_digital_heuristic_mismatch published remote params =
     (if rnet_input_contract_stick_axis_is_digital (cf_stick_y published) params \<and>
         \<not> rnet_input_contract_stick_axis_is_digital (cf_stick_y remote) params \<and>
         rnet_input_contract_abs_s8_diff (cf_stick_x published) 0 \<le> 14 \<and>
         rnet_input_contract_abs_s8_diff (cf_stick_x remote) 0 \<le> 14 \<and>
         rnet_input_contract_abs_s8_diff (cf_stick_y remote) 0 \<le> 25 then True
      else if rnet_input_contract_stick_axis_is_digital (cf_stick_x published) params \<and>
         \<not> rnet_input_contract_stick_axis_is_digital (cf_stick_x remote) params \<and>
         rnet_input_contract_abs_s8_diff (cf_stick_y published) 0 \<le> 14 \<and>
         rnet_input_contract_abs_s8_diff (cf_stick_y remote) 0 \<le> 14 \<and>
         rnet_input_contract_abs_s8_diff (cf_stick_x remote) 0 \<le> 25 then True
      else False)"

section \<open>Significance, classification and the decision\<close>

definition rnet_input_contract_correction_is_significant ::
  "RNetInputContractFrame \<Rightarrow> RNetInputContractFrame \<Rightarrow> bool \<Rightarrow> RNetInputContractParams \<Rightarrow> bool" where
  "rnet_input_contract_correction_is_significant old_frame new_frame correction_is_predicted params =
     (let ox = cf_stick_x old_frame; oy = cf_stick_y old_frame;
          nx = cf_stick_x new_frame; ny = cf_stick_y new_frame;
          diff = rnet_input_contract_abs_s8_diff;
          deadband = (if correction_is_predicted then predict_deadband params
                      else confirmed_deadband params);
          facing_thresh = int32_of (onset_facing_thresh params);
          large_delta = int32_of (onset_large_delta params);
          near = rnet_input_contract_sticks_near_neutral in
      if cf_buttons old_frame \<noteq> cf_buttons new_frame then True
      else if correction_is_predicted \<and>
          rnet_input_contract_false_digital_heuristic_mismatch old_frame new_frame params then False
      else if near old_frame deadband \<and> \<not> near new_frame deadband then True
      else if near old_frame deadband \<and> (diff nx 0 > 25 \<or> diff ny 0 > 25) then True
      else if diff ox 0 > facing_thresh \<and> diff nx 0 > facing_thresh \<and>
          rnet_input_contract_stick_sign ox \<noteq> rnet_input_contract_stick_sign nx then True
      else if diff ox nx > large_delta then True
      else if diff oy ny > large_delta then True
      else if deadband = 0 then ox \<noteq> nx \<or> oy \<noteq> ny
      else if diff ox nx > int32_of deadband then True
      else if diff oy ny > int32_of deadband then True
      else if correction_is_predicted \<and> \<not> near old_frame deadband \<and> \<not> near new_frame deadband \<and>
          rnet_input_contract_stick_same_analog_intent ox oy nx ny params \<and>
          diff ox nx \<le> int32_of (same_intent_tolerance params) \<and>
          diff oy ny \<le> int32_of (same_intent_tolerance params) then False
      else False)"

definition rnet_input_contract_classify_correction ::
  "RNetInputContractFrame \<Rightarrow> RNetInputContractFrame \<Rightarrow> RNetInputContractParams
   \<Rightarrow> RNetInputContractCorrectionClass" where
  "rnet_input_contract_classify_correction old_frame wire params =
     (let micro_db = micro_deadband params; continuity_db = continuity_deadband params;
          ox = cf_stick_x old_frame; oy = cf_stick_y old_frame;
          wx = cf_stick_x wire; wy = cf_stick_y wire;
          dx = rnet_input_contract_abs_s8_diff ox wx;
          dy = rnet_input_contract_abs_s8_diff oy wy in
      if cf_buttons old_frame \<noteq> cf_buttons wire then ClassButton
      else if rnet_input_contract_stick_replace_is_release old_frame wire params then ClassRelease
      else if rnet_input_contract_sticks_near_neutral old_frame (predict_deadband params) \<and>
          \<not> rnet_input_contract_sticks_near_neutral wire (predict_deadband params)
        then ClassOnsetFromZero
      else if rnet_input_contract_stick_looks_analog ox oy params \<and>
          rnet_input_contract_stick_looks_analog wx wy params \<and>
          rnet_input_contract_stick_same_analog_intent ox oy wx wy params then
        (if micro_db > 0 \<and> dx \<le> int32_of micro_db \<and> dy \<le> int32_of micro_db then ClassMicroStick
         else if continuity_db > micro_db \<and> dx \<le> int32_of continuity_db \<and>
             dy \<le> int32_of continuity_db then ClassSameIntentContinuity
         else ClassRealStick)
      else ClassRealStick)"

definition rnet_input_contract_frame_gameplay_equals ::
  "RNetInputContractFrame \<Rightarrow> RNetInputContractFrame \<Rightarrow> bool" where
  "rnet_input_contract_frame_gameplay_equals a b \<longleftrightarrow>
     cf_tick a = cf_tick b \<and> cf_buttons a = cf_buttons b \<and> cf_stick_x a = cf_stick_x b \<and>
     cf_stick_y a = cf_stick_y b"

text \<open>The promote window of a tick the simulation has already run; \<open>None\<close> falls through.\<close>

definition completed_promote ::
  "RNetInputContractFrame \<Rightarrow> RNetInputContractFrame \<Rightarrow> RNetInputContractParams
   \<Rightarrow> RNetInputContractHostGates option \<Rightarrow> RNetInputContractDecision option" where
  "completed_promote published wire params gates =
     (let micro_db = micro_deadband params; continuity_db = continuity_deadband params;
          px = cf_stick_x published; py = cf_stick_y published;
          wx = cf_stick_x wire; wy = cf_stick_y wire;
          dx = rnet_input_contract_abs_s8_diff px wx;
          dy = rnet_input_contract_abs_s8_diff py wy in
      if rnet_input_contract_stick_looks_analog px py params \<and>
         rnet_input_contract_stick_looks_analog wx wy params \<and>
         rnet_input_contract_stick_same_analog_intent px py wx wy params \<and>
         \<not> rnet_input_contract_stick_dash_gate_disagree_x px wx params then
        (if gate (\<lambda>g. case protect_promote g of None \<Rightarrow> None
                      | Some f \<Rightarrow> Some (f dx dy micro_db (cf_is_predicted published))) gates
           then Some PromoteProtect
         else if \<not> gate block_deadband_promote gates then
           (if cf_is_predicted published = 0 then
              (if micro_db > 0 \<and> dx \<le> int32_of micro_db \<and> dy \<le> int32_of micro_db
                 then Some PromoteMicro
               else if continuity_db > micro_db \<and> dx \<le> int32_of continuity_db \<and>
                   dy \<le> int32_of continuity_db then Some PromoteContinuity
               else None)
            else if dx \<le> int32_of continuity_db \<and> dy \<le> int32_of continuity_db \<and>
                gate hash_confirm_promote gates then Some PromoteHashConfirm
            else None)
         else None)
      else None)"

definition rnet_input_contract_stick_replace_decide ::
  "RNetInputContractFrame \<Rightarrow> RNetInputContractFrame \<Rightarrow> bool \<Rightarrow> RNetInputContractParams
   \<Rightarrow> RNetInputContractHostGates option \<Rightarrow> RNetInputContractDecision" where
  "rnet_input_contract_stick_replace_decide published wire completed_sim params gates =
     (if rnet_input_contract_frame_gameplay_equals published wire then
        (if cf_is_predicted published \<noteq> 0 \<and> gate equal_predicted_force_rewind gates
           then RewindEqualDeferred else PromoteEqual)
      else if cf_buttons published = cf_buttons wire \<and> gate absorb_stick_replace gates
        then PromoteAbsorb
      else if completed_sim then
        (if cf_buttons published \<noteq> cf_buttons wire then Rewind
         else if rnet_input_contract_stick_replace_is_release published wire params then Rewind
         else (case completed_promote published wire params gates of
                 Some d \<Rightarrow> d | None \<Rightarrow> Rewind))
      else if rnet_input_contract_stick_replace_is_release published wire params then Rewind
      else if gate defer_predicted_correction gates then PromoteDefer
      else if rnet_input_contract_correction_is_significant published wire False params then Rewind
      else PromoteInsignificant)"

section \<open>Properties\<close>

lemma gate_None [simp]: "gate sel None = False"
  by (simp add: gate_def)

lemma same_intent_analog:
  "rnet_input_contract_stick_same_analog_intent ax ay bx by2 params \<Longrightarrow>
     rnet_input_contract_stick_looks_analog ax ay params \<and>
     rnet_input_contract_stick_looks_analog bx by2 params"
  by (auto simp: rnet_input_contract_stick_same_analog_intent_def split: if_splits)

text \<open>The deadbands within which a confirmed row of a completed tick may be promoted.\<close>

definition within_deadbands ::
  "RNetInputContractFrame \<Rightarrow> RNetInputContractFrame \<Rightarrow> RNetInputContractParams \<Rightarrow> bool" where
  "within_deadbands published wire params \<longleftrightarrow>
     (let micro = micro_deadband params; continuity = continuity_deadband params;
          dx = rnet_input_contract_abs_s8_diff (cf_stick_x published) (cf_stick_x wire);
          dy = rnet_input_contract_abs_s8_diff (cf_stick_y published) (cf_stick_y wire) in
      (micro > 0 \<and> dx \<le> int32_of micro \<and> dy \<le> int32_of micro) \<or>
      (continuity > micro \<and> dx \<le> int32_of continuity \<and> dy \<le> int32_of continuity))"

text \<open>
  C15. The decision for a tick the simulation has already run, without host gates, is exactly
  this: the published row survives only if the wire row is the same, or if the buttons are the
  same, the row was not a prediction, the stick is not being released, both sticks are analog
  with the same intent and agree on the dash gate, and the drift is within a deadband. In every
  other case the tick is rewound.
\<close>

theorem completed_sim_promotes_iff:
  "rnet_input_contract_decision_is_rewind
     (rnet_input_contract_stick_replace_decide published wire True params None) \<longleftrightarrow>
   \<not> (rnet_input_contract_frame_gameplay_equals published wire \<or>
      cf_buttons published = cf_buttons wire \<and> cf_is_predicted published = 0 \<and>
      \<not> rnet_input_contract_stick_replace_is_release published wire params \<and>
      rnet_input_contract_stick_same_analog_intent (cf_stick_x published) (cf_stick_y published)
        (cf_stick_x wire) (cf_stick_y wire) params \<and>
      \<not> rnet_input_contract_stick_dash_gate_disagree_x (cf_stick_x published) (cf_stick_x wire)
        params \<and>
      within_deadbands published wire params)"
  by (auto simp: rnet_input_contract_stick_replace_decide_def completed_promote_def
        within_deadbands_def Let_def dest: same_intent_analog split: option.splits if_splits)

text \<open>The host's protection answered for this pair of rows.\<close>

definition protect_fired ::
  "RNetInputContractFrame \<Rightarrow> RNetInputContractFrame \<Rightarrow> RNetInputContractParams
   \<Rightarrow> RNetInputContractHostGates option \<Rightarrow> bool" where
  "protect_fired published wire params gates \<longleftrightarrow>
     (\<exists>g f. gates = Some g \<and> protect_promote g = Some f \<and>
        f (rnet_input_contract_abs_s8_diff (cf_stick_x published) (cf_stick_x wire))
          (rnet_input_contract_abs_s8_diff (cf_stick_y published) (cf_stick_y wire))
          (micro_deadband params) (cf_is_predicted published))"

lemma gate_protect:
  "gate (\<lambda>g. case protect_promote g of None \<Rightarrow> None | Some f \<Rightarrow> Some (f dx dy m pr)) gates \<longleftrightarrow>
     (\<exists>g f. gates = Some g \<and> protect_promote g = Some f \<and> f dx dy m pr)"
  by (auto simp: gate_def split: option.splits)

text \<open>
  C16. The decision for a predicted row of a completed tick is exactly this. It survives in three
  ways only: the wire row is the same and the host does not force a rewind; the buttons agree and
  the host absorbs the difference; or the buttons agree, the stick is not being released, both
  sticks are analog with the same intent and agree on the dash gate, and either the host's
  protection fired for these very rows, or deadband promotion is not blocked, the drift is within
  the continuity deadband on both axes and the peers' state watermark confirmed the tick. A deadband
  alone never suffices.
\<close>

theorem predicted_promote_needs_confirmation:
  assumes "cf_is_predicted published \<noteq> 0"
  shows "\<not> rnet_input_contract_decision_is_rewind
       (rnet_input_contract_stick_replace_decide published wire True params gates) \<longleftrightarrow>
     (if rnet_input_contract_frame_gameplay_equals published wire
      then \<not> gate equal_predicted_force_rewind gates
      else cf_buttons published = cf_buttons wire \<and>
        (gate absorb_stick_replace gates \<or>
         \<not> rnet_input_contract_stick_replace_is_release published wire params \<and>
         rnet_input_contract_stick_same_analog_intent (cf_stick_x published) (cf_stick_y published)
           (cf_stick_x wire) (cf_stick_y wire) params \<and>
         \<not> rnet_input_contract_stick_dash_gate_disagree_x (cf_stick_x published) (cf_stick_x wire) params \<and>
         (protect_fired published wire params gates \<or>
          \<not> gate block_deadband_promote gates \<and> gate hash_confirm_promote gates \<and>
          rnet_input_contract_abs_s8_diff (cf_stick_x published) (cf_stick_x wire)
            \<le> int32_of (continuity_deadband params) \<and>
          rnet_input_contract_abs_s8_diff (cf_stick_y published) (cf_stick_y wire)
            \<le> int32_of (continuity_deadband params))))"
  using assms
  by (auto simp: rnet_input_contract_stick_replace_decide_def completed_promote_def Let_def gate_protect
        protect_fired_def dest: same_intent_analog split: option.splits if_splits)

definition hold_row :: "u8 \<Rightarrow> RNetInputContractFrame" where
  "hold_row predicted = \<lparr>cf_tick = 9, cf_buttons = 0xFFFF, cf_stick_x = 40, cf_stick_y = 3,
     cf_is_predicted = predicted\<rparr>"

definition wire_row :: RNetInputContractFrame where
  "wire_row = \<lparr>cf_tick = 9, cf_buttons = 0xFFFF, cf_stick_x = 42, cf_stick_y = 2,
     cf_is_predicted = 0\<rparr>"

definition watermark_gates :: RNetInputContractHostGates where
  "watermark_gates = \<lparr>equal_predicted_force_rewind = None, absorb_stick_replace = None,
     protect_promote = None, block_deadband_promote = None, hash_confirm_promote = Some True,
     defer_predicted_correction = None\<rparr>"

theorem predicted_promote_needs_confirmation_witness:
  "\<not> rnet_input_contract_decision_is_rewind (rnet_input_contract_stick_replace_decide (hold_row 1) wire_row True
       rnet_input_contract_params_init_defaults (Some watermark_gates)) \<and>
   rnet_input_contract_decision_is_rewind (rnet_input_contract_stick_replace_decide (hold_row 1) wire_row True
       rnet_input_contract_params_init_defaults (Some (watermark_gates\<lparr>hash_confirm_promote := None\<rparr>)))"
proof -
  have p: "cf_is_predicted (hold_row 1) \<noteq> 0" by (simp add: hold_row_def)
  have rows: "\<not> rnet_input_contract_frame_gameplay_equals (hold_row 1) wire_row"
    "cf_buttons (hold_row 1) = cf_buttons wire_row"
    "\<not> rnet_input_contract_stick_replace_is_release (hold_row 1) wire_row rnet_input_contract_params_init_defaults"
    "rnet_input_contract_stick_same_analog_intent (cf_stick_x (hold_row 1)) (cf_stick_y (hold_row 1))
       (cf_stick_x wire_row) (cf_stick_y wire_row) rnet_input_contract_params_init_defaults"
    "\<not> rnet_input_contract_stick_dash_gate_disagree_x (cf_stick_x (hold_row 1)) (cf_stick_x wire_row)
       rnet_input_contract_params_init_defaults"
    "rnet_input_contract_abs_s8_diff (cf_stick_x (hold_row 1)) (cf_stick_x wire_row)
       \<le> int32_of (continuity_deadband rnet_input_contract_params_init_defaults)"
    "rnet_input_contract_abs_s8_diff (cf_stick_y (hold_row 1)) (cf_stick_y wire_row)
       \<le> int32_of (continuity_deadband rnet_input_contract_params_init_defaults)"
    by code_simp+
  show ?thesis
    unfolding predicted_promote_needs_confirmation [OF p, of wire_row rnet_input_contract_params_init_defaults "Some watermark_gates"]
    using rows predicted_promote_needs_confirmation [OF p, of wire_row rnet_input_contract_params_init_defaults
      "Some (watermark_gates\<lparr>hash_confirm_promote := None\<rparr>)"]
    by (simp add: gate_def watermark_gates_def protect_fired_def)
qed

text \<open>
  Releases and button changes are never papered over: unless the row is identical or the host
  absorbed a stick-only difference, a release of the stick rewinds on both paths, and a button
  change rewinds once the tick has been simulated, whatever the other gates answer.
\<close>

theorem release_and_button_rewind:
  assumes "\<not> rnet_input_contract_frame_gameplay_equals published wire"
    and "\<not> (cf_buttons published = cf_buttons wire \<and> gate absorb_stick_replace gates)"
    and "rnet_input_contract_stick_replace_is_release published wire params \<or>
         completed_sim \<and> cf_buttons published \<noteq> cf_buttons wire"
  shows "rnet_input_contract_stick_replace_decide published wire completed_sim params gates = Rewind"
  using assms by (auto simp: rnet_input_contract_stick_replace_decide_def)

theorem release_and_button_rewind_witness:
  "rnet_input_contract_stick_replace_decide (hold_row 0) (wire_row\<lparr>cf_stick_x := 0\<rparr>) False
     rnet_input_contract_params_init_defaults (Some watermark_gates) = Rewind"
proof (rule release_and_button_rewind)
  show "\<not> rnet_input_contract_frame_gameplay_equals (hold_row 0) (wire_row\<lparr>cf_stick_x := 0\<rparr>)"
    "\<not> (cf_buttons (hold_row 0) = cf_buttons (wire_row\<lparr>cf_stick_x := 0\<rparr>) \<and>
        gate absorb_stick_replace (Some watermark_gates))"
    "rnet_input_contract_stick_replace_is_release (hold_row 0) (wire_row\<lparr>cf_stick_x := 0\<rparr>)
       rnet_input_contract_params_init_defaults \<or>
     False \<and> cf_buttons (hold_row 0) \<noteq> cf_buttons (wire_row\<lparr>cf_stick_x := 0\<rparr>)"
    by code_simp+
qed

text \<open>
  With the default parameters and no host gates, a row that stays published for a completed
  tick differs from the wire row by at most 12 units per stick axis, and not in the buttons.
\<close>

theorem default_promote_drift:
  assumes "\<not> rnet_input_contract_decision_is_rewind
     (rnet_input_contract_stick_replace_decide published wire True
        rnet_input_contract_params_init_defaults None)"
  shows "cf_buttons published = cf_buttons wire \<and>
     \<bar>sint (cf_stick_x published) - sint (cf_stick_x wire)\<bar> \<le> 12 \<and>
     \<bar>sint (cf_stick_y published) - sint (cf_stick_y wire)\<bar> \<le> 12"
proof -
  have diff: "rnet_input_contract_abs_s8_diff a b = \<bar>sint a - sint b\<bar>" for a b
    by (simp add: rnet_input_contract_abs_s8_diff_def Let_def)
  have "int32_of 3 = 3" "int32_of 12 = 12" by code_simp+
  with assms show ?thesis
    by (auto simp: rnet_input_contract_stick_replace_decide_def completed_promote_def diff
          rnet_input_contract_params_init_defaults_def Let_def
          rnet_input_contract_frame_gameplay_equals_def split: option.splits if_splits)
qed

theorem default_promote_drift_witness:
  "\<not> rnet_input_contract_decision_is_rewind
     (rnet_input_contract_stick_replace_decide (hold_row 0) wire_row True
        rnet_input_contract_params_init_defaults None) \<and>
   \<bar>sint (cf_stick_x (hold_row 0)) - sint (cf_stick_x wire_row)\<bar> \<le> 12"
proof -
  have h: "\<not> rnet_input_contract_decision_is_rewind
     (rnet_input_contract_stick_replace_decide (hold_row 0) wire_row True
        rnet_input_contract_params_init_defaults None)"
    by code_simp
  from h default_promote_drift [OF h] show ?thesis by blast
qed

lemma tolerance_selects:
  fixes params :: RNetInputContractParams
  shows "confirmed_deadband (params\<lparr>same_intent_tolerance := x\<rparr>) = confirmed_deadband params"
    and "predict_deadband (params\<lparr>same_intent_tolerance := x\<rparr>) = predict_deadband params"
    and "micro_deadband (params\<lparr>same_intent_tolerance := x\<rparr>) = micro_deadband params"
    and "continuity_deadband (params\<lparr>same_intent_tolerance := x\<rparr>) = continuity_deadband params"
    and "analog_min_mag (params\<lparr>same_intent_tolerance := x\<rparr>) = analog_min_mag params"
    and "same_intent_min_active (params\<lparr>same_intent_tolerance := x\<rparr>) = same_intent_min_active params"
    and "onset_facing_thresh (params\<lparr>same_intent_tolerance := x\<rparr>) = onset_facing_thresh params"
    and "onset_large_delta (params\<lparr>same_intent_tolerance := x\<rparr>) = onset_large_delta params"
    and "dash_gate_min (params\<lparr>same_intent_tolerance := x\<rparr>) = dash_gate_min params"
    and "digital_axis_mag (params\<lparr>same_intent_tolerance := x\<rparr>) = digital_axis_mag params"
  by simp_all

lemma predict_deadband_selects:
  fixes params :: RNetInputContractParams
  shows "confirmed_deadband (params\<lparr>predict_deadband := x\<rparr>) = confirmed_deadband params"
    and "micro_deadband (params\<lparr>predict_deadband := x\<rparr>) = micro_deadband params"
    and "continuity_deadband (params\<lparr>predict_deadband := x\<rparr>) = continuity_deadband params"
    and "analog_min_mag (params\<lparr>predict_deadband := x\<rparr>) = analog_min_mag params"
    and "same_intent_min_active (params\<lparr>predict_deadband := x\<rparr>) = same_intent_min_active params"
    and "same_intent_tolerance (params\<lparr>predict_deadband := x\<rparr>) = same_intent_tolerance params"
    and "onset_facing_thresh (params\<lparr>predict_deadband := x\<rparr>) = onset_facing_thresh params"
    and "onset_large_delta (params\<lparr>predict_deadband := x\<rparr>) = onset_large_delta params"
    and "dash_gate_min (params\<lparr>predict_deadband := x\<rparr>) = dash_gate_min params"
    and "digital_axis_mag (params\<lparr>predict_deadband := x\<rparr>) = digital_axis_mag params"
  by simp_all

lemma tolerance_unused:
  fixes params :: RNetInputContractParams and x :: u32
  defines "q \<equiv> params\<lparr>same_intent_tolerance := x\<rparr>"
  shows "rnet_input_contract_stick_looks_analog a b q =
      rnet_input_contract_stick_looks_analog a b params"
    and "rnet_input_contract_stick_same_analog_intent a b c d q =
      rnet_input_contract_stick_same_analog_intent a b c d params"
    and "rnet_input_contract_false_digital_heuristic_mismatch f g q =
      rnet_input_contract_false_digital_heuristic_mismatch f g params"
    and "rnet_input_contract_stick_dash_gate_disagree_x a b q =
      rnet_input_contract_stick_dash_gate_disagree_x a b params"
    and "rnet_input_contract_stick_replace_is_release f g q =
      rnet_input_contract_stick_replace_is_release f g params"
  unfolding q_def
  by (simp_all only: tolerance_selects rnet_input_contract_stick_looks_analog_def
        rnet_input_contract_stick_axis_is_digital_def
        rnet_input_contract_stick_same_analog_intent_def
        rnet_input_contract_false_digital_heuristic_mismatch_def
        rnet_input_contract_stick_dash_gate_disagree_x_def
        rnet_input_contract_stick_dash_gate_active_x_def
        rnet_input_contract_stick_replace_is_release_def)

lemma predict_deadband_unused:
  fixes params :: RNetInputContractParams and x :: u32
  defines "q \<equiv> params\<lparr>predict_deadband := x\<rparr>"
  shows "rnet_input_contract_stick_looks_analog a b q =
      rnet_input_contract_stick_looks_analog a b params"
    and "rnet_input_contract_stick_same_analog_intent a b c d q =
      rnet_input_contract_stick_same_analog_intent a b c d params"
    and "rnet_input_contract_false_digital_heuristic_mismatch f g q =
      rnet_input_contract_false_digital_heuristic_mismatch f g params"
    and "rnet_input_contract_stick_dash_gate_disagree_x a b q =
      rnet_input_contract_stick_dash_gate_disagree_x a b params"
    and "rnet_input_contract_stick_replace_is_release f g q =
      rnet_input_contract_stick_replace_is_release f g params"
  unfolding q_def
  by (simp_all only: predict_deadband_selects rnet_input_contract_stick_looks_analog_def
        rnet_input_contract_stick_axis_is_digital_def
        rnet_input_contract_stick_same_analog_intent_def
        rnet_input_contract_false_digital_heuristic_mismatch_def
        rnet_input_contract_stick_dash_gate_disagree_x_def
        rnet_input_contract_stick_dash_gate_active_x_def
        rnet_input_contract_stick_replace_is_release_def)

lemma significant_tolerance:
  "rnet_input_contract_correction_is_significant old_frame new_frame predicted
     (params\<lparr>same_intent_tolerance := x\<rparr>) =
   rnet_input_contract_correction_is_significant old_frame new_frame predicted params"
  by (simp only: rnet_input_contract_correction_is_significant_def Let_def tolerance_unused
        tolerance_selects if_cancel)

lemma significant_predict_deadband:
  "rnet_input_contract_correction_is_significant old_frame new_frame False
     (params\<lparr>predict_deadband := x\<rparr>) =
   rnet_input_contract_correction_is_significant old_frame new_frame False params"
  by (simp only: rnet_input_contract_correction_is_significant_def Let_def predict_deadband_unused
        predict_deadband_selects if_cancel simp_thms if_True if_False)

text \<open>
  Two parameters have no effect where the header says they have one: the significance test
  gives the same answer for every \<^verbatim>\<open>same_intent_tolerance\<close>, and the decision for every
  \<^verbatim>\<open>same_intent_tolerance\<close> and every \<^verbatim>\<open>predict_deadband\<close>.
\<close>

theorem dead_parameters:
  "rnet_input_contract_correction_is_significant old_frame new_frame predicted
     (params\<lparr>same_intent_tolerance := x\<rparr>) =
   rnet_input_contract_correction_is_significant old_frame new_frame predicted params \<and>
   rnet_input_contract_stick_replace_decide published wire completed
     (params\<lparr>same_intent_tolerance := x, predict_deadband := y\<rparr>) gates =
   rnet_input_contract_stick_replace_decide published wire completed params gates"
  by (simp only: significant_tolerance significant_predict_deadband tolerance_unused
        predict_deadband_unused rnet_input_contract_stick_replace_decide_def completed_promote_def
        Let_def tolerance_selects predict_deadband_selects simp_thms)

end
