(* ===== verification/RNet_History.thy ===== *)
theory RNet_History
  imports RNet_Contract
begin

text \<open>
  The per-seat input history of the rollback path (\<^verbatim>\<open>src/input/rnet_input_hist.c\<close>) over the opaque
  input row \<^verbatim>\<open>RNetRbFrame\<close> of \<^verbatim>\<open>include/recomp_net/rollback.h\<close>. Each seat's row table is a
  \<open>tick_ring\<close>; invention of missing rows and their later promotion are specified against it.
\<close>

section \<open>Rows and the history\<close>

record RNetRbFrame =
  fr_tick :: u32
  fr_buttons :: u16
  fr_stick_x :: s8
  fr_stick_y :: s8
  fr_is_predicted :: u8
  fr_is_valid :: u8
  fr_analog :: u8
  fr_rx :: u8
  fr_ry :: u8

definition zero_frame :: RNetRbFrame where
  "zero_frame = \<lparr>fr_tick = 0, fr_buttons = 0, fr_stick_x = 0, fr_stick_y = 0, fr_is_predicted = 0,
     fr_is_valid = 0, fr_analog = 0, fr_rx = 0, fr_ry = 0\<rparr>"

text \<open>Copying the presented pad (everything but tick and flags) from one row to another.\<close>

definition copy_pad :: "RNetRbFrame \<Rightarrow> RNetRbFrame \<Rightarrow> RNetRbFrame" where
  "copy_pad src dst = dst\<lparr>fr_buttons := fr_buttons src, fr_stick_x := fr_stick_x src,
     fr_stick_y := fr_stick_y src, fr_analog := fr_analog src, fr_rx := fr_rx src,
     fr_ry := fr_ry src\<rparr>"

record RNetInputHist =
  ih_rows :: "RNetRbFrame list list"
  ih_slot_count :: int
  ih_invent_count :: u32
  ih_promote_count :: u32
  ih_rewind_count :: u32
  ih_neutral :: "RNetRbFrame list"

definition rnet_ih_reset :: "int \<Rightarrow> RNetInputHist" where
  "rnet_ih_reset slot_count =
     \<lparr>ih_rows = replicate 8 (replicate 128 zero_frame),
      ih_slot_count = (if slot_count < 1 then 1 else if slot_count > 8 then 8 else slot_count),
      ih_invent_count = 0, ih_promote_count = 0, ih_rewind_count = 0,
      ih_neutral = replicate 8 (zero_frame\<lparr>fr_buttons := 0xFFFF\<rparr>)\<rparr>"

definition rnet_ih_set_neutral :: "RNetInputHist \<Rightarrow> int \<Rightarrow> RNetRbFrame \<Rightarrow> RNetInputHist option" where
  "rnet_ih_set_neutral h slot neutral =
     (if slot < 0 \<or> slot \<ge> 8 then None
      else Some (h\<lparr>ih_neutral := (ih_neutral h)[nat slot := copy_pad neutral zero_frame]\<rparr>))"

definition rnet_ih_frame_to_contract :: "RNetRbFrame option \<Rightarrow> RNetInputContractFrame" where
  "rnet_ih_frame_to_contract frame =
     (case frame of
        None \<Rightarrow> \<lparr>cf_tick = 0, cf_buttons = 0, cf_stick_x = 0, cf_stick_y = 0, cf_is_predicted = 0\<rparr>
      | Some f \<Rightarrow> \<lparr>cf_tick = fr_tick f, cf_buttons = fr_buttons f, cf_stick_x = fr_stick_x f,
          cf_stick_y = fr_stick_y f, cf_is_predicted = (if fr_is_predicted f \<noteq> 0 then 1 else 0)\<rparr>)"

definition rnet_ih_put :: "RNetInputHist \<Rightarrow> int \<Rightarrow> RNetRbFrame \<Rightarrow> RNetInputHist option" where
  "rnet_ih_put h slot frame =
     (if fr_is_valid frame = 0 then None
      else if slot < 0 \<or> slot \<ge> ih_slot_count h then None
      else Some (h\<lparr>ih_rows := (ih_rows h)[nat slot :=
             (ih_rows h ! nat slot)[ring_slot (fr_tick frame) := frame\<lparr>fr_is_valid := 1\<rparr>]]\<rparr>))"

definition rnet_ih_get :: "RNetInputHist \<Rightarrow> int \<Rightarrow> u32 \<Rightarrow> RNetRbFrame option" where
  "rnet_ih_get h slot tick =
     (if slot < 0 \<or> slot \<ge> ih_slot_count h then None
      else let src = ih_rows h ! nat slot ! ring_slot tick in
        if fr_is_valid src = 0 \<or> fr_tick src \<noteq> tick then None else Some src)"

text \<open>The backward search of both invention routines, from \<open>look\<close> on.\<close>

function look_back :: "RNetInputHist \<Rightarrow> int \<Rightarrow> u32 \<Rightarrow> nat \<Rightarrow> RNetRbFrame option" where
  "look_back h slot tick look =
     (if look \<ge> 128 then None
      else if unat tick < look then None
      else case rnet_ih_get h slot (tick - of_nat look) of
             Some prev \<Rightarrow> Some prev
           | None \<Rightarrow> look_back h slot tick (Suc look))"
  by pat_completeness auto
termination
  by (relation "measure (\<lambda>(h, slot, tick, look). 128 - look)") auto

declare look_back.simps [simp del]

definition neutral_row :: "RNetInputHist \<Rightarrow> int \<Rightarrow> u32 \<Rightarrow> RNetRbFrame" where
  "neutral_row h slot tick = copy_pad (ih_neutral h ! nat slot)
     (zero_frame\<lparr>fr_tick := tick, fr_is_predicted := 1, fr_is_valid := 1\<rparr>)"

definition rnet_ih_invent_hold_last ::
  "RNetInputHist \<Rightarrow> int \<Rightarrow> u32 \<Rightarrow> (RNetInputHist \<times> RNetRbFrame) option" where
  "rnet_ih_invent_hold_last h slot tick =
     (if slot < 0 \<or> slot \<ge> ih_slot_count h then None
      else let invented = (case look_back h slot tick 1 of
                             Some prev \<Rightarrow> copy_pad prev (neutral_row h slot tick)
                           | None \<Rightarrow> neutral_row h slot tick) in
        case rnet_ih_put h slot invented of
          None \<Rightarrow> None
        | Some h' \<Rightarrow> Some (h'\<lparr>ih_invent_count := ih_invent_count h' + 1\<rparr>, invented))"

definition rnet_ih_invent_idle ::
  "RNetInputHist \<Rightarrow> int \<Rightarrow> u32 \<Rightarrow> (RNetInputHist \<times> RNetRbFrame) option" where
  "rnet_ih_invent_idle h slot tick =
     (if slot < 0 \<or> slot \<ge> ih_slot_count h then None
      else let invented = (case look_back h slot tick 1 of
                             Some prev \<Rightarrow> (neutral_row h slot tick)\<lparr>fr_analog := fr_analog prev\<rparr>
                           | None \<Rightarrow> neutral_row h slot tick) in
        case rnet_ih_put h slot invented of
          None \<Rightarrow> None
        | Some h' \<Rightarrow> Some (h'\<lparr>ih_invent_count := ih_invent_count h' + 1\<rparr>, invented))"

definition rnet_ih_promote :: "RNetInputHist \<Rightarrow> int \<Rightarrow> RNetRbFrame \<Rightarrow> RNetInputHist option" where
  "rnet_ih_promote h slot wire =
     (if fr_is_valid wire = 0 then None
      else case rnet_ih_put h slot (wire\<lparr>fr_is_predicted := 0, fr_is_valid := 1\<rparr>) of
             None \<Rightarrow> None
           | Some h' \<Rightarrow> Some (h'\<lparr>ih_promote_count := ih_promote_count h' + 1\<rparr>))"

section \<open>The history is a table of rings\<close>

definition ih_inv :: "RNetInputHist \<Rightarrow> bool" where
  "ih_inv h \<longleftrightarrow> length (ih_rows h) = 8 \<and> (\<forall>r \<in> set (ih_rows h). length r = 128) \<and>
     1 \<le> ih_slot_count h \<and> ih_slot_count h \<le> 8 \<and> length (ih_neutral h) = 8"

abbreviation seat_ok :: "RNetInputHist \<Rightarrow> int \<Rightarrow> bool" where
  "seat_ok h slot \<equiv> 0 \<le> slot \<and> slot < ih_slot_count h"

lemma ih_inv_reset: "ih_inv (rnet_ih_reset n)"
  by (simp add: ih_inv_def rnet_ih_reset_def)

lemma ih_inv_set_neutral: "ih_inv h \<Longrightarrow> rnet_ih_set_neutral h slot f = Some h' \<Longrightarrow> ih_inv h'"
  by (auto simp: ih_inv_def rnet_ih_set_neutral_def split: if_splits)

lemma ih_put_spec:
  "fr_is_valid f \<noteq> 0 \<Longrightarrow> seat_ok h slot \<Longrightarrow> rnet_ih_put h slot f = Some (h\<lparr>ih_rows := (ih_rows h)
     [nat slot := (ih_rows h ! nat slot)[ring_slot (fr_tick f) := f\<lparr>fr_is_valid := 1\<rparr>]]\<rparr>)"
  by (simp add: rnet_ih_put_def)

lemma ih_inv_put: "ih_inv h \<Longrightarrow> rnet_ih_put h slot f = Some h' \<Longrightarrow>
    ih_inv h' \<and> ih_slot_count h' = ih_slot_count h \<and> ih_neutral h' = ih_neutral h"
  by (auto simp: ih_inv_def rnet_ih_put_def dest!: subsetD [OF set_update_subset_insert]
        split: if_splits)

text \<open>What a get returns after a put, for every seat and tick.\<close>

lemma ih_get_put:
  assumes "ih_inv h" "rnet_ih_put h slot f = Some h'"
  shows "rnet_ih_get h' slot' tick =
     (if slot' = slot \<and> tick = fr_tick f then Some (f\<lparr>fr_is_valid := 1\<rparr>)
      else if slot' = slot \<and> ring_slot tick = ring_slot (fr_tick f) then None
      else rnet_ih_get h slot' tick)"
proof -
  from assms(2) have s: "seat_ok h slot" and
    h': "h' = h\<lparr>ih_rows := (ih_rows h)
      [nat slot := (ih_rows h ! nat slot)[ring_slot (fr_tick f) := f\<lparr>fr_is_valid := 1\<rparr>]]\<rparr>"
    by (auto simp: rnet_ih_put_def split: if_splits)
  from assms(1) s have len: "nat slot < length (ih_rows h)" "length (ih_rows h ! nat slot) = 128"
    by (auto simp: ih_inv_def)
  show ?thesis
    using len s unfolding h' by (auto simp: rnet_ih_get_def Let_def nth_list_update)
qed

interpretation hist_ring: tick_ring "\<lambda>h. ih_inv h \<and> seat_ok h slot"
  "\<lambda>t f. fr_is_valid f = 1 \<and> fr_tick f = t"
  "\<lambda>h t f. case rnet_ih_put h slot f of None \<Rightarrow> h | Some h' \<Rightarrow> h'" "\<lambda>h. rnet_ih_get h slot" for slot
proof (unfold_locales, goal_cases)
  case (1 h t f)
  then show ?case by (auto split: option.splits dest: ih_inv_put)
next
  case (2 h t f u)
  then obtain h' where "rnet_ih_put h slot f = Some h'" by (simp add: ih_put_spec)
  with 2 show ?case by (auto simp: ih_get_put)
qed

text \<open>The operations of a history after its reset, each keeping the table well formed.\<close>

datatype ih_op =
    IhPut int RNetRbFrame
  | IhPromote int RNetRbFrame
  | IhHoldLast int u32
  | IhIdle int u32
  | IhNeutral int RNetRbFrame

definition or_same :: "'s \<Rightarrow> 's option \<Rightarrow> 's" where
  "or_same s r = (case r of None \<Rightarrow> s | Some s' \<Rightarrow> s')"

fun ih_step :: "RNetInputHist \<Rightarrow> ih_op \<Rightarrow> RNetInputHist" where
  "ih_step h (IhPut slot f) = or_same h (rnet_ih_put h slot f)"
| "ih_step h (IhPromote slot f) = or_same h (rnet_ih_promote h slot f)"
| "ih_step h (IhHoldLast slot t) = or_same h (map_option fst (rnet_ih_invent_hold_last h slot t))"
| "ih_step h (IhIdle slot t) = or_same h (map_option fst (rnet_ih_invent_idle h slot t))"
| "ih_step h (IhNeutral slot f) = or_same h (rnet_ih_set_neutral h slot f)"

lemma ih_inv_counts [simp]:
  "ih_inv (h\<lparr>ih_invent_count := n\<rparr>) = ih_inv h" "ih_inv (h\<lparr>ih_promote_count := n\<rparr>) = ih_inv h"
  "rnet_ih_get (h\<lparr>ih_invent_count := n\<rparr>) = rnet_ih_get h"
  "rnet_ih_get (h\<lparr>ih_promote_count := n\<rparr>) = rnet_ih_get h"
  by (auto simp: ih_inv_def rnet_ih_get_def fun_eq_iff)

interpretation hist_ops: op_system ih_inv ih_step
proof
  fix h opn assume h: "ih_inv h"
  then show "ih_inv (ih_step h opn)"
    by (cases opn) (auto simp: or_same_def rnet_ih_promote_def rnet_ih_invent_hold_last_def
      rnet_ih_invent_idle_def Let_def split: option.splits
      dest: ih_inv_put ih_inv_set_neutral)
qed

section \<open>Invention and promotion\<close>

text \<open>The most recent row among the 127 ticks before \<open>tick\<close>, if there is one.\<close>

definition nearest_row :: "RNetInputHist \<Rightarrow> int \<Rightarrow> u32 \<Rightarrow> RNetRbFrame option" where
  "nearest_row h slot tick =
     (case filter (\<lambda>k. rnet_ih_get h slot (tick - of_nat k) \<noteq> None) [1..<min 128 (Suc (unat tick))] of
        [] \<Rightarrow> None
      | k # ks \<Rightarrow> rnet_ih_get h slot (tick - of_nat k))"

lemma look_back_filter:
  "n = min 128 (Suc (unat tick)) \<Longrightarrow> look_back h slot tick look =
     (case filter (\<lambda>k. rnet_ih_get h slot (tick - of_nat k) \<noteq> None) [look..<n] of
        [] \<Rightarrow> None
      | k # ks \<Rightarrow> rnet_ih_get h slot (tick - of_nat k))"
proof (induction h slot tick look rule: look_back.induct)
  case (1 h slot tick look)
  show ?case
  proof (cases "look < n")
    case True
    then have c: "\<not> 128 \<le> look" "\<not> unat tick < look" using "1.prems" by auto
    show ?thesis
      using "1.IH" [OF c _ "1.prems"] c
      unfolding look_back.simps [of h slot tick look] upt_conv_Cons [OF True]
      by (cases "rnet_ih_get h slot (tick - of_nat look)") auto
  next
    case False
    then show ?thesis using "1.prems" by (auto simp: look_back.simps)
  qed
qed

lemma look_back_nearest: "look_back h slot tick 1 = nearest_row h slot tick"
  unfolding nearest_row_def by (rule look_back_filter) (rule refl)

lemma copy_pad_copy_pad [simp]: "copy_pad a (copy_pad b c) = copy_pad a c"
  by (simp add: copy_pad_def)

lemma copy_pad_selects [simp]:
  "fr_tick (copy_pad a b) = fr_tick b" "fr_is_predicted (copy_pad a b) = fr_is_predicted b"
  "fr_is_valid (copy_pad a b) = fr_is_valid b"
  by (simp_all add: copy_pad_def)

definition held_row :: "RNetInputHist \<Rightarrow> int \<Rightarrow> u32 \<Rightarrow> RNetRbFrame" where
  "held_row h slot tick =
     copy_pad (case nearest_row h slot tick of Some prev \<Rightarrow> prev | None \<Rightarrow> ih_neutral h ! nat slot)
       (zero_frame\<lparr>fr_tick := tick, fr_is_predicted := 1, fr_is_valid := 1\<rparr>)"

lemma held_row_flags [simp]:
  "fr_tick (held_row h slot tick) = tick" "fr_is_predicted (held_row h slot tick) = 1"
  "fr_is_valid (held_row h slot tick) = 1"
  by (simp_all add: held_row_def)

lemma frame_valid_same: "fr_is_valid f = 1 \<Longrightarrow> f\<lparr>fr_is_valid := 1\<rparr> = f"
  by simp

lemma invent_hold_last_held:
  assumes "ih_inv h" "seat_ok h slot"
  obtains h' where "rnet_ih_invent_hold_last h slot tick = Some (h', held_row h slot tick)"
    and "ih_inv h'" and "ih_slot_count h' = ih_slot_count h"
    and "\<And>slot' tick'. rnet_ih_get h' slot' tick' =
      (if slot' = slot \<and> tick' = tick then Some (held_row h slot tick)
       else if slot' = slot \<and> ring_slot tick' = ring_slot tick then None
       else rnet_ih_get h slot' tick')"
proof -
  let ?f = "held_row h slot tick"
  have inv: "(case look_back h slot tick 1 of
      Some prev \<Rightarrow> copy_pad prev (neutral_row h slot tick) | None \<Rightarrow> neutral_row h slot tick) = ?f"
    unfolding look_back_nearest held_row_def
    by (auto simp: neutral_row_def split: option.splits)
  obtain h1 where put: "rnet_ih_put h slot ?f = Some h1"
    using assms(2) by (simp add: ih_put_spec)
  from assms(2) put have "rnet_ih_invent_hold_last h slot tick =
      Some (h1\<lparr>ih_invent_count := ih_invent_count h1 + 1\<rparr>, ?f)"
    unfolding rnet_ih_invent_hold_last_def inv by (simp add: Let_def)
  then show thesis
    by (rule that) (use ih_inv_put [OF assms(1) put] ih_get_put [OF assms(1) put] in auto)
qed

text \<open>
  C17. Hold-last invention: for a seat of the match the invention always succeeds; the row it
  stores and returns is marked predicted, repeats the pad of the most recent row within the 127
  ticks before (the seat's neutral pad if there is none), is what a get then returns, and no row
  of another seat or of another ring position is touched.
\<close>

theorem hold_last_repeats_nearest:
  assumes "ih_inv h" and "seat_ok h slot"
  shows "\<exists>h'. rnet_ih_invent_hold_last h slot tick = Some (h', held_row h slot tick) \<and> ih_inv h' \<and>
     (\<forall>slot' tick'. rnet_ih_get h' slot' tick' =
        (if slot' = slot \<and> tick' = tick then Some (held_row h slot tick)
         else if slot' = slot \<and> ring_slot tick' = ring_slot tick then None
         else rnet_ih_get h slot' tick'))"
  using invent_hold_last_held [OF assms, of tick] by metis

definition pressed_row :: RNetRbFrame where
  "pressed_row = zero_frame\<lparr>fr_tick := 7, fr_buttons := 0xFFFE, fr_stick_x := 5, fr_analog := 1,
     fr_is_valid := 1\<rparr>"

definition sample_hist :: RNetInputHist where
  "sample_hist = or_same (rnet_ih_reset 2) (rnet_ih_put (rnet_ih_reset 2) 1 pressed_row)"

lemma sample_hist_ok: "ih_inv sample_hist" "seat_ok sample_hist 1"
proof -
  obtain h where h: "rnet_ih_put (rnet_ih_reset 2) 1 pressed_row = Some h"
    using ih_put_spec [of pressed_row 1 "rnet_ih_reset 2"]
    by (simp add: pressed_row_def rnet_ih_reset_def)
  then have "sample_hist = h" by (simp add: sample_hist_def or_same_def)
  moreover have "ih_slot_count (rnet_ih_reset 2) = 2" by (simp add: rnet_ih_reset_def)
  ultimately show "ih_inv sample_hist" "seat_ok sample_hist 1"
    using ih_inv_put [OF ih_inv_reset h] by simp_all
qed

theorem hold_last_repeats_nearest_witness:
  "ih_inv sample_hist \<and> seat_ok sample_hist 1 \<and> fr_buttons (held_row sample_hist 1 9) = 0xFFFE \<and>
   (\<exists>h'. rnet_ih_invent_hold_last sample_hist 1 9 = Some (h', held_row sample_hist 1 9))"
proof -
  have "fr_buttons (held_row sample_hist 1 9) = 0xFFFE" by code_simp
  with hold_last_repeats_nearest [OF sample_hist_ok, of 9] sample_hist_ok show ?thesis by blast
qed

lemma promote_spec:
  assumes "ih_inv h" "seat_ok h slot" "fr_is_valid wire \<noteq> 0"
  obtains h' where "rnet_ih_promote h slot wire = Some h'" and "ih_inv h'"
    and "ih_slot_count h' = ih_slot_count h"
    and "\<And>tick. rnet_ih_get h' slot tick =
      (if tick = fr_tick wire then Some (wire\<lparr>fr_is_predicted := 0, fr_is_valid := 1\<rparr>)
       else if ring_slot tick = ring_slot (fr_tick wire) then None
       else rnet_ih_get h slot tick)"
proof -
  let ?w = "wire\<lparr>fr_is_predicted := 0, fr_is_valid := 1\<rparr>"
  obtain h1 where put: "rnet_ih_put h slot ?w = Some h1"
    using assms(2) by (simp add: ih_put_spec)
  with assms(3) have "rnet_ih_promote h slot wire =
      Some (h1\<lparr>ih_promote_count := ih_promote_count h1 + 1\<rparr>)"
    by (simp add: rnet_ih_promote_def)
  then show thesis
    by (rule that) (use ih_inv_put [OF assms(1) put] ih_get_put [OF assms(1) put] in auto)
qed

text \<open>
  A late wire row takes over: promoting it replaces whatever was published for its tick,
  clears the predicted flag, and from then on the tick after it is predicted from the real pad,
  not from the earlier guess.
\<close>

theorem promote_then_hold_last:
  assumes "ih_inv h" and "seat_ok h slot" and "fr_is_valid wire \<noteq> 0" and "fr_tick wire + 1 \<noteq> 0"
  shows "\<exists>h1 h2 f. rnet_ih_promote h slot wire = Some h1 \<and>
     rnet_ih_get h1 slot (fr_tick wire) = Some (wire\<lparr>fr_is_predicted := 0, fr_is_valid := 1\<rparr>) \<and>
     rnet_ih_invent_hold_last h1 slot (fr_tick wire + 1) = Some (h2, f) \<and>
     f = copy_pad wire (zero_frame\<lparr>fr_tick := fr_tick wire + 1, fr_is_predicted := 1,
           fr_is_valid := 1\<rparr>)"
proof -
  let ?t = "fr_tick wire" and ?w = "wire\<lparr>fr_is_predicted := 0, fr_is_valid := 1\<rparr>"
  obtain h1 where h1: "rnet_ih_promote h slot wire = Some h1" "ih_inv h1"
    "ih_slot_count h1 = ih_slot_count h" and get: "rnet_ih_get h1 slot ?t = Some ?w"
    using promote_spec [OF assms(1,2,3)] by metis
  have "unat (?t + 1) = Suc (unat ?t)"
    using assms(4) by (metis add.commute unatSuc)
  then have "[1..<min 128 (Suc (unat (?t + 1)))] = 1 # [2..<min 128 (Suc (unat (?t + 1)))]"
    by (simp add: upt_conv_Cons numeral_2_eq_2 del: upt_Suc)
  then have "nearest_row h1 slot (?t + 1) = Some ?w"
    unfolding nearest_row_def by (simp add: get)
  then have "held_row h1 slot (?t + 1) = copy_pad wire
      (zero_frame\<lparr>fr_tick := ?t + 1, fr_is_predicted := 1, fr_is_valid := 1\<rparr>)"
    by (simp add: held_row_def copy_pad_def)
  moreover obtain h2 where
    "rnet_ih_invent_hold_last h1 slot (?t + 1) = Some (h2, held_row h1 slot (?t + 1))"
    using invent_hold_last_held [OF h1(2), of slot "?t + 1"] assms(2) h1(3) by metis
  ultimately show ?thesis using h1(1) get by auto
qed

theorem promote_then_hold_last_witness:
  "ih_inv sample_hist \<and> seat_ok sample_hist 1 \<and>
   (\<exists>h1 h2 f. rnet_ih_promote sample_hist 1 pressed_row = Some h1 \<and>
      rnet_ih_invent_hold_last h1 1 8 = Some (h2, f) \<and> fr_buttons f = 0xFFFE)"
proof -
  have 1: "fr_is_valid pressed_row \<noteq> 0" and 2: "fr_tick pressed_row + 1 \<noteq> 0"
    by (simp_all add: pressed_row_def)
  have 3: "fr_tick pressed_row + 1 = 8" "fr_buttons pressed_row = 0xFFFE"
    by (simp_all add: pressed_row_def)
  from promote_then_hold_last [OF sample_hist_ok 1 2] sample_hist_ok show ?thesis
    unfolding 3 by (auto simp: copy_pad_def 3)
qed

end
