(* ===== verification/RNet_Ctrl.thy ===== *)
theory RNet_Ctrl
  imports RNet_Session_State RNet_History
begin

text \<open>
  The control queues of a session: the frame-commit, episode-control and cable-transfer rings that
  \<^verbatim>\<open>handle_decoded\<close> fills and the \<^verbatim>\<open>rnet_session_take_*\<close> functions drain
  (\<^verbatim>\<open>src/session/rnet_session.c\<close>). The ring of the C code (array, head, tail, count) refines a
  plain list, \<open>q_contents\<close>: a message that repeats one still waiting is merged into it, a full
  queue sheds its oldest entry only when that belongs to an older episode, and refuses otherwise.
\<close>

section \<open>Ring primitives\<close>

definition q_at :: "'a RNetQueue \<Rightarrow> nat \<Rightarrow> nat" where
  "q_at q i = (q_tail q + i) mod length (q_slots q)"

definition q_put :: "'a RNetQueue \<Rightarrow> 'a \<Rightarrow> 'a RNetQueue" where
  "q_put q x = q\<lparr>q_slots := (q_slots q)[q_head q := x],
     q_head := (q_head q + 1) mod length (q_slots q), q_count := q_count q + 1\<rparr>"

definition q_drop :: "'a RNetQueue \<Rightarrow> 'a RNetQueue" where
  "q_drop q = q\<lparr>q_tail := (q_tail q + 1) mod length (q_slots q), q_count := q_count q - 1\<rparr>"

text \<open>The rings of frame commits and cable transfers make room by dropping the oldest entry.\<close>

definition q_put_latest :: "'a RNetQueue \<Rightarrow> 'a \<Rightarrow> 'a RNetQueue" where
  "q_put_latest q x =
     (if q_count q < length (q_slots q) then q_put q x else q_put (q_drop q) x)"

text \<open>The scan for a waiting message that the new one repeats: the array index of the first.\<close>

definition q_find :: "('a \<Rightarrow> bool) \<Rightarrow> 'a RNetQueue \<Rightarrow> nat option" where
  "q_find same q =
     map_option (q_at q) (List.find (\<lambda>i. same (q_slots q ! q_at q i)) [0..<q_count q])"

text \<open>
  The loop that sheds old entries while the queue is full. Each round lowers the count, so it ends.
\<close>

function q_shed :: "('a \<Rightarrow> bool) \<Rightarrow> 'a RNetQueue \<Rightarrow> 'a RNetQueue" where
  "q_shed old q =
     (if RNET_RB_CTRL_QUEUE \<le> q_count q \<and> old (q_slots q ! q_tail q) then q_shed old (q_drop q)
      else q)"
  by pat_completeness auto
termination by (relation "measure (\<lambda>(old, q). q_count q)") (auto simp: q_drop_def)

declare q_shed.simps [simp del]

definition q_take :: "'a RNetQueue \<Rightarrow> ('a \<times> 'a RNetQueue) option" where
  "q_take q = (if q_count q = 0 then None else Some (q_slots q ! q_tail q, q_drop q))"

definition q_clear :: "'a RNetQueue \<Rightarrow> 'a RNetQueue" where
  "q_clear q = q\<lparr>q_head := 0, q_tail := 0, q_count := 0\<rparr>"

section \<open>Arrival of control packets\<close>

text \<open>\<^verbatim>\<open>(rnet_s32)(a - b) < 0\<close>\<close>

definition rb_epoch_before :: "u32 \<Rightarrow> u32 \<Rightarrow> bool" where
  "rb_epoch_before a b \<longleftrightarrow> sint (a - b) < 0"

definition rb_ctrl_note_drop :: "RNetCtrl \<Rightarrow> RNetCtrl" where
  "rb_ctrl_note_drop c = c\<lparr>ct_dropped := ct_dropped c + 1\<rparr>"

text \<open>The filter of PSX-Link group scoping, \<^verbatim>\<open>rb_peer_slot >= 0 && local_slot != rb_peer_slot\<close>.\<close>

definition rb_filtered :: "RNetCtrl \<Rightarrow> RNetDecodedPacket \<Rightarrow> bool" where
  "rb_filtered c p \<longleftrightarrow> ct_peer_slot c \<ge> 0 \<and> uint (dp_local_slot p) \<noteq> ct_peer_slot c"

definition on_sio_multi_xfer :: "u8 \<Rightarrow> RNetCtrl \<Rightarrow> RNetDecodedPacket \<Rightarrow> RNetCtrl" where
  "on_sio_multi_xfer wslot c p =
     (if dp_local_slot p = wslot then c
      else c\<lparr>ct_sio_q := q_put_latest (ct_sio_q c)
        \<lparr>sx_seq = dp_sio_xfer_seq p, sx_send = dp_sio_send p,
         sx_confirm_pad = ucast (dp_sio_confirm p) OR push_bit 8 (ucast (dp_sio_vblank p)),
         sx_unit_id = dp_sio_unit_id p\<rparr>\<rparr>)"

definition on_rb_frame_commit :: "u8 \<Rightarrow> RNetCtrl \<Rightarrow> RNetDecodedPacket \<Rightarrow> RNetCtrl" where
  "on_rb_frame_commit wslot c p =
     (if dp_local_slot p = wslot then c
      else c\<lparr>ct_fc_q := q_put_latest (ct_fc_q c)
        \<lparr>fc_tick = dp_rb_through_tick p, fc_hash = dp_rb_state_hash p, fc_from = dp_local_slot p\<rparr>\<rparr>)"

definition on_rb_sync :: "u8 \<Rightarrow> RNetCtrl \<Rightarrow> RNetDecodedPacket \<Rightarrow> RNetCtrl" where
  "on_rb_sync wslot c p =
     (if rb_filtered c p \<or> dp_local_slot p = wslot then c
      else let q = ct_sync_q c;
               m = \<lparr>sy_epoch_id = dp_rb_epoch_id p, sy_mismatch_tick = dp_rb_mismatch_tick p,
                    sy_load_tick = dp_rb_load_tick p, sy_target_tick = dp_rb_target_tick p,
                    sy_corrected_slot = dp_rb_corrected_slot p, sy_initiator = dp_rb_initiator p,
                    sy_flags = dp_rb_flags p, sy_from = dp_local_slot p\<rparr>
           in if q_find (\<lambda>e. e = m) q \<noteq> None then c
              else if q_count q < RNET_RB_CTRL_QUEUE then c\<lparr>ct_sync_q := q_put q m\<rparr>
              else rb_ctrl_note_drop c)"

text \<open>The row array of the slot is overwritten only up to the row count.\<close>

definition on_rb_seal_rows :: "u8 \<Rightarrow> RNetCtrl \<Rightarrow> RNetDecodedPacket \<Rightarrow> RNetCtrl" where
  "on_rb_seal_rows wslot c p =
     (if dp_local_slot p = wslot then c
      else let q = ct_seal_q c;
               n = (if unat (dp_rb_row_count p) > RNET_RB_SEAL_ROWS_CHUNK_MAX
                    then of_nat RNET_RB_SEAL_ROWS_CHUNK_MAX else dp_rb_row_count p);
               same = (\<lambda>e. sl_from e = dp_local_slot p \<and> sl_epoch_id e = dp_rb_epoch_id p \<and>
                 sl_mismatch_tick e = dp_rb_mismatch_tick p \<and>
                 sl_target_tick e = dp_rb_target_tick p \<and> sl_slot e = dp_rb_slot p \<and>
                 sl_row_begin e = dp_rb_row_begin p \<and> sl_row_count e = n)
           in if q_find same q \<noteq> None then c
              else let q' = q_shed (\<lambda>e. rb_epoch_before (sl_epoch_id e) (dp_rb_epoch_id p)) q;
                       c' = c\<lparr>ct_seal_q := q'\<rparr>
                   in if q_count q' < RNET_RB_CTRL_QUEUE
                      then c'\<lparr>ct_seal_q := q_put q'
                        \<lparr>sl_epoch_id = dp_rb_epoch_id p, sl_mismatch_tick = dp_rb_mismatch_tick p,
                         sl_target_tick = dp_rb_target_tick p, sl_row_begin = dp_rb_row_begin p,
                         sl_slot = dp_rb_slot p, sl_row_count = n,
                         sl_rows = take (unat n) (dp_rb_rows p) @
                           drop (unat n) (sl_rows (q_slots q' ! q_head q')),
                         sl_from = dp_local_slot p\<rparr>\<rparr>
                      else rb_ctrl_note_drop c')"

definition on_rb_baseline :: "u8 \<Rightarrow> RNetCtrl \<Rightarrow> RNetDecodedPacket \<Rightarrow> RNetCtrl" where
  "on_rb_baseline wslot c p =
     (if rb_filtered c p \<or> dp_local_slot p = wslot then c
      else let q = ct_base_q c;
               m = \<lparr>bs_epoch_id = dp_rb_epoch_id p, bs_load_tick = dp_rb_load_tick p,
                    bs_digest_master = dp_rb_digest_master p, bs_digest_a = dp_rb_digest_a p,
                    bs_digest_b = dp_rb_digest_b p, bs_digest_c = dp_rb_digest_c p,
                    bs_from = dp_local_slot p\<rparr>;
               same = (\<lambda>e. bs_from e = dp_local_slot p \<and> bs_epoch_id e = dp_rb_epoch_id p \<and>
                 bs_load_tick e = dp_rb_load_tick p)
           in case q_find same q of
                Some k \<Rightarrow> c\<lparr>ct_base_q := q\<lparr>q_slots := (q_slots q)[k := (q_slots q ! k)
                  \<lparr>bs_digest_master := dp_rb_digest_master p, bs_digest_a := dp_rb_digest_a p,
                   bs_digest_b := dp_rb_digest_b p, bs_digest_c := dp_rb_digest_c p\<rparr>]\<rparr>\<rparr>
              | None \<Rightarrow>
                  let q' = q_shed (\<lambda>e. rb_epoch_before (bs_epoch_id e) (dp_rb_epoch_id p)) q;
                      c' = c\<lparr>ct_base_q := q'\<rparr>
                  in if q_count q' < RNET_RB_CTRL_QUEUE then c'\<lparr>ct_base_q := q_put q' m\<rparr>
                     else rb_ctrl_note_drop c')"

definition on_rb_post :: "u8 \<Rightarrow> RNetCtrl \<Rightarrow> RNetDecodedPacket \<Rightarrow> RNetCtrl" where
  "on_rb_post wslot c p =
     (if rb_filtered c p \<or> dp_local_slot p = wslot then c
      else let q = ct_post_q c;
               m = \<lparr>po_epoch_id = dp_rb_epoch_id p, po_target_tick = dp_rb_target_tick p,
                    po_digest_master = dp_rb_digest_master p,
                    po_input_digest = dp_rb_input_digest p, po_match = dp_rb_match p,
                    po_from = dp_local_slot p\<rparr>;
               same = (\<lambda>e. po_from e = dp_local_slot p \<and> po_epoch_id e = dp_rb_epoch_id p \<and>
                 po_target_tick e = dp_rb_target_tick p)
           in case q_find same q of
                Some k \<Rightarrow> c\<lparr>ct_post_q := q\<lparr>q_slots := (q_slots q)[k := (q_slots q ! k)
                  \<lparr>po_digest_master := dp_rb_digest_master p,
                   po_input_digest := dp_rb_input_digest p, po_match := dp_rb_match p\<rparr>]\<rparr>\<rparr>
              | None \<Rightarrow>
                  let q' = q_shed (\<lambda>e. rb_epoch_before (po_epoch_id e) (dp_rb_epoch_id p)) q;
                      c' = c\<lparr>ct_post_q := q'\<rparr>
                  in if q_count q' < RNET_RB_CTRL_QUEUE then c'\<lparr>ct_post_q := q_put q' m\<rparr>
                     else rb_ctrl_note_drop c')"

definition on_rb_resolved :: "u8 \<Rightarrow> RNetCtrl \<Rightarrow> RNetDecodedPacket \<Rightarrow> RNetCtrl" where
  "on_rb_resolved wslot c p =
     (if dp_local_slot p = wslot then c
      else let q = ct_resolved_q c
           in case q_find (\<lambda>e. rs_from e = dp_local_slot p) q of
                Some k \<Rightarrow>
                  (if rb_epoch_before (rs_through (q_slots q ! k)) (dp_rb_resolved_through p)
                   then c\<lparr>ct_resolved_q := q\<lparr>q_slots := (q_slots q)[k := (q_slots q ! k)
                          \<lparr>rs_through := dp_rb_resolved_through p\<rparr>]\<rparr>\<rparr>
                   else c)
              | None \<Rightarrow>
                  if q_count q < RNET_RB_CTRL_QUEUE
                  then c\<lparr>ct_resolved_q := q_put q
                    \<lparr>rs_through = dp_rb_resolved_through p, rs_from = dp_local_slot p\<rparr>\<rparr>
                  else rb_ctrl_note_drop c)"

text \<open>The text fields of the packet hold the whole C array; the last byte is forced to zero.\<close>

definition on_modset :: "u8 \<Rightarrow> RNetCtrl \<Rightarrow> RNetDecodedPacket \<Rightarrow> RNetCtrl" where
  "on_modset wslot c p =
     (if dp_local_slot p = wslot then c
      else c\<lparr>ct_modset_text := (dp_modset_text p)[RNET_MODSET_TEXT_MAX - 1 := 0],
             ct_modset_pending := True\<rparr>)"

definition on_modset_ack :: "u8 \<Rightarrow> RNetCtrl \<Rightarrow> RNetDecodedPacket \<Rightarrow> RNetCtrl" where
  "on_modset_ack wslot c p =
     (if dp_local_slot p = wslot then c
      else if dp_local_slot p < 8
      then let from = unat (dp_local_slot p)
           in c\<lparr>ct_modset_ack_reason := (ct_modset_ack_reason c)[from :=
                 (dp_modset_reason p)[RNET_MODSET_REASON_MAX - 1 := 0]],
               ct_modset_ack_status := (ct_modset_ack_status c)[from := dp_modset_status p],
               ct_modset_ack_pending := ct_modset_ack_pending c OR push_bit from 1\<rparr>
      else c)"

text \<open>The cases of the \<^verbatim>\<open>switch\<close> of \<^verbatim>\<open>handle_decoded\<close> that only touch the control queues; the
  profile operations of \<^verbatim>\<open>RB_SYNC\<close> are handled before.\<close>

definition ctrl_arrive :: "u8 \<Rightarrow> RNetCtrl \<Rightarrow> RNetDecodedPacket \<Rightarrow> RNetCtrl" where
  "ctrl_arrive wslot c p =
     (if dp_type p = RNET_PKT_SIO_MULTI_XFER then on_sio_multi_xfer wslot c p
      else if dp_type p = RNET_PKT_RB_FRAME_COMMIT then on_rb_frame_commit wslot c p
      else if dp_type p = RNET_PKT_RB_SYNC then on_rb_sync wslot c p
      else if dp_type p = RNET_PKT_RB_SEAL_ROWS then on_rb_seal_rows wslot c p
      else if dp_type p = RNET_PKT_RB_BASELINE then on_rb_baseline wslot c p
      else if dp_type p = RNET_PKT_RB_POST then on_rb_post wslot c p
      else if dp_type p = RNET_PKT_MODSET then on_modset wslot c p
      else if dp_type p = RNET_PKT_MODSET_ACK then on_modset_ack wslot c p
      else if dp_type p = RNET_PKT_RB_RESOLVED then on_rb_resolved wslot c p
      else c)"

section \<open>Draining\<close>

text \<open>A take returns \<open>None\<close> where the C function returns 0, and otherwise the message.\<close>

definition rnet_session_take_rb_frame_commit ::
  "RNetSession \<Rightarrow> (RNetFrameCommitMsg \<times> RNetSession) option" where
  "rnet_session_take_rb_frame_commit s =
     map_option (\<lambda>(m, q). (m, s\<lparr>ss_ctrl := (ss_ctrl s)\<lparr>ct_fc_q := q,
       ct_last_from := uint (fc_from m)\<rparr>\<rparr>)) (q_take (ct_fc_q (ss_ctrl s)))"

definition rnet_session_take_rb_sync :: "RNetSession \<Rightarrow> (RNetRbSyncMsg \<times> RNetSession) option" where
  "rnet_session_take_rb_sync s =
     map_option (\<lambda>(m, q). (m, s\<lparr>ss_ctrl := (ss_ctrl s)\<lparr>ct_sync_q := q,
       ct_last_from := uint (sy_from m)\<rparr>\<rparr>)) (q_take (ct_sync_q (ss_ctrl s)))"

definition rnet_session_take_rb_baseline :: "RNetSession \<Rightarrow> (RNetRbBaseMsg \<times> RNetSession) option" where
  "rnet_session_take_rb_baseline s =
     map_option (\<lambda>(m, q). (m, s\<lparr>ss_ctrl := (ss_ctrl s)\<lparr>ct_base_q := q,
       ct_last_from := uint (bs_from m)\<rparr>\<rparr>)) (q_take (ct_base_q (ss_ctrl s)))"

definition rnet_session_take_rb_post :: "RNetSession \<Rightarrow> (RNetRbPostMsg \<times> RNetSession) option" where
  "rnet_session_take_rb_post s =
     map_option (\<lambda>(m, q). (m, s\<lparr>ss_ctrl := (ss_ctrl s)\<lparr>ct_post_q := q,
       ct_last_from := uint (po_from m)\<rparr>\<rparr>)) (q_take (ct_post_q (ss_ctrl s)))"

definition rnet_session_take_rb_resolved ::
  "RNetSession \<Rightarrow> (RNetRbResolvedMsg \<times> RNetSession) option" where
  "rnet_session_take_rb_resolved s =
     map_option (\<lambda>(m, q). (m, s\<lparr>ss_ctrl := (ss_ctrl s)\<lparr>ct_resolved_q := q,
       ct_last_from := uint (rs_from m)\<rparr>\<rparr>)) (q_take (ct_resolved_q (ss_ctrl s)))"

definition rnet_session_poll_sio_multi_xfer ::
  "RNetSession \<Rightarrow> (RNetSioXferMsg \<times> RNetSession) option" where
  "rnet_session_poll_sio_multi_xfer s =
     map_option (\<lambda>(m, q). (m, s\<lparr>ss_ctrl := (ss_ctrl s)\<lparr>ct_sio_q := q\<rparr>\<rparr>))
       (q_take (ct_sio_q (ss_ctrl s)))"

definition rb_frame_of_wire :: "u32 \<Rightarrow> RNetRbWireFrame \<Rightarrow> RNetRbFrame" where
  "rb_frame_of_wire tick w = \<lparr>fr_tick = tick, fr_buttons = rw_buttons w, fr_stick_x = rw_stick_x w,
     fr_stick_y = rw_stick_y w, fr_is_predicted = rw_is_predicted w, fr_is_valid = rw_is_valid w,
     fr_analog = rw_source w, fr_rx = rw_rx w, fr_ry = rw_ry w\<rparr>"

definition wire_of_rb_frame :: "RNetRbFrame \<Rightarrow> RNetRbWireFrame" where
  "wire_of_rb_frame f = \<lparr>rw_buttons = fr_buttons f, rw_stick_x = fr_stick_x f,
     rw_stick_y = fr_stick_y f, rw_source = fr_analog f, rw_is_predicted = fr_is_predicted f,
     rw_is_valid = fr_is_valid f, rw_rx = fr_rx f, rw_ry = fr_ry f\<rparr>"

text \<open>The rows handed out carry the ticks from \<open>row_begin\<close> on.\<close>

definition rnet_session_take_rb_seal_rows ::
  "RNetSession \<Rightarrow> ((RNetRbSealMsg \<times> RNetRbFrame list) \<times> RNetSession) option" where
  "rnet_session_take_rb_seal_rows s =
     map_option (\<lambda>(m, q).
       ((m, map (\<lambda>i. rb_frame_of_wire (sl_row_begin m + of_nat i) (sl_rows m ! i))
              [0..<unat (sl_row_count m)]),
        s\<lparr>ss_ctrl := (ss_ctrl s)\<lparr>ct_seal_q := q, ct_last_from := uint (sl_from m)\<rparr>\<rparr>))
       (q_take (ct_seal_q (ss_ctrl s)))"

definition rnet_session_rb_last_take_from :: "RNetSession \<Rightarrow> int" where
  "rnet_session_rb_last_take_from s = ct_last_from (ss_ctrl s)"

definition rnet_session_rb_ctrl_dropped :: "RNetSession \<Rightarrow> u32" where
  "rnet_session_rb_ctrl_dropped s = ct_dropped (ss_ctrl s)"

definition rnet_session_set_rb_peer_slot :: "RNetSession \<Rightarrow> int \<Rightarrow> RNetSession" where
  "rnet_session_set_rb_peer_slot s slot = s\<lparr>ss_ctrl := (ss_ctrl s)\<lparr>ct_peer_slot := slot\<rparr>\<rparr>"

definition rnet_session_peer_wire_version_mismatch :: "RNetSession \<Rightarrow> int" where
  "rnet_session_peer_wire_version_mismatch s =
     (let v = ct_wire_version_mismatch (ss_ctrl s)
      in if v = 0 then 0 else if v = 0xFF then -1 else uint v)"

text \<open>\<open>cap\<close> is the size of the caller's buffer; the text is the bytes before the terminator.\<close>

definition rnet_session_take_modset :: "RNetSession \<Rightarrow> nat \<Rightarrow> bytes option \<times> RNetSession" where
  "rnet_session_take_modset s cap =
     (let c = ss_ctrl s
      in if cap = 0 \<or> \<not> ct_modset_pending c then (None, s)
         else let s' = s\<lparr>ss_ctrl := c\<lparr>ct_modset_pending := False\<rparr>\<rparr>;
                  n = clamped_loop (ct_modset_text c) RNET_MODSET_TEXT_MAX
              in if n \<ge> cap then (None, s') else (Some (take n (ct_modset_text c)), s'))"

definition rnet_session_take_modset_ack ::
  "RNetSession \<Rightarrow> nat \<Rightarrow> (u8 \<times> bytes) option \<times> RNetSession" where
  "rnet_session_take_modset_ack s cap =
     (let c = ss_ctrl s
      in case List.find (\<lambda>i. ct_modset_ack_pending c AND push_bit i 1 \<noteq> 0) [0..<8] of
           None \<Rightarrow> (None, s)
         | Some from \<Rightarrow>
             let n = clamped_loop (ct_modset_ack_reason c ! from) RNET_MODSET_REASON_MAX;
                 n' = (if n \<ge> cap then cap - 1 else n)
             in (Some (ct_modset_ack_status c ! from, take n' (ct_modset_ack_reason c ! from)),
                 s\<lparr>ss_ctrl := c\<lparr>ct_modset_ack_pending := ct_modset_ack_pending c AND NOT (push_bit from 1),
                    ct_last_from := int from\<rparr>\<rparr>))"

section \<open>Sending control packets\<close>

text \<open>The flag is whether the C function returns 0 (sent) rather than -1.\<close>

definition rb_send :: "RNetSession \<Rightarrow> bytes option \<Rightarrow> bool \<times> RNetSession" where
  "rb_send s pkt =
     (if ss_phase s \<noteq> PHASE_RUNNING then (False, s)
      else case pkt of None \<Rightarrow> (False, s) | Some b \<Rightarrow> (True, send_raw s (Some b)))"

definition rnet_session_send_rb_frame_commit :: "RNetSession \<Rightarrow> u32 \<Rightarrow> u32 \<Rightarrow> bool \<times> RNetSession" where
  "rnet_session_send_rb_frame_commit s through_tick state_hash =
     rb_send s (rnet_proto_encode_rb_frame_commit RNET_MAX_PACKET (protocol_magic (ss_cfg s))
       (session_id (ss_cfg s)) (ss_wire_slot s) through_tick state_hash)"

definition rnet_session_send_rb_sync ::
  "RNetSession \<Rightarrow> u32 \<Rightarrow> u32 \<Rightarrow> u32 \<Rightarrow> u32 \<Rightarrow> u8 \<Rightarrow> u8 \<Rightarrow> u8 \<Rightarrow> bool \<times> RNetSession" where
  "rnet_session_send_rb_sync s epoch_id mismatch_tick load_tick target_tick corrected_slot opn flags =
     rb_send s (rnet_proto_encode_rb_sync RNET_MAX_PACKET (protocol_magic (ss_cfg s))
       (session_id (ss_cfg s)) (ss_wire_slot s) epoch_id mismatch_tick load_tick target_tick
       corrected_slot opn flags)"

text \<open>\<open>rows\<close> are the \<open>row_count\<close> rows behind the pointer; at most 24 of them are sent.\<close>

definition rnet_session_send_rb_seal_rows ::
  "RNetSession \<Rightarrow> u32 \<Rightarrow> u32 \<Rightarrow> u32 \<Rightarrow> u8 \<Rightarrow> u32 \<Rightarrow> RNetRbFrame list \<Rightarrow> bool \<times> RNetSession" where
  "rnet_session_send_rb_seal_rows s epoch_id mismatch_tick target_tick slot row_begin rows =
     (let n = min (length rows) RNET_RB_SEAL_ROWS_CHUNK_MAX
      in rb_send s (rnet_proto_encode_rb_seal_rows RNET_MAX_PACKET (protocol_magic (ss_cfg s))
           (session_id (ss_cfg s)) (ss_wire_slot s) epoch_id mismatch_tick target_tick slot row_begin
           (Some (map wire_of_rb_frame (take n rows))) (of_nat n)))"

definition rnet_session_send_rb_baseline ::
  "RNetSession \<Rightarrow> u32 \<Rightarrow> u32 \<Rightarrow> u32 \<Rightarrow> u32 \<Rightarrow> u32 \<Rightarrow> u32 \<Rightarrow> bool \<times> RNetSession" where
  "rnet_session_send_rb_baseline s epoch_id load_tick digest_master digest_a digest_b digest_c =
     rb_send s (rnet_proto_encode_rb_baseline RNET_MAX_PACKET (protocol_magic (ss_cfg s))
       (session_id (ss_cfg s)) (ss_wire_slot s) epoch_id load_tick digest_master digest_a digest_b
       digest_c)"

definition rnet_session_send_rb_post ::
  "RNetSession \<Rightarrow> u32 \<Rightarrow> u32 \<Rightarrow> u32 \<Rightarrow> u32 \<Rightarrow> u8 \<Rightarrow> bool \<times> RNetSession" where
  "rnet_session_send_rb_post s epoch_id target_tick digest_master input_digest mtch =
     rb_send s (rnet_proto_encode_rb_post RNET_MAX_PACKET (protocol_magic (ss_cfg s))
       (session_id (ss_cfg s)) (ss_wire_slot s) epoch_id target_tick digest_master input_digest mtch)"

definition rnet_session_send_rb_resolved :: "RNetSession \<Rightarrow> u32 \<Rightarrow> bool \<times> RNetSession" where
  "rnet_session_send_rb_resolved s resolved_through =
     rb_send s (rnet_proto_encode_rb_resolved RNET_MAX_PACKET (protocol_magic (ss_cfg s))
       (session_id (ss_cfg s)) (ss_wire_slot s) resolved_through)"

definition rnet_session_send_sio_multi_xfer ::
  "RNetSession \<Rightarrow> u8 \<Rightarrow> u32 \<Rightarrow> u16 \<Rightarrow> u16 \<Rightarrow> bool \<times> RNetSession" where
  "rnet_session_send_sio_multi_xfer s unit_id seqn send confirm_pad =
     (if ss_mode s = TRANSPORT_NONE then (False, s)
      else if ss_phase s \<noteq> PHASE_RUNNING \<and> ss_phase s \<noteq> PHASE_READY then (False, s)
      else case rnet_proto_encode_sio_multi_xfer 64 (protocol_magic (ss_cfg s))
                  (session_id (ss_cfg s)) (ss_wire_slot s) unit_id seqn send confirm_pad of
             None \<Rightarrow> (False, s)
           | Some b \<Rightarrow> (True, send_raw (send_raw s (Some b)) (Some b)))"

text \<open>The mod-set packets go straight to the transport.\<close>

definition transport_send :: "RNetSession \<Rightarrow> bytes \<Rightarrow> RNetSession" where
  "transport_send s b = s\<lparr>ss_out := ss_out s @ [b]\<rparr>"

definition rnet_session_send_modset :: "RNetSession \<Rightarrow> bytes \<Rightarrow> bool \<times> RNetSession" where
  "rnet_session_send_modset s text =
     (if ss_phase s \<noteq> PHASE_RUNNING then (False, s)
      else case rnet_proto_encode_modset RNET_MAX_PACKET (protocol_magic (ss_cfg s))
                  (session_id (ss_cfg s)) (ss_wire_slot s) (Some text) of
             None \<Rightarrow> (False, s) | Some b \<Rightarrow> (True, transport_send s b))"

definition rnet_session_send_modset_ack ::
  "RNetSession \<Rightarrow> u8 \<Rightarrow> bytes option \<Rightarrow> bool \<times> RNetSession" where
  "rnet_session_send_modset_ack s status reason =
     (if ss_phase s \<noteq> PHASE_RUNNING then (False, s)
      else case rnet_proto_encode_modset_ack RNET_MAX_PACKET (protocol_magic (ss_cfg s))
                  (session_id (ss_cfg s)) (ss_wire_slot s) status reason of
             None \<Rightarrow> (False, s) | Some b \<Rightarrow> (True, transport_send s b))"

section \<open>The ring as a list\<close>

definition q_contents :: "'a RNetQueue \<Rightarrow> 'a list" where
  "q_contents q = map (\<lambda>i. q_slots q ! q_at q i) [0..<q_count q]"

definition q_ok :: "nat \<Rightarrow> 'a RNetQueue \<Rightarrow> bool" where
  "q_ok n q \<longleftrightarrow> 0 < n \<and> length (q_slots q) = n \<and> q_tail q < n \<and>
     q_head q = (q_tail q + q_count q) mod n \<and> q_count q \<le> n"

lemma q_contents_length [simp]: "length (q_contents q) = q_count q"
  by (simp add: q_contents_def)

lemma q_ok_empty: "0 < n \<Longrightarrow> q_ok n (empty_queue n z) \<and> q_contents (empty_queue n z) = []"
  by (simp add: q_ok_def empty_queue_def q_contents_def)

lemma q_ok_clear: "q_ok n q \<Longrightarrow> q_ok n (q_clear q) \<and> q_contents (q_clear q) = []"
  by (simp add: q_ok_def q_clear_def q_contents_def)

lemma add_mod_inj:
  assumes "(t + i) mod n = (t + j) mod n" "i < n" "j < (n :: nat)"
  shows "i = j"
proof -
  have less: False if "(t + a) mod n = (t + b) mod n" "a < b" "b < n" for a b
    using that mod_eq_dvd_iff_nat [of "t + a" "t + b" n] nat_dvd_not_less [of "b - a" n] by auto
  show ?thesis using less [of i j] less [of j i] assms by (cases i j rule: linorder_cases) auto
qed

lemma q_at_inj: "q_ok n q \<Longrightarrow> i < n \<Longrightarrow> j < n \<Longrightarrow> q_at q i = q_at q j \<Longrightarrow> i = j"
  using add_mod_inj [of "q_tail q" i n j] by (simp add: q_at_def q_ok_def)

lemma q_put_ok:
  assumes "q_ok n q" "q_count q < n"
  shows "q_ok n (q_put q x)" "q_contents (q_put q x) = q_contents q @ [x]"
proof -
  show "q_ok n (q_put q x)"
    using assms by (auto simp: q_ok_def q_put_def mod_simps)
  have head: "q_head q = q_at q (q_count q)" using assms by (simp add: q_ok_def q_at_def)
  have at: "q_at (q_put q x) i = q_at q i" for i by (simp add: q_at_def q_put_def)
  have lt: "q_at q i < length (q_slots q)" for i using assms by (simp add: q_at_def q_ok_def)
  have other: "q_slots (q_put q x) ! q_at q i = q_slots q ! q_at q i" if "i < q_count q" for i
  proof -
    have "q_at q (q_count q) \<noteq> q_at q i"
      using q_at_inj [OF assms(1), of i "q_count q"] that assms(2) by auto
    then show ?thesis by (simp add: q_put_def head)
  qed
  have "q_slots (q_put q x) ! q_at q (q_count q) = x"
    using lt [of "q_count q"] by (simp add: q_put_def head)
  then show "q_contents (q_put q x) = q_contents q @ [x]"
    using other by (simp add: q_contents_def at) (simp add: q_put_def)
qed

lemma q_drop_ok:
  assumes "q_ok n q" "0 < q_count q"
  shows "q_ok n (q_drop q)" "q_contents q = q_slots q ! q_tail q # q_contents (q_drop q)"
proof -
  obtain m where m: "q_count q = Suc m" using assms(2) by (cases "q_count q") auto
  show "q_ok n (q_drop q)"
    using assms m by (auto simp: q_ok_def q_drop_def mod_simps)
  have at: "q_at (q_drop q) i = q_at q (Suc i)" for i by (simp add: q_at_def q_drop_def mod_simps)
  have at0: "q_at q 0 = q_tail q" using assms by (simp add: q_at_def q_ok_def)
  have "q_contents q = map (\<lambda>i. q_slots q ! q_at q i) (0 # map Suc [0..<m])"
    by (simp only: q_contents_def m upt_conv_Cons [OF zero_less_Suc] map_Suc_upt)
  also have "\<dots> = q_slots q ! q_tail q # q_contents (q_drop q)"
    by (simp add: q_contents_def at at0 comp_def) (simp add: q_drop_def m)
  finally show "q_contents q = q_slots q ! q_tail q # q_contents (q_drop q)" .
qed

lemma q_put_latest_ok:
  assumes "q_ok n q"
  shows "q_ok n (q_put_latest q x)"
    "q_contents (q_put_latest q x) =
       (if q_count q < n then q_contents q @ [x] else tl (q_contents q) @ [x])"
proof -
  have full: "q_count q = n" if "\<not> q_count q < n" using assms that by (simp add: q_ok_def)
  have n: "0 < n" "length (q_slots q) = n" using assms by (auto simp: q_ok_def)
  note d = q_drop_ok [OF assms]
  have c: "q_count (q_drop q) = q_count q - 1" by (simp add: q_drop_def)
  show "q_ok n (q_put_latest q x)"
    using q_put_ok(1) [OF assms] q_put_ok(1) [OF d(1)] n full c
    by (auto simp: q_put_latest_def)
  show "q_contents (q_put_latest q x) =
       (if q_count q < n then q_contents q @ [x] else tl (q_contents q) @ [x])"
    using q_put_ok(2) [OF assms] q_put_ok(2) [OF d(1)] d(2) n full c
    by (auto simp: q_put_latest_def)
qed

lemma q_take_ok:
  assumes "q_ok n q"
  shows "q_take q = None \<longleftrightarrow> q_contents q = []"
    "q_take q = Some (x, q') \<Longrightarrow> q_ok n q' \<and> q_contents q = x # q_contents q'"
proof -
  show "q_take q = None \<longleftrightarrow> q_contents q = []"
    by (simp add: q_take_def flip: length_0_conv)
  show "q_take q = Some (x, q') \<Longrightarrow> q_ok n q' \<and> q_contents q = x # q_contents q'"
    using q_drop_ok [OF assms] by (auto simp: q_take_def split: if_splits)
qed

text \<open>The ring, fed with a refusal when full, is a bounded queue.\<close>

interpretation ctrl_queue: bounded_fifo "q_ok 32" q_contents 32
  "\<lambda>q x. if q_count q < 32 then q_put q x else q" q_take
proof
  fix q :: "'a RNetQueue" and x q' assume q: "q_ok 32 q"
  show "q_ok 32 (if q_count q < 32 then q_put q x else q)" using q q_put_ok [OF q] by simp
  show "q_contents (if q_count q < 32 then q_put q x else q) =
      (if length (q_contents q) < 32 then q_contents q @ [x] else q_contents q)"
    using q_put_ok [OF q] by simp
  show "length (q_contents q) \<le> 32" using q by (simp add: q_ok_def)
  show "q_take q = None \<longleftrightarrow> q_contents q = []" by (rule q_take_ok [OF q])
  assume "q_take q = Some (x, q')"
  then show "q_ok 32 q'" "q_contents q = x # q_contents q'" using q_take_ok(2) [OF q] by auto
qed

lemma q_shed_ok:
  assumes "q_ok 32 q"
  shows "q_ok 32 (q_shed old q)"
    "q_contents (q_shed old q) =
       (if 32 \<le> q_count q \<and> old (hd (q_contents q)) then tl (q_contents q) else q_contents q)"
proof -
  have le: "q_count q \<le> 32" using assms by (simp add: q_ok_def)
  have c: "q_count (q_drop q) = q_count q - 1" by (simp add: q_drop_def)
  have "\<not> 32 \<le> q_count (q_drop q)" using le c by linarith
  then have stop: "q_shed old (q_drop q) = q_drop q" by (subst q_shed.simps) simp
  have "q_shed old q = (if 32 \<le> q_count q \<and> old (q_slots q ! q_tail q) then q_drop q else q)"
    by (subst q_shed.simps) (simp add: stop)
  moreover have "q_ok 32 (q_drop q) \<and> q_contents q = q_slots q ! q_tail q # q_contents (q_drop q)"
    if "32 \<le> q_count q" using q_drop_ok [OF assms] that by simp
  ultimately show "q_ok 32 (q_shed old q)"
    "q_contents (q_shed old q) =
       (if 32 \<le> q_count q \<and> old (hd (q_contents q)) then tl (q_contents q) else q_contents q)"
    using assms by (auto split: if_splits)
qed

lemma q_find_none: "q_find same q = None \<longleftrightarrow> (\<forall>x \<in> set (q_contents q). \<not> same x)"
  by (auto simp: q_find_def q_contents_def find_None_iff)

lemma q_find_some:
  assumes "q_ok n q" "q_find same q = Some k"
  obtains ys zs where "q_contents q = ys @ q_slots q ! k # zs" "\<forall>x \<in> set ys. \<not> same x"
    "same (q_slots q ! k)" "\<And>v. q_ok n (q\<lparr>q_slots := (q_slots q)[k := v]\<rparr>)"
    "\<And>v. q_contents (q\<lparr>q_slots := (q_slots q)[k := v]\<rparr>) = ys @ v # zs"
proof -
  from assms(2) obtain i where i: "i < q_count q" "k = q_at q i" "same (q_slots q ! k)"
    and before: "\<forall>j < i. \<not> same (q_slots q ! q_at q j)"
    by (auto simp: q_find_def find_Some_iff)
  have n: "q_count q \<le> n" "length (q_slots q) = n" "0 < n" using assms(1) by (auto simp: q_ok_def)
  have upd: "q_contents (q\<lparr>q_slots := (q_slots q)[k := v]\<rparr>) = (q_contents q)[i := v]" for v
  proof (rule nth_equalityI)
    fix j assume "j < length (q_contents (q\<lparr>q_slots := (q_slots q)[k := v]\<rparr>))"
    then have j: "j < q_count q" by simp
    have at: "q_at (q\<lparr>q_slots := (q_slots q)[a := v]\<rparr>) b = q_at q b" for a b
      by (simp add: q_at_def)
    have "q_at q j = q_at q i \<longleftrightarrow> j = i" using q_at_inj [OF assms(1), of j i] i j n by auto
    moreover have "q_at q i < length (q_slots q)" using n by (simp add: q_at_def)
    ultimately show "q_contents (q\<lparr>q_slots := (q_slots q)[k := v]\<rparr>) ! j = (q_contents q)[i := v] ! j"
      using j i by (auto simp: q_contents_def at nth_list_update)
  qed simp
  have len: "i < length (q_contents q)" using i by simp
  have nth: "q_contents q ! i = q_slots q ! k" using i by (simp add: q_contents_def)
  show thesis
  proof (rule that [of "take i (q_contents q)" "drop (Suc i) (q_contents q)"])
    show "q_contents q = take i (q_contents q) @ q_slots q ! k # drop (Suc i) (q_contents q)"
      using id_take_nth_drop [OF len] nth by simp
    show "\<forall>x \<in> set (take i (q_contents q)). \<not> same x"
      using before i by (auto simp: q_contents_def in_set_conv_nth)
    show "q_ok n (q\<lparr>q_slots := (q_slots q)[k := v]\<rparr>)" for v using assms(1) by (simp add: q_ok_def)
    show "q_contents (q\<lparr>q_slots := (q_slots q)[k := v]\<rparr>) =
        take i (q_contents q) @ v # drop (Suc i) (q_contents q)" for v
      unfolding upd by (rule upd_conv_take_nth_drop [OF len])
  qed (rule i(3))
qed

section \<open>What a control queue promises\<close>

text \<open>
  The specification of an arrival: merge into the first waiting message it repeats; otherwise make
  room by shedding the oldest message if that is old, and append, or refuse.
\<close>

fun merge_first :: "('a \<Rightarrow> bool) \<Rightarrow> ('a \<Rightarrow> 'a) \<Rightarrow> 'a list \<Rightarrow> 'a list" where
  "merge_first same f [] = []"
| "merge_first same f (y # ys) = (if same y then f y # ys else y # merge_first same f ys)"

definition coalesce ::
  "('a \<Rightarrow> bool) \<Rightarrow> ('a \<Rightarrow> 'a) \<Rightarrow> ('a \<Rightarrow> bool) \<Rightarrow> 'a \<Rightarrow> 'a list \<Rightarrow> 'a list" where
  "coalesce same f old x xs =
     (if \<exists>y \<in> set xs. same y then merge_first same f xs
      else let xs' = (if 32 \<le> length xs \<and> old (hd xs) then tl xs else xs)
           in if length xs' < 32 then xs' @ [x] else xs')"

lemma merge_first_split:
  "\<forall>x \<in> set ys. \<not> same x \<Longrightarrow> same y \<Longrightarrow> merge_first same f (ys @ y # zs) = ys @ f y # zs"
  by (induction ys) auto

lemma merge_first_id: "(\<And>y. same y \<Longrightarrow> f y = y) \<Longrightarrow> merge_first same f xs = xs"
  by (induction xs) auto

lemma merge_first_keys:
  "(\<And>y. same y \<Longrightarrow> key (f y) = key y) \<Longrightarrow> map key (merge_first same f xs) = map key xs"
  by (induction xs) auto

lemma coalesce_distinct:
  assumes "\<And>y. same y \<Longrightarrow> key (f y) = key y" "\<And>y. same y \<longleftrightarrow> key y = key x"
    and "distinct (map key xs)"
  shows "distinct (map key (coalesce same f old x xs))"
proof (cases "\<exists>y \<in> set xs. same y")
  case True
  then show ?thesis using assms(3) by (simp add: coalesce_def merge_first_keys [of same key f] assms(1))
next
  case False
  then have "key x \<notin> key ` set xs" by (auto simp: assms(2))
  moreover have "key x \<notin> key ` set (tl xs)" using calculation by (cases xs) auto
  moreover have "distinct (map key (tl xs))" using assms(3) by (cases xs) auto
  ultimately show ?thesis using False assms(3) by (simp add: coalesce_def Let_def)
qed

lemma coalesce_set: "set (coalesce same f old x xs) \<subseteq> insert x (set xs \<union> f ` set xs)"
proof -
  have "set (merge_first same f xs) \<subseteq> set xs \<union> f ` set xs" by (induction xs) auto
  moreover have "set (tl xs) \<subseteq> set xs" by (cases xs) auto
  ultimately show ?thesis by (auto simp: coalesce_def Let_def)
qed

text \<open>The ring operations of an arrival, put together, implement it.\<close>

definition q_arrive ::
  "('a \<Rightarrow> bool) \<Rightarrow> ('a \<Rightarrow> 'a) \<Rightarrow> ('a \<Rightarrow> bool) \<Rightarrow> ('a RNetQueue \<Rightarrow> 'a) \<Rightarrow> 'a RNetQueue \<Rightarrow> 'a RNetQueue" where
  "q_arrive same f old mk q =
     (case q_find same q of
        Some k \<Rightarrow> q\<lparr>q_slots := (q_slots q)[k := f (q_slots q ! k)]\<rparr>
      | None \<Rightarrow> let q' = q_shed old q in if q_count q' < 32 then q_put q' (mk q') else q')"

lemma q_arrive_ok:
  assumes "q_ok 32 q"
  shows "q_ok 32 (q_arrive same f old mk q)"
    "q_contents (q_arrive same f old mk q) =
       coalesce same f old (mk (q_shed old q)) (q_contents q)"
proof -
  have "q_ok 32 (q_arrive same f old mk q) \<and> q_contents (q_arrive same f old mk q) =
       coalesce same f old (mk (q_shed old q)) (q_contents q)"
  proof (cases "q_find same q")
    case None
    note s = q_shed_ok [OF assms, of old]
    have c: "q_count (q_shed old q) = length (q_contents (q_shed old q))" by simp
    from None have "\<not> (\<exists>y \<in> set (q_contents q). same y)" by (simp add: q_find_none)
    with None s(1) q_put_ok [OF s(1)] show ?thesis
      by (simp add: q_arrive_def coalesce_def Let_def c s(2) del: q_contents_length)
        (simp flip: s(2))
  next
    case (Some k)
    with assms obtain ys zs where k: "q_contents q = ys @ q_slots q ! k # zs"
      "\<forall>x \<in> set ys. \<not> same x" "same (q_slots q ! k)"
      "\<And>v. q_ok 32 (q\<lparr>q_slots := (q_slots q)[k := v]\<rparr>)"
      "\<And>v. q_contents (q\<lparr>q_slots := (q_slots q)[k := v]\<rparr>) = ys @ v # zs"
      by (rule q_find_some) blast
    have "coalesce same f old x (q_contents q) = ys @ f (q_slots q ! k) # zs" for x
      using k(3) by (simp add: coalesce_def k(1) merge_first_split [OF k(2,3)])
    with Some k show ?thesis by (simp add: q_arrive_def)
  qed
  then show "q_ok 32 (q_arrive same f old mk q)"
    "q_contents (q_arrive same f old mk q) =
       coalesce same f old (mk (q_shed old q)) (q_contents q)" by auto
qed

section \<open>The queues of a session\<close>

text \<open>The message a packet leaves in each queue, and the fields that make two messages the same.\<close>

definition sync_msg :: "RNetDecodedPacket \<Rightarrow> RNetRbSyncMsg" where
  "sync_msg p = \<lparr>sy_epoch_id = dp_rb_epoch_id p, sy_mismatch_tick = dp_rb_mismatch_tick p,
     sy_load_tick = dp_rb_load_tick p, sy_target_tick = dp_rb_target_tick p,
     sy_corrected_slot = dp_rb_corrected_slot p, sy_initiator = dp_rb_initiator p,
     sy_flags = dp_rb_flags p, sy_from = dp_local_slot p\<rparr>"

definition base_msg :: "RNetDecodedPacket \<Rightarrow> RNetRbBaseMsg" where
  "base_msg p = \<lparr>bs_epoch_id = dp_rb_epoch_id p, bs_load_tick = dp_rb_load_tick p,
     bs_digest_master = dp_rb_digest_master p, bs_digest_a = dp_rb_digest_a p,
     bs_digest_b = dp_rb_digest_b p, bs_digest_c = dp_rb_digest_c p, bs_from = dp_local_slot p\<rparr>"

definition base_key :: "RNetRbBaseMsg \<Rightarrow> u8 \<times> u32 \<times> u32" where
  "base_key e = (bs_from e, bs_epoch_id e, bs_load_tick e)"

definition post_msg :: "RNetDecodedPacket \<Rightarrow> RNetRbPostMsg" where
  "post_msg p = \<lparr>po_epoch_id = dp_rb_epoch_id p, po_target_tick = dp_rb_target_tick p,
     po_digest_master = dp_rb_digest_master p, po_input_digest = dp_rb_input_digest p,
     po_match = dp_rb_match p, po_from = dp_local_slot p\<rparr>"

definition post_key :: "RNetRbPostMsg \<Rightarrow> u8 \<times> u32 \<times> u32" where
  "post_key e = (po_from e, po_epoch_id e, po_target_tick e)"

definition seal_rows_count :: "RNetDecodedPacket \<Rightarrow> u16" where
  "seal_rows_count p = (if unat (dp_rb_row_count p) > 24 then 24 else dp_rb_row_count p)"

definition seal_msg :: "RNetDecodedPacket \<Rightarrow> RNetRbWireFrame list \<Rightarrow> RNetRbSealMsg" where
  "seal_msg p stale = \<lparr>sl_epoch_id = dp_rb_epoch_id p, sl_mismatch_tick = dp_rb_mismatch_tick p,
     sl_target_tick = dp_rb_target_tick p, sl_row_begin = dp_rb_row_begin p, sl_slot = dp_rb_slot p,
     sl_row_count = seal_rows_count p,
     sl_rows = take (unat (seal_rows_count p)) (dp_rb_rows p) @ drop (unat (seal_rows_count p)) stale,
     sl_from = dp_local_slot p\<rparr>"

definition seal_key :: "RNetRbSealMsg \<Rightarrow> u8 \<times> u32 \<times> u32 \<times> u32 \<times> u8 \<times> u32 \<times> u16" where
  "seal_key e = (sl_from e, sl_epoch_id e, sl_mismatch_tick e, sl_target_tick e, sl_slot e,
     sl_row_begin e, sl_row_count e)"

definition resolved_msg :: "RNetDecodedPacket \<Rightarrow> RNetRbResolvedMsg" where
  "resolved_msg p = \<lparr>rs_through = dp_rb_resolved_through p, rs_from = dp_local_slot p\<rparr>"

definition resolved_merge :: "RNetDecodedPacket \<Rightarrow> RNetRbResolvedMsg \<Rightarrow> RNetRbResolvedMsg" where
  "resolved_merge p e = (if rb_epoch_before (rs_through e) (dp_rb_resolved_through p)
     then e\<lparr>rs_through := dp_rb_resolved_through p\<rparr> else e)"

lemma q_shed_never [simp]: "q_shed (\<lambda>e. False) q = q"
  by (subst q_shed.simps) simp

lemma q_find_sat:
  assumes "q_find same q = Some k"
  shows "same (q_slots q ! k)"
  using assms by (auto simp: q_find_def find_Some_iff)

lemma on_rb_sync_queue:
  "\<not> rb_filtered c p \<Longrightarrow> dp_local_slot p \<noteq> w \<Longrightarrow> ct_sync_q (on_rb_sync w c p) =
     q_arrive (\<lambda>e. e = sync_msg p) (\<lambda>e. e) (\<lambda>e. False) (\<lambda>q. sync_msg p) (ct_sync_q c)"
  by (auto simp: on_rb_sync_def q_arrive_def sync_msg_def rb_ctrl_note_drop_def Let_def
      split: option.splits)

lemma on_rb_seal_queue:
  "dp_local_slot p \<noteq> w \<Longrightarrow> ct_seal_q (on_rb_seal_rows w c p) =
     q_arrive (\<lambda>e. seal_key e = seal_key (seal_msg p [])) (\<lambda>e. e)
       (\<lambda>e. rb_epoch_before (sl_epoch_id e) (dp_rb_epoch_id p))
       (\<lambda>q. seal_msg p (sl_rows (q_slots q ! q_head q))) (ct_seal_q c)"
  by (auto simp: on_rb_seal_rows_def q_arrive_def seal_msg_def seal_key_def seal_rows_count_def
      rb_ctrl_note_drop_def Let_def split: option.splits)

lemma on_rb_baseline_queue:
  assumes "\<not> rb_filtered c p" "dp_local_slot p \<noteq> w"
  shows "ct_base_q (on_rb_baseline w c p) =
     q_arrive (\<lambda>e. base_key e = base_key (base_msg p)) (\<lambda>e. base_msg p)
       (\<lambda>e. rb_epoch_before (bs_epoch_id e) (dp_rb_epoch_id p)) (\<lambda>q. base_msg p) (ct_base_q c)"
proof -
  have merged: "e\<lparr>bs_digest_master := dp_rb_digest_master p, bs_digest_a := dp_rb_digest_a p,
      bs_digest_b := dp_rb_digest_b p, bs_digest_c := dp_rb_digest_c p\<rparr> = base_msg p"
    if "base_key e = base_key (base_msg p)" for e
    using that by (cases e) (simp add: base_key_def base_msg_def)
  have same: "(\<lambda>e. bs_from e = dp_local_slot p \<and> bs_epoch_id e = dp_rb_epoch_id p \<and>
      bs_load_tick e = dp_rb_load_tick p) = (\<lambda>e. base_key e = base_key (base_msg p))"
    by (simp add: base_key_def base_msg_def)
  show ?thesis
    using assms q_find_sat [of "\<lambda>e. base_key e = base_key (base_msg p)" "ct_base_q c"]
    unfolding on_rb_baseline_def same base_msg_def [symmetric]
    by (auto simp: q_arrive_def rb_ctrl_note_drop_def Let_def merged split: option.splits)
qed

lemma on_rb_post_queue:
  assumes "\<not> rb_filtered c p" "dp_local_slot p \<noteq> w"
  shows "ct_post_q (on_rb_post w c p) =
     q_arrive (\<lambda>e. post_key e = post_key (post_msg p)) (\<lambda>e. post_msg p)
       (\<lambda>e. rb_epoch_before (po_epoch_id e) (dp_rb_epoch_id p)) (\<lambda>q. post_msg p) (ct_post_q c)"
proof -
  have merged: "e\<lparr>po_digest_master := dp_rb_digest_master p, po_input_digest := dp_rb_input_digest p,
      po_match := dp_rb_match p\<rparr> = post_msg p" if "post_key e = post_key (post_msg p)" for e
    using that by (cases e) (simp add: post_key_def post_msg_def)
  have same: "(\<lambda>e. po_from e = dp_local_slot p \<and> po_epoch_id e = dp_rb_epoch_id p \<and>
      po_target_tick e = dp_rb_target_tick p) = (\<lambda>e. post_key e = post_key (post_msg p))"
    by (simp add: post_key_def post_msg_def)
  show ?thesis
    using assms q_find_sat [of "\<lambda>e. post_key e = post_key (post_msg p)" "ct_post_q c"]
    unfolding on_rb_post_def same post_msg_def [symmetric]
    by (auto simp: q_arrive_def rb_ctrl_note_drop_def Let_def merged split: option.splits)
qed

lemma on_rb_resolved_queue:
  "dp_local_slot p \<noteq> w \<Longrightarrow> ct_resolved_q (on_rb_resolved w c p) =
     q_arrive (\<lambda>e. rs_from e = dp_local_slot p) (resolved_merge p) (\<lambda>e. False)
       (\<lambda>q. resolved_msg p) (ct_resolved_q c)"
  by (auto simp: on_rb_resolved_def q_arrive_def resolved_msg_def resolved_merge_def
      rb_ctrl_note_drop_def Let_def split: option.splits)

text \<open>Everything that happens to the queues: arrivals, takes, and the reset of a hard resync.\<close>

datatype ctrl_op =
    Arrive RNetDecodedPacket
  | Take_fc | Take_sync | Take_seal | Take_base | Take_post | Take_resolved | Take_sio
  | Clear_queues
  | Scope_peer int

definition rb_clear_queues :: "RNetCtrl \<Rightarrow> RNetCtrl" where
  "rb_clear_queues c = c\<lparr>ct_fc_q := q_clear (ct_fc_q c), ct_sync_q := q_clear (ct_sync_q c),
     ct_seal_q := q_clear (ct_seal_q c), ct_base_q := q_clear (ct_base_q c),
     ct_post_q := q_clear (ct_post_q c), ct_resolved_q := q_clear (ct_resolved_q c),
     ct_last_from := -1\<rparr>"

definition q_rest :: "'a RNetQueue \<Rightarrow> 'a RNetQueue" where
  "q_rest q = (case q_take q of None \<Rightarrow> q | Some (x, q') \<Rightarrow> q')"

fun ctrl_step :: "u8 \<Rightarrow> RNetCtrl \<Rightarrow> ctrl_op \<Rightarrow> RNetCtrl" where
  "ctrl_step w c (Arrive p) = ctrl_arrive w c p"
| "ctrl_step w c Take_fc = c\<lparr>ct_fc_q := q_rest (ct_fc_q c)\<rparr>"
| "ctrl_step w c Take_sync = c\<lparr>ct_sync_q := q_rest (ct_sync_q c)\<rparr>"
| "ctrl_step w c Take_seal = c\<lparr>ct_seal_q := q_rest (ct_seal_q c)\<rparr>"
| "ctrl_step w c Take_base = c\<lparr>ct_base_q := q_rest (ct_base_q c)\<rparr>"
| "ctrl_step w c Take_post = c\<lparr>ct_post_q := q_rest (ct_post_q c)\<rparr>"
| "ctrl_step w c Take_resolved = c\<lparr>ct_resolved_q := q_rest (ct_resolved_q c)\<rparr>"
| "ctrl_step w c Take_sio = c\<lparr>ct_sio_q := q_rest (ct_sio_q c)\<rparr>"
| "ctrl_step w c Clear_queues = rb_clear_queues c"
| "ctrl_step w c (Scope_peer k) = c\<lparr>ct_peer_slot := k\<rparr>"

text \<open>One queue: a well-formed ring whose messages have distinct keys and foreign senders.\<close>

definition queue_inv :: "u8 \<Rightarrow> ('a \<Rightarrow> 'k) \<Rightarrow> ('a \<Rightarrow> u8) \<Rightarrow> 'a RNetQueue \<Rightarrow> bool" where
  "queue_inv w key from q \<longleftrightarrow> q_ok 32 q \<and> distinct (map key (q_contents q)) \<and>
     (\<forall>e \<in> set (q_contents q). from e \<noteq> w)"

definition ctrl_inv :: "u8 \<Rightarrow> RNetCtrl \<Rightarrow> bool" where
  "ctrl_inv w c \<longleftrightarrow> q_ok 256 (ct_fc_q c) \<and> (\<forall>e \<in> set (q_contents (ct_fc_q c)). fc_from e \<noteq> w) \<and>
     q_ok 32 (ct_sio_q c) \<and> queue_inv w id sy_from (ct_sync_q c) \<and>
     queue_inv w seal_key sl_from (ct_seal_q c) \<and> queue_inv w base_key bs_from (ct_base_q c) \<and>
     queue_inv w post_key po_from (ct_post_q c) \<and> queue_inv w rs_from rs_from (ct_resolved_q c)"

lemma q_rest_ok: "q_ok n q \<Longrightarrow> q_ok n (q_rest q) \<and> q_contents (q_rest q) = tl (q_contents q)"
  using q_take_ok [of n q] by (auto simp: q_rest_def split: option.split)

lemma queue_inv_rest: "queue_inv w key from q \<Longrightarrow> queue_inv w key from (q_rest q)"
  using q_rest_ok [of 32 q] by (cases "q_contents q") (auto simp: queue_inv_def)

lemma queue_inv_clear: "queue_inv w key from q \<Longrightarrow> queue_inv w key from (q_clear q)"
  using q_ok_clear [of 32 q] by (auto simp: queue_inv_def)

lemma queue_inv_arrive:
  assumes "queue_inv w key from q"
    and "\<And>e. same e \<Longrightarrow> key (f e) = key e" "\<And>e q. same e \<longleftrightarrow> key e = key (mk q)"
    and "\<And>e. from e \<noteq> w \<Longrightarrow> from (f e) \<noteq> w" "\<And>q. from (mk q) \<noteq> w"
  shows "queue_inv w key from (q_arrive same f old mk q)"
proof -
  have q: "q_ok 32 q" "distinct (map key (q_contents q))" "\<forall>e \<in> set (q_contents q). from e \<noteq> w"
    using assms(1) by (auto simp: queue_inv_def)
  note a = q_arrive_ok [OF q(1), of same f old mk]
  have "distinct (map key (q_contents (q_arrive same f old mk q)))"
    unfolding a(2) by (rule coalesce_distinct [OF assms(2,3) q(2)])
  moreover have "\<forall>e \<in> set (q_contents (q_arrive same f old mk q)). from e \<noteq> w"
    unfolding a(2) using coalesce_set [of same f old "mk (q_shed old q)" "q_contents q"] q(3) assms(4,5)
    by blast
  ultimately show ?thesis using a(1) by (simp add: queue_inv_def)
qed

lemma queue_inv_empty: "queue_inv w key from (empty_queue 32 z)"
  using q_ok_empty [of 32 z] by (simp add: queue_inv_def)

lemma ctrl_inv_init: "ctrl_inv w init_ctrl"
  using q_ok_empty [of 256 "\<lparr>fc_tick = 0, fc_hash = 0, fc_from = 0\<rparr>"]
    q_ok_empty [of 32 "\<lparr>sx_seq = 0, sx_send = 0, sx_confirm_pad = 0, sx_unit_id = 0\<rparr>"]
  by (simp add: ctrl_inv_def init_ctrl_def queue_inv_empty)

lemma own_or_filtered:
  "dp_local_slot p = w \<Longrightarrow> on_rb_seal_rows w c p = c"
  "dp_local_slot p = w \<Longrightarrow> on_rb_resolved w c p = c"
  "rb_filtered c p \<or> dp_local_slot p = w \<Longrightarrow> on_rb_sync w c p = c"
  "rb_filtered c p \<or> dp_local_slot p = w \<Longrightarrow> on_rb_baseline w c p = c"
  "rb_filtered c p \<or> dp_local_slot p = w \<Longrightarrow> on_rb_post w c p = c"
  by (simp_all add: on_rb_seal_rows_def on_rb_resolved_def on_rb_sync_def on_rb_baseline_def
      on_rb_post_def)

text \<open>A handler touches its own queue and the drop counter, nothing else.\<close>

lemma handler_frames:
  "\<exists>q d. on_rb_sync w c p = c\<lparr>ct_sync_q := q, ct_dropped := d\<rparr>"
  "\<exists>q d. on_rb_seal_rows w c p = c\<lparr>ct_seal_q := q, ct_dropped := d\<rparr>"
  "\<exists>q d. on_rb_baseline w c p = c\<lparr>ct_base_q := q, ct_dropped := d\<rparr>"
  "\<exists>q d. on_rb_post w c p = c\<lparr>ct_post_q := q, ct_dropped := d\<rparr>"
  "\<exists>q d. on_rb_resolved w c p = c\<lparr>ct_resolved_q := q, ct_dropped := d\<rparr>"
proof -
  show "\<exists>q d. on_rb_sync w c p = c\<lparr>ct_sync_q := q, ct_dropped := d\<rparr>"
    by (rule exI [of _ "ct_sync_q (on_rb_sync w c p)"], rule exI [of _ "ct_dropped (on_rb_sync w c p)"])
      (auto simp: on_rb_sync_def rb_ctrl_note_drop_def Let_def)
  show "\<exists>q d. on_rb_seal_rows w c p = c\<lparr>ct_seal_q := q, ct_dropped := d\<rparr>"
    by (rule exI [of _ "ct_seal_q (on_rb_seal_rows w c p)"],
        rule exI [of _ "ct_dropped (on_rb_seal_rows w c p)"])
      (auto simp: on_rb_seal_rows_def rb_ctrl_note_drop_def Let_def)
  show "\<exists>q d. on_rb_baseline w c p = c\<lparr>ct_base_q := q, ct_dropped := d\<rparr>"
    by (rule exI [of _ "ct_base_q (on_rb_baseline w c p)"],
        rule exI [of _ "ct_dropped (on_rb_baseline w c p)"])
      (auto simp: on_rb_baseline_def rb_ctrl_note_drop_def Let_def split: option.split)
  show "\<exists>q d. on_rb_post w c p = c\<lparr>ct_post_q := q, ct_dropped := d\<rparr>"
    by (rule exI [of _ "ct_post_q (on_rb_post w c p)"], rule exI [of _ "ct_dropped (on_rb_post w c p)"])
      (auto simp: on_rb_post_def rb_ctrl_note_drop_def Let_def split: option.split)
  show "\<exists>q d. on_rb_resolved w c p = c\<lparr>ct_resolved_q := q, ct_dropped := d\<rparr>"
    by (rule exI [of _ "ct_resolved_q (on_rb_resolved w c p)"],
        rule exI [of _ "ct_dropped (on_rb_resolved w c p)"])
      (auto simp: on_rb_resolved_def rb_ctrl_note_drop_def Let_def split: option.split)
qed

lemma ctrl_inv_handlers:
  assumes "ctrl_inv w c"
  shows "ctrl_inv w (on_rb_sync w c p)" "ctrl_inv w (on_rb_seal_rows w c p)"
    "ctrl_inv w (on_rb_baseline w c p)" "ctrl_inv w (on_rb_post w c p)"
    "ctrl_inv w (on_rb_resolved w c p)"
proof -
  have q: "queue_inv w id sy_from (ct_sync_q c)" "queue_inv w seal_key sl_from (ct_seal_q c)"
    "queue_inv w base_key bs_from (ct_base_q c)" "queue_inv w post_key po_from (ct_post_q c)"
    "queue_inv w rs_from rs_from (ct_resolved_q c)"
    using assms by (auto simp: ctrl_inv_def)
  have sync: "queue_inv w id sy_from (ct_sync_q (on_rb_sync w c p))"
  proof (cases "rb_filtered c p \<or> dp_local_slot p = w")
    case False
    then have ne: "\<not> rb_filtered c p" "dp_local_slot p \<noteq> w" by auto
    show ?thesis unfolding on_rb_sync_queue [OF ne]
      by (rule queue_inv_arrive [OF q(1)]) (use ne in \<open>auto simp: sync_msg_def\<close>)
  qed (simp add: own_or_filtered q)
  have seal: "queue_inv w seal_key sl_from (ct_seal_q (on_rb_seal_rows w c p))"
  proof (cases "dp_local_slot p = w")
    case False
    show ?thesis unfolding on_rb_seal_queue [OF False]
      by (rule queue_inv_arrive [OF q(2)]) (use False in \<open>auto simp: seal_msg_def seal_key_def\<close>)
  qed (simp add: own_or_filtered q)
  have base: "queue_inv w base_key bs_from (ct_base_q (on_rb_baseline w c p))"
  proof (cases "rb_filtered c p \<or> dp_local_slot p = w")
    case False
    then have ne: "\<not> rb_filtered c p" "dp_local_slot p \<noteq> w" by auto
    show ?thesis unfolding on_rb_baseline_queue [OF ne]
      by (rule queue_inv_arrive [OF q(3)]) (use ne in \<open>auto simp: base_msg_def\<close>)
  qed (simp add: own_or_filtered q)
  have post: "queue_inv w post_key po_from (ct_post_q (on_rb_post w c p))"
  proof (cases "rb_filtered c p \<or> dp_local_slot p = w")
    case False
    then have ne: "\<not> rb_filtered c p" "dp_local_slot p \<noteq> w" by auto
    show ?thesis unfolding on_rb_post_queue [OF ne]
      by (rule queue_inv_arrive [OF q(4)]) (use ne in \<open>auto simp: post_msg_def\<close>)
  qed (simp add: own_or_filtered q)
  have resolved: "queue_inv w rs_from rs_from (ct_resolved_q (on_rb_resolved w c p))"
  proof (cases "dp_local_slot p = w")
    case False
    show ?thesis unfolding on_rb_resolved_queue [OF False]
      by (rule queue_inv_arrive [OF q(5)]) (use False in \<open>auto simp: resolved_merge_def resolved_msg_def\<close>)
  qed (simp add: own_or_filtered q)
  show "ctrl_inv w (on_rb_sync w c p)"
    using handler_frames(1) [of w c p] sync assms by (auto simp: ctrl_inv_def)
  show "ctrl_inv w (on_rb_seal_rows w c p)"
    using handler_frames(2) [of w c p] seal assms by (auto simp: ctrl_inv_def)
  show "ctrl_inv w (on_rb_baseline w c p)"
    using handler_frames(3) [of w c p] base assms by (auto simp: ctrl_inv_def)
  show "ctrl_inv w (on_rb_post w c p)"
    using handler_frames(4) [of w c p] post assms by (auto simp: ctrl_inv_def)
  show "ctrl_inv w (on_rb_resolved w c p)"
    using handler_frames(5) [of w c p] resolved assms by (auto simp: ctrl_inv_def)
qed

lemma ctrl_inv_arrive:
  assumes "ctrl_inv w c"
  shows "ctrl_inv w (ctrl_arrive w c p)"
proof -
  have sio: "ctrl_inv w (on_sio_multi_xfer w c p)"
    using assms q_put_latest_ok(1) [of 32 "ct_sio_q c"]
    by (auto simp: ctrl_inv_def on_sio_multi_xfer_def)
  have fc: "ctrl_inv w (on_rb_frame_commit w c p)"
    using assms q_put_latest_ok [of 256 "ct_fc_q c"]
    by (cases "q_contents (ct_fc_q c)")
      (auto simp: ctrl_inv_def on_rb_frame_commit_def split: if_splits)
  have "ctrl_inv w (on_modset w c p)" "ctrl_inv w (on_modset_ack w c p)"
    using assms by (auto simp: ctrl_inv_def on_modset_def on_modset_ack_def Let_def)
  with sio fc ctrl_inv_handlers [OF assms, of p] assms show ?thesis by (simp add: ctrl_arrive_def)
qed

lemma ctrl_inv_step:
  assumes "ctrl_inv w c"
  shows "ctrl_inv w (ctrl_step w c opn)"
proof -
  have fc: "q_ok 256 (q_rest (ct_fc_q c)) \<and> (\<forall>e \<in> set (q_contents (q_rest (ct_fc_q c))). fc_from e \<noteq> w)"
    using assms q_rest_ok [of 256 "ct_fc_q c"]
    by (cases "q_contents (ct_fc_q c)") (auto simp: ctrl_inv_def)
  show ?thesis
    using assms fc ctrl_inv_arrive [OF assms] q_rest_ok [of 32 "ct_sio_q c"]
      q_ok_clear [of 256 "ct_fc_q c"]
    by (cases opn)
      (auto simp: ctrl_inv_def rb_clear_queues_def intro: queue_inv_rest queue_inv_clear)
qed

interpretation ctrl_system: op_system "ctrl_inv w" "ctrl_step w" for w
  by unfold_locales (rule ctrl_inv_step)

text \<open>
  C33. After any sequence of arrivals, takes, resets and scope changes, every control queue is a
  well-formed ring of its capacity, 256 for the frame commits and 32 for the others: its tail is a
  slot of the array, its head is the slot \<open>count\<close> places further round, and the count does not exceed
  the capacity. The waiting messages have pairwise different keys (retransmissions were merged into the message that waits), and none of them is an echo of
  the session's own packets.
\<close>

theorem ctrl_queues_invariant:
  "let c = foldl (ctrl_step w) init_ctrl opns
   in q_ok 256 (ct_fc_q c) \<and> q_ok 32 (ct_sync_q c) \<and> q_ok 32 (ct_seal_q c) \<and> q_ok 32 (ct_base_q c) \<and>
      q_ok 32 (ct_post_q c) \<and> q_ok 32 (ct_resolved_q c) \<and> q_ok 32 (ct_sio_q c) \<and>
      distinct (q_contents (ct_sync_q c)) \<and> distinct (map seal_key (q_contents (ct_seal_q c))) \<and>
      distinct (map base_key (q_contents (ct_base_q c))) \<and>
      distinct (map post_key (q_contents (ct_post_q c))) \<and>
      distinct (map rs_from (q_contents (ct_resolved_q c))) \<and>
      w \<notin> fc_from ` set (q_contents (ct_fc_q c)) \<union> sy_from ` set (q_contents (ct_sync_q c)) \<union>
        sl_from ` set (q_contents (ct_seal_q c)) \<union> bs_from ` set (q_contents (ct_base_q c)) \<union>
        po_from ` set (q_contents (ct_post_q c)) \<union> rs_from ` set (q_contents (ct_resolved_q c))"
proof -
  have "ctrl_inv w (foldl (ctrl_step w) init_ctrl opns)"
    by (rule ctrl_system.run_inv [OF ctrl_inv_init])
  then show ?thesis
    by (auto simp: ctrl_inv_def queue_inv_def Let_def)
qed

text \<open>
  C34. Each control queue implements its specification on lists: an arriving message from another
  seat is merged into the waiting message with the same key (a baseline or post replaces it, a
  resolved watermark is only raised, a sync or seal-rows repeat changes nothing), and otherwise
  appended; a full queue makes room by giving up its oldest message only if that one belongs to an
  older episode, and only the seal-rows, baseline and post queues do so: sync and resolved refuse.
  Filtered packets and echoes change nothing.
\<close>

theorem ctrl_queue_refines:
  fixes w :: u8 and opns :: "ctrl_op list"
  defines "c \<equiv> foldl (ctrl_step w) init_ctrl opns"
  shows "q_contents (ct_sync_q (on_rb_sync w c p)) =
      (if rb_filtered c p \<or> dp_local_slot p = w then q_contents (ct_sync_q c)
       else coalesce (\<lambda>e. e = sync_msg p) (\<lambda>e. e) (\<lambda>e. False) (sync_msg p) (q_contents (ct_sync_q c)))
    \<and> (\<exists>stale. q_contents (ct_seal_q (on_rb_seal_rows w c p)) =
      (if dp_local_slot p = w then q_contents (ct_seal_q c)
       else coalesce (\<lambda>e. seal_key e = seal_key (seal_msg p [])) (\<lambda>e. e)
         (\<lambda>e. rb_epoch_before (sl_epoch_id e) (dp_rb_epoch_id p)) (seal_msg p stale)
         (q_contents (ct_seal_q c))))
    \<and> q_contents (ct_base_q (on_rb_baseline w c p)) =
      (if rb_filtered c p \<or> dp_local_slot p = w then q_contents (ct_base_q c)
       else coalesce (\<lambda>e. base_key e = base_key (base_msg p)) (\<lambda>e. base_msg p)
         (\<lambda>e. rb_epoch_before (bs_epoch_id e) (dp_rb_epoch_id p)) (base_msg p)
         (q_contents (ct_base_q c)))
    \<and> q_contents (ct_post_q (on_rb_post w c p)) =
      (if rb_filtered c p \<or> dp_local_slot p = w then q_contents (ct_post_q c)
       else coalesce (\<lambda>e. post_key e = post_key (post_msg p)) (\<lambda>e. post_msg p)
         (\<lambda>e. rb_epoch_before (po_epoch_id e) (dp_rb_epoch_id p)) (post_msg p)
         (q_contents (ct_post_q c)))
    \<and> q_contents (ct_resolved_q (on_rb_resolved w c p)) =
      (if dp_local_slot p = w then q_contents (ct_resolved_q c)
       else coalesce (\<lambda>e. rs_from e = dp_local_slot p) (resolved_merge p) (\<lambda>e. False)
         (resolved_msg p) (q_contents (ct_resolved_q c)))"
proof -
  have "ctrl_inv w c" unfolding c_def by (rule ctrl_system.run_inv [OF ctrl_inv_init])
  then have ok: "q_ok 32 (ct_sync_q c)" "q_ok 32 (ct_seal_q c)" "q_ok 32 (ct_base_q c)"
    "q_ok 32 (ct_post_q c)" "q_ok 32 (ct_resolved_q c)"
    by (auto simp: ctrl_inv_def queue_inv_def)
  have "\<exists>stale. q_contents (ct_seal_q (on_rb_seal_rows w c p)) =
      (if dp_local_slot p = w then q_contents (ct_seal_q c)
       else coalesce (\<lambda>e. seal_key e = seal_key (seal_msg p [])) (\<lambda>e. e)
         (\<lambda>e. rb_epoch_before (sl_epoch_id e) (dp_rb_epoch_id p)) (seal_msg p stale)
         (q_contents (ct_seal_q c)))"
    using q_arrive_ok(2) [OF ok(2)] on_rb_seal_queue [of p w c]
    by (cases "dp_local_slot p = w") (auto simp: own_or_filtered)
  then show ?thesis
    using q_arrive_ok(2) [OF ok(1)] q_arrive_ok(2) [OF ok(3)] q_arrive_ok(2) [OF ok(4)]
      q_arrive_ok(2) [OF ok(5)] on_rb_sync_queue [of c p w] on_rb_baseline_queue [of c p w]
      on_rb_post_queue [of c p w] on_rb_resolved_queue [of p w c]
    by (auto simp: own_or_filtered)
qed

lemma q_arrive_holds:
  assumes "q_ok 32 q"
  shows "q_find same q = None \<and> 32 \<le> q_count (q_shed old q) \<or>
    (\<exists>e. same e \<and> f e \<in> set (q_contents (q_arrive same f old mk q))) \<or>
    mk (q_shed old q) \<in> set (q_contents (q_arrive same f old mk q))"
proof (cases "q_find same q")
  case None
  then show ?thesis
    using q_put_ok(2) [OF q_shed_ok(1) [OF assms, of old], of "mk (q_shed old q)"]
    by (cases "q_count (q_shed old q) < 32") (auto simp: q_arrive_def Let_def)
next
  case (Some k)
  with assms obtain ys zs where "same (q_slots q ! k)"
    "\<And>v. q_contents (q\<lparr>q_slots := (q_slots q)[k := v]\<rparr>) = ys @ v # zs"
    by (rule q_find_some) blast
  with Some show ?thesis by (auto simp: q_arrive_def)
qed

lemma drop_counted:
  "\<not> rb_filtered c p \<Longrightarrow> dp_local_slot p \<noteq> w \<Longrightarrow> q_find (\<lambda>e. e = sync_msg p) (ct_sync_q c) = None \<Longrightarrow>
     32 \<le> q_count (ct_sync_q c) \<Longrightarrow> ct_dropped (on_rb_sync w c p) = ct_dropped c + 1"
  "dp_local_slot p \<noteq> w \<Longrightarrow> q_find (\<lambda>e. rs_from e = dp_local_slot p) (ct_resolved_q c) = None \<Longrightarrow>
     32 \<le> q_count (ct_resolved_q c) \<Longrightarrow> ct_dropped (on_rb_resolved w c p) = ct_dropped c + 1"
  "dp_local_slot p \<noteq> w \<Longrightarrow>
     q_find (\<lambda>e. seal_key e = seal_key (seal_msg p [])) (ct_seal_q c) = None \<Longrightarrow>
     32 \<le> q_count (q_shed (\<lambda>e. rb_epoch_before (sl_epoch_id e) (dp_rb_epoch_id p)) (ct_seal_q c)) \<Longrightarrow>
     ct_dropped (on_rb_seal_rows w c p) = ct_dropped c + 1"
  "\<not> rb_filtered c p \<Longrightarrow> dp_local_slot p \<noteq> w \<Longrightarrow>
     q_find (\<lambda>e. base_key e = base_key (base_msg p)) (ct_base_q c) = None \<Longrightarrow>
     32 \<le> q_count (q_shed (\<lambda>e. rb_epoch_before (bs_epoch_id e) (dp_rb_epoch_id p)) (ct_base_q c)) \<Longrightarrow>
     ct_dropped (on_rb_baseline w c p) = ct_dropped c + 1"
  "\<not> rb_filtered c p \<Longrightarrow> dp_local_slot p \<noteq> w \<Longrightarrow>
     q_find (\<lambda>e. post_key e = post_key (post_msg p)) (ct_post_q c) = None \<Longrightarrow>
     32 \<le> q_count (q_shed (\<lambda>e. rb_epoch_before (po_epoch_id e) (dp_rb_epoch_id p)) (ct_post_q c)) \<Longrightarrow>
     ct_dropped (on_rb_post w c p) = ct_dropped c + 1"
  by (simp_all add: on_rb_sync_def on_rb_resolved_def on_rb_seal_rows_def on_rb_baseline_def
      on_rb_post_def sync_msg_def seal_msg_def seal_key_def seal_rows_count_def base_msg_def
      base_key_def post_msg_def post_key_def rb_ctrl_note_drop_def Let_def) auto

text \<open>
  C35. No control message of another seat is lost without a trace: after its arrival either the drop
  counter went up by one, or the queue holds a message that answers for it: the very same sync,
  baseline or post, seal rows with the same key, or a resolved watermark of that sender which is
  not behind the one that arrived.
\<close>

theorem ctrl_no_silent_loss:
  assumes "c = foldl (ctrl_step w) init_ctrl opns" "dp_local_slot p \<noteq> w" "\<not> rb_filtered c p"
  shows "(sync_msg p \<in> set (q_contents (ct_sync_q (on_rb_sync w c p))) \<or>
        ct_dropped (on_rb_sync w c p) = ct_dropped c + 1)
    \<and> (seal_key (seal_msg p []) \<in> seal_key ` set (q_contents (ct_seal_q (on_rb_seal_rows w c p))) \<or>
        ct_dropped (on_rb_seal_rows w c p) = ct_dropped c + 1)
    \<and> (base_msg p \<in> set (q_contents (ct_base_q (on_rb_baseline w c p))) \<or>
        ct_dropped (on_rb_baseline w c p) = ct_dropped c + 1)
    \<and> (post_msg p \<in> set (q_contents (ct_post_q (on_rb_post w c p))) \<or>
        ct_dropped (on_rb_post w c p) = ct_dropped c + 1)
    \<and> ((\<exists>e \<in> set (q_contents (ct_resolved_q (on_rb_resolved w c p))).
          rs_from e = dp_local_slot p \<and> \<not> rb_epoch_before (rs_through e) (dp_rb_resolved_through p)) \<or>
        ct_dropped (on_rb_resolved w c p) = ct_dropped c + 1)"
proof -
  have "ctrl_inv w c" unfolding assms(1) by (rule ctrl_system.run_inv [OF ctrl_inv_init])
  then have ok: "q_ok 32 (ct_sync_q c)" "q_ok 32 (ct_seal_q c)" "q_ok 32 (ct_base_q c)"
    "q_ok 32 (ct_post_q c)" "q_ok 32 (ct_resolved_q c)"
    by (auto simp: ctrl_inv_def queue_inv_def)
  have self: "\<not> rb_epoch_before a a" for a by (simp add: rb_epoch_before_def)
  have merged: "rs_from (resolved_merge p e) = rs_from e \<and>
      \<not> rb_epoch_before (rs_through (resolved_merge p e)) (dp_rb_resolved_through p)" for e
    by (simp add: resolved_merge_def self)
  have key: "seal_key (seal_msg p stale) = seal_key (seal_msg p [])" for stale
    by (simp add: seal_msg_def seal_key_def)
  have fresh: "rs_from (resolved_msg p) = dp_local_slot p" "rs_through (resolved_msg p) = dp_rb_resolved_through p"
    by (simp_all add: resolved_msg_def)
  have 1: "sync_msg p \<in> set (q_contents (ct_sync_q (on_rb_sync w c p))) \<or>
      ct_dropped (on_rb_sync w c p) = ct_dropped c + 1"
    unfolding on_rb_sync_queue [OF assms(3,2)]
    using q_arrive_holds [OF ok(1), of "\<lambda>e. e = sync_msg p" "\<lambda>e. False" "\<lambda>e. e" "\<lambda>q. sync_msg p"]
      drop_counted(1) [OF assms(3,2)] by auto
  have 2: "seal_key (seal_msg p []) \<in> seal_key ` set (q_contents (ct_seal_q (on_rb_seal_rows w c p))) \<or>
      ct_dropped (on_rb_seal_rows w c p) = ct_dropped c + 1"
    unfolding on_rb_seal_queue [OF assms(2)]
    using q_arrive_holds [OF ok(2)] drop_counted(3) [OF assms(2), of c] key
    by (metis (mono_tags, lifting) image_eqI)
  have 3: "base_msg p \<in> set (q_contents (ct_base_q (on_rb_baseline w c p))) \<or>
      ct_dropped (on_rb_baseline w c p) = ct_dropped c + 1"
    unfolding on_rb_baseline_queue [OF assms(3,2)]
    using q_arrive_holds [OF ok(3), of "\<lambda>e. base_key e = base_key (base_msg p)"
        "\<lambda>e. rb_epoch_before (bs_epoch_id e) (dp_rb_epoch_id p)" "\<lambda>e. base_msg p" "\<lambda>q. base_msg p"]
      drop_counted(4) [OF assms(3,2)] by auto
  have 4: "post_msg p \<in> set (q_contents (ct_post_q (on_rb_post w c p))) \<or>
      ct_dropped (on_rb_post w c p) = ct_dropped c + 1"
    unfolding on_rb_post_queue [OF assms(3,2)]
    using q_arrive_holds [OF ok(4), of "\<lambda>e. post_key e = post_key (post_msg p)"
        "\<lambda>e. rb_epoch_before (po_epoch_id e) (dp_rb_epoch_id p)" "\<lambda>e. post_msg p" "\<lambda>q. post_msg p"]
      drop_counted(5) [OF assms(3,2)] by auto
  have 5: "(\<exists>e \<in> set (q_contents (ct_resolved_q (on_rb_resolved w c p))).
        rs_from e = dp_local_slot p \<and> \<not> rb_epoch_before (rs_through e) (dp_rb_resolved_through p)) \<or>
      ct_dropped (on_rb_resolved w c p) = ct_dropped c + 1"
    unfolding on_rb_resolved_queue [OF assms(2)]
    using q_arrive_holds [OF ok(5), of "\<lambda>e. rs_from e = dp_local_slot p" "\<lambda>e. False"
        "resolved_merge p" "\<lambda>q. resolved_msg p"]
      drop_counted(2) [OF assms(2)] merged fresh self by (metis q_shed_never)
  show ?thesis using 1 2 3 4 5 by blast
qed

theorem ctrl_no_silent_loss_witness:
  "dp_local_slot (zero_packet\<lparr>dp_local_slot := 1\<rparr>) \<noteq> 0 \<and>
   \<not> rb_filtered init_ctrl (zero_packet\<lparr>dp_local_slot := 1\<rparr>) \<and>
   (post_msg (zero_packet\<lparr>dp_local_slot := 1\<rparr>) \<in> set (q_contents (ct_post_q
      (on_rb_post 0 init_ctrl (zero_packet\<lparr>dp_local_slot := 1\<rparr>)))) \<or>
    ct_dropped (on_rb_post 0 init_ctrl (zero_packet\<lparr>dp_local_slot := 1\<rparr>)) = ct_dropped init_ctrl + 1)"
proof -
  have 1: "init_ctrl = foldl (ctrl_step 0) init_ctrl []" by simp
  have 2: "dp_local_slot (zero_packet\<lparr>dp_local_slot := 1\<rparr>) \<noteq> 0" by simp
  have 3: "\<not> rb_filtered init_ctrl (zero_packet\<lparr>dp_local_slot := 1\<rparr>)"
    by (simp add: rb_filtered_def init_ctrl_def)
  show ?thesis using 2 3 ctrl_no_silent_loss [OF 1 2 3] by blast
qed

end
