(* ===== verification/RNet_Profiles.thy ===== *)
theory RNet_Profiles
  imports RNet_Ctrl
begin

text \<open>
  The startup-profile agreement of \<^verbatim>\<open>src/session/rnet_session.c\<close>
  (\<^verbatim>\<open>include/recomp_net/startup_profiles.h\<close>): every occupied seat offers its capabilities once, each
  seat chooses the highest profile all offers share, and acknowledges the choice together with a
  fingerprint of all offers. The last section runs the agreement over a network that may lose,
  repeat and reorder packets, and shows that the seats which report agreement agree.
\<close>

section \<open>The agreement\<close>

abbreviation (input) PROFILE_OFFER :: u8 where "PROFILE_OFFER \<equiv> 7"
abbreviation (input) PROFILE_ACK :: u8 where "PROFILE_ACK \<equiv> 8"

fun profile_fold_loop :: "nat \<Rightarrow> u32 \<Rightarrow> u32 \<Rightarrow> u32" where
  "profile_fold_loop 0 h word = h"
| "profile_fold_loop (Suc n) h word =
     profile_fold_loop n ((h XOR (word AND 255)) * 16777619) (drop_bit 8 word)"

definition profile_fold :: "u32 \<Rightarrow> u32 \<Rightarrow> u32" where
  "profile_fold h word = profile_fold_loop 4 h word"

text \<open>The scan over the seats: the common profiles and the running fingerprint.\<close>

definition choose_seat ::
  "u32 \<Rightarrow> RNetProfileCaps list \<Rightarrow> u32 \<times> u32 \<Rightarrow> nat \<Rightarrow> u32 \<times> u32" where
  "choose_seat occ caps ch i =
     (if occ AND push_bit i 1 = 0 then ch
      else let c = caps ! i in
        (fst ch AND pc_profiles c,
         profile_fold (profile_fold (profile_fold (profile_fold (profile_fold (snd ch) (of_nat i))
           (pc_cpu_features c)) (pc_backends c)) (pc_profiles c)) (pc_architecture c)))"

fun highest_profile :: "nat \<Rightarrow> u32 \<Rightarrow> nat" where
  "highest_profile 0 common = 0"
| "highest_profile (Suc i) common =
     (if common AND push_bit (Suc i) 1 = 0 then highest_profile i common else Suc i)"

definition profiles_choose :: "RNetConfig \<Rightarrow> RNetProfiles \<Rightarrow> RNetProfiles" where
  "profiles_choose cfg pf =
     (if pf_offers pf \<noteq> pf_occupied pf \<or> pf_acks pf \<noteq> 0 then pf
      else let h0 = profile_fold (profile_fold (profile_fold 2166136261 (pf_qualification pf))
                      (ucast (slot_count cfg))) (pf_occupied pf);
               (common, h) = foldl (choose_seat (pf_occupied pf) (pf_caps pf)) (-1, h0)
                               [0..<unat (slot_count cfg)]
           in if common AND 1 = 0 then pf\<lparr>pf_refused := True\<rparr>
              else let i = of_nat (highest_profile 31 common);
                       own = push_bit (unat (local_slot cfg)) 1
                   in pf\<lparr>pf_selected := i, pf_transcript := profile_fold h i, pf_acks := own,
                         pf_acknowledged_by := own, pf_dirty := True\<rparr>)"

definition profiles_receive :: "RNetConfig \<Rightarrow> RNetProfiles \<Rightarrow> RNetDecodedPacket \<Rightarrow> RNetProfiles" where
  "profiles_receive cfg pf p =
     (let seat = unat (dp_local_slot p); b = push_bit seat 1
      in if \<not> pf_active pf \<or> pf_refused pf \<or> dp_local_slot p \<ge> slot_count cfg \<or>
            dp_local_slot p = local_slot cfg then pf
         else if pf_occupied pf AND b = 0 then pf
         else if dp_rb_epoch_id p \<noteq> pf_qualification pf \<or> dp_rb_flags p \<noteq> 0
         then pf\<lparr>pf_refused := True\<rparr>
         else if dp_rb_initiator p = PROFILE_OFFER then
           let caps = \<lparr>pc_cpu_features = dp_rb_mismatch_tick p, pc_backends = dp_rb_load_tick p,
                       pc_profiles = dp_rb_target_tick p,
                       pc_architecture = ucast (dp_rb_corrected_slot p)\<rparr>
           in if pc_profiles caps AND 1 = 0 \<or> pf_offers pf AND b \<noteq> 0 \<and> caps \<noteq> pf_caps pf ! seat
              then pf\<lparr>pf_refused := True\<rparr>
              else profiles_choose cfg (pf\<lparr>pf_caps := (pf_caps pf)[seat := caps],
                     pf_offers := pf_offers pf OR b\<rparr>)
         else if pf_offers pf = pf_occupied pf then
           if dp_rb_mismatch_tick p \<noteq> pf_selected pf \<or> dp_rb_load_tick p \<noteq> pf_transcript pf \<or>
              dp_rb_corrected_slot p \<noteq> 0 \<or> dp_rb_target_tick p AND b = 0 \<or>
              dp_rb_target_tick p AND NOT (pf_occupied pf) \<noteq> 0
           then pf\<lparr>pf_refused := True\<rparr>
           else let pf' = (if pf_acks pf AND b = 0 then pf\<lparr>pf_dirty := True\<rparr> else pf);
                    pf'' = pf'\<lparr>pf_acks := pf_acks pf OR b\<rparr>
                in if dp_rb_target_tick p AND push_bit (unat (local_slot cfg)) 1 \<noteq> 0
                   then pf''\<lparr>pf_acknowledged_by := pf_acknowledged_by pf OR b\<rparr> else pf''
         else pf)"

definition profiles_drive :: "RNetSession \<Rightarrow> RNetSession" where
  "profiles_drive s =
     (let pf = ss_profiles s
      in if \<not> pf_active pf \<or> pf_refused pf \<or> ss_phase s \<noteq> PHASE_RUNNING then s
         else if \<not> pf_dirty pf \<and> pf_acknowledged_by pf = pf_occupied pf then s
         else if \<not> pf_dirty pf \<and> pf_last_tx pf \<noteq> 0 \<and> ss_now s - pf_last_tx pf < 100 then s
         else let c = pf_caps pf ! unat (local_slot (ss_cfg s));
                  s1 = snd (rnet_session_send_rb_sync s (pf_qualification pf) (pc_cpu_features c)
                         (pc_backends c) (pc_profiles c) (ucast (pc_architecture c)) PROFILE_OFFER 0);
                  s2 = (if pf_acks pf \<noteq> 0
                        then snd (rnet_session_send_rb_sync s1 (pf_qualification pf) (pf_selected pf)
                               (pf_transcript pf) (pf_acks pf) 0 PROFILE_ACK 0)
                        else s1)
              in s2\<lparr>ss_profiles := pf\<lparr>pf_last_tx := stamp (ss_now s), pf_dirty := False\<rparr>\<rparr>)"

text \<open>The part of \<^verbatim>\<open>rnet_session_profiles_begin\<close> after its guards on the session.\<close>

definition profiles_begin :: "RNetConfig \<Rightarrow> RNetProfiles \<Rightarrow> u32 \<Rightarrow> RNetProfileCaps \<Rightarrow> RNetProfiles" where
  "profiles_begin cfg pf qualification caps =
     (let occ = foldl (\<lambda>m i. if rnet_config_slot_occupied cfg (of_nat i) then m OR push_bit i 1 else m)
                  (pf_occupied pf) [0..<unat (slot_count cfg)];
          own = unat (local_slot cfg)
      in profiles_choose cfg (pf\<lparr>pf_occupied := occ, pf_active := True,
           pf_qualification := qualification, pf_caps := (pf_caps pf)[own := caps],
           pf_offers := push_bit own 1, pf_dirty := True\<rparr>))"

definition profiles_may_begin :: "RNetConfig \<Rightarrow> RNetProfiles \<Rightarrow> u32 \<Rightarrow> RNetProfileCaps \<Rightarrow> bool" where
  "profiles_may_begin cfg pf qualification caps \<longleftrightarrow>
     qualification \<noteq> 0 \<and> pc_profiles caps AND 1 \<noteq> 0 \<and> \<not> pc_architecture caps > 255 \<and>
     \<not> pf_active pf \<and> rnet_config_slot_occupied cfg (local_slot cfg)"

definition rnet_session_profiles_begin ::
  "RNetSession \<Rightarrow> u32 \<Rightarrow> RNetProfileCaps \<Rightarrow> bool \<times> RNetSession" where
  "rnet_session_profiles_begin s qualification caps =
     (if \<not> profiles_may_begin (ss_cfg s) (ss_profiles s) qualification caps \<or> ss_is_observer s \<or>
         ss_phase s \<noteq> PHASE_IDLE \<or> ss_sim_tick s \<noteq> 0 then (False, s)
      else (True, s\<lparr>ss_profiles := profiles_begin (ss_cfg s) (ss_profiles s) qualification caps\<rparr>))"

text \<open>The status -1, 0 or 1, the last with its two outputs.\<close>

datatype profile_status = Profiles_refused | Profiles_pending | Profiles_agreed u32 u32

definition profiles_status :: "RNetProfiles \<Rightarrow> profile_status" where
  "profiles_status pf =
     (if \<not> pf_active pf \<or> pf_refused pf then Profiles_refused
      else if pf_acks pf \<noteq> pf_occupied pf then Profiles_pending
      else Profiles_agreed (pf_selected pf) (pf_transcript pf))"

definition rnet_session_profiles_status :: "RNetSession \<Rightarrow> profile_status" where
  "rnet_session_profiles_status s = profiles_status (ss_profiles s)"

definition rnet_session_profiles_peer :: "RNetSession \<Rightarrow> int \<Rightarrow> RNetProfileCaps option" where
  "rnet_session_profiles_peer s seat =
     (if seat < 0 \<or> seat \<ge> uint (slot_count (ss_cfg s)) \<or>
         pf_offers (ss_profiles s) AND push_bit (nat seat) 1 = 0 then None
      else Some (pf_caps (ss_profiles s) ! nat seat))"

section \<open>Over a network\<close>

text \<open>The offer and the acknowledgement of a seat, as the receiver decodes them.\<close>

definition offer_packet :: "RNetConfig \<Rightarrow> RNetProfiles \<Rightarrow> RNetDecodedPacket" where
  "offer_packet cfg pf = (let c = pf_caps pf ! unat (local_slot cfg) in
     zero_packet\<lparr>dp_type := RNET_PKT_RB_SYNC, dp_local_slot := local_slot cfg,
       dp_rb_epoch_id := pf_qualification pf, dp_rb_mismatch_tick := pc_cpu_features c,
       dp_rb_load_tick := pc_backends c, dp_rb_target_tick := pc_profiles c,
       dp_rb_corrected_slot := ucast (pc_architecture c), dp_rb_initiator := PROFILE_OFFER\<rparr>)"

definition ack_packet :: "RNetConfig \<Rightarrow> RNetProfiles \<Rightarrow> RNetDecodedPacket" where
  "ack_packet cfg pf =
     zero_packet\<lparr>dp_type := RNET_PKT_RB_SYNC, dp_local_slot := local_slot cfg,
       dp_rb_epoch_id := pf_qualification pf, dp_rb_mismatch_tick := pf_selected pf,
       dp_rb_load_tick := pf_transcript pf, dp_rb_target_tick := pf_acks pf,
       dp_rb_initiator := PROFILE_ACK\<rparr>"

text \<open>
  \<open>prof_net cfg st M\<close>: the seats have reached the states \<open>st\<close> and have sent the packets \<open>M\<close>. A
  packet once sent may arrive any number of times, at any later time, or never.
\<close>

inductive prof_net :: "(u8 \<Rightarrow> RNetConfig) \<Rightarrow> (u8 \<Rightarrow> RNetProfiles) \<Rightarrow> RNetDecodedPacket set \<Rightarrow> bool"
  for cfg where
  start: "prof_net cfg (\<lambda>i. zero_profiles) {}"
| opt_in: "prof_net cfg st M \<Longrightarrow> profiles_may_begin (cfg i) (st i) q caps \<Longrightarrow>
    prof_net cfg (st(i := profiles_begin (cfg i) (st i) q caps)) M"
| send_offer: "prof_net cfg st M \<Longrightarrow> pf_active (st i) \<Longrightarrow> \<not> pf_refused (st i) \<Longrightarrow>
    prof_net cfg st (insert (offer_packet (cfg i) (st i)) M)"
| send_ack: "prof_net cfg st M \<Longrightarrow> pf_active (st i) \<Longrightarrow> \<not> pf_refused (st i) \<Longrightarrow>
    pf_acks (st i) \<noteq> 0 \<Longrightarrow> prof_net cfg st (insert (ack_packet (cfg i) (st i)) M)"
| recv: "prof_net cfg st M \<Longrightarrow> p \<in> M \<Longrightarrow>
    prof_net cfg (st(j := profiles_receive (cfg j) (st j) p)) M"

section \<open>The choice\<close>

text \<open>\<open>sel_ok n pf\<close>: the selected profile is offered by every occupied seat below \<open>n\<close>, and no higher
  one is.\<close>

definition sel_ok :: "nat \<Rightarrow> RNetProfiles \<Rightarrow> bool" where
  "sel_ok n pf \<longleftrightarrow> unat (pf_selected pf) < 32 \<and>
     (\<forall>k < n. bit (pf_occupied pf) k \<longrightarrow> bit (pc_profiles (pf_caps pf ! k)) (unat (pf_selected pf))) \<and>
     (\<forall>t. unat (pf_selected pf) < t \<and> t < 32 \<longrightarrow>
        (\<exists>k < n. bit (pf_occupied pf) k \<and> \<not> bit (pc_profiles (pf_caps pf ! k)) t))"

lemma choose_seat_common:
  "bit (fst (foldl (choose_seat occ caps) ch [0..<n])) t \<longleftrightarrow>
     bit (fst ch) t \<and> (\<forall>k < n. bit occ k \<longrightarrow> bit (pc_profiles (caps ! k)) t)"
  by (induction n) (auto simp: choose_seat_def Let_def bit_and_iff less_Suc_eq)

declare highest_profile.simps(2) [simp del]

lemma highest_profile_spec:
  assumes "bit (common :: u32) 0"
  shows "bit common (highest_profile n common) \<and> highest_profile n common \<le> n \<and>
    (\<forall>t. highest_profile n common < t \<and> t \<le> n \<longrightarrow> \<not> bit common t)"
proof (induction n)
  case (Suc n)
  show ?case
  proof (cases "bit common (Suc n)")
    case False
    then have "highest_profile (Suc n) common = highest_profile n common"
      by (simp only: highest_profile.simps push_bit_eq_mult mult_1 mask_test) simp
    with Suc.IH False show ?thesis by (auto simp: le_Suc_eq)
  next
    case True
    then have "highest_profile (Suc n) common = Suc n"
      by (simp only: highest_profile.simps push_bit_eq_mult mult_1 mask_test) simp
    with True show ?thesis by auto
  qed
qed (use assms in auto)

lemma and_one_word: "(c :: u32) AND 1 = 0 \<longleftrightarrow> \<not> bit c 0"
  using mask_test [of c 0] by simp

lemma profiles_choose_cases:
  obtains (same) "profiles_choose cfg pf = pf" "pf_offers pf \<noteq> pf_occupied pf \<or> pf_acks pf \<noteq> 0"
  | (refused) "profiles_choose cfg pf = pf\<lparr>pf_refused := True\<rparr>" "pf_acks pf = 0"
  | (chosen) sel tr where "pf_offers pf = pf_occupied pf" "pf_acks pf = 0"
      "profiles_choose cfg pf = pf\<lparr>pf_selected := sel, pf_transcript := tr,
         pf_acks := push_bit (unat (local_slot cfg)) 1,
         pf_acknowledged_by := push_bit (unat (local_slot cfg)) 1, pf_dirty := True\<rparr>"
      "sel_ok (unat (slot_count cfg)) (profiles_choose cfg pf)"
proof (cases "pf_offers pf \<noteq> pf_occupied pf \<or> pf_acks pf \<noteq> 0")
  case True
  then show thesis by (intro same) (simp_all add: profiles_choose_def)
next
  case False
  define h0 where "h0 = profile_fold (profile_fold (profile_fold 2166136261 (pf_qualification pf))
    (ucast (slot_count cfg))) (pf_occupied pf)"
  obtain common h where
    f: "foldl (choose_seat (pf_occupied pf) (pf_caps pf)) (-1, h0) [0..<unat (slot_count cfg)] = (common, h)"
    by fastforce
  have common: "bit common t \<longleftrightarrow> t < 32 \<and> (\<forall>k < unat (slot_count cfg). bit (pf_occupied pf) k \<longrightarrow>
      bit (pc_profiles (pf_caps pf ! k)) t)" for t
    using choose_seat_common [of "pf_occupied pf" "pf_caps pf" "(-1, h0)" "unat (slot_count cfg)" t]
    by (simp add: f)
  show thesis
  proof (cases "bit common 0")
    case no: False
    have "profiles_choose cfg pf = pf\<lparr>pf_refused := True\<rparr>"
      using False no f by (simp add: profiles_choose_def h0_def and_one_word)
    then show thesis using False by (intro refused) auto
  next
    case yes: True
    define i where "i = highest_profile 31 common"
    have i: "bit common i" "i \<le> 31" "\<And>t. i < t \<Longrightarrow> t \<le> 31 \<Longrightarrow> \<not> bit common t"
      using highest_profile_spec [OF yes, of 31] by (auto simp: i_def)
    have ui: "unat (of_nat i :: u32) = i" using i(2) by (simp add: unat_of_nat take_bit_nat_eq_self)
    have eq: "profiles_choose cfg pf = pf\<lparr>pf_selected := of_nat i, pf_transcript := profile_fold h (of_nat i),
         pf_acks := push_bit (unat (local_slot cfg)) 1,
         pf_acknowledged_by := push_bit (unat (local_slot cfg)) 1, pf_dirty := True\<rparr>"
      using False yes f by (simp add: profiles_choose_def h0_def and_one_word i_def Let_def)
    have "sel_ok (unat (slot_count cfg)) (profiles_choose cfg pf)"
      using i common by (auto simp: eq sel_ok_def ui)
    with eq False show thesis by (intro chosen) auto
  qed
qed

section \<open>What each seat keeps\<close>

definition seat_ok :: "RNetConfig \<Rightarrow> RNetProfiles \<Rightarrow> bool" where
  "seat_ok cfg pf \<longleftrightarrow> length (pf_caps pf) = 8 \<and> (\<not> pf_active pf \<longrightarrow> pf = zero_profiles) \<and>
     (\<forall>k. bit (pf_occupied pf) k \<longrightarrow> k < unat (slot_count cfg)) \<and>
     (pf_active pf \<longrightarrow> local_slot cfg < 8 \<and> bit (pf_occupied pf) (unat (local_slot cfg)) \<and>
        pc_architecture (pf_caps pf ! unat (local_slot cfg)) \<le> 255) \<and>
     (\<forall>k. bit (pf_offers pf) k \<or> bit (pf_acks pf) k \<longrightarrow> k < 8) \<and>
     (pf_acks pf \<noteq> 0 \<longrightarrow> bit (pf_acks pf) (unat (local_slot cfg)) \<and>
        pf_offers pf = pf_occupied pf \<and> sel_ok (unat (slot_count cfg)) pf)"

text \<open>A seat that has every offer has chosen, or refused.\<close>

definition settled :: "RNetProfiles \<Rightarrow> bool" where
  "settled pf \<longleftrightarrow> (pf_active pf \<and> \<not> pf_refused pf \<and> pf_offers pf = pf_occupied pf \<longrightarrow> pf_acks pf \<noteq> 0)"

text \<open>What a seat has once sent stays true of it.\<close>

definition evolves :: "RNetConfig \<Rightarrow> RNetProfiles \<Rightarrow> RNetProfiles \<Rightarrow> bool" where
  "evolves cfg pf pf' \<longleftrightarrow>
     (pf_active pf \<longrightarrow> pf_active pf' \<and> pf_qualification pf' = pf_qualification pf \<and>
        pf_caps pf' ! unat (local_slot cfg) = pf_caps pf ! unat (local_slot cfg)) \<and>
     (pf_acks pf \<noteq> 0 \<longrightarrow> pf_acks pf' \<noteq> 0 \<and> pf_selected pf' = pf_selected pf \<and>
        pf_transcript pf' = pf_transcript pf)"

text \<open>The three things an arriving profile packet can do.\<close>

definition offer_caps :: "RNetDecodedPacket \<Rightarrow> RNetProfileCaps" where
  "offer_caps p = \<lparr>pc_cpu_features = dp_rb_mismatch_tick p, pc_backends = dp_rb_load_tick p,
     pc_profiles = dp_rb_target_tick p, pc_architecture = ucast (dp_rb_corrected_slot p)\<rparr>"

lemma profiles_receive_cases:
  obtains (ignored) r where "profiles_receive cfg pf p = pf\<lparr>pf_refused := r\<rparr>" "pf_refused pf \<longrightarrow> r"
  | (offered) "dp_rb_initiator p = PROFILE_OFFER" "pf_active pf" "dp_local_slot p < slot_count cfg"
      "dp_local_slot p \<noteq> local_slot cfg" "bit (pf_occupied pf) (unat (dp_local_slot p))"
      "bit (pf_offers pf) (unat (dp_local_slot p)) \<longrightarrow> offer_caps p = pf_caps pf ! unat (dp_local_slot p)"
      "profiles_receive cfg pf p = profiles_choose cfg
         (pf\<lparr>pf_caps := (pf_caps pf)[unat (dp_local_slot p) := offer_caps p],
             pf_offers := pf_offers pf OR push_bit (unat (dp_local_slot p)) 1\<rparr>)"
  | (acked) d a where "dp_rb_initiator p \<noteq> PROFILE_OFFER" "pf_active pf" "\<not> pf_refused pf"
      "dp_local_slot p < slot_count cfg" "dp_local_slot p \<noteq> local_slot cfg"
      "pf_offers pf = pf_occupied pf" "dp_rb_mismatch_tick p = pf_selected pf"
      "dp_rb_load_tick p = pf_transcript pf"
      "profiles_receive cfg pf p =
         pf\<lparr>pf_acks := pf_acks pf OR push_bit (unat (dp_local_slot p)) 1, pf_dirty := d,
            pf_acknowledged_by := a\<rparr>"
proof -
  let ?b = "push_bit (unat (dp_local_slot p)) 1 :: u32"
  have ign: thesis if "profiles_receive cfg pf p = pf" using that ignored [of "pf_refused pf"] by simp
  consider (stop) "\<not> pf_active pf \<or> pf_refused pf \<or> dp_local_slot p \<ge> slot_count cfg \<or>
      dp_local_slot p = local_slot cfg \<or> pf_occupied pf AND ?b = 0"
    | (go) "pf_active pf" "\<not> pf_refused pf" "dp_local_slot p < slot_count cfg"
      "dp_local_slot p \<noteq> local_slot cfg" "pf_occupied pf AND ?b \<noteq> 0"
    by fastforce
  then show thesis
  proof cases
    case stop
    then show thesis by (intro ign) (auto simp: profiles_receive_def Let_def)
  next
    case go
    note R = profiles_receive_def [of cfg pf p, unfolded Let_def]
    show thesis
    proof (cases "dp_rb_epoch_id p \<noteq> pf_qualification pf \<or> dp_rb_flags p \<noteq> 0")
      case True
      then have "profiles_receive cfg pf p = pf\<lparr>pf_refused := True\<rparr>"
        using go unfolding R by auto
      then show thesis by (rule ignored) simp
    next
      case ok: False
      show thesis
      proof (cases "dp_rb_initiator p = PROFILE_OFFER")
        case True
        show thesis
        proof (cases "pc_profiles (offer_caps p) AND 1 = 0 \<or>
            pf_offers pf AND ?b \<noteq> 0 \<and> offer_caps p \<noteq> pf_caps pf ! unat (dp_local_slot p)")
          case bad: True
          then have "profiles_receive cfg pf p = pf\<lparr>pf_refused := True\<rparr>"
            using go ok True unfolding R offer_caps_def by auto
          then show thesis by (rule ignored) simp
        next
          case good: False
          then have "profiles_receive cfg pf p = profiles_choose cfg
              (pf\<lparr>pf_caps := (pf_caps pf)[unat (dp_local_slot p) := offer_caps p],
                  pf_offers := pf_offers pf OR ?b\<rparr>)"
            using go ok True unfolding R offer_caps_def by auto
          then show thesis using go True good by (intro offered) auto
        qed
      next
        case noff: False
        show thesis
        proof (cases "pf_offers pf = pf_occupied pf \<and> \<not> (dp_rb_mismatch_tick p \<noteq> pf_selected pf \<or>
            dp_rb_load_tick p \<noteq> pf_transcript pf \<or> dp_rb_corrected_slot p \<noteq> 0 \<or>
            dp_rb_target_tick p AND ?b = 0 \<or> dp_rb_target_tick p AND NOT (pf_occupied pf) \<noteq> 0)")
          case True
          then have "profiles_receive cfg pf p = pf\<lparr>pf_acks := pf_acks pf OR ?b,
              pf_dirty := pf_dirty (profiles_receive cfg pf p),
              pf_acknowledged_by := pf_acknowledged_by (profiles_receive cfg pf p)\<rparr>"
            using go ok noff unfolding R by auto
          then show thesis using go noff True by (intro acked) auto
        next
          case False
          then have "\<exists>r. profiles_receive cfg pf p = pf\<lparr>pf_refused := r\<rparr> \<and> (pf_refused pf \<longrightarrow> r)"
          proof (cases "pf_offers pf = pf_occupied pf")
            case True
            with False go ok noff have "profiles_receive cfg pf p = pf\<lparr>pf_refused := True\<rparr>"
              unfolding R by auto
            then show ?thesis by blast
          next
            case no: False
            with go ok noff have "profiles_receive cfg pf p = pf\<lparr>pf_refused := pf_refused pf\<rparr>"
              unfolding R by auto
            then show ?thesis by blast
          qed
          then show thesis using ignored by blast
        qed
      qed
    qed
  qed
qed

lemma push_bit_set:
  "bit (push_bit k 1 :: u32) j \<longleftrightarrow> j = k \<and> k < 32"
  "bit ((m :: u32) OR push_bit k 1) j \<longleftrightarrow> bit m j \<or> j = k \<and> k < 32"
  by (auto simp: bit_simps)

lemma seat_less: "local_slot cfg < 8 \<Longrightarrow> unat (local_slot cfg) < 8"
  by (simp add: word_less_nat_alt)

lemma mask_bit_nonzero: "bit (m :: u32) k \<Longrightarrow> m \<noteq> 0"
  by auto

lemma choose_keeps:
  assumes "seat_ok cfg pf" "pf_active pf"
  shows "seat_ok cfg (profiles_choose cfg pf)" "evolves cfg pf (profiles_choose cfg pf)"
    "pf_offers (profiles_choose cfg pf) = pf_offers pf" "pf_caps (profiles_choose cfg pf) = pf_caps pf"
    "bit (pf_acks (profiles_choose cfg pf)) k \<Longrightarrow> bit (pf_acks pf) k \<or> k = unat (local_slot cfg)"
proof -
  have own: "unat (local_slot cfg) < 8" using assms by (auto simp: seat_ok_def seat_less)
  have "seat_ok cfg (profiles_choose cfg pf) \<and> evolves cfg pf (profiles_choose cfg pf) \<and>
      pf_offers (profiles_choose cfg pf) = pf_offers pf \<and> pf_caps (profiles_choose cfg pf) = pf_caps pf \<and>
      (bit (pf_acks (profiles_choose cfg pf)) k \<longrightarrow> bit (pf_acks pf) k \<or> k = unat (local_slot cfg))"
  proof (rule profiles_choose_cases [of cfg pf])
    assume "profiles_choose cfg pf = pf"
    then show ?thesis using assms by (simp add: evolves_def)
  next
    assume "profiles_choose cfg pf = pf\<lparr>pf_refused := True\<rparr>" "pf_acks pf = 0"
    then show ?thesis using assms by (auto simp: evolves_def seat_ok_def)
  next
    fix sel tr
    assume c: "pf_offers pf = pf_occupied pf" "pf_acks pf = 0"
      and eq: "profiles_choose cfg pf = pf\<lparr>pf_selected := sel, pf_transcript := tr,
         pf_acks := push_bit (unat (local_slot cfg)) 1,
         pf_acknowledged_by := push_bit (unat (local_slot cfg)) 1, pf_dirty := True\<rparr>"
      and sel: "sel_ok (unat (slot_count cfg)) (profiles_choose cfg pf)"
    have acks: "bit (pf_acks (profiles_choose cfg pf)) j \<longleftrightarrow> j = unat (local_slot cfg)" for j
      using own by (auto simp: eq bit_simps)
    have keep: "pf_active (profiles_choose cfg pf) = pf_active pf"
      "pf_offers (profiles_choose cfg pf) = pf_offers pf" "pf_caps (profiles_choose cfg pf) = pf_caps pf"
      "pf_occupied (profiles_choose cfg pf) = pf_occupied pf"
      "pf_qualification (profiles_choose cfg pf) = pf_qualification pf" by (simp_all add: eq)
    show ?thesis
      using assms own c by (auto simp: seat_ok_def evolves_def keep acks sel)
  qed
  then show "seat_ok cfg (profiles_choose cfg pf)" "evolves cfg pf (profiles_choose cfg pf)"
    "pf_offers (profiles_choose cfg pf) = pf_offers pf" "pf_caps (profiles_choose cfg pf) = pf_caps pf"
    "bit (pf_acks (profiles_choose cfg pf)) k \<Longrightarrow> bit (pf_acks pf) k \<or> k = unat (local_slot cfg)"
    by auto
qed

lemma choose_settled: "unat (local_slot cfg) < 8 \<Longrightarrow> settled (profiles_choose cfg pf)"
  by (rule profiles_choose_cases [of cfg pf]) (auto simp: settled_def)

lemma evolves_refl: "evolves cfg pf pf" by (simp add: evolves_def)

lemma evolves_trans: "evolves cfg a b \<Longrightarrow> evolves cfg b c \<Longrightarrow> evolves cfg a c"
  by (auto simp: evolves_def)

text \<open>The effect of an offer before the choice.\<close>

lemma offer_stored:
  assumes "seat_ok cfg pf" "pf_active pf" "slot < slot_count cfg" "slot_count cfg \<le> 8"
    and "slot \<noteq> local_slot cfg" "bit (pf_occupied pf) (unat slot)"
    and "bit (pf_offers pf) (unat slot) \<longrightarrow> c = pf_caps pf ! unat slot"
  shows "seat_ok cfg (pf\<lparr>pf_caps := (pf_caps pf)[unat slot := c],
      pf_offers := pf_offers pf OR push_bit (unat slot) 1\<rparr>)"
    "evolves cfg pf (pf\<lparr>pf_caps := (pf_caps pf)[unat slot := c],
      pf_offers := pf_offers pf OR push_bit (unat slot) 1\<rparr>)"
proof -
  let ?pf = "pf\<lparr>pf_caps := (pf_caps pf)[unat slot := c],
      pf_offers := pf_offers pf OR push_bit (unat slot) 1\<rparr>"
  have slot: "unat slot < 8" using assms(3,4) by (simp add: word_less_nat_alt word_le_nat_alt)
  have ne: "unat slot \<noteq> unat (local_slot cfg)" using assms(5) by (metis unsigned_word_eqI)
  have same: "?pf = pf" if "pf_acks pf \<noteq> 0"
  proof -
    have off: "bit (pf_offers pf) (unat slot)" using that assms(1,6) by (simp add: seat_ok_def)
    then have "pf_offers pf OR push_bit (unat slot) 1 = pf_offers pf"
      using slot by (intro bit_word_eqI) (auto simp: push_bit_set)
    with off assms(7) show ?thesis by simp
  qed
  show "evolves cfg pf ?pf" using ne same by (auto simp: evolves_def)
  show "seat_ok cfg ?pf"
  proof (cases "pf_acks pf = 0")
    case True
    have "bit (pf_offers pf OR push_bit (unat slot) 1) k \<Longrightarrow> k < 8" for k
      using assms(1) slot by (auto simp: seat_ok_def push_bit_set simp del: push_bit_of_1)
    with True assms(1,2) ne show ?thesis by (auto simp: seat_ok_def simp del: push_bit_of_1)
  qed (use same assms(1) in simp)
qed

lemma receive_keeps:
  assumes "seat_ok cfg pf" "settled pf" "slot_count cfg \<le> 8"
  shows "seat_ok cfg (profiles_receive cfg pf p) \<and> settled (profiles_receive cfg pf p) \<and>
    evolves cfg pf (profiles_receive cfg pf p)"
proof (rule profiles_receive_cases [of cfg pf p])
  fix r assume "profiles_receive cfg pf p = pf\<lparr>pf_refused := r\<rparr>" and "pf_refused pf \<longrightarrow> r"
  moreover have "profiles_receive cfg pf p = pf" if "\<not> pf_active pf"
    using that by (simp add: profiles_receive_def Let_def)
  moreover have "sel_ok n (pf\<lparr>pf_refused := r\<rparr>) = sel_ok n pf" for n by (simp add: sel_ok_def)
  ultimately show ?thesis
    using assms by (cases "pf_active pf") (auto simp: seat_ok_def evolves_def settled_def)
next
  assume o: "pf_active pf" "dp_local_slot p < slot_count cfg" "dp_local_slot p \<noteq> local_slot cfg"
    "bit (pf_occupied pf) (unat (dp_local_slot p))"
    "bit (pf_offers pf) (unat (dp_local_slot p)) \<longrightarrow> offer_caps p = pf_caps pf ! unat (dp_local_slot p)"
  let ?pf = "pf\<lparr>pf_caps := (pf_caps pf)[unat (dp_local_slot p) := offer_caps p],
           pf_offers := pf_offers pf OR push_bit (unat (dp_local_slot p)) 1\<rparr>"
  assume eq: "profiles_receive cfg pf p = profiles_choose cfg ?pf"
  note st = offer_stored [OF assms(1) o(1,2) assms(3) o(3-5)]
  have own: "unat (local_slot cfg) < 8" using assms(1) o(1) by (auto simp: seat_ok_def seat_less)
  from choose_keeps(1,2) [OF st(1)] choose_settled [OF own, of ?pf] o(1) show ?thesis
    unfolding eq by (auto intro: evolves_trans [OF st(2)])
next
  fix d a
  assume o: "pf_active pf" "\<not> pf_refused pf" "dp_local_slot p < slot_count cfg"
    "pf_offers pf = pf_occupied pf"
  let ?pf = "pf\<lparr>pf_acks := pf_acks pf OR push_bit (unat (dp_local_slot p)) 1, pf_dirty := d,
          pf_acknowledged_by := a\<rparr>"
  assume eq: "profiles_receive cfg pf p = ?pf"
  have slot: "unat (dp_local_slot p) < 8"
    using o(3) assms(3) by (simp add: word_less_nat_alt word_le_nat_alt)
  have acks: "pf_acks pf \<noteq> 0" using o assms(2) by (simp add: settled_def)
  then have own: "bit (pf_acks pf) (unat (local_slot cfg))" using assms(1) by (simp add: seat_ok_def)
  have new: "bit (pf_acks ?pf) k \<longleftrightarrow> bit (pf_acks pf) k \<or> k = unat (dp_local_slot p)" for k
    using slot by (auto simp: bit_simps)
  have "pf_acks ?pf \<noteq> 0" using new own by (metis bit_0_eq bot_apply bot_bool_def)
  moreover have "sel_ok n ?pf = sel_ok n pf" for n by (simp add: sel_ok_def)
  ultimately show ?thesis
    using assms(1) acks o new slot unfolding eq
    by (auto simp: seat_ok_def evolves_def settled_def simp del: push_bit_of_1)
qed

lemma mask_loop:
  "bit (foldl (\<lambda>m i. if P i then m OR push_bit i 1 else m) (m :: u32) [0..<n]) k \<longleftrightarrow>
     bit m k \<or> k < n \<and> k < 32 \<and> P k"
  by (induction n) (auto simp: less_Suc_eq)

lemma begin_keeps:
  assumes "seat_ok cfg pf" "profiles_may_begin cfg pf q caps" "slot_count cfg \<le> 8"
  shows "seat_ok cfg (profiles_begin cfg pf q caps) \<and> settled (profiles_begin cfg pf q caps) \<and>
    evolves cfg pf (profiles_begin cfg pf q caps) \<and>
    (\<forall>k. bit (pf_offers (profiles_begin cfg pf q caps)) k \<or> bit (pf_acks (profiles_begin cfg pf q caps)) k \<longrightarrow>
       k = unat (local_slot cfg))"
proof -
  have inactive: "\<not> pf_active pf" "pf = zero_profiles"
    using assms by (auto simp: profiles_may_begin_def seat_ok_def)
  have occ: "rnet_config_slot_occupied cfg (local_slot cfg)" "pc_architecture caps \<le> 255"
    using assms(2) by (auto simp: profiles_may_begin_def not_less)
  then have own: "unat (local_slot cfg) < 8" "unat (local_slot cfg) < unat (slot_count cfg)"
    by (auto simp: rnet_config_slot_occupied_def word_less_nat_alt word_le_nat_alt split: if_splits)
  let ?occ = "foldl (\<lambda>m i. if rnet_config_slot_occupied cfg (of_nat i) then m OR push_bit i 1 else m)
     (pf_occupied pf) [0..<unat (slot_count cfg)]"
  let ?pf = "pf\<lparr>pf_occupied := ?occ, pf_active := True, pf_qualification := q,
    pf_caps := (pf_caps pf)[unat (local_slot cfg) := caps],
    pf_offers := push_bit (unat (local_slot cfg)) 1, pf_dirty := True\<rparr>"
  have eq: "profiles_begin cfg pf q caps = profiles_choose cfg ?pf"
    by (simp add: profiles_begin_def Let_def)
  have zero: "pf_acks pf = 0" "pf_occupied pf = 0" "length (pf_caps pf) = 8"
    by (simp_all add: inactive(2) zero_profiles_def)
  have occ_bit: "bit ?occ k \<Longrightarrow> k < unat (slot_count cfg)" for k
    unfolding mask_loop by (simp add: zero)
  have occ_own: "bit ?occ (unat (local_slot cfg))"
    unfolding mask_loop using own occ by simp
  have off: "bit (pf_offers ?pf) k \<longleftrightarrow> k = unat (local_slot cfg)" for k
    using own by (simp add: push_bit_set del: push_bit_of_1)
  have "seat_ok cfg ?pf"
    unfolding seat_ok_def using own occ occ_bit occ_own zero off
    by (auto simp: word_less_nat_alt simp del: push_bit_of_1)
  note keeps = choose_keeps [OF this]
  have acks: "bit (pf_acks (profiles_choose cfg ?pf)) k \<Longrightarrow> k = unat (local_slot cfg)" for k
    using keeps(5) [of k] zero by auto
  have "evolves cfg pf (profiles_choose cfg ?pf)" using inactive zero by (simp add: evolves_def)
  moreover have "bit (pf_offers (profiles_choose cfg ?pf)) k \<longleftrightarrow> k = unat (local_slot cfg)" for k
    using keeps(3) off by simp
  ultimately show ?thesis
    using keeps(1) choose_settled [OF own(1), of ?pf] acks unfolding eq by auto
qed

lemma receive_links:
  assumes "seat_ok cfg pf" "slot_count cfg \<le> 8" "j \<noteq> local_slot cfg"
  shows "bit (pf_offers (profiles_receive cfg pf p)) (unat j) \<Longrightarrow>
      bit (pf_offers pf) (unat j) \<and>
        pf_caps (profiles_receive cfg pf p) ! unat j = pf_caps pf ! unat j \<or>
      j = dp_local_slot p \<and> dp_rb_initiator p = PROFILE_OFFER \<and>
        pf_caps (profiles_receive cfg pf p) ! unat j = offer_caps p"
    "bit (pf_acks (profiles_receive cfg pf p)) (unat j) \<Longrightarrow>
      bit (pf_acks pf) (unat j) \<or>
      j = dp_local_slot p \<and> dp_rb_initiator p \<noteq> PROFILE_OFFER \<and>
        dp_rb_mismatch_tick p = pf_selected (profiles_receive cfg pf p) \<and>
        dp_rb_load_tick p = pf_transcript (profiles_receive cfg pf p)"
proof -
  have eqj: "unat j = unat i \<longleftrightarrow> j = i" for i by (metis unsigned_word_eqI)
  have "(bit (pf_offers (profiles_receive cfg pf p)) (unat j) \<longrightarrow>
      bit (pf_offers pf) (unat j) \<and>
        pf_caps (profiles_receive cfg pf p) ! unat j = pf_caps pf ! unat j \<or>
      j = dp_local_slot p \<and> dp_rb_initiator p = PROFILE_OFFER \<and>
        pf_caps (profiles_receive cfg pf p) ! unat j = offer_caps p) \<and>
    (bit (pf_acks (profiles_receive cfg pf p)) (unat j) \<longrightarrow>
      bit (pf_acks pf) (unat j) \<or>
      j = dp_local_slot p \<and> dp_rb_initiator p \<noteq> PROFILE_OFFER \<and>
        dp_rb_mismatch_tick p = pf_selected (profiles_receive cfg pf p) \<and>
        dp_rb_load_tick p = pf_transcript (profiles_receive cfg pf p))"
  proof (rule profiles_receive_cases [of cfg pf p])
    assume o: "dp_rb_initiator p = PROFILE_OFFER" "pf_active pf" "dp_local_slot p < slot_count cfg"
      "dp_local_slot p \<noteq> local_slot cfg" "bit (pf_occupied pf) (unat (dp_local_slot p))"
      "bit (pf_offers pf) (unat (dp_local_slot p)) \<longrightarrow> offer_caps p = pf_caps pf ! unat (dp_local_slot p)"
    let ?pf = "pf\<lparr>pf_caps := (pf_caps pf)[unat (dp_local_slot p) := offer_caps p],
             pf_offers := pf_offers pf OR push_bit (unat (dp_local_slot p)) 1\<rparr>"
    assume eq: "profiles_receive cfg pf p = profiles_choose cfg ?pf"
    have "pf_active ?pf" using o(2) by simp
    note keeps = choose_keeps [OF offer_stored(1) [OF assms(1) o(2,3) assms(2) o(4-6)] this]
    have slot: "unat (dp_local_slot p) < 8"
      using o(3) assms(2) by (simp add: word_less_nat_alt word_le_nat_alt)
    have len: "length (pf_caps pf) = 8" using assms(1) by (simp add: seat_ok_def)
    have acks: "bit (pf_acks (profiles_choose cfg ?pf)) (unat j) \<Longrightarrow> bit (pf_acks pf) (unat j)"
      using keeps(5) [of "unat j"] assms(3) eqj by auto
    have offers: "bit (pf_offers ?pf) (unat j) \<Longrightarrow> j \<noteq> dp_local_slot p \<Longrightarrow> bit (pf_offers pf) (unat j)"
      using eqj [of "dp_local_slot p"] by simp
    have caps: "pf_caps ?pf ! unat j = (if j = dp_local_slot p then offer_caps p else pf_caps pf ! unat j)"
      using eqj [of "dp_local_slot p"] slot len by (auto simp: nth_list_update)
    show ?thesis
      unfolding eq keeps(3,4) caps using o(1) acks offers by auto
  next
    fix d a
    assume "dp_rb_initiator p \<noteq> PROFILE_OFFER" "dp_rb_mismatch_tick p = pf_selected pf"
      "dp_rb_load_tick p = pf_transcript pf"
      "profiles_receive cfg pf p = pf\<lparr>pf_acks := pf_acks pf OR push_bit (unat (dp_local_slot p)) 1,
         pf_dirty := d, pf_acknowledged_by := a\<rparr>"
    then show ?thesis using eqj [of "dp_local_slot p"] by simp
  qed auto
  then show "bit (pf_offers (profiles_receive cfg pf p)) (unat j) \<Longrightarrow>
      bit (pf_offers pf) (unat j) \<and>
        pf_caps (profiles_receive cfg pf p) ! unat j = pf_caps pf ! unat j \<or>
      j = dp_local_slot p \<and> dp_rb_initiator p = PROFILE_OFFER \<and>
        pf_caps (profiles_receive cfg pf p) ! unat j = offer_caps p"
    "bit (pf_acks (profiles_receive cfg pf p)) (unat j) \<Longrightarrow>
      bit (pf_acks pf) (unat j) \<or>
      j = dp_local_slot p \<and> dp_rb_initiator p \<noteq> PROFILE_OFFER \<and>
        dp_rb_mismatch_tick p = pf_selected (profiles_receive cfg pf p) \<and>
        dp_rb_load_tick p = pf_transcript (profiles_receive cfg pf p)" by blast+
qed

section \<open>Agreement\<close>

text \<open>What one seat holds about another is what the other has sent.\<close>

definition linked :: "u8 \<Rightarrow> RNetProfiles \<Rightarrow> RNetProfiles \<Rightarrow> bool" where
  "linked j pf pj \<longleftrightarrow>
     (bit (pf_offers pf) (unat j) \<longrightarrow> pf_active pj \<and> pf_caps pf ! unat j = pf_caps pj ! unat j) \<and>
     (bit (pf_acks pf) (unat j) \<longrightarrow> pf_acks pj \<noteq> 0 \<and> pf_selected pj = pf_selected pf \<and>
        pf_transcript pj = pf_transcript pf)"

definition genuine :: "RNetProfiles \<Rightarrow> RNetDecodedPacket \<Rightarrow> bool" where
  "genuine pf p \<longleftrightarrow> pf_active pf \<and>
     (dp_rb_initiator p = PROFILE_OFFER \<longrightarrow> offer_caps p = pf_caps pf ! unat (dp_local_slot p)) \<and>
     (dp_rb_initiator p \<noteq> PROFILE_OFFER \<longrightarrow> pf_acks pf \<noteq> 0 \<and>
        dp_rb_mismatch_tick p = pf_selected pf \<and> dp_rb_load_tick p = pf_transcript pf)"

definition prof_inv :: "(u8 \<Rightarrow> RNetConfig) \<Rightarrow> (u8 \<Rightarrow> RNetProfiles) \<Rightarrow> RNetDecodedPacket set \<Rightarrow> bool" where
  "prof_inv cfg st M \<longleftrightarrow> (\<forall>i. seat_ok (cfg i) (st i) \<and> settled (st i)) \<and>
     (\<forall>i j. i \<noteq> j \<longrightarrow> linked j (st i) (st j)) \<and> (\<forall>p \<in> M. genuine (st (dp_local_slot p)) p)"

lemma linked_evolves:
  "linked j pf pj \<Longrightarrow> evolves cfg pj pj' \<Longrightarrow> local_slot cfg = j \<Longrightarrow> linked j pf pj'"
  by (auto simp: linked_def evolves_def)

lemma genuine_evolves:
  "genuine pf p \<Longrightarrow> evolves cfg pf pf' \<Longrightarrow> local_slot cfg = dp_local_slot p \<Longrightarrow> genuine pf' p"
  by (auto simp: genuine_def evolves_def)

lemma prof_inv_update:
  assumes "prof_inv cfg st M" "\<forall>i. local_slot (cfg i) = i"
    and "seat_ok (cfg i) pf" "settled pf" "evolves (cfg i) (st i) pf"
    and "\<And>j. j \<noteq> i \<Longrightarrow> linked j pf (st j)"
  shows "prof_inv cfg (st(i := pf)) M"
proof -
  have "linked k ((st(i := pf)) j) ((st(i := pf)) k)" if "j \<noteq> k" for j k
    using assms(1,2,6) that linked_evolves [OF _ assms(5), of i "st j"]
    by (auto simp: prof_inv_def)
  moreover have "genuine ((st(i := pf)) (dp_local_slot p)) p" if "p \<in> M" for p
    using assms(1,2) that genuine_evolves [OF _ assms(5), of p] by (auto simp: prof_inv_def)
  ultimately show ?thesis using assms(1,3,4) by (auto simp: prof_inv_def)
qed

lemma small_ucast: "(a :: u32) \<le> 255 \<Longrightarrow> ucast (ucast a :: u8) = a"
proof -
  assume "a \<le> 255"
  then have "unat a mod 256 = unat a" by (simp add: word_le_nat_alt)
  then have "unat (ucast (ucast a :: u8) :: u32) = unat a"
    unfolding unat_u8_u32 by (simp add: unsigned_ucast_eq take_bit_eq_mod)
  then show ?thesis by (rule unsigned_word_eqI)
qed

lemma seat_ok_zero: "seat_ok cfg zero_profiles \<and> settled zero_profiles"
  by (auto simp: seat_ok_def settled_def zero_profiles_def)

lemma prof_net_inv:
  assumes "prof_net cfg st M" "\<forall>i. local_slot (cfg i) = i \<and> slot_count (cfg i) \<le> 8"
  shows "prof_inv cfg st M"
  using assms
proof (induction rule: prof_net.induct)
  case start
  then show ?case
    using seat_ok_zero by (auto simp: prof_inv_def linked_def zero_profiles_def)
next
  case (opt_in st M i q caps)
  then have inv: "prof_inv cfg st M" by simp
  have "seat_ok (cfg i) (st i)" using inv by (simp add: prof_inv_def)
  note keeps = begin_keeps [OF this opt_in.hyps(2)]
  show ?case
  proof (rule prof_inv_update [OF inv])
    show "linked j (profiles_begin (cfg i) (st i) q caps) (st j)" if "j \<noteq> i" for j
      using keeps opt_in.prems that by (auto simp: linked_def dest: unsigned_word_eqI)
  qed (use keeps opt_in.prems in auto)
next
  case (send_offer st M i)
  then have inv: "prof_inv cfg st M" by simp
  have "pc_architecture (pf_caps (st i) ! unat i) \<le> 255"
    using inv send_offer.hyps(2) send_offer.prems by (auto simp: prof_inv_def seat_ok_def)
  then have "genuine (st i) (offer_packet (cfg i) (st i))"
    using send_offer.hyps(2) send_offer.prems
    by (auto simp: genuine_def offer_packet_def offer_caps_def small_ucast Let_def)
  moreover have "dp_local_slot (offer_packet (cfg i) (st i)) = i"
    using send_offer.prems by (simp add: offer_packet_def Let_def)
  ultimately show ?case using inv by (simp add: prof_inv_def)
next
  case (send_ack st M i)
  then have inv: "prof_inv cfg st M" by simp
  have "genuine (st i) (ack_packet (cfg i) (st i))" "dp_local_slot (ack_packet (cfg i) (st i)) = i"
    using send_ack by (auto simp: genuine_def ack_packet_def)
  then show ?case using inv by (simp add: prof_inv_def)
next
  case (recv st M p j)
  then have inv: "prof_inv cfg st M" and gen: "genuine (st (dp_local_slot p)) p"
    by (auto simp: prof_inv_def)
  have ok: "seat_ok (cfg j) (st j)" "settled (st j)" using inv by (auto simp: prof_inv_def)
  note keeps = receive_keeps [OF ok, of p]
  show ?case
  proof (rule prof_inv_update [OF inv])
    fix k assume ne: "k \<noteq> j"
    then have "k \<noteq> local_slot (cfg j)" using recv.prems by auto
    note links = receive_links [OF ok(1) _ this, of p]
    have old: "linked k (st j) (st k)" using inv ne by (auto simp: prof_inv_def)
    show "linked k (profiles_receive (cfg j) (st j) p) (st k)"
      using links old gen keeps recv.prems
      unfolding linked_def genuine_def evolves_def by (metis mask_bit_nonzero)
  qed (use keeps recv.prems in auto)
qed

text \<open>
  C8. Startup profiles: over any network that loses, repeats and reorders packets, a seat that reports
  agreement on a profile knows the truth about every occupied seat: that seat has chosen too, it has
  chosen the same profile with the same fingerprint of all offers, and its own immutable offer
  contains the profile. The profile is the best one: every higher one is missing from the offer of
  some occupied seat.
\<close>

theorem profiles_agree:
  assumes "\<forall>i. local_slot (cfg i) = i \<and> slot_count (cfg i) \<le> 8" "prof_net cfg st M"
    and "profiles_status (st i) = Profiles_agreed sel tr" "bit (pf_occupied (st i)) (unat k)"
  shows "pf_acks (st k) \<noteq> 0 \<and> pf_selected (st k) = sel \<and> pf_transcript (st k) = tr \<and>
    bit (pc_profiles (pf_caps (st k) ! unat k)) (unat sel) \<and>
    (\<forall>t. unat sel < t \<and> t < 32 \<longrightarrow> (\<exists>m. bit (pf_occupied (st i)) (unat m) \<and>
       \<not> bit (pc_profiles (pf_caps (st m) ! unat m)) t))"
proof -
  have inv: "prof_inv cfg st M" by (rule prof_net_inv [OF assms(2,1)])
  have s: "pf_active (st i)" "pf_acks (st i) = pf_occupied (st i)" "pf_selected (st i) = sel"
    "pf_transcript (st i) = tr"
    using assms(3) by (auto simp: profiles_status_def split: if_splits)
  have ok: "seat_ok (cfg i) (st i)" and acks: "pf_acks (st i) \<noteq> 0"
    using inv s(2) assms(4) by (auto simp: prof_inv_def)
  then have off: "pf_offers (st i) = pf_occupied (st i)" and sel: "sel_ok (unat (slot_count (cfg i))) (st i)"
    and range: "\<And>k. bit (pf_occupied (st i)) k \<Longrightarrow> k < unat (slot_count (cfg i))"
    by (auto simp: seat_ok_def)
  have link: "pf_caps (st i) ! unat m = pf_caps (st m) ! unat m \<and>
      (bit (pf_acks (st i)) (unat m) \<longrightarrow> pf_acks (st m) \<noteq> 0 \<and> pf_selected (st m) = sel \<and>
        pf_transcript (st m) = tr)" if "bit (pf_occupied (st i)) (unat m)" for m
    using that inv s off acks by (cases "i = m") (auto simp: prof_inv_def linked_def)
  have higher: "\<exists>m. bit (pf_occupied (st i)) (unat m) \<and> \<not> bit (pc_profiles (pf_caps (st m) ! unat m)) t"
    if t: "unat sel < t" "t < 32" for t
  proof -
    obtain n where n: "n < unat (slot_count (cfg i))" "bit (pf_occupied (st i)) n"
      "\<not> bit (pc_profiles (pf_caps (st i) ! n)) t"
      using sel t s(3) by (auto simp: sel_ok_def)
    have "unat (slot_count (cfg i)) \<le> 8" using assms(1) by (simp add: word_le_nat_alt)
    then have "unat (of_nat n :: u8) = n"
      using n(1) by (simp add: unat_of_nat take_bit_nat_eq_self)
    with n link [of "of_nat n"] show ?thesis by (intro exI [of _ "of_nat n"]) auto
  qed
  show ?thesis
    using link [OF assms(4)] sel range [OF assms(4)] assms(4) s higher by (auto simp: sel_ok_def)
qed

text \<open>Two seats that share profile 1, the second of which also has profile 2.\<close>

definition two_cfg :: "u8 \<Rightarrow> RNetConfig" where
  "two_cfg i = rnet_config_init_defaults\<lparr>local_slot := i\<rparr>"

definition pf_a0 :: RNetProfiles where
  "pf_a0 = profiles_begin (two_cfg 0) zero_profiles 9 \<lparr>pc_cpu_features = 1, pc_backends = 1,
     pc_profiles = 3, pc_architecture = 1\<rparr>"

definition pf_b0 :: RNetProfiles where
  "pf_b0 = profiles_begin (two_cfg 1) zero_profiles 9 \<lparr>pc_cpu_features = 1, pc_backends = 1,
     pc_profiles = 7, pc_architecture = 1\<rparr>"

definition pf_b1 :: RNetProfiles where
  "pf_b1 = profiles_receive (two_cfg 1) pf_b0 (offer_packet (two_cfg 0) pf_a0)"

definition pf_a1 :: RNetProfiles where
  "pf_a1 = profiles_receive (two_cfg 0) pf_a0 (offer_packet (two_cfg 1) pf_b0)"

definition pf_a2 :: RNetProfiles where
  "pf_a2 = profiles_receive (two_cfg 0) pf_a1 (ack_packet (two_cfg 1) pf_b1)"

definition two_net :: "u8 \<Rightarrow> RNetProfiles" where
  "two_net = (\<lambda>i. zero_profiles)(0 := pf_a2, 1 := pf_b1)"

lemma two_net_reached: "\<exists>M. prof_net two_cfg two_net M"
proof -
  have act: "pf_active pf_a0 \<and> \<not> pf_refused pf_a0 \<and> pf_active pf_b0 \<and> \<not> pf_refused pf_b0 \<and>
      pf_active pf_b1 \<and> \<not> pf_refused pf_b1 \<and> pf_acks pf_b1 \<noteq> 0" by code_simp
  have may: "profiles_may_begin (two_cfg 0) zero_profiles 9 \<lparr>pc_cpu_features = 1, pc_backends = 1,
      pc_profiles = 3, pc_architecture = 1\<rparr> \<and>
    profiles_may_begin (two_cfg 1) zero_profiles 9 \<lparr>pc_cpu_features = 1, pc_backends = 1,
      pc_profiles = 7, pc_architecture = 1\<rparr>" by code_simp
  let ?z = "\<lambda>i :: u8. zero_profiles"
  have 1: "prof_net two_cfg (?z(0 := pf_a0)) {}"
    using prof_net.opt_in [OF prof_net.start, of two_cfg 0] may by (simp add: pf_a0_def)
  have 2: "prof_net two_cfg (?z(0 := pf_a0, 1 := pf_b0)) {}"
    using prof_net.opt_in [OF 1, of 1] may by (simp add: pf_b0_def)
  have 3: "prof_net two_cfg (?z(0 := pf_a0, 1 := pf_b0)) {offer_packet (two_cfg 0) pf_a0}"
    using prof_net.send_offer [OF 2, of 0] act by simp
  have 4: "prof_net two_cfg (?z(0 := pf_a0, 1 := pf_b0))
      {offer_packet (two_cfg 1) pf_b0, offer_packet (two_cfg 0) pf_a0}"
    using prof_net.send_offer [OF 3, of 1] act by simp
  have 5: "prof_net two_cfg (?z(0 := pf_a1, 1 := pf_b0))
      {offer_packet (two_cfg 1) pf_b0, offer_packet (two_cfg 0) pf_a0}"
    using prof_net.recv [OF 4, of "offer_packet (two_cfg 1) pf_b0" 0]
    by (simp add: pf_a1_def fun_upd_twist)
  have 6: "prof_net two_cfg (?z(0 := pf_a1, 1 := pf_b1))
      {offer_packet (two_cfg 1) pf_b0, offer_packet (two_cfg 0) pf_a0}"
    using prof_net.recv [OF 5, of "offer_packet (two_cfg 0) pf_a0" 1] by (simp add: pf_b1_def)
  have 7: "prof_net two_cfg (?z(0 := pf_a1, 1 := pf_b1)) (insert (ack_packet (two_cfg 1) pf_b1)
      {offer_packet (two_cfg 1) pf_b0, offer_packet (two_cfg 0) pf_a0})"
    using prof_net.send_ack [OF 6, of 1] act by simp
  show ?thesis
    using prof_net.recv [OF 7, of "ack_packet (two_cfg 1) pf_b1" 0]
    unfolding two_net_def by (auto simp: pf_a2_def fun_upd_twist)
qed

theorem profiles_agree_witness:
  "\<exists>tr. profiles_status (two_net 0) = Profiles_agreed 1 tr \<and> pf_selected (two_net 1) = 1 \<and>
     pf_transcript (two_net 1) = tr"
proof -
  obtain M where net: "prof_net two_cfg two_net M" using two_net_reached by blast
  have cfg: "\<forall>i. local_slot (two_cfg i) = i \<and> slot_count (two_cfg i) \<le> 8"
    by (simp add: two_cfg_def rnet_config_init_defaults_def)
  have "profiles_status pf_a2 = Profiles_agreed 1 (pf_transcript pf_a2) \<and> bit (pf_occupied pf_a2) 1"
    by code_simp
  then have s: "profiles_status (two_net 0) = Profiles_agreed 1 (pf_transcript pf_a2)"
    and k: "bit (pf_occupied (two_net 0)) (unat (1 :: u8))" by (simp_all add: two_net_def)
  show ?thesis using profiles_agree [OF cfg net s k] s by blast
qed

end
