(* ===== verification/RNet_Decode_Safe.thy ===== *)
theory RNet_Decode_Safe
  imports RNet_Decode
begin

text \<open>
  Memory safety of the decoder. \<open>rd_safe k m\<close>: whenever at least \<open>k\<close> bytes of the datagram are
  left, the reader \<open>m\<close> never touches memory outside the datagram, leaves its cursor inside it,
  and its result does not depend on what lies behind it. The rules below derive it for a
  reader from its shape; \<open>rd_need\<close> is what discharges the byte counts.
\<close>

definition rd_safe :: "nat \<Rightarrow> (rstate \<Rightarrow> 'a rres) \<Rightarrow> bool" where
  "rd_safe k m \<longleftrightarrow> (\<forall>bs ex. k \<le> length bs \<longrightarrow>
     (m (bs @ ex, int (length bs)) = Reject \<and> m (bs, int (length bs)) = Reject) \<or>
     (\<exists>a bs'. m (bs @ ex, int (length bs)) = Ok a (bs' @ ex, int (length bs')) \<and>
              m (bs, int (length bs)) = Ok a (bs', int (length bs'))))"

lemma rd_safeI:
  assumes "\<And>bs ex. k \<le> length bs \<Longrightarrow>
     (m (bs @ ex, int (length bs)) = Reject \<and> m (bs, int (length bs)) = Reject) \<or>
     (\<exists>a bs'. m (bs @ ex, int (length bs)) = Ok a (bs' @ ex, int (length bs')) \<and>
              m (bs, int (length bs)) = Ok a (bs', int (length bs')))"
  shows "rd_safe k m"
  unfolding rd_safe_def using assms by blast

lemma rd_safeE:
  assumes "rd_safe k m" and "k \<le> length bs"
  obtains (reject) "m (bs @ ex, int (length bs)) = Reject" "m (bs, int (length bs)) = Reject"
    | (ok) a bs' where "m (bs @ ex, int (length bs)) = Ok a (bs' @ ex, int (length bs'))"
        "m (bs, int (length bs)) = Ok a (bs', int (length bs'))"
  using assms unfolding rd_safe_def by blast

lemma rd_safe_mono: "rd_safe j m \<Longrightarrow> j \<le> k \<Longrightarrow> rd_safe k m"
  unfolding rd_safe_def by (meson order_trans)

lemma size_of_ptrdiff_nat [simp]: "size_of_ptrdiff (int n) = n"
  by (simp add: size_of_ptrdiff_def)

named_theorems rd_safe_rules "byte-count rules for readers"

lemma rd_safe_ok [rd_safe_rules]: "rd_safe k (rd_ok a)"
  by (rule rd_safeI) (auto simp: rd_ok_def)

lemma rd_safe_guard [rd_safe_rules]: "(b \<Longrightarrow> rd_safe k m) \<Longrightarrow> rd_safe k (rd_guard b m)"
  by (rule rd_safeI) (auto simp: rd_guard_def elim: rd_safeE)

lemma rd_safe_need [rd_safe_rules]: "rd_safe (max k n) m \<Longrightarrow> rd_safe k (rd_need n m)"
proof (rule rd_safeI)
  fix bs ex :: bytes assume m: "rd_safe (max k n) m" and len: "k \<le> length bs"
  show "(rd_need n m (bs @ ex, int (length bs)) = Reject \<and>
       rd_need n m (bs, int (length bs)) = Reject) \<or>
     (\<exists>a bs'. rd_need n m (bs @ ex, int (length bs)) = Ok a (bs' @ ex, int (length bs')) \<and>
              rd_need n m (bs, int (length bs)) = Ok a (bs', int (length bs')))"
  proof (cases "length bs < n")
    case False
    with len have "max k n \<le> length bs" by simp
    from m this show ?thesis using False
      by (cases rule: rd_safeE [where ex = ex]) (auto simp: rd_need_def)
  qed (simp add: rd_need_def)
qed

lemma rd_safe_bind:
  assumes m: "rd_safe k m" and f: "\<And>a. rd_safe 0 (f a)"
  shows "rd_safe k (rd_bind m f)"
proof (rule rd_safeI)
  fix bs ex :: bytes assume "k \<le> length bs"
  with m show "(rd_bind m f (bs @ ex, int (length bs)) = Reject \<and>
       rd_bind m f (bs, int (length bs)) = Reject) \<or>
     (\<exists>a bs'. rd_bind m f (bs @ ex, int (length bs)) = Ok a (bs' @ ex, int (length bs')) \<and>
              rd_bind m f (bs, int (length bs)) = Ok a (bs', int (length bs')))"
  proof (cases rule: rd_safeE [where ex = ex])
    case reject
    then show ?thesis by (simp add: rd_bind_def)
  next
    case (ok a bs')
    from f [of a] show ?thesis
      by (cases rule: rd_safeE [where bs = bs' and ex = ex]) (auto simp: rd_bind_def ok)
  qed
qed

lemma split_len2: "2 \<le> length bs \<Longrightarrow> \<exists>a b r. bs = a # b # r"
  by (cases bs; cases "tl bs") auto

lemma split_len4:
  assumes "4 \<le> length bs" shows "\<exists>a b c d r. bs = a # b # c # d # r"
proof -
  from assms obtain a b r where "bs = a # b # r" using split_len2 [of bs] by auto
  moreover from this assms obtain c d r' where "r = c # d # r'" using split_len2 [of r] by auto
  ultimately show ?thesis by blast
qed

text \<open>
  A primitive read of \<open>n\<close> bytes followed by a reader that is safe with \<open>n\<close> bytes fewer.
\<close>

definition rd_exact :: "nat \<Rightarrow> (rstate \<Rightarrow> 'a rres) \<Rightarrow> bool" where
  "rd_exact n m \<longleftrightarrow> (\<forall>bs. n \<le> length bs \<longrightarrow>
     (\<exists>a. \<forall>ex r. m (bs @ ex, r) = Ok a (drop n bs @ ex, r - int n)))"

lemma rd_exact_u8: "rd_exact 1 read_u8"
  by (auto simp: rd_exact_def Suc_le_length_iff)

lemma rd_exact_u16: "rd_exact 2 read_u16"
  by (auto simp: rd_exact_def dest!: split_len2)

lemma rd_exact_u32: "rd_exact 4 read_u32"
  by (auto simp: rd_exact_def dest!: split_len4)

lemma rd_exact_bytes: "rd_exact n (read_bytes n)"
  by (auto simp: rd_exact_def read_bytes_def)

lemma rd_exact_bind:
  assumes m: "rd_exact i m" and f: "\<And>a. rd_exact j (f a)" and k: "k = i + j"
  shows "rd_exact k (rd_bind m f)"
  unfolding rd_exact_def
proof (intro allI impI)
  fix bs :: bytes assume "k \<le> length bs"
  then obtain a where a: "\<And>ex r. m (bs @ ex, r) = Ok a (drop i bs @ ex, r - int i)"
    using m k unfolding rd_exact_def by fastforce
  have "j \<le> length (drop i bs)" using \<open>k \<le> length bs\<close> k by simp
  then obtain b where b: "\<And>ex r. f a (drop i bs @ ex, r) = Ok b (drop j (drop i bs) @ ex, r - int j)"
    using f [of a] unfolding rd_exact_def by blast
  show "\<exists>a. \<forall>ex r. rd_bind m f (bs @ ex, r) = Ok a (drop k bs @ ex, r - int k)"
    using k by (intro exI [of _ b]) (simp add: rd_bind_def a b add.commute)
qed

lemma rd_exact_ok: "rd_exact 0 (rd_ok a)"
  by (auto simp: rd_exact_def rd_ok_def)

lemma rd_safe_exact_bind:
  assumes m: "rd_exact n m" and k: "n \<le> k" and f: "\<And>a. rd_safe (k - n) (f a)"
  shows "rd_safe k (rd_bind m f)"
proof (rule rd_safeI)
  fix bs ex :: bytes assume len: "k \<le> length bs"
  then obtain a where a: "\<And>ex r. m (bs @ ex, r) = Ok a (drop n bs @ ex, r - int n)"
    using m k unfolding rd_exact_def by fastforce
  have a0: "m (bs, r) = Ok a (drop n bs, r - int n)" for r using a [of "[]" r] by simp
  have n: "int (length bs) - int n = int (length (drop n bs))" using len k by simp
  have "k - n \<le> length (drop n bs)" using len by simp
  with f [of a] show "(rd_bind m f (bs @ ex, int (length bs)) = Reject \<and>
       rd_bind m f (bs, int (length bs)) = Reject) \<or>
     (\<exists>a bs'. rd_bind m f (bs @ ex, int (length bs)) = Ok a (bs' @ ex, int (length bs')) \<and>
              rd_bind m f (bs, int (length bs)) = Ok a (bs', int (length bs')))"
    by (cases rule: rd_safeE [where ex = ex]) (auto simp: rd_bind_def a a0 n)
qed

lemmas rd_safe_u8 [rd_safe_rules] = rd_safe_exact_bind [OF rd_exact_u8]
  and rd_safe_u16 [rd_safe_rules] = rd_safe_exact_bind [OF rd_exact_u16]
  and rd_safe_u32 [rd_safe_rules] = rd_safe_exact_bind [OF rd_exact_u32]
  and rd_safe_bytes [rd_safe_rules] = rd_safe_exact_bind [OF rd_exact_bytes]

lemma rd_safe_skip [rd_safe_rules]:
  assumes k: "n \<le> k" and f: "rd_safe (k - n) f"
  shows "rd_safe k (rd_skip n f)"
proof (rule rd_safeI)
  fix bs ex :: bytes assume len: "k \<le> length bs"
  then have n': "int (length bs - n) = int (length bs) - int n" "n - length bs = 0"
    using k by simp_all
  have "k - n \<le> length (drop n bs)" using len by simp
  with f show "(rd_skip n f (bs @ ex, int (length bs)) = Reject \<and>
       rd_skip n f (bs, int (length bs)) = Reject) \<or>
     (\<exists>a bs'. rd_skip n f (bs @ ex, int (length bs)) = Ok a (bs' @ ex, int (length bs')) \<and>
              rd_skip n f (bs, int (length bs)) = Ok a (bs', int (length bs')))"
    by (cases rule: rd_safeE [where ex = ex]) (auto simp: rd_skip_def n')
qed

section \<open>Every case is safe\<close>

lemma rd_safe_bind_mono:
  "rd_safe 0 m \<Longrightarrow> (\<And>a. rd_safe 0 (f a)) \<Longrightarrow> rd_safe k (rd_bind m f)"
  by (rule rd_safe_mono [OF rd_safe_bind]) auto

lemma rd_safe_input_frames: "rd_safe 0 (decode_input_frames n)"
proof (induction n)
  case (Suc n)
  show ?case
    unfolding decode_input_frames.simps
    by (intro rd_safe_rules rd_safe_bind_mono [OF Suc.IH]) auto
qed (simp add: rd_safe_ok)

lemma rd_exact_acks: "rd_exact (4 * n) (read_acks n)"
proof (induction n)
  case (Suc n)
  show ?case
    unfolding read_acks.simps
    by (rule rd_exact_bind [OF rd_exact_u32 rd_exact_bind [OF Suc.IH rd_exact_ok]]) auto
qed (simp add: rd_exact_ok)

lemma rd_exact_rb_frame: "rd_exact 9 read_rb_frame"
  unfolding read_rb_frame_def
  by (rule rd_exact_bind [OF rd_exact_u16] rd_exact_bind [OF rd_exact_u8] rd_exact_ok | simp)+

lemma rd_exact_rb_frames: "rd_exact (9 * n) (read_rb_frames n)"
proof (induction n)
  case (Suc n)
  show ?case
    unfolding read_rb_frames.simps
    by (rule rd_exact_bind [OF rd_exact_rb_frame rd_exact_bind [OF Suc.IH rd_exact_ok]]) auto
qed (simp add: rd_exact_ok)

lemmas rd_safe_acks [rd_safe_rules] = rd_safe_exact_bind [OF rd_exact_acks]
  and rd_safe_rb_frames [rd_safe_rules] = rd_safe_exact_bind [OF rd_exact_rb_frames]

lemma rd_safe_input_tail: "rd_safe 0 (decode_input_tail p)"
proof (rule rd_safeI)
  fix bs ex :: bytes
  let ?tail = "\<lambda>ack_count. rd_bind (read_acks (unat ack_count)) (\<lambda>as.
           rd_ok (p\<lparr>dp_ack_count := ack_count, dp_acks := pad_to RNET_MAX_SLOTS 0 as\<rparr>))"
  show "(decode_input_tail p (bs @ ex, int (length bs)) = Reject \<and>
       decode_input_tail p (bs, int (length bs)) = Reject) \<or>
     (\<exists>a bs'. decode_input_tail p (bs @ ex, int (length bs)) = Ok a (bs' @ ex, int (length bs')) \<and>
              decode_input_tail p (bs, int (length bs)) = Ok a (bs', int (length bs')))"
  proof (cases bs)
    case (Cons b r)
    have safe: "rd_safe (4 * unat b) (?tail b)" by (intro rd_safe_rules) auto
    show ?thesis
    proof (cases "\<not> (unat b < 3 \<or> unat b > RNET_MAX_SLOTS \<or> length r \<noteq> 4 * unat b)")
      case True
      then have "4 * unat b \<le> length r" by simp
      note len = this
      have nz: "1 + 4 * uint b \<noteq> 0" using uint_nonnegative [of b] by linarith
      from safe len show ?thesis using True nz
        by (cases rule: rd_safeE [where ex = ex])
           (auto simp: decode_input_tail_def Cons rd_bind_def [of read_u8] rd_guard_def)
    next
      case False
      then show ?thesis
        by (auto simp: decode_input_tail_def Cons rd_bind_def [of read_u8] rd_guard_def)
    qed
  qed (simp add: decode_input_tail_def rd_ok_def)
qed

lemma rd_safe_body: "rd_safe 0 (decode_body p)"
proof -
  have reject: "rd_safe 0 (\<lambda>s. Reject :: RNetDecodedPacket rres)" by (rule rd_safeI) simp
  have input: "rd_safe 0 (decode_input p)"
    unfolding decode_input_def
    by (intro rd_safe_rules rd_safe_bind_mono [OF rd_safe_input_frames] rd_safe_input_tail) auto
  have modset: "rd_safe 0 (decode_modset p)"
    unfolding decode_modset_def Let_def by (intro rd_safe_rules) auto
  show ?thesis
    unfolding decode_body_def
    by (auto intro!: input modset reject)
       (auto simp: decode_hello_def decode_slot_only_def decode_start_def decode_delay_sync_def
          decode_input_confirm_def decode_state_begin_def decode_state_chunk_def
          decode_state_ack_def decode_state_probe_def decode_state_probe_reply_def
          decode_state_probe_done_def decode_sio_multi_xfer_def decode_rb_sync_def
          decode_rb_seal_rows_def decode_rb_baseline_def decode_rb_post_def
          decode_rb_frame_commit_def decode_rb_resolved_def intro!: rd_safe_rules)
qed

lemma rd_safe_trailer: "rd_safe 0 (decode_rb_trailer p)"
proof (rule rd_safeI)
  fix bs ex :: bytes
  show "(decode_rb_trailer p (bs @ ex, int (length bs)) = Reject \<and>
       decode_rb_trailer p (bs, int (length bs)) = Reject) \<or>
     (\<exists>a bs'. decode_rb_trailer p (bs @ ex, int (length bs)) = Ok a (bs' @ ex, int (length bs')) \<and>
              decode_rb_trailer p (bs, int (length bs)) = Ok a (bs', int (length bs')))"
    using split_len2 [of bs]
    by (cases "length bs = 2") (auto simp: decode_rb_trailer_def rd_ok_def rd_bind_def)
qed

section \<open>The whole decoder\<close>

text \<open>
  The body reader run on a datagram of at least fourteen bytes: header, \<open>rest\<close>, trailer, and
  whatever the receive buffer holds behind it.
\<close>

lemma decode_body_safe:
  fixes p :: RNetDecodedPacket
  defines "m \<equiv> rd_bind (decode_body p) decode_rb_trailer"
  shows "rd_result (m (rest @ ex, int (length rest))) = rd_result (m (rest, int (length rest)))"
    and "rd_result (m (rest, int (length rest))) \<noteq> OutOfBounds"
proof -
  have "rd_safe 0 m" unfolding m_def by (intro rd_safe_bind rd_safe_body rd_safe_trailer)
  then show "rd_result (m (rest @ ex, int (length rest))) = rd_result (m (rest, int (length rest)))"
    and "rd_result (m (rest, int (length rest))) \<noteq> OutOfBounds"
    by (cases rule: rd_safeE [where bs = rest and ex = ex]; simp add: rd_result_def)+
qed

lemma datagram_split:
  assumes "14 \<le> length d"
  obtains m0 m1 m2 m3 t0 t1 s0 s1 s2 s3 rest k0 k1 k2 k3 where
    "d = [m0, m1, m2, m3, t0, t1, s0, s1, s2, s3] @ rest @ [k0, k1, k2, k3]"
proof -
  from assms obtain m0 m1 m2 m3 r1 where 1: "d = m0 # m1 # m2 # m3 # r1"
    using split_len4 [of d] by auto
  with assms obtain t0 t1 r2 where 2: "r1 = t0 # t1 # r2" using split_len2 [of r1] by auto
  with 1 assms obtain s0 s1 s2 s3 r3 where 3: "r2 = s0 # s1 # s2 # s3 # r3"
    using split_len4 [of r2] by auto
  let ?r = "drop (length r3 - 4) r3"
  have "length ?r = 4" using 1 2 3 assms by auto
  moreover from this obtain k0 k1 k2 k3 q where "?r = k0 # k1 # k2 # k3 # q"
    using split_len4 [of ?r] by auto
  ultimately have "?r = [k0, k1, k2, k3]" by simp
  then have "r3 = take (length r3 - 4) r3 @ [k0, k1, k2, k3]"
    by (metis append_take_drop_id)
  with 1 2 3 that show ?thesis by auto
qed

lemma decode_layout:
  "rnet_proto_decode ([m0, m1, m2, m3, t0, t1, s0, s1, s2, s3] @ rest @ [k0, k1, k2, k3] @ ex)
       (14 + length rest) magic =
     (if ucast m0 OR push_bit 8 (ucast m1) OR push_bit 16 (ucast m2) OR push_bit 24 (ucast m3)
         \<noteq> magic then Rejected
      else if rnet_proto_checksum ([m0, m1, m2, m3, t0, t1, s0, s1, s2, s3] @ rest)
         \<noteq> ucast k0 OR push_bit 8 (ucast k1) OR push_bit 16 (ucast k2) OR push_bit 24 (ucast k3)
        then Rejected
      else rd_result (rd_bind
             (decode_body (zero_packet\<lparr>dp_type := ucast t0 OR push_bit 8 (ucast t1),
                dp_session_id := ucast s0 OR push_bit 8 (ucast s1) OR push_bit 16 (ucast s2) OR
                  push_bit 24 (ucast s3)\<rparr>))
             decode_rb_trailer (rest @ [k0, k1, k2, k3] @ ex, int (length rest))))"
proof -
  let ?h = "[m0, m1, m2, m3, t0, t1, s0, s1, s2, s3] @ rest"
  have n: "14 + length rest - 4 = length ?h" by simp
  have cut: "drop (length ?h) (?h @ t) = t" "take (length ?h) (?h @ t) = ?h" for t by auto
  show ?thesis
    unfolding rnet_proto_decode_def n append_assoc [symmetric, of _ rest] cut
    by (simp add: rd_bind_def [of read_u32] rd_bind_def [of read_u16] rd_guard_def rd_result_def)
qed

lemma decode_datagram:
  assumes "14 \<le> length d"
  shows "rnet_proto_decode (d @ ex) (length d) magic = rnet_proto_decode d (length d) magic"
    and "rnet_proto_decode d (length d) magic \<noteq> OutOfBounds"
proof -
  from assms obtain m0 m1 m2 m3 t0 t1 s0 s1 s2 s3 rest k0 k1 k2 k3 where
    d: "d = [m0, m1, m2, m3, t0, t1, s0, s1, s2, s3] @ rest @ [k0, k1, k2, k3]"
    by (rule datagram_split)
  have len: "length d = 14 + length rest" by (simp add: d)
  note layout = decode_layout [of m0 m1 m2 m3 t0 t1 s0 s1 s2 s3 rest k0 k1 k2 k3 _ magic]
  note layout0 = layout [of "[]", unfolded append_Nil2]
  show "rnet_proto_decode (d @ ex) (length d) magic = rnet_proto_decode d (length d) magic"
    unfolding len unfolding d append_assoc layout layout0 by (simp only: decode_body_safe(1))
  show "rnet_proto_decode d (length d) magic \<noteq> OutOfBounds"
    unfolding len unfolding d append_assoc layout0 by (simp add: decode_body_safe)
qed

text \<open>
  C4. Memory safety of the decoder: for every datagram of at least fourteen bytes, whatever its
  contents, \<^verbatim>\<open>rnet_proto_decode\<close> reads no byte outside the datagram, and its answer does not
  depend on what the receive buffer holds behind it.
\<close>

theorem decode_memory_safe:
  assumes "14 \<le> len" and "len \<le> length buf"
  shows "rnet_proto_decode buf len magic \<noteq> OutOfBounds \<and>
         rnet_proto_decode buf len magic = rnet_proto_decode (take len buf) len magic"
proof -
  let ?d = "take len buf"
  have d: "14 \<le> length ?d" "length ?d = len" using assms by auto
  have "rnet_proto_decode (?d @ drop len buf) len magic = rnet_proto_decode ?d len magic"
    by (rule decode_datagram(1) [OF d(1), unfolded d(2)])
  moreover have "rnet_proto_decode ?d len magic \<noteq> OutOfBounds"
    by (rule decode_datagram(2) [OF d(1), unfolded d(2)])
  ultimately show ?thesis by simp
qed

theorem decode_memory_safe_witness:
  "(14 :: nat) \<le> 14 \<and> 14 \<le> length (replicate 16 (0 :: u8)) \<and>
   rnet_proto_decode (replicate 16 0) 14 7 \<noteq> OutOfBounds"
proof -
  have h: "(14 :: nat) \<le> 14" "14 \<le> length (replicate 16 (0 :: u8))" by simp_all
  from h decode_memory_safe [OF h, of 7] show ?thesis by blast
qed

section \<open>Datagrams of ten to thirteen bytes\<close>

text \<open>
  A datagram too short for header and trailer: magic, type, at most three more bytes and a checksum
  of what is before it, which is then part of the session id as well.
\<close>

definition runt :: "u32 \<Rightarrow> u16 \<Rightarrow> bytes \<Rightarrow> bytes" where
  "runt magic ty pad =
     (let front = write_u32 magic @ write_u16 ty @ pad in front @ write_u32 (rnet_proto_checksum front))"

definition packet_kinds :: "u16 set" where
  "packet_kinds = {RNET_PKT_HELLO, RNET_PKT_READY, RNET_PKT_START, RNET_PKT_INPUT, RNET_PKT_DELAY_SYNC,
     RNET_PKT_INPUT_CONFIRM, RNET_PKT_BYE, RNET_PKT_STATE_BEGIN, RNET_PKT_STATE_CHUNK, RNET_PKT_STATE_ACK,
     RNET_PKT_STATE_PROBE, RNET_PKT_STATE_PROBE_REPLY, RNET_PKT_STATE_PROBE_DONE, RNET_PKT_SIO_MULTI_XFER,
     RNET_PKT_RB_SYNC, RNET_PKT_RB_SEAL_ROWS, RNET_PKT_RB_BASELINE, RNET_PKT_RB_POST,
     RNET_PKT_RB_FRAME_COMMIT, RNET_PKT_MODSET, RNET_PKT_MODSET_ACK, RNET_PKT_RB_RESOLVED}"

lemma write_read_u32:
  "write_u32 (ucast a OR push_bit 8 (ucast b) OR push_bit 16 (ucast c) OR push_bit 24 (ucast (d :: u8))) = [a, b, c, d]"
  by (simp add: write_u32_def, intro conjI; rule bit_word_eqI; auto simp: bit_simps dest: bit_imp_le_length)

lemma write_read_u16: "write_u16 (ucast a OR push_bit 8 (ucast (b :: u8))) = [a, b]"
  by (simp add: write_u16_def, intro conjI; rule bit_word_eqI; auto simp: bit_simps dest: bit_imp_le_length)

text \<open>Fewer than four bytes are readable and \<^verbatim>\<open>end\<close> lies before the cursor: no length check stops the read.\<close>

lemma need_behind_end: "- 4 \<le> r \<Longrightarrow> r < 0 \<Longrightarrow> n \<le> 26 \<Longrightarrow> rd_need n f (bs, r) = f (bs, r)"
  by (auto simp: rd_need_def size_of_ptrdiff_def nat_less_iff)

lemma short_list: "length bs < 4 \<Longrightarrow> (bs = [] \<Longrightarrow> P) \<Longrightarrow> (\<And>a. bs = [a] \<Longrightarrow> P) \<Longrightarrow> (\<And>a b. bs = [a, b] \<Longrightarrow> P) \<Longrightarrow>
    (\<And>a b c. bs = [a, b, c] \<Longrightarrow> P) \<Longrightarrow> P"
  by (cases bs rule: remdups_adj.cases; cases "tl (tl bs)"; cases "tl (tl (tl bs))"; auto)

lemmas kind_defs = decode_hello_def decode_start_def decode_input_def decode_delay_sync_def decode_input_confirm_def
  decode_state_begin_def decode_state_chunk_def decode_state_ack_def decode_state_probe_def
  decode_state_probe_reply_def decode_state_probe_done_def decode_sio_multi_xfer_def decode_rb_sync_def
  decode_rb_seal_rows_def decode_rb_baseline_def decode_rb_post_def decode_rb_frame_commit_def
  decode_modset_def decode_rb_resolved_def

lemma short_kinds:
  assumes "length bs < 4" "- 4 \<le> r" "r < 0"
  shows "decode_hello p (bs, r) = Fault" "decode_start p (bs, r) = Fault" "decode_input p (bs, r) = Fault"
    "decode_delay_sync p (bs, r) = Fault" "decode_input_confirm p (bs, r) = Fault"
    "decode_state_begin p (bs, r) = Fault" "decode_state_chunk p (bs, r) = Fault" "decode_state_ack p (bs, r) = Fault"
    "decode_state_probe p (bs, r) = Fault" "decode_state_probe_reply p (bs, r) = Fault"
    "decode_state_probe_done p (bs, r) = Fault" "decode_sio_multi_xfer p (bs, r) = Fault"
    "decode_rb_sync p (bs, r) = Fault" "decode_rb_seal_rows p (bs, r) = Fault" "decode_rb_baseline p (bs, r) = Fault"
    "decode_rb_post p (bs, r) = Fault" "decode_rb_frame_commit p (bs, r) = Fault" "decode_modset p (bs, r) = Fault"
    "decode_rb_resolved p (bs, r) = Fault"
  by - (rule short_list [OF assms(1)]; simp add: kind_defs need_behind_end rd_bind_def rd_skip_def assms(2,3))+

lemma short_slot_only:
  assumes "- 4 \<le> r" "r < 0"
  shows "decode_slot_only p (bs, r) =
     (case bs of [] \<Rightarrow> Fault | a # bs' \<Rightarrow> Ok (p\<lparr>dp_local_slot := a\<rparr>) (drop 3 bs', r - 4))"
  using assms by (simp add: decode_slot_only_def need_behind_end rd_bind_def rd_skip_def rd_ok_def split: list.split)

lemma short_body:
  assumes "length bs < 4" "- 4 \<le> r" "r < 0"
  shows "decode_body p (bs, r) =
     (if dp_type p = RNET_PKT_READY \<or> dp_type p = RNET_PKT_BYE
      then (case bs of [] \<Rightarrow> Fault | a # bs' \<Rightarrow> Ok (p\<lparr>dp_local_slot := a\<rparr>) (drop 3 bs', r - 4))
      else if dp_type p \<in> packet_kinds then Fault else Reject)"
  unfolding decode_body_def packet_kinds_def
  by (simp add: short_kinds [OF assms] short_slot_only [OF assms(2,3)])

lemma trailer_slot:
  "ty = RNET_PKT_READY \<or> ty = RNET_PKT_BYE \<Longrightarrow> dp_type p = ty \<Longrightarrow> decode_rb_trailer p s = Ok p s"
  by (auto simp: decode_rb_trailer_def rnet_proto_is_rb_control_def rd_ok_def)

definition join_u32 :: "u8 \<Rightarrow> u8 \<Rightarrow> u8 \<Rightarrow> u8 \<Rightarrow> u32" where
  "join_u32 a b c d = ucast a OR push_bit 8 (ucast b) OR push_bit 16 (ucast c) OR push_bit 24 (ucast d)"

lemma read_u32_join: "read_u32 (a # b # c # d # bs, r) = Ok (join_u32 a b c d) (bs, r - 4)"
  by (simp add: join_u32_def)

lemma join_u32_iff: "join_u32 a b c d = v \<longleftrightarrow> [a, b, c, d] = write_u32 v"
  using write_read_u32 [of a b c d] by (auto simp: join_u32_def write_u32_def)

lemma short_result:
  assumes "length bs < 4" "- 4 \<le> r" "r < 0"
  shows "rd_result (rd_bind (decode_body (zero_packet\<lparr>dp_type := ty, dp_session_id := sid\<rparr>)) decode_rb_trailer (bs, r)) =
     OutOfBounds \<longleftrightarrow> ty \<in> packet_kinds \<and> (ty = RNET_PKT_READY \<or> ty = RNET_PKT_BYE \<longrightarrow> bs = [])"
proof (cases "ty = RNET_PKT_READY \<or> ty = RNET_PKT_BYE")
  case True
  then have "ty \<in> packet_kinds" by (auto simp: packet_kinds_def)
  then show ?thesis using True trailer_slot [OF True]
    unfolding rd_bind_def short_body [OF assms] by (cases bs) (auto simp: rd_result_def)
next
  case False
  then show ?thesis by (auto simp: rd_bind_def rd_result_def short_body [OF assms])
qed

text \<open>The header and the trailer of such a datagram.\<close>

lemma short_header:
  assumes "length pad < 4"
  shows "\<exists>sid. rnet_proto_decode ([m0, m1, m2, m3, t0, t1] @ pad @ [c0, c1, c2, c3]) (10 + length pad) magic =
     (if join_u32 m0 m1 m2 m3 = magic \<and>
         rnet_proto_checksum ([m0, m1, m2, m3, t0, t1] @ pad) = join_u32 c0 c1 c2 c3
      then rd_result (rd_bind (decode_body (zero_packet\<lparr>dp_type := ucast t0 OR push_bit 8 (ucast t1), dp_session_id := sid\<rparr>))
             decode_rb_trailer (drop 4 (pad @ [c0, c1, c2, c3]), int (length pad) - 4))
      else Rejected)"
  by (rule short_list [OF assms]; simp add: rnet_proto_decode_def rd_bind_def [of read_u32] rd_bind_def [of read_u16]
        rd_guard_def read_u32_join rd_result_def del: read_u32.simps; blast)

lemma six_bytes: "length (xs :: bytes) = 6 \<Longrightarrow> \<exists>a b c d e f. xs = [a, b, c, d, e, f]"
  by (auto simp: numeral_eq_Suc length_Suc_conv)

lemma four_bytes: "length (xs :: bytes) = 4 \<Longrightarrow> \<exists>a b c d. xs = [a, b, c, d]"
  by (auto simp: numeral_eq_Suc length_Suc_conv)

lemma split_runt:
  assumes "10 \<le> length (d :: bytes)" "length d < 14"
  shows "\<exists>m0 m1 m2 m3 t0 t1 pad c0 c1 c2 c3. d = [m0, m1, m2, m3, t0, t1] @ pad @ [c0, c1, c2, c3] \<and> length pad < 4"
proof -
  let ?pad = "take (length d - 10) (drop 6 d)" and ?c = "drop (length d - 4) d"
  have "d = take 6 d @ drop 6 d" by simp
  also have "drop 6 d = ?pad @ drop (length d - 10) (drop 6 d)"
    by (simp only: append_take_drop_id)
  also have "drop (length d - 10) (drop 6 d) = ?c" using assms(1) by simp
  finally have d: "d = take 6 d @ ?pad @ ?c" .
  have "length (take 6 d) = 6" "length ?c = 4" using assms by simp_all
  then obtain m0 m1 m2 m3 t0 t1 c0 c1 c2 c3 where "take 6 d = [m0, m1, m2, m3, t0, t1]" "?c = [c0, c1, c2, c3]"
    using six_bytes [of "take 6 d"] four_bytes [of ?c] by blast
  moreover have "length ?pad < 4" using assms by simp
  ultimately show ?thesis using d by metis
qed

lemma runt_shape:
  "[m0, m1, m2, m3, t0, t1] @ pad @ [c0, c1, c2, c3] = runt magic ty pad' \<longleftrightarrow>
     join_u32 m0 m1 m2 m3 = magic \<and> ucast t0 OR push_bit 8 (ucast t1) = ty \<and> pad = pad' \<and>
     rnet_proto_checksum ([m0, m1, m2, m3, t0, t1] @ pad) = join_u32 c0 c1 c2 c3"
proof -
  have m: "write_u32 magic = [m0, m1, m2, m3] \<longleftrightarrow> join_u32 m0 m1 m2 m3 = magic" using join_u32_iff by metis
  have ty: "write_u16 ty = [t0, t1] \<longleftrightarrow> ucast t0 OR push_bit 8 (ucast t1) = ty"
    using write_read_u16 [of t0 t1] by (auto simp: write_u16_def)
  have eq: "[m0, m1, m2, m3, t0, t1] @ pad @ [c0, c1, c2, c3] = runt magic ty pad' \<longleftrightarrow>
      write_u32 magic = [m0, m1, m2, m3] \<and> write_u16 ty = [t0, t1] \<and> pad' = pad \<and>
      write_u32 (rnet_proto_checksum (write_u32 magic @ write_u16 ty @ pad')) = [c0, c1, c2, c3]"
    by (auto simp: runt_def Let_def write_u32_def write_u16_def)
  have c: "write_u32 v = [c0, c1, c2, c3] \<longleftrightarrow> v = join_u32 c0 c1 c2 c3" for v using join_u32_iff by metis
  show ?thesis
  proof (cases "write_u32 magic = [m0, m1, m2, m3] \<and> write_u16 ty = [t0, t1]")
    case True
    then have "write_u32 magic @ write_u16 ty @ pad' = [m0, m1, m2, m3, t0, t1] @ pad'" by simp
    with True show ?thesis unfolding eq c using m ty by metis
  next
    case False
    then show ?thesis unfolding eq using m ty by blast
  qed
qed

text \<open>
  C12. The bound of fourteen bytes is needed, and the code does not enforce it: it rejects only
  datagrams shorter than ten bytes. Of the datagrams of ten to thirteen bytes, the decoder reads
  behind the end of exactly those that have the magic, a checksum of what is before it as their last
  four bytes and the type of any packet kind; only a READY or a BYE of more than ten bytes stays
  inside, because it needs one byte and takes it from the checksum. Every length check passes,
  because \<^verbatim>\<open>(size_t)(end - c)\<close> is huge when \<^verbatim>\<open>end\<close> lies before \<^verbatim>\<open>c\<close>. Where the buffer goes on behind
  the datagram, a READY of ten bytes is accepted with whatever byte was left there as its sender.
\<close>

theorem decode_runt_overread:
  assumes "10 \<le> length d" "length d < 14"
  shows "(rnet_proto_decode d (length d) magic = OutOfBounds \<longleftrightarrow>
      (\<exists>ty pad. d = runt magic ty pad \<and> ty \<in> packet_kinds \<and> (ty = RNET_PKT_READY \<or> ty = RNET_PKT_BYE \<longrightarrow> pad = []))) \<and>
    (d = runt magic RNET_PKT_READY [] \<longrightarrow>
      (\<exists>sid. rnet_proto_decode (d @ b # stale) (length d) magic =
         Decoded (zero_packet\<lparr>dp_type := RNET_PKT_READY, dp_session_id := sid, dp_local_slot := b\<rparr>)))"
proof -
  obtain m0 m1 m2 m3 t0 t1 pad c0 c1 c2 c3 where d: "d = [m0, m1, m2, m3, t0, t1] @ pad @ [c0, c1, c2, c3]"
    and pad: "length pad < 4" using split_runt [OF assms] by blast
  let ?ty = "ucast t0 OR push_bit 8 (ucast t1) :: u16"
  let ?front = "join_u32 m0 m1 m2 m3 = magic \<and>
      rnet_proto_checksum ([m0, m1, m2, m3, t0, t1] @ pad) = join_u32 c0 c1 c2 c3"
  let ?rest = "drop 4 (pad @ [c0, c1, c2, c3])"
  have "length ?rest = length pad" by simp
  then have rest: "length ?rest < 4" "?rest = [] \<longleftrightarrow> pad = []" using pad by (simp, metis length_0_conv)
  have len: "length d = 10 + length pad" by (simp add: d)
  obtain sid where dec: "rnet_proto_decode d (length d) magic =
      (if ?front then rd_result (rd_bind (decode_body (zero_packet\<lparr>dp_type := ?ty, dp_session_id := sid\<rparr>))
             decode_rb_trailer (?rest, int (length pad) - 4)) else Rejected)"
    using short_header [OF pad, of m0 m1 m2 m3 t0 t1 c0 c1 c2 c3 magic] unfolding len unfolding d by blast
  have body: "rd_result (rd_bind (decode_body (zero_packet\<lparr>dp_type := ?ty, dp_session_id := sid\<rparr>))
             decode_rb_trailer (?rest, int (length pad) - 4)) = OutOfBounds \<longleftrightarrow>
      ?ty \<in> packet_kinds \<and> (?ty = RNET_PKT_READY \<or> ?ty = RNET_PKT_BYE \<longrightarrow> pad = [])"
    using short_result [OF rest(1), of "int (length pad) - 4"] pad rest(2) by simp
  have "rnet_proto_decode d (length d) magic = OutOfBounds \<longleftrightarrow>
      (\<exists>ty pad. d = runt magic ty pad \<and> ty \<in> packet_kinds \<and> (ty = RNET_PKT_READY \<or> ty = RNET_PKT_BYE \<longrightarrow> pad = []))"
    unfolding dec using body by (auto simp: d runt_shape simp del: append.simps)
  moreover have "rnet_proto_decode (runt magic RNET_PKT_READY [] @ b # stale) 10 magic =
         Decoded (zero_packet\<lparr>dp_type := RNET_PKT_READY,
           dp_session_id := rnet_proto_checksum (write_u32 magic @ write_u16 RNET_PKT_READY), dp_local_slot := b\<rparr>)"
    by (simp add: runt_def Let_def rnet_proto_decode_def write_u32_def write_u16_def rd_bind_def
        rd_guard_def rd_need_def rd_skip_def rd_ok_def rd_result_def size_of_ptrdiff_def
        decode_body_def decode_slot_only_def decode_rb_trailer_def rnet_proto_is_rb_control_def)
  moreover have "length (runt magic RNET_PKT_READY []) = 10" by (simp add: runt_def Let_def write_u32_def write_u16_def)
  ultimately show ?thesis by auto
qed

theorem decode_runt_overread_witness:
  "length (runt 7 RNET_PKT_START [1, 2]) = 12 \<and>
   rnet_proto_decode (runt 7 RNET_PKT_START [1, 2]) (length (runt 7 RNET_PKT_START [1, 2])) 7 = OutOfBounds"
proof -
  have l: "length (runt 7 RNET_PKT_START [1, 2]) = 12" by (simp add: runt_def Let_def write_u32_def write_u16_def)
  have "RNET_PKT_START \<in> packet_kinds" "RNET_PKT_START \<noteq> RNET_PKT_READY" "RNET_PKT_START \<noteq> RNET_PKT_BYE"
    by (simp_all add: packet_kinds_def)
  then have "\<exists>ty pad. runt 7 RNET_PKT_START [1, 2] = runt 7 ty pad \<and> ty \<in> packet_kinds \<and>
      (ty = RNET_PKT_READY \<or> ty = RNET_PKT_BYE \<longrightarrow> pad = [])" by blast
  then show ?thesis using decode_runt_overread [of "runt 7 RNET_PKT_START [1, 2]" 7 0 "[]"] l by simp
qed

end
