(* ===== verification/RNet_Codec.thy ===== *)
theory RNet_Codec
  imports RNet_Decode_Safe
begin

text \<open>
  The encoders and the decoder together. \<open>rnet_msg\<close> is the abstract protocol: one constructor
  per packet kind with the values an encoder is given. \<open>encode_msg\<close> calls the encoder of the
  kind, \<open>msg_packet\<close> says what a receiver must see, and the round trip relates the two through
  the bytes on the wire.
\<close>

section \<open>The abstract protocol\<close>

datatype rnet_msg =
    Hello u8 u8 u8
  | Ready u8
  | Start u32
  | Input u8 u16 u32 "RNetWireFrame list"
  | InputAcks u8 u16 u32 "RNetWireFrame list" "u32 list"
  | DelaySync u8 u32
  | InputConfirm u8 u16 u32 u32
  | Bye u8
  | StateBegin u8 u8 u8 u32 u32 u32
  | StateChunk u8 u32 u32 bytes
  | StateAck u8 u32 u32
  | StateProbe u8 u8 u8 u32 u32 u8
  | StateProbeReply u8 u8 u8 u8 u32 u32
  | StateProbeDone u8 u8 u8 u32 u32
  | SioMultiXfer u8 u8 u32 u16 u16
  | RbSync u8 u32 u32 u32 u32 u8 u8 u8
  | RbSealRows u8 u32 u32 u32 u8 u32 "RNetRbWireFrame list"
  | RbBaseline u8 u32 u32 u32 u32 u32 u32
  | RbPost u8 u32 u32 u32 u32 u8
  | RbFrameCommit u8 u32 u32
  | RbResolved u8 u32
  | Modset u8 bytes
  | ModsetAck u8 u8 bytes

fun encode_msg :: "nat \<Rightarrow> u32 \<Rightarrow> u32 \<Rightarrow> rnet_msg \<Rightarrow> bytes option" where
  "encode_msg cap magic sid (Hello ls sc d) = rnet_proto_encode_hello cap magic sid ls sc d"
| "encode_msg cap magic sid (Ready ls) = rnet_proto_encode_ready cap magic sid ls"
| "encode_msg cap magic sid (Start t) = rnet_proto_encode_start cap magic sid t"
| "encode_msg cap magic sid (Input ls e a fs) =
     rnet_proto_encode_input cap magic sid ls e a (Some fs)"
| "encode_msg cap magic sid (InputAcks ls e a fs as) =
     rnet_proto_encode_input_acks cap magic sid ls e a (Some fs) (Some as)"
| "encode_msg cap magic sid (DelaySync d t) = rnet_proto_encode_delay_sync cap magic sid d t"
| "encode_msg cap magic sid (InputConfirm ls e t h) =
     rnet_proto_encode_input_confirm cap magic sid ls e t h"
| "encode_msg cap magic sid (Bye ls) = rnet_proto_encode_bye cap magic sid ls"
| "encode_msg cap magic sid (StateBegin ls opc sl x t c) =
     rnet_proto_encode_state_begin cap magic sid ls opc sl x t c"
| "encode_msg cap magic sid (StateChunk ls x off d) =
     rnet_proto_encode_state_chunk cap magic sid ls x off (Some d)"
| "encode_msg cap magic sid (StateAck ls x a) = rnet_proto_encode_state_ack cap magic sid ls x a"
| "encode_msg cap magic sid (StateProbe ls opc sl t c m) =
     rnet_proto_encode_state_probe_ex cap magic sid ls opc sl t c m"
| "encode_msg cap magic sid (StateProbeReply ls opc sl m t c) =
     rnet_proto_encode_state_probe_reply cap magic sid ls opc sl m t c"
| "encode_msg cap magic sid (StateProbeDone ls opc sl t c) =
     rnet_proto_encode_state_probe_done cap magic sid ls opc sl t c"
| "encode_msg cap magic sid (SioMultiXfer ls u q s p) =
     rnet_proto_encode_sio_multi_xfer cap magic sid ls u q s p"
| "encode_msg cap magic sid (RbSync ls e m l t c i f) =
     rnet_proto_encode_rb_sync cap magic sid ls e m l t c i f"
| "encode_msg cap magic sid (RbSealRows ls e m t sl b rows) =
     rnet_proto_encode_rb_seal_rows cap magic sid ls e m t sl b (Some rows) (of_nat (length rows))"
| "encode_msg cap magic sid (RbBaseline ls e l m a b c) =
     rnet_proto_encode_rb_baseline cap magic sid ls e l m a b c"
| "encode_msg cap magic sid (RbPost ls e t m i f) =
     rnet_proto_encode_rb_post cap magic sid ls e t m i f"
| "encode_msg cap magic sid (RbFrameCommit ls t h) =
     rnet_proto_encode_rb_frame_commit cap magic sid ls t h"
| "encode_msg cap magic sid (RbResolved ls t) = rnet_proto_encode_rb_resolved cap magic sid ls t"
| "encode_msg cap magic sid (Modset ls t) = rnet_proto_encode_modset cap magic sid ls (Some t)"
| "encode_msg cap magic sid (ModsetAck ls st r) =
     rnet_proto_encode_modset_ack cap magic sid ls st (Some r)"

text \<open>A frame as the receiver reconstructs it: bytes behind the declared size are zero.\<close>

definition received_frame :: "RNetWireFrame \<Rightarrow> RNetWireFrame" where
  "received_frame f =
     f\<lparr>wf_bytes := pad_to RNET_INPUT_MAX 0 (take (unat (wf_size f)) (wf_bytes f))\<rparr>"

fun msg_type :: "rnet_msg \<Rightarrow> u16" where
  "msg_type (Hello ls sc d) = RNET_PKT_HELLO"
| "msg_type (Ready ls) = RNET_PKT_READY"
| "msg_type (Start t) = RNET_PKT_START"
| "msg_type (Input ls e a fs) = RNET_PKT_INPUT"
| "msg_type (InputAcks ls e a fs as) = RNET_PKT_INPUT"
| "msg_type (DelaySync d t) = RNET_PKT_DELAY_SYNC"
| "msg_type (InputConfirm ls e t h) = RNET_PKT_INPUT_CONFIRM"
| "msg_type (Bye ls) = RNET_PKT_BYE"
| "msg_type (StateBegin ls opc sl x t c) = RNET_PKT_STATE_BEGIN"
| "msg_type (StateChunk ls x off d) = RNET_PKT_STATE_CHUNK"
| "msg_type (StateAck ls x a) = RNET_PKT_STATE_ACK"
| "msg_type (StateProbe ls opc sl t c m) = RNET_PKT_STATE_PROBE"
| "msg_type (StateProbeReply ls opc sl m t c) = RNET_PKT_STATE_PROBE_REPLY"
| "msg_type (StateProbeDone ls opc sl t c) = RNET_PKT_STATE_PROBE_DONE"
| "msg_type (SioMultiXfer ls u q s p) = RNET_PKT_SIO_MULTI_XFER"
| "msg_type (RbSync ls e m l t c i f) = RNET_PKT_RB_SYNC"
| "msg_type (RbSealRows ls e m t sl b rows) = RNET_PKT_RB_SEAL_ROWS"
| "msg_type (RbBaseline ls e l m a b c) = RNET_PKT_RB_BASELINE"
| "msg_type (RbPost ls e t m i f) = RNET_PKT_RB_POST"
| "msg_type (RbFrameCommit ls t h) = RNET_PKT_RB_FRAME_COMMIT"
| "msg_type (RbResolved ls t) = RNET_PKT_RB_RESOLVED"
| "msg_type (Modset ls t) = RNET_PKT_MODSET"
| "msg_type (ModsetAck ls st r) = RNET_PKT_MODSET_ACK"

text \<open>The fields a packet of the kind carries, over an otherwise zero packet.\<close>

fun msg_fields :: "rnet_msg \<Rightarrow> RNetDecodedPacket \<Rightarrow> RNetDecodedPacket" where
  "msg_fields (Hello ls sc d) p = p\<lparr>dp_local_slot := ls, dp_slot_count := sc, dp_delay := d,
     dp_wire_version := RNET_WIRE_VERSION\<rparr>"
| "msg_fields (Ready ls) p = p\<lparr>dp_local_slot := ls\<rparr>"
| "msg_fields (Start t) p = p\<lparr>dp_start_tick := t\<rparr>"
| "msg_fields (Input ls e a fs) p = p\<lparr>dp_local_slot := ls, dp_frame_count := length fs,
     dp_input_epoch := e, dp_ack_tick := a,
     dp_frames := pad_to RNET_MAX_BUNDLE zero_wire_frame (map received_frame fs)\<rparr>"
| "msg_fields (InputAcks ls e a fs as) p = p\<lparr>dp_local_slot := ls, dp_frame_count := length fs,
     dp_input_epoch := e, dp_ack_tick := a,
     dp_frames := pad_to RNET_MAX_BUNDLE zero_wire_frame (map received_frame fs),
     dp_ack_count := of_nat (length as), dp_acks := pad_to RNET_MAX_SLOTS 0 as\<rparr>"
| "msg_fields (DelaySync d t) p = p\<lparr>dp_new_delay := d, dp_effective_tick := t\<rparr>"
| "msg_fields (InputConfirm ls e t h) p = p\<lparr>dp_local_slot := ls, dp_input_epoch := e,
     dp_confirm_sim_tick := t, dp_confirm_hash := h\<rparr>"
| "msg_fields (Bye ls) p = p\<lparr>dp_local_slot := ls\<rparr>"
| "msg_fields (StateBegin ls opc sl x t c) p = p\<lparr>dp_local_slot := ls, dp_state_op := opc,
     dp_state_slot := sl, dp_state_xfer_id := x, dp_state_total_size := t,
     dp_state_payload_crc := c\<rparr>"
| "msg_fields (StateChunk ls x off d) p = p\<lparr>dp_local_slot := ls, dp_state_xfer_id := x,
     dp_state_offset := off, dp_state_chunk_size := of_nat (length d),
     dp_state_chunk := pad_to RNET_STATE_CHUNK_MAX 0 d\<rparr>"
| "msg_fields (StateAck ls x a) p = p\<lparr>dp_local_slot := ls, dp_state_xfer_id := x,
     dp_state_ack_bytes := a\<rparr>"
| "msg_fields (StateProbe ls opc sl t c m) p = p\<lparr>dp_local_slot := ls, dp_state_op := opc,
     dp_state_slot := sl, dp_state_probe_replied := m, dp_state_total_size := t,
     dp_state_payload_crc := c\<rparr>"
| "msg_fields (StateProbeReply ls opc sl m t c) p = p\<lparr>dp_local_slot := ls, dp_state_op := opc,
     dp_state_slot := sl, dp_state_probe_match := (if m \<noteq> 0 then 1 else 0),
     dp_state_total_size := t, dp_state_payload_crc := c\<rparr>"
| "msg_fields (StateProbeDone ls opc sl t c) p = p\<lparr>dp_local_slot := ls, dp_state_op := opc,
     dp_state_slot := sl, dp_state_total_size := t, dp_state_payload_crc := c\<rparr>"
| "msg_fields (SioMultiXfer ls u q s pd) p = p\<lparr>dp_local_slot := ls, dp_sio_unit_id := u,
     dp_sio_xfer_seq := q, dp_sio_send := s, dp_sio_confirm := ucast pd,
     dp_sio_vblank := ucast (drop_bit 8 pd)\<rparr>"
| "msg_fields (RbSync ls e m l t c i f) p = p\<lparr>dp_local_slot := ls, dp_rb_corrected_slot := c,
     dp_rb_initiator := i, dp_rb_flags := f, dp_rb_epoch_id := e, dp_rb_mismatch_tick := m,
     dp_rb_load_tick := l, dp_rb_target_tick := t\<rparr>"
| "msg_fields (RbSealRows ls e m t sl b rows) p = p\<lparr>dp_local_slot := ls, dp_rb_slot := sl,
     dp_rb_row_count := of_nat (length rows), dp_rb_epoch_id := e, dp_rb_mismatch_tick := m,
     dp_rb_target_tick := t, dp_rb_row_begin := b,
     dp_rb_rows := pad_to RNET_RB_SEAL_ROWS_CHUNK_MAX zero_rb_wire_frame rows\<rparr>"
| "msg_fields (RbBaseline ls e l m a b c) p = p\<lparr>dp_local_slot := ls, dp_rb_epoch_id := e,
     dp_rb_load_tick := l, dp_rb_digest_master := m, dp_rb_digest_a := a, dp_rb_digest_b := b,
     dp_rb_digest_c := c\<rparr>"
| "msg_fields (RbPost ls e t m i f) p = p\<lparr>dp_local_slot := ls,
     dp_rb_match := (if f \<noteq> 0 then 1 else 0), dp_rb_epoch_id := e, dp_rb_target_tick := t,
     dp_rb_digest_master := m, dp_rb_input_digest := i\<rparr>"
| "msg_fields (RbFrameCommit ls t h) p = p\<lparr>dp_local_slot := ls, dp_rb_through_tick := t,
     dp_rb_state_hash := h\<rparr>"
| "msg_fields (RbResolved ls t) p = p\<lparr>dp_local_slot := ls, dp_rb_resolved_through := t\<rparr>"
| "msg_fields (Modset ls t) p = p\<lparr>dp_local_slot := ls, dp_modset_status := 0,
     dp_modset_len := of_nat (length t), dp_modset_text := pad_to RNET_MODSET_TEXT_MAX 0 t\<rparr>"
| "msg_fields (ModsetAck ls st r) p = p\<lparr>dp_local_slot := ls, dp_modset_status := st,
     dp_modset_len := of_nat (length r), dp_modset_reason := pad_to RNET_MODSET_REASON_MAX 0 r\<rparr>"

definition msg_packet :: "u32 \<Rightarrow> rnet_msg \<Rightarrow> RNetDecodedPacket" where
  "msg_packet sid m = msg_fields m (zero_packet\<lparr>dp_type := msg_type m, dp_session_id := sid\<rparr>)"

text \<open>
  What a caller has to respect: frames are backed by their 32-byte array, a chunk of seal rows
  fits one datagram, and strings are terminated before the receiver's field is full.
\<close>

fun msg_ok :: "rnet_msg \<Rightarrow> bool" where
  "msg_ok (Input ls e a fs) \<longleftrightarrow> list_all (\<lambda>f. length (wf_bytes f) = RNET_INPUT_MAX) fs"
| "msg_ok (InputAcks ls e a fs as) \<longleftrightarrow> list_all (\<lambda>f. length (wf_bytes f) = RNET_INPUT_MAX) fs"
| "msg_ok (RbSealRows ls e m t sl b rows) \<longleftrightarrow> length rows \<le> RNET_RB_SEAL_ROWS_CHUNK_MAX"
| "msg_ok (Modset ls t) \<longleftrightarrow> length t < RNET_MODSET_TEXT_MAX \<and> 0 \<notin> set t"
| "msg_ok (ModsetAck ls st r) \<longleftrightarrow> length r < RNET_MODSET_REASON_MAX \<and> 0 \<notin> set r"
| "msg_ok _ \<longleftrightarrow> True"

section \<open>Reading back what was written\<close>

lemma length_write [simp]: "length (write_u16 v) = 2" "length (write_u32 w) = 4"
  by (simp_all add: write_u16_def write_u32_def)

lemma read_write_u16 [simp]: "read_u16 (write_u16 v @ bs, r) = Ok v (bs, r - 2)"
  by (simp add: write_u16_def)

lemma read_write_u32 [simp]: "read_u32 (write_u32 v @ bs, r) = Ok v (bs, r - 4)"
  by (simp add: write_u32_def)

lemma read_bytes_append [simp]:
  "length xs = n \<Longrightarrow> read_bytes n (xs @ bs, r) = Ok xs (bs, r - int n)"
  by (auto simp: read_bytes_def)

lemma read_write_u16_Nil [simp]: "read_u16 (write_u16 v, r) = Ok v ([], r - 2)"
  using read_write_u16 [of v "[]"] by simp

lemma read_write_u32_Nil [simp]: "read_u32 (write_u32 v, r) = Ok v ([], r - 4)"
  using read_write_u32 [of v "[]"] by simp

lemma read_bytes_all [simp]: "length xs = n \<Longrightarrow> read_bytes n (xs, r) = Ok xs ([], r - int n)"
  using read_bytes_append [of xs n "[]"] by simp

lemma rd_need_enough: "int n \<le> r \<Longrightarrow> rd_need n f (bs, r) = f (bs, r)"
  by (auto simp: rd_need_def size_of_ptrdiff_def)

lemmas reader_simps = rd_bind_def rd_need_enough rd_guard_def rd_skip_def rd_ok_def

text \<open>A finished packet with a well-formed header: the decoder runs its body and the trailer.\<close>

lemma decode_finished:
  assumes "finish_packet (write_u32 magic @ write_u16 ty @ write_u32 sid @ rest) cap = Some bs"
  shows "rnet_proto_decode (bs @ ex) (length bs) magic =
     rd_result (rd_bind (decode_body (zero_packet\<lparr>dp_type := ty, dp_session_id := sid\<rparr>))
       decode_rb_trailer (rest, int (length rest)))"
proof -
  let ?body = "write_u32 magic @ write_u16 ty @ write_u32 sid @ rest"
  from assms have bs: "bs = ?body @ write_u32 (rnet_proto_checksum ?body)"
    by (simp add: finish_packet_def split: if_splits)
  then have len: "length bs = 14 + length rest" by simp
  have "rnet_proto_decode (bs @ ex) (14 + length rest) magic =
     rd_result (rd_bind (decode_body (zero_packet\<lparr>dp_type := ty, dp_session_id := sid\<rparr>))
       decode_rb_trailer (rest @ write_u32 (rnet_proto_checksum ?body) @ ex, int (length rest)))"
    unfolding bs
    using decode_layout [where rest = rest and ex = ex and magic = magic]
    by (simp add: write_u32_def write_u16_def)
  then show ?thesis unfolding len by (simp only: decode_body_safe(1))
qed

section \<open>The repeated parts\<close>

definition frame_bytes :: "RNetWireFrame \<Rightarrow> bytes" where
  "frame_bytes f = write_u32 (wf_tick f) @ write_u16 (wf_size f) @
     take (unat (wf_size f)) (wf_bytes f)"

lemma encode_input_frames_eq:
  "encode_input_frames cap c fs = Some body \<Longrightarrow>
     body = c @ concat (map frame_bytes fs) \<and>
     list_all (\<lambda>f. unat (wf_size f) \<le> RNET_INPUT_MAX) fs"
proof (induction fs arbitrary: c)
  case (Cons f fs)
  from Cons.prems show ?case
    by (auto simp: frame_bytes_def [of f] split: if_splits dest: Cons.IH)
qed simp

lemma decode_frames_append:
  assumes "list_all (\<lambda>f. unat (wf_size f) \<le> RNET_INPUT_MAX) fs"
    and "list_all (\<lambda>f. length (wf_bytes f) = RNET_INPUT_MAX) fs"
    and "int (length (concat (map frame_bytes fs))) \<le> r"
  shows "decode_input_frames (length fs) (concat (map frame_bytes fs) @ rest, r) =
     Ok (map received_frame fs) (rest, r - int (length (concat (map frame_bytes fs))))"
  using assms
proof (induction fs arbitrary: r)
  case (Cons f fs)
  let ?n = "unat (wf_size f)" and ?len = "int (length (concat (map frame_bytes fs)))"
  from Cons.prems have n: "?n \<le> RNET_INPUT_MAX" "length (wf_bytes f) = RNET_INPUT_MAX"
    and r: "6 + int ?n + ?len \<le> r"
    by (auto simp: frame_bytes_def [of f])
  have "decode_input_frames (length fs) (concat (map frame_bytes fs) @ rest, r - 6 - int ?n) =
     Ok (map received_frame fs) (rest, r - 6 - int ?n - ?len)"
    using Cons.prems r by (intro Cons.IH) auto
  moreover have "6 \<le> r" "uint (wf_size f) \<le> r - 6"
    using r uint_nonnegative [of "wf_size f"] by (simp_all, linarith+)
  ultimately show ?case
    using n by (simp add: frame_bytes_def [of f] received_frame_def [of f] reader_simps)
qed (simp add: rd_ok_def)

lemma read_acks_append:
  "read_acks (length as) (concat (map write_u32 as) @ rest, r) =
     Ok as (rest, r - 4 * int (length as))"
  by (induction as arbitrary: r) (auto simp: reader_simps)

lemma read_rb_frame_append: "read_rb_frame (write_rb_frame f @ rest, r) = Ok f (rest, r - 9)"
  by (simp add: read_rb_frame_def write_rb_frame_def reader_simps)

lemma read_rb_frames_append:
  "read_rb_frames (length fs) (concat (map write_rb_frame fs) @ rest, r) =
     Ok fs (rest, r - 9 * int (length fs))"
  by (induction fs arbitrary: r) (auto simp: reader_simps read_rb_frame_append)

lemma length_rb_frames: "length (concat (map write_rb_frame fs)) = 9 * length fs"
  by (induction fs) (auto simp: write_rb_frame_def)

lemma length_acks: "length (concat (map write_u32 as)) = 4 * length as"
  by (induction as) auto

lemma clamped_loop_whole: "0 \<notin> set t \<Longrightarrow> length t \<le> cap \<Longrightarrow> clamped_loop t cap = length t"
  by (induction t cap rule: clamped_loop.induct) auto

lemma unat_of_nat_u16: "n < 65536 \<Longrightarrow> unat (of_nat n :: u16) = n"
  by (simp add: unat_of_nat take_bit_nat_eq_self)

lemma unat_of_nat_u8: "n < 256 \<Longrightarrow> unat (of_nat n :: u8) = n"
  by (simp add: unat_of_nat take_bit_nat_eq_self)

section \<open>Round trip per packet kind\<close>

lemmas decode_cases =
  decode_body_def decode_hello_def decode_slot_only_def decode_start_def decode_delay_sync_def
  decode_input_confirm_def decode_state_begin_def decode_state_ack_def decode_state_probe_def
  decode_state_probe_reply_def decode_state_probe_done_def decode_sio_multi_xfer_def
  decode_rb_sync_def decode_rb_baseline_def decode_rb_post_def decode_rb_frame_commit_def
  decode_rb_resolved_def decode_rb_trailer_def rnet_proto_is_rb_control_def

lemmas encode_fixed =
  rnet_proto_encode_hello_def rnet_proto_encode_ready_def rnet_proto_encode_start_def
  rnet_proto_encode_delay_sync_def rnet_proto_encode_input_confirm_def rnet_proto_encode_bye_def
  rnet_proto_encode_state_begin_def rnet_proto_encode_state_ack_def
  rnet_proto_encode_state_probe_ex_def rnet_proto_encode_state_probe_reply_def
  rnet_proto_encode_state_probe_done_def rnet_proto_encode_sio_multi_xfer_def
  rnet_proto_encode_rb_sync_def rnet_proto_encode_rb_baseline_def rnet_proto_encode_rb_post_def
  rnet_proto_encode_rb_frame_commit_def rnet_proto_encode_rb_resolved_def

text \<open>The kinds with a variable part are treated one by one; all others have a fixed layout.\<close>

fun fixed_layout :: "rnet_msg \<Rightarrow> bool" where
  "fixed_layout (Input ls e a fs) = False"
| "fixed_layout (InputAcks ls e a fs as) = False"
| "fixed_layout (StateChunk ls x off d) = False"
| "fixed_layout (RbSealRows ls e m t sl b rows) = False"
| "fixed_layout (Modset ls t) = False"
| "fixed_layout (ModsetAck ls st r) = False"
| "fixed_layout _ = True"

lemma roundtrip_fixed:
  assumes "encode_msg cap magic sid m = Some bs" and "fixed_layout m"
  shows "rnet_proto_decode (bs @ ex) (length bs) magic = Decoded (msg_packet sid m)"
  using assms
  by (cases m)
     (auto simp: encode_fixed decode_cases reader_simps rd_result_def msg_packet_def
        dest!: decode_finished [where ex = ex] split: if_splits)

lemma roundtrip_state_chunk:
  assumes "encode_msg cap magic sid (StateChunk ls x off d) = Some bs"
  shows "rnet_proto_decode (bs @ ex) (length bs) magic =
     Decoded (msg_packet sid (StateChunk ls x off d))"
proof -
  from assms have d: "d \<noteq> []" "length d \<le> 1120" and
    fin: "finish_packet (write_u32 magic @ write_u16 RNET_PKT_STATE_CHUNK @ write_u32 sid @
      ([ls, 0, 0, 0] @ write_u32 x @ write_u32 off @ write_u16 (of_nat (length d)) @
       write_u16 0 @ d)) cap = Some bs"
    by (auto simp: rnet_proto_encode_state_chunk_def split: if_splits)
  have n: "unat (of_nat (length d) :: u16) = length d" "of_nat (length d) \<noteq> (0 :: u16)"
    using d unat_of_nat_u16 [of "length d"] by auto
  from decode_finished [OF fin, of ex] n d show ?thesis
    by (simp add: decode_body_def decode_state_chunk_def decode_rb_trailer_def
          rnet_proto_is_rb_control_def reader_simps rd_result_def msg_packet_def read_bytes_def)
qed

lemma roundtrip_rb_seal_rows:
  assumes "encode_msg cap magic sid (RbSealRows ls e m t sl b rows) = Some bs"
    and "length rows \<le> 24"
  shows "rnet_proto_decode (bs @ ex) (length bs) magic =
     Decoded (msg_packet sid (RbSealRows ls e m t sl b rows))"
proof -
  have n: "unat (of_nat (length rows) :: u16) = length rows"
    using assms(2) unat_of_nat_u16 [of "length rows"] by simp
  from assms have
    fin: "finish_packet (write_u32 magic @ write_u16 RNET_PKT_RB_SEAL_ROWS @ write_u32 sid @
      ([ls, sl] @ write_u16 (of_nat (length rows)) @ write_u32 e @ write_u32 m @ write_u32 t @
       write_u32 b @ concat (map write_rb_frame rows))) cap = Some bs"
    by (simp add: rnet_proto_encode_rb_seal_rows_def n Let_def)
  have frames: "read_rb_frames (length rows) (concat (map write_rb_frame rows), r) =
      Ok rows ([], r - 9 * int (length rows))" for r
    using read_rb_frames_append [of rows "[]" r] by simp
  from decode_finished [OF fin, of ex] show ?thesis
    using assms(2)
    by (simp add: decode_body_def decode_rb_seal_rows_def decode_rb_trailer_def
          rnet_proto_is_rb_control_def reader_simps rd_result_def msg_packet_def n frames
          length_rb_frames)
qed

lemma roundtrip_modset:
  assumes "encode_msg cap magic sid (Modset ls t) = Some bs" and "msg_ok (Modset ls t)"
  shows "rnet_proto_decode (bs @ ex) (length bs) magic = Decoded (msg_packet sid (Modset ls t))"
proof -
  have n: "unat (of_nat (length t) :: u16) = length t" "length t < 1024"
    using assms(2) unat_of_nat_u16 [of "length t"] by auto
  from assms have
    fin: "finish_packet (write_u32 magic @ write_u16 RNET_PKT_MODSET @ write_u32 sid @
      ([ls, 0] @ write_u16 (of_nat (length t)) @ t)) cap = Some bs"
    by (simp add: rnet_proto_encode_modset_def clamped_len_def cstr_bytes_def
          clamped_loop_whole Let_def split: if_splits)
  from decode_finished [OF fin, of ex] n show ?thesis
    by (simp add: decode_body_def decode_modset_def decode_rb_trailer_def
          rnet_proto_is_rb_control_def reader_simps rd_result_def msg_packet_def)
qed

lemma roundtrip_modset_ack:
  assumes "encode_msg cap magic sid (ModsetAck ls st r) = Some bs" and "msg_ok (ModsetAck ls st r)"
  shows "rnet_proto_decode (bs @ ex) (length bs) magic =
     Decoded (msg_packet sid (ModsetAck ls st r))"
proof -
  have n: "unat (of_nat (length r) :: u16) = length r" "length r < 96"
    using assms(2) unat_of_nat_u16 [of "length r"] by auto
  from assms have
    fin: "finish_packet (write_u32 magic @ write_u16 RNET_PKT_MODSET_ACK @ write_u32 sid @
      ([ls, st] @ write_u16 (of_nat (length r)) @ r)) cap = Some bs"
    by (simp add: rnet_proto_encode_modset_ack_def clamped_len_def cstr_bytes_def
          clamped_loop_whole Let_def split: if_splits)
  from decode_finished [OF fin, of ex] n show ?thesis
    by (simp add: decode_body_def decode_modset_def decode_rb_trailer_def
          rnet_proto_is_rb_control_def reader_simps rd_result_def msg_packet_def)
qed

text \<open>The body of an INPUT packet, before the trailer, with an optional extension.\<close>

lemma encode_input_body:
  assumes "rnet_proto_encode_input cap magic sid ls e a (Some fs) = Some bs"
  shows "fs \<noteq> [] \<and> length fs \<le> 21 \<and>
     list_all (\<lambda>f. unat (wf_size f) \<le> RNET_INPUT_MAX) fs \<and>
     finish_packet (write_u32 magic @ write_u16 RNET_PKT_INPUT @ write_u32 sid @
       ([ls, of_nat (length fs)] @ write_u16 e @ write_u32 a @ concat (map frame_bytes fs))) cap
       = Some bs"
  using assms
  by (auto simp: rnet_proto_encode_input_def write_u16_def [of e] not_less
        split: if_splits option.splits dest!: encode_input_frames_eq)

lemma decode_input_layout:
  assumes "fs \<noteq> []" "length fs \<le> 21"
    and "list_all (\<lambda>f. unat (wf_size f) \<le> RNET_INPUT_MAX) fs"
    and "list_all (\<lambda>f. length (wf_bytes f) = RNET_INPUT_MAX) fs"
  defines "b \<equiv> concat (map frame_bytes fs)"
  shows "decode_input p
      ([ls, of_nat (length fs)] @ write_u16 e @ write_u32 a @ b @ ext,
       int (8 + length b + length ext)) =
    decode_input_tail (p\<lparr>dp_local_slot := ls, dp_frame_count := length fs, dp_input_epoch := e,
       dp_ack_tick := a,
       dp_frames := pad_to RNET_MAX_BUNDLE zero_wire_frame (map received_frame fs)\<rparr>)
      (ext, int (length ext))"
proof -
  have n: "unat (of_nat (length fs) :: u8) = length fs"
    using assms(2) unat_of_nat_u8 [of "length fs"] by simp
  have fr: "decode_input_frames (length fs) (b @ ext, int (length b) + int (length ext)) =
     Ok (map received_frame fs) (ext, int (length ext))"
    using decode_frames_append [OF assms(3,4), of "int (length b) + int (length ext)" ext]
    unfolding b_def by simp
  show ?thesis
    using assms(1,2)
    by (simp add: decode_input_def reader_simps n fr write_u16_def)
qed

lemma roundtrip_input:
  assumes "encode_msg cap magic sid (Input ls e a fs) = Some bs" and "msg_ok (Input ls e a fs)"
  shows "rnet_proto_decode (bs @ ex) (length bs) magic =
     Decoded (msg_packet sid (Input ls e a fs))"
proof -
  from encode_input_body [of cap magic sid ls e a fs bs] assms
  have fs: "fs \<noteq> []" "length fs \<le> 21" "list_all (\<lambda>f. unat (wf_size f) \<le> RNET_INPUT_MAX) fs"
    "list_all (\<lambda>f. length (wf_bytes f) = RNET_INPUT_MAX) fs" and
    fin: "finish_packet (write_u32 magic @ write_u16 RNET_PKT_INPUT @ write_u32 sid @
      ([ls, of_nat (length fs)] @ write_u16 e @ write_u32 a @ concat (map frame_bytes fs))) cap
      = Some bs"
    by auto
  from decode_finished [OF fin, of ex]
    decode_input_layout [OF fs, where ext = "[]" and ls = ls and e = e and a = a]
  show ?thesis
    by (simp add: decode_body_def decode_rb_trailer_def decode_input_tail_def
          rnet_proto_is_rb_control_def rd_bind_def rd_ok_def rd_result_def msg_packet_def
          add.assoc)
qed

lemma finish_packet_prefix:
  "finish_packet pre cap = Some out \<Longrightarrow> take (length out - 4) out = pre"
  by (auto simp: finish_packet_def split: if_splits)

lemma roundtrip_input_acks:
  assumes "encode_msg cap magic sid (InputAcks ls e a fs as) = Some bs"
    and "msg_ok (InputAcks ls e a fs as)"
  shows "rnet_proto_decode (bs @ ex) (length bs) magic =
     Decoded (msg_packet sid (InputAcks ls e a fs as))"
proof -
  let ?b = "[ls, of_nat (length fs)] @ write_u16 e @ write_u32 a @ concat (map frame_bytes fs)"
  let ?ext = "[of_nat (length as)] @ concat (map write_u32 as)"
  from assms obtain out where as: "3 \<le> length as" "length as \<le> 8"
    and out: "rnet_proto_encode_input cap magic sid ls e a (Some fs) = Some out"
    and fin0: "finish_packet (take (length out - 4) out @ ?ext) cap = Some bs"
    by (auto simp: rnet_proto_encode_input_acks_def not_less split: if_splits option.splits)
  from encode_input_body [OF out] assms(2)
  have fs: "fs \<noteq> []" "length fs \<le> 21" "list_all (\<lambda>f. unat (wf_size f) \<le> RNET_INPUT_MAX) fs"
    "list_all (\<lambda>f. length (wf_bytes f) = RNET_INPUT_MAX) fs" and
    fin1: "finish_packet (write_u32 magic @ write_u16 RNET_PKT_INPUT @ write_u32 sid @ ?b) cap
      = Some out"
    by auto
  from fin1 have "take (length out - 4) out =
     write_u32 magic @ write_u16 RNET_PKT_INPUT @ write_u32 sid @ ?b"
    by (rule finish_packet_prefix)
  with fin0 have
    fin: "finish_packet (write_u32 magic @ write_u16 RNET_PKT_INPUT @ write_u32 sid @
      (?b @ ?ext)) cap = Some bs"
    by simp
  have n: "unat (of_nat (length as) :: u8) = length as"
    using as unat_of_nat_u8 [of "length as"] by simp
  have ra: "read_acks (length as) (concat (map write_u32 as), r) = Ok as ([], r - 4 * int (length as))"
    for r using read_acks_append [of as "[]" r] by simp
  from decode_finished [OF fin, of ex]
    decode_input_layout [OF fs, where ext = ?ext and ls = ls and e = e and a = a] as
  show ?thesis
    by (simp add: decode_body_def decode_rb_trailer_def decode_input_tail_def length_acks
          rnet_proto_is_rb_control_def reader_simps rd_result_def msg_packet_def n ra
          size_of_ptrdiff_def nat_mult_distrib add.assoc)
qed

lemma encode_decode:
  assumes "msg_ok m" and "encode_msg cap magic sid m = Some bs"
  shows "rnet_proto_decode (bs @ ex) (length bs) magic = Decoded (msg_packet sid m)"
  using assms roundtrip_fixed roundtrip_state_chunk roundtrip_rb_seal_rows roundtrip_modset
    roundtrip_modset_ack roundtrip_input roundtrip_input_acks
  by (cases m; simp only: fixed_layout.simps msg_ok.simps; blast)

end
