(* ===== verification/RNet_State_Xfer.thy ===== *)
theory RNet_State_Xfer
  imports RNet_Profiles RNet_Codec
begin

text \<open>
  The chunked state transfer of a session and its hash probe (\<^verbatim>\<open>src/session/rnet_session.c\<close>):
  one outbound transfer that every expected receiver has to acknowledge, one inbound transfer per
  source seat, and the probe that asks the other seats whether they already hold the blob.
  \<open>alloc n\<close> says whether \<^verbatim>\<open>malloc(n)\<close> succeeds.
\<close>

section \<open>Accessors\<close>

abbreviation ss_tx :: "RNetSession \<Rightarrow> RNetStateTx" where "ss_tx s \<equiv> st_tx (ss_state s)"
abbreviation ss_rx :: "RNetSession \<Rightarrow> RNetStateRx list" where "ss_rx s \<equiv> st_rx (ss_state s)"
abbreviation ss_probe :: "RNetSession \<Rightarrow> RNetProbe" where "ss_probe s \<equiv> st_probe (ss_state s)"

definition put_tx :: "RNetSession \<Rightarrow> RNetStateTx \<Rightarrow> RNetSession" where
  "put_tx s tx = s\<lparr>ss_state := (ss_state s)\<lparr>st_tx := tx\<rparr>\<rparr>"

definition put_rx :: "RNetSession \<Rightarrow> nat \<Rightarrow> RNetStateRx \<Rightarrow> RNetSession" where
  "put_rx s src rx = s\<lparr>ss_state := (ss_state s)\<lparr>st_rx := (ss_rx s)[src := rx]\<rparr>\<rparr>"

definition put_probe :: "RNetSession \<Rightarrow> RNetProbe \<Rightarrow> RNetSession" where
  "put_probe s pb = s\<lparr>ss_state := (ss_state s)\<lparr>st_probe := pb\<rparr>\<rparr>"

definition put_stall :: "RNetSession \<Rightarrow> bool \<Rightarrow> RNetSession" where
  "put_stall s b = s\<lparr>ss_state := (ss_state s)\<lparr>st_stall_sim := b\<rparr>\<rparr>"

definition put_received :: "RNetSession \<Rightarrow> nat \<Rightarrow> RNetStateReceived \<Rightarrow> RNetSession" where
  "put_received s src r = s\<lparr>ss_state := (ss_state s)\<lparr>st_received := (st_received (ss_state s))[src := r]\<rparr>\<rparr>"

section \<open>Which transfers are open\<close>

definition state_rx_any_active :: "RNetSession \<Rightarrow> bool" where
  "state_rx_any_active s \<longleftrightarrow> list_ex rx_active (ss_rx s)"

definition state_any_active :: "RNetSession \<Rightarrow> bool" where
  "state_any_active s \<longleftrightarrow> tx_active (ss_tx s) \<or> state_rx_any_active s"

definition state_any_in_progress :: "RNetSession \<Rightarrow> bool" where
  "state_any_in_progress s \<longleftrightarrow> tx_active (ss_tx s) \<and> \<not> tx_ready (ss_tx s) \<or>
     list_ex (\<lambda>rx. rx_active rx \<and> \<not> rx_ready rx) (ss_rx s)"

definition state_default_receivers :: "RNetSession \<Rightarrow> u8 \<Rightarrow> u32" where
  "state_default_receivers s opn =
     (let peer = ct_peer_slot (ss_ctrl s); cfg = ss_cfg s
      in if opn = RNET_STATE_OP_MEMCARD then 1
         else if peer \<ge> 0 then
           (if peer < 8 \<and> peer \<noteq> uint (local_slot cfg) \<and>
               rnet_config_slot_occupied cfg (of_int peer) then push_bit (nat peer) 1 else 0)
         else foldl (\<lambda>m i. if of_nat i \<noteq> local_slot cfg \<and> rnet_config_slot_occupied cfg (of_nat i)
                           then m OR push_bit i 1 else m) 0 [0..<min (unat (slot_count cfg)) 8])"

definition state_probe_all_replied :: "RNetSession \<Rightarrow> bool" where
  "state_probe_all_replied s \<longleftrightarrow>
     pb_reply_mask (ss_probe s) AND pb_expect_mask (ss_probe s) = pb_expect_mask (ss_probe s)"

definition state_probe_clear :: "RNetSession \<Rightarrow> RNetSession" where
  "state_probe_clear s =
     (let s' = put_probe s zero_probe
      in if \<not> state_any_active s' then put_stall s' False else s')"

section \<open>Pacing\<close>

definition state_transport_is_ice :: "RNetSession \<Rightarrow> bool" where
  "state_transport_is_ice s \<longleftrightarrow> ss_mode s = TRANSPORT_ICE \<or> ss_mode s = TRANSPORT_ICE_HUB"

definition state_pacing_reset :: "RNetSession \<Rightarrow> RNetSession" where
  "state_pacing_reset s =
     (if state_transport_is_ice s
      then let sc = st_sticky_cwnd (ss_state s); sk = st_sticky_chunks (ss_state s);
               cwnd = (if sc \<ge> 32768 then (if sc > 262144 then 262144 else sc) else 32768);
               chunks = (if sk \<ge> 16 then (if sk > 64 then 64 else sk) else 16)
           in put_tx s ((ss_tx s)\<lparr>tx_cwnd := cwnd, tx_chunks_cap := chunks, tx_ack_timeout_ms := 80\<rparr>)
      else put_tx s ((ss_tx s)\<lparr>tx_cwnd := 262144, tx_chunks_cap := 128, tx_ack_timeout_ms := 40\<rparr>))"

definition state_pacing_on_ack_progress :: "RNetSession \<Rightarrow> RNetSession" where
  "state_pacing_on_ack_progress s =
     (if \<not> state_transport_is_ice s then s
      else let t = ss_tx s;
               cwnd = (if tx_cwnd t < 262144
                       then (if tx_cwnd t + 8192 > 262144 then 262144 else tx_cwnd t + 8192)
                       else tx_cwnd t);
               chunks = (if tx_chunks_cap t < 64
                         then (if tx_chunks_cap t + 2 > 64 then 64 else tx_chunks_cap t + 2)
                         else tx_chunks_cap t);
               tmo = (if tx_ack_timeout_ms t > 40
                      then (if tx_ack_timeout_ms t - 5 < 40 then 40 else tx_ack_timeout_ms t - 5)
                      else tx_ack_timeout_ms t)
           in put_tx s (t\<lparr>tx_cwnd := cwnd, tx_chunks_cap := chunks, tx_ack_timeout_ms := tmo\<rparr>))"

definition state_pacing_on_timeout :: "RNetSession \<Rightarrow> RNetSession" where
  "state_pacing_on_timeout s =
     (if \<not> state_transport_is_ice s then s
      else let t = ss_tx s; st = ss_state s;
               cwnd = (if tx_cwnd t div 2 < 8192 then 8192 else tx_cwnd t div 2);
               chunks = (if tx_chunks_cap t div 2 < 4 then 4 else tx_chunks_cap t div 2);
               tmo = (if tx_ack_timeout_ms t + 20 > 180 then 180 else tx_ack_timeout_ms t + 20)
           in s\<lparr>ss_state := st\<lparr>
                st_tx := t\<lparr>tx_cwnd := cwnd, tx_chunks_cap := chunks, tx_ack_timeout_ms := tmo\<rparr>,
                st_sticky_cwnd := (if st_sticky_cwnd st > cwnd then cwnd else st_sticky_cwnd st),
                st_sticky_chunks := (if st_sticky_chunks st > chunks then chunks
                                     else st_sticky_chunks st)\<rparr>\<rparr>)"

definition state_pacing_remember_success :: "RNetSession \<Rightarrow> RNetSession" where
  "state_pacing_remember_success s =
     (if \<not> state_transport_is_ice s then s
      else let t = ss_tx s; st = ss_state s
           in s\<lparr>ss_state := st\<lparr>
                st_sticky_cwnd := (if tx_cwnd t > st_sticky_cwnd st then tx_cwnd t else st_sticky_cwnd st),
                st_sticky_chunks := (if tx_chunks_cap t > st_sticky_chunks st then tx_chunks_cap t
                                     else st_sticky_chunks st)\<rparr>\<rparr>)"

section \<open>Clearing\<close>

definition state_recompute_stall :: "RNetSession \<Rightarrow> RNetSession" where
  "state_recompute_stall s = put_stall s (state_any_active s \<or> pb_active (ss_probe s))"

definition state_tx_clear :: "RNetSession \<Rightarrow> RNetSession" where
  "state_tx_clear s =
     (let st = ss_state s
      in s\<lparr>ss_state := st\<lparr>st_tx := zero_tx,
           st_taken := (if st_taken st = RNET_STATE_TAKEN_TX then -1 else st_taken st)\<rparr>\<rparr>)"

definition state_rx_clear :: "RNetSession \<Rightarrow> nat \<Rightarrow> RNetSession" where
  "state_rx_clear s src =
     (let st = ss_state s
      in s\<lparr>ss_state := st\<lparr>st_rx := (st_rx st)[src := zero_rx],
           st_taken := (if st_taken st = int src then -1 else st_taken st)\<rparr>\<rparr>)"

definition state_clear :: "RNetSession \<Rightarrow> RNetSession" where
  "state_clear s =
     (let s' = foldl state_rx_clear (state_tx_clear s) [0..<8]
      in state_recompute_stall (s'\<lparr>ss_state := (ss_state s')\<lparr>st_taken := -1\<rparr>\<rparr>))"

section \<open>Receiving\<close>

definition state_rx_set_chunk :: "RNetStateRx \<Rightarrow> u32 \<Rightarrow> RNetStateRx" where
  "state_rx_set_chunk rx i =
     (if i \<ge> RNET_STATE_MAX_CHUNKS then rx else rx\<lparr>rx_bits := insert (unat i) (rx_bits rx)\<rparr>)"

definition state_rx_has_chunk :: "RNetStateRx \<Rightarrow> u32 \<Rightarrow> bool" where
  "state_rx_has_chunk rx i \<longleftrightarrow> i < RNET_STATE_MAX_CHUNKS \<and> unat i \<in> rx_bits rx"

lemma unat_inc: "(i :: u32) < c \<Longrightarrow> unat (i + 1) = Suc (unat i)"
proof -
  assume "i < c"
  then have "unat i < unat c" by (simp add: word_less_nat_alt)
  moreover have "unat c < 2 ^ LENGTH(32)" by (rule unsigned_less)
  ultimately show ?thesis by (simp add: unat_word_ariths take_bit_eq_mod)
qed

text \<open>The loop of \<open>state_rx_advance_contiguity\<close>; it ends because \<open>i\<close> climbs to \<open>chunks\<close>.\<close>

function advance_loop :: "RNetStateRx \<Rightarrow> u32 \<Rightarrow> u32 \<Rightarrow> RNetStateRx" where
  "advance_loop rx chunks i =
     (if i < chunks \<and> state_rx_has_chunk rx i
      then let stop = (i + 1) * 1120
           in advance_loop (rx\<lparr>rx_contiguity := (if stop > rx_total rx then rx_total rx else stop)\<rparr>)
                chunks (i + 1)
      else rx)"
  by pat_completeness auto
termination
  by (relation "measure (\<lambda>(rx, chunks, i). unat chunks - unat i)")
    (auto simp: unat_inc word_less_nat_alt)

declare advance_loop.simps [simp del]

definition state_rx_advance_contiguity :: "RNetStateRx \<Rightarrow> RNetStateRx" where
  "state_rx_advance_contiguity rx =
     advance_loop rx ((rx_total rx + 1120 - 1) div 1120) (rx_contiguity rx div 1120)"

definition state_send_ack_raw :: "RNetSession \<Rightarrow> u32 \<Rightarrow> u32 \<Rightarrow> RNetSession" where
  "state_send_ack_raw s xfer_id ack_bytes =
     send_raw s (rnet_proto_encode_state_ack 64 (protocol_magic (ss_cfg s)) (session_id (ss_cfg s))
       (ss_wire_slot s) xfer_id ack_bytes)"

definition state_rx_send_ack :: "RNetSession \<Rightarrow> nat \<Rightarrow> RNetSession" where
  "state_rx_send_ack s src =
     (let rx = ss_rx s ! src;
          s' = state_send_ack_raw s (rx_xfer_id rx) (rx_contiguity rx)
      in put_rx s' src (rx\<lparr>rx_last_ack_ms := ss_now s\<rparr>))"

definition state_rx_mark_ready_if_complete :: "RNetSession \<Rightarrow> nat \<Rightarrow> RNetSession" where
  "state_rx_mark_ready_if_complete s src =
     (let rx = ss_rx s ! src
      in case rx_buf rx of
           None \<Rightarrow> s
         | Some buf \<Rightarrow>
             if \<not> rx_active rx \<or> rx_ready rx then s
             else if rx_contiguity rx < rx_total rx then s
             else if rnet_proto_checksum (take (unat (rx_total rx)) buf) \<noteq> rx_crc rx
             then state_rx_send_ack (put_rx s src (rx\<lparr>rx_contiguity := 0\<rparr>)) src
             else state_rx_send_ack (put_rx s src (rx\<lparr>rx_ready := True\<rparr>)) src)"

section \<open>Sending\<close>

text \<open>\<^verbatim>\<open>tx.expect_mask & (1u << r)\<close>\<close>

definition expects :: "RNetStateTx \<Rightarrow> nat \<Rightarrow> bool" where
  "expects tx r \<longleftrightarrow> tx_expect_mask tx AND push_bit r 1 \<noteq> 0"

definition state_tx_min_ack :: "RNetStateTx \<Rightarrow> u32" where
  "state_tx_min_ack tx =
     foldl (\<lambda>m r. if expects tx r \<and> tx_ack tx ! r < m then tx_ack tx ! r else m) (tx_total tx) [0..<8]"

definition state_tx_done_mask :: "RNetStateTx \<Rightarrow> u32" where
  "state_tx_done_mask tx =
     foldl (\<lambda>m r. if expects tx r \<and> tx_ack tx ! r \<ge> tx_total tx then m OR push_bit r 1 else m) 0 [0..<8]"

definition state_tx_mark_ready_if_complete :: "RNetSession \<Rightarrow> RNetSession" where
  "state_tx_mark_ready_if_complete s =
     (let t = ss_tx s
      in if \<not> tx_active t \<or> tx_ready t \<or> tx_buf t = None then s
         else if state_tx_min_ack t \<ge> tx_total t
         then state_pacing_remember_success (put_tx s (t\<lparr>tx_ready := True\<rparr>))
         else s)"

definition encode_begin :: "nat \<Rightarrow> RNetSession \<Rightarrow> bytes option" where
  "encode_begin cap s = (let t = ss_tx s in
     rnet_proto_encode_state_begin cap (protocol_magic (ss_cfg s)) (session_id (ss_cfg s))
       (ss_wire_slot s) (tx_op t) (tx_slot t) (tx_xfer_id t) (tx_total t) (tx_crc t))"

text \<open>One receiver's acknowledgement timeout: \<open>(cursor, timers, backoff)\<close>.\<close>

definition timeout_receiver ::
  "RNetStateTx \<Rightarrow> u32 \<Rightarrow> u64 \<Rightarrow> u64 \<Rightarrow> u32 \<times> u64 list \<times> bool \<Rightarrow> nat \<Rightarrow> u32 \<times> u64 list \<times> bool" where
  "timeout_receiver tx min_ack now tmo = (\<lambda>(cursor, timers, backoff) r.
     if \<not> expects tx r \<or> tx_ack tx ! r \<ge> tx_total tx then (cursor, timers, backoff)
     else let base = (if timers ! r \<noteq> 0 then timers ! r else tx_start_ms tx)
          in if now - base < tmo then (cursor, timers, backoff)
             else (if cursor > tx_ack tx ! r then tx_ack tx ! r else cursor, timers[r := now],
                   backoff \<or> cursor > tx_ack tx ! r \<or> tx_ack tx ! r = min_ack))"

text \<open>The chunk loop, with the chunks still allowed in this pump as its bound.\<close>

fun send_chunks :: "nat \<Rightarrow> u32 \<Rightarrow> RNetSession \<Rightarrow> RNetSession" where
  "send_chunks 0 window_end s = s"
| "send_chunks (Suc n) window_end s =
     (let t = ss_tx s; off = tx_send_cursor t
      in if \<not> off < window_end then s
         else let left = tx_total t - off;
                  chunk = (if left > 1120 then 1120 else left);
                  data = take (unat chunk) (drop (unat off) (case tx_buf t of None \<Rightarrow> [] | Some b \<Rightarrow> b))
              in case rnet_proto_encode_state_chunk RNET_MAX_PACKET (protocol_magic (ss_cfg s))
                        (session_id (ss_cfg s)) (ss_wire_slot s) (tx_xfer_id t) off (Some data) of
                   None \<Rightarrow> s
                 | Some b \<Rightarrow>
                     let s' = send_raw s (Some b)
                     in send_chunks n window_end (put_tx s' ((ss_tx s')\<lparr>tx_send_cursor := off + chunk\<rparr>)))"

definition state_drive_sender :: "RNetSession \<Rightarrow> RNetSession" where
  "state_drive_sender s =
     (let is_ice = state_transport_is_ice s; begin_ms = (if is_ice then 80 else 40 :: u64);
          t = ss_tx s; now = ss_now s
      in if \<not> tx_active t \<or> tx_ready t \<or> tx_buf t = None then s
         else let s1 = (if tx_cwnd t = 0 \<or> tx_chunks_cap t = 0 then state_pacing_reset s else s);
                  t1 = ss_tx s1;
                  tmo = (if tx_ack_timeout_ms t1 = 0 then (if is_ice then 80 else 40)
                         else ucast (tx_ack_timeout_ms t1)) :: u64;
                  need_begin = list_ex (\<lambda>r. expects t1 r \<and> tx_ack t1 ! r = 0) [0..<8];
                  s2 = (if need_begin \<and> (tx_last_begin_ms t1 = 0 \<or> now - tx_last_begin_ms t1 \<ge> begin_ms)
                        then let s' = send_raw s1 (encode_begin RNET_MAX_PACKET s1)
                             in put_tx s' ((ss_tx s')\<lparr>tx_last_begin_ms := now\<rparr>)
                        else s1);
                  t2 = ss_tx s2; min_ack = state_tx_min_ack t2
              in if min_ack \<ge> tx_total t2 then state_tx_mark_ready_if_complete s2
                 else let (cursor, timers, backoff) = foldl (timeout_receiver t2 min_ack now tmo)
                            (tx_send_cursor t2, tx_ack_timer_ms t2, False) [0..<8];
                          s3 = put_tx s2 (t2\<lparr>tx_send_cursor := cursor, tx_ack_timer_ms := timers\<rparr>);
                          s4 = (if backoff then state_pacing_on_timeout s3 else s3);
                          t4 = ss_tx s4;
                          s5 = (if tx_send_cursor t4 < min_ack
                                then put_tx s4 (t4\<lparr>tx_send_cursor := min_ack\<rparr>) else s4);
                          w = min_ack + tx_cwnd t4;
                          window_end = (if w > tx_total t4 then tx_total t4 else w);
                          s6 = send_chunks (unat (tx_chunks_cap t4)) window_end s5
                      in state_tx_mark_ready_if_complete
                           (put_tx s6 ((ss_tx s6)\<lparr>tx_last_tx_ms := now\<rparr>)))"

section \<open>Arrival of state packets\<close>

definition begin_distance :: "u32 \<Rightarrow> u32 \<Rightarrow> u32 \<times> u32" where
  "begin_distance new old =
     (let seat_ids = new AND 0x40000000 \<noteq> 0 \<and> old AND 0x40000000 \<noteq> 0;
          space = (if seat_ids then 0x00ffffff else 0x3fffffff)
      in ((new - old) AND space, drop_bit 1 space + 1))"

text \<open>The part of \<open>state_on_begin\<close> that opens the receive.\<close>

definition open_receive :: "(nat \<Rightarrow> bool) \<Rightarrow> RNetSession \<Rightarrow> RNetDecodedPacket \<Rightarrow> RNetSession" where
  "open_receive alloc s p =
     (let src = unat (dp_local_slot p); pb = ss_probe s;
          s1 = (if pb_active pb \<and> (\<not> pb_sender pb \<or> pb_expect_mask pb = push_bit src 1)
                then state_probe_clear s else s);
          s2 = (if tx_active (ss_tx s1) \<and> tx_expect_mask (ss_tx s1) = push_bit src 1
                then state_tx_clear s1 else s1);
          s3 = state_rx_clear s2 src;
          total = dp_state_total_size p
      in if \<not> alloc (unat total) then state_recompute_stall s3
         else let rx = (ss_rx s3 ! src)\<lparr>rx_buf := Some (replicate (unat total) 0), rx_active := True,
                         rx_ready := False, rx_op := dp_state_op p, rx_slot := dp_state_slot p,
                         rx_xfer_id := dp_state_xfer_id p, rx_total := total,
                         rx_crc := dp_state_payload_crc p, rx_contiguity := 0,
                         rx_start_ms := ss_now s\<rparr>;
                  s4 = put_received (put_stall (put_rx s3 src rx) True) src
                    \<lparr>sr_id = dp_state_xfer_id p, sr_total = total, sr_crc = dp_state_payload_crc p,
                     sr_op = dp_state_op p, sr_slot = dp_state_slot p, sr_finished = False,
                     sr_last_reack_ms = 0\<rparr>
              in state_rx_send_ack s4 src)"

definition state_on_begin :: "(nat \<Rightarrow> bool) \<Rightarrow> RNetSession \<Rightarrow> RNetDecodedPacket \<Rightarrow> RNetSession" where
  "state_on_begin alloc s p =
     (let src8 = dp_local_slot p; src = unat src8; total = dp_state_total_size p;
          xid = dp_state_xfer_id p
      in if src8 = ss_wire_slot s then s
         else if dp_state_op p = RNET_STATE_OP_MEMCARD \<and> (local_slot (ss_cfg s) \<noteq> 0 \<or> src8 = 0) then s
         else if dp_state_op p \<noteq> RNET_STATE_OP_MEMCARD \<and> local_slot (ss_cfg s) = 0 then s
         else if total = 0 \<or> total > RNET_STATE_MAX then s
         else if src8 \<ge> 8 \<or> xid = 0 then s
         else let rec = st_received (ss_state s) ! src; rx = ss_rx s ! src
              in if sr_id rec = 0 then open_receive alloc s p
                 else let (distance, half) = begin_distance xid (sr_id rec)
                      in if distance = 0 \<and> xid \<noteq> sr_id rec then s
                         else if distance = 0 then
                           (if total \<noteq> sr_total rec \<or> dp_state_payload_crc p \<noteq> sr_crc rec \<or>
                               dp_state_op p \<noteq> sr_op rec \<or> dp_state_slot p \<noteq> sr_slot rec then s
                            else if sr_finished rec then state_send_ack_raw s xid total
                            else if rx_active rx \<and> rx_xfer_id rx = xid \<and> rx_buf rx \<noteq> None
                            then state_rx_send_ack s src
                            else s)
                         else if distance \<ge> half then s
                         else open_receive alloc s p)"

text \<open>\<^verbatim>\<open>memcpy(rx->buf + offset, chunk, size)\<close>\<close>

definition store_chunk :: "bytes \<Rightarrow> nat \<Rightarrow> bytes \<Rightarrow> bytes" where
  "store_chunk buf off c = take off buf @ c @ drop (off + length c) buf"

text \<open>The answer to a chunk of a transfer that this receiver has already finished.\<close>

definition reack_finished ::
  "RNetSession \<Rightarrow> nat \<Rightarrow> RNetStateReceived \<Rightarrow> RNetDecodedPacket \<Rightarrow> u64 \<Rightarrow> RNetSession" where
  "reack_finished s src rec p now =
     (if sr_id rec \<noteq> 0 \<and> sr_finished rec \<and> sr_id rec = dp_state_xfer_id p \<and>
         (sr_last_reack_ms rec = 0 \<or> now - sr_last_reack_ms rec \<ge> 20)
      then put_received (state_send_ack_raw s (dp_state_xfer_id p) (sr_total rec)) src
             (rec\<lparr>sr_last_reack_ms := stamp now\<rparr>)
      else s)"

definition state_on_chunk :: "RNetSession \<Rightarrow> RNetDecodedPacket \<Rightarrow> RNetSession" where
  "state_on_chunk s p =
     (let src8 = dp_local_slot p; src = unat src8; now = ss_now s
      in if src8 \<ge> 8 \<or> src8 = ss_wire_slot s then s
         else let rx = ss_rx s ! src; rec = st_received (ss_state s) ! src
              in case rx_buf rx of
                   Some buf \<Rightarrow>
                     if rx_active rx \<and> dp_state_xfer_id p = rx_xfer_id rx then
                       (if dp_state_offset p > rx_total rx \<or> dp_state_chunk_size p = 0 then s
                        else if dp_state_offset p + ucast (dp_state_chunk_size p) > rx_total rx then s
                        else let c = take (unat (dp_state_chunk_size p)) (dp_state_chunk p);
                                 rx1 = rx\<lparr>rx_buf := Some (store_chunk buf (unat (dp_state_offset p)) c)\<rparr>;
                                 rx2 = state_rx_advance_contiguity
                                         (state_rx_set_chunk rx1 (dp_state_offset p div 1120));
                                 s1 = put_rx s src rx2;
                                 s2 = (if state_transport_is_ice s \<or> now - rx_last_ack_ms rx2 \<ge> 4 \<or>
                                          rx_contiguity rx2 \<ge> rx_total rx2
                                       then state_rx_send_ack s1 src else s1)
                             in state_rx_mark_ready_if_complete s2 src)
                     else reack_finished s src rec p now
                 | None \<Rightarrow> reack_finished s src rec p now)"

definition state_on_ack :: "RNetSession \<Rightarrow> RNetDecodedPacket \<Rightarrow> RNetSession" where
  "state_on_ack s p =
     (let t = ss_tx s; from = unat (dp_local_slot p)
      in if \<not> tx_active t then s
         else if dp_state_xfer_id p \<noteq> tx_xfer_id t then s
         else if dp_local_slot p \<ge> 8 \<or> \<not> expects t from then s
         else let ack = (if dp_state_ack_bytes p > tx_total t then tx_total t else dp_state_ack_bytes p);
                  s' = (if ack > tx_ack t ! from
                        then let min_before = state_tx_min_ack t;
                                 t' = t\<lparr>tx_ack := (tx_ack t)[from := ack],
                                        tx_ack_timer_ms := (tx_ack_timer_ms t)[from := stamp (ss_now s)],
                                        tx_last_tx_ms := 0\<rparr>;
                                 s1 = put_tx s t'
                             in if state_tx_min_ack t' > min_before
                                then state_pacing_on_ack_progress s1 else s1
                        else s)
              in state_tx_mark_ready_if_complete s')"

section \<open>The hash probe\<close>

definition encode_probe_reply :: "RNetSession \<Rightarrow> u8 \<Rightarrow> bytes option" where
  "encode_probe_reply s m = (let pb = ss_probe s in
     rnet_proto_encode_state_probe_reply 64 (protocol_magic (ss_cfg s)) (session_id (ss_cfg s))
       (ss_wire_slot s) (pb_op pb) (pb_slot pb) m (pb_size pb) (pb_crc pb))"

text \<open>\<^verbatim>\<open>if (n > 0) { send_raw(...); state_probe_last_tx_ms = now; }\<close>\<close>

definition probe_tx :: "RNetSession \<Rightarrow> bytes option \<Rightarrow> RNetSession" where
  "probe_tx s pkt =
     (case pkt of
        None \<Rightarrow> s
      | Some b \<Rightarrow> let s' = send_raw s (Some b) in put_probe s' ((ss_probe s')\<lparr>pb_last_tx_ms := ss_now s\<rparr>))"

definition state_drive_probe :: "RNetSession \<Rightarrow> RNetSession" where
  "state_drive_probe s =
     (let pb = ss_probe s; now = ss_now s
      in if pb_active pb \<and> \<not> pb_sender pb \<and> pb_parked pb then
           (if pb_last_tx_ms pb = 0 \<or> now - pb_last_tx_ms pb \<ge> 50
            then probe_tx s (encode_probe_reply s 1) else s)
         else if \<not> pb_active pb \<or> \<not> pb_sender pb \<or> state_probe_all_replied s then s
         else if pb_last_tx_ms pb \<noteq> 0 \<and> now - pb_last_tx_ms pb < 8 then s
         else probe_tx s (rnet_proto_encode_state_probe_ex 64 (protocol_magic (ss_cfg s))
                (session_id (ss_cfg s)) (ss_wire_slot s) (pb_op pb) (pb_slot pb) (pb_size pb)
                (pb_crc pb) (ucast (pb_reply_mask pb AND 0xff))))"

definition probe_matches :: "RNetProbe \<Rightarrow> RNetDecodedPacket \<Rightarrow> bool" where
  "probe_matches pb p \<longleftrightarrow> pb_op pb = dp_state_op p \<and> pb_slot pb = dp_state_slot p \<and>
     pb_size pb = dp_state_total_size p \<and> pb_crc pb = dp_state_payload_crc p"

definition state_on_probe :: "RNetSession \<Rightarrow> RNetDecodedPacket \<Rightarrow> RNetSession" where
  "state_on_probe s p =
     (let pb = ss_probe s
      in if dp_local_slot p = ss_wire_slot s then s
         else if local_slot (ss_cfg s) = 0 then s
         else if ss_wire_slot s < 8 \<and>
                 ucast (dp_state_probe_replied p) AND push_bit (unat (ss_wire_slot s)) 1 \<noteq> (0 :: u32)
         then s
         else if state_any_active s then s
         else if pb_active pb \<and> \<not> pb_sender pb \<and> \<not> pb_pending pb \<and> probe_matches pb p
         then send_raw s (encode_probe_reply s (if pb_match pb then 1 else 0))
         else put_stall (put_probe s (pb\<lparr>pb_active := True, pb_sender := False, pb_pending := True,
                pb_expect_mask := 0, pb_reply_mask := 0, pb_match_mask := 0, pb_match := False,
                pb_op := dp_state_op p, pb_slot := dp_state_slot p, pb_size := dp_state_total_size p,
                pb_crc := dp_state_payload_crc p\<rparr>)) (dp_state_total_size p \<noteq> 0))"

definition encode_probe_done :: "RNetSession \<Rightarrow> u8 \<Rightarrow> u8 \<Rightarrow> u32 \<Rightarrow> u32 \<Rightarrow> bytes option" where
  "encode_probe_done s opn slot sz crc =
     rnet_proto_encode_state_probe_done 64 (protocol_magic (ss_cfg s)) (session_id (ss_cfg s))
       (ss_wire_slot s) opn slot sz crc"

definition state_on_probe_reply :: "RNetSession \<Rightarrow> RNetDecodedPacket \<Rightarrow> RNetSession" where
  "state_on_probe_reply s p =
     (let pb = ss_probe s; rl = st_released (ss_state s); from = unat (dp_local_slot p);
          b = push_bit from 1
      in if \<not> pb_active pb \<or> \<not> pb_sender pb then
           (if pr_valid rl \<and> dp_state_probe_match p \<noteq> 0 \<and> dp_local_slot p \<noteq> ss_wire_slot s \<and>
               dp_state_op p = pr_op rl \<and> dp_state_slot p = pr_slot rl \<and>
               dp_state_total_size p = pr_size rl \<and> dp_state_payload_crc p = pr_crc rl
            then send_raw s (encode_probe_done s (pr_op rl) (pr_slot rl) (pr_size rl) (pr_crc rl))
            else s)
         else if dp_local_slot p = ss_wire_slot s then s
         else if \<not> probe_matches pb p then s
         else if dp_local_slot p \<ge> 8 \<or> pb_expect_mask pb AND b = 0 then s
         else put_probe s (pb\<lparr>pb_reply_mask := pb_reply_mask pb OR b,
                pb_match_mask := (if dp_state_probe_match p \<noteq> 0 then pb_match_mask pb OR b
                                  else pb_match_mask pb AND NOT b)\<rparr>))"

definition state_on_probe_done :: "RNetSession \<Rightarrow> RNetDecodedPacket \<Rightarrow> RNetSession" where
  "state_on_probe_done s p =
     (let pb = ss_probe s
      in if local_slot (ss_cfg s) = 0 \<or> dp_local_slot p = ss_wire_slot s \<or> \<not> pb_active pb \<or>
            pb_sender pb \<or> \<not> pb_parked pb \<or> \<not> probe_matches pb p then s
         else state_probe_clear s)"

definition probe_all_match :: "RNetSession \<Rightarrow> bool" where
  "probe_all_match s \<longleftrightarrow>
     pb_match_mask (ss_probe s) AND pb_expect_mask (ss_probe s) = pb_expect_mask (ss_probe s)"

definition state_send_probe_done :: "RNetSession \<Rightarrow> RNetSession" where
  "state_send_probe_done s =
     (let pb = ss_probe s
      in if \<not> pb_active pb \<or> \<not> pb_sender pb \<or> pb_size pb = 0 \<or> \<not> state_probe_all_replied s \<or>
            \<not> probe_all_match s then s
         else let s' = send_raw s (encode_probe_done s (pb_op pb) (pb_slot pb) (pb_size pb) (pb_crc pb))
              in s'\<lparr>ss_state := (ss_state s')\<lparr>st_released := \<lparr>pr_valid = True, pr_op = pb_op pb,
                   pr_slot = pb_slot pb, pr_size = pb_size pb, pr_crc = pb_crc pb\<rparr>\<rparr>\<rparr>)"

section \<open>The interface of the host program\<close>

definition host_state_op :: "u8 \<Rightarrow> bool" where
  "host_state_op opn \<longleftrightarrow> opn = RNET_STATE_OP_SAVE \<or> opn = RNET_STATE_OP_LOAD \<or>
     opn = RNET_STATE_OP_SRAM \<or> opn = RNET_STATE_OP_RB_KF \<or> opn = RNET_STATE_OP_BOOT \<or>
     opn = RNET_STATE_OP_MENU"

definition rnet_session_state_probe ::
  "RNetSession \<Rightarrow> u8 \<Rightarrow> u8 \<Rightarrow> u32 \<Rightarrow> u32 \<Rightarrow> bool \<times> RNetSession" where
  "rnet_session_state_probe s opn slot total_size payload_crc =
     (let pb = ss_probe s
      in if local_slot (ss_cfg s) \<noteq> 0 \<or> ss_phase s \<noteq> PHASE_RUNNING then (False, s)
         else if state_any_active s \<or> pb_active pb \<and> pb_sender pb \<and> \<not> state_probe_all_replied s
         then (False, s)
         else if \<not> host_state_op opn then (False, s)
         else if total_size > RNET_STATE_MAX then (False, s)
         else let expect = state_default_receivers s opn
              in if expect = 0 then (False, s)
                 else let s1 = state_probe_clear s;
                          s2 = s1\<lparr>ss_state := (ss_state s1)\<lparr>
                                 st_released := (st_released (ss_state s1))\<lparr>pr_valid := False\<rparr>\<rparr>\<rparr>;
                          s3 = put_probe s2 ((ss_probe s2)\<lparr>pb_active := True, pb_sender := True,
                                 pb_expect_mask := expect, pb_reply_mask := 0, pb_match_mask := 0,
                                 pb_pending := False, pb_match := False, pb_op := opn, pb_slot := slot,
                                 pb_size := total_size, pb_crc := payload_crc, pb_last_tx_ms := 0\<rparr>)
                      in (True, state_drive_probe (put_stall s3 (total_size \<noteq> 0))))"

definition rnet_session_state_probe_take_reply :: "RNetSession \<Rightarrow> bool option" where
  "rnet_session_state_probe_take_reply s =
     (let pb = ss_probe s
      in if \<not> pb_active pb \<or> \<not> pb_sender pb \<or> \<not> state_probe_all_replied s then None
         else Some (probe_all_match s))"

definition rnet_session_state_probe_take_reply_from :: "RNetSession \<Rightarrow> int \<Rightarrow> bool option" where
  "rnet_session_state_probe_take_reply_from s slot =
     (let pb = ss_probe s; b = push_bit (nat slot) 1
      in if \<not> pb_active pb \<or> \<not> pb_sender pb \<or> slot < 0 \<or> slot \<ge> 8 \<or>
            pb_expect_mask pb AND b = 0 \<or> pb_reply_mask pb AND b = 0 then None
         else Some (pb_match_mask pb AND b \<noteq> 0))"

definition rnet_session_state_probe_replies :: "RNetSession \<Rightarrow> (u32 \<times> u32 \<times> u32) option" where
  "rnet_session_state_probe_replies s =
     (let pb = ss_probe s
      in if \<not> pb_active pb \<or> \<not> pb_sender pb then None
         else Some (pb_expect_mask pb, pb_reply_mask pb AND pb_expect_mask pb,
                pb_match_mask pb AND pb_reply_mask pb AND pb_expect_mask pb))"

definition rnet_session_state_probe_pending :: "RNetSession \<Rightarrow> (u8 \<times> u8 \<times> u32 \<times> u32) option" where
  "rnet_session_state_probe_pending s =
     (let pb = ss_probe s
      in if \<not> pb_active pb \<or> \<not> pb_pending pb then None
         else Some (pb_op pb, pb_slot pb, pb_size pb, pb_crc pb))"

definition rnet_session_state_probe_reply :: "RNetSession \<Rightarrow> bool \<Rightarrow> bool \<times> RNetSession" where
  "rnet_session_state_probe_reply s m =
     (let pb = ss_probe s
      in if \<not> pb_active pb \<or> pb_sender pb \<or> \<not> pb_pending pb then (False, s)
         else case encode_probe_reply s (if m then 1 else 0) of
                None \<Rightarrow> (False, s)
              | Some b \<Rightarrow>
                  let s1 = put_probe (send_raw s (Some b)) (pb\<lparr>pb_pending := False, pb_match := m\<rparr>);
                      load = (pb_op pb = RNET_STATE_OP_LOAD \<or> pb_op pb = RNET_STATE_OP_BOOT)
                  in if pb_size pb = 0 then
                       let s2 = put_stall s1 False in (True, if load then state_probe_clear s2 else s2)
                     else if m then
                       (True, if load then state_probe_clear s1
                              else put_probe s1 ((ss_probe s1)\<lparr>pb_parked := True, pb_last_tx_ms := ss_now s\<rparr>))
                     else (True, s1))"

definition rnet_session_state_probe_finish :: "RNetSession \<Rightarrow> RNetSession" where
  "rnet_session_state_probe_finish s = state_probe_clear (state_send_probe_done s)"

text \<open>\<open>data\<close> is the blob behind the pointer; \<open>None\<close> is NULL.\<close>

definition rnet_session_state_begin ::
  "(nat \<Rightarrow> bool) \<Rightarrow> RNetSession \<Rightarrow> u8 \<Rightarrow> u8 \<Rightarrow> bytes option \<Rightarrow> bool \<times> RNetSession" where
  "rnet_session_state_begin alloc s opn slot data =
     (case data of
        None \<Rightarrow> (False, s)
      | Some d \<Rightarrow>
          if length d = 0 \<or> int (length d) > uint RNET_STATE_MAX then (False, s)
          else if ss_phase s \<noteq> PHASE_RUNNING \<or> state_any_active s \<or> ss_is_observer s then (False, s)
          else if opn = RNET_STATE_OP_MEMCARD \<and> local_slot (ss_cfg s) = 0 then (False, s)
          else if opn \<noteq> RNET_STATE_OP_MEMCARD \<and> (local_slot (ss_cfg s) \<noteq> 0 \<or> \<not> host_state_op opn)
          then (False, s)
          else let expect = state_default_receivers s opn
               in if expect = 0 then (False, s)
                  else let s1 = state_tx_clear (state_probe_clear s)
                       in if \<not> alloc (length d) then (False, state_recompute_stall s1)
                          else let st = ss_state s1;
                                   nid = (if st_next_xfer_id st + 1 = 0 then 1 else st_next_xfer_id st + 1);
                                   xid = (if opn = RNET_STATE_OP_MEMCARD
                                          then 0x40000000 OR
                                               push_bit 24 ((ucast (local_slot (ss_cfg s)) - 1) AND 0x3f) OR
                                               (nid AND 0x00ffffff)
                                          else nid);
                                   t = (st_tx st)\<lparr>tx_buf := Some d, tx_active := True, tx_ready := False,
                                         tx_op := opn, tx_slot := slot, tx_expect_mask := expect,
                                         tx_xfer_id := xid, tx_total := of_nat (length d),
                                         tx_crc := rnet_proto_checksum d, tx_send_cursor := 0,
                                         tx_start_ms := ss_now s\<rparr>;
                                   s2 = state_pacing_reset (s1\<lparr>ss_state := st\<lparr>st_tx := t,
                                          st_stall_sim := True, st_next_xfer_id := nid\<rparr>\<rparr>);
                                   s3 = (case encode_begin 64 s2 of
                                           None \<Rightarrow> s2
                                         | Some b \<Rightarrow> let s' = send_raw s2 (Some b)
                                             in put_tx s' ((ss_tx s')\<lparr>tx_last_begin_ms := ss_now s\<rparr>))
                               in (True, state_drive_sender s3))"

definition rnet_session_state_busy :: "RNetSession \<Rightarrow> bool" where
  "rnet_session_state_busy s \<longleftrightarrow>
     (let pb = ss_probe s
      in pb_active pb \<and> pb_sender pb \<and> \<not> state_probe_all_replied s \<or>
         pb_active pb \<and> (pb_pending pb \<or> pb_parked pb) \<or> state_any_in_progress s)"

definition state_pick_ready :: "RNetSession \<Rightarrow> int" where
  "state_pick_ready s =
     (let t = ss_tx s
      in if tx_active t \<and> tx_ready t \<and> tx_buf t \<noteq> None then RNET_STATE_TAKEN_TX
         else case List.find (\<lambda>i. rx_active (ss_rx s ! i) \<and> rx_ready (ss_rx s ! i) \<and>
                                  rx_buf (ss_rx s ! i) \<noteq> None) [0..<8] of
                None \<Rightarrow> -1 | Some i \<Rightarrow> int i)"

text \<open>\<open>(from, op, slot, data, size)\<close>\<close>

definition rnet_session_state_take_ready_from ::
  "RNetSession \<Rightarrow> (int \<times> u8 \<times> u8 \<times> bytes option \<times> u32) option \<times> RNetSession" where
  "rnet_session_state_take_ready_from s =
     (let pick = state_pick_ready s; t = ss_tx s; rx = ss_rx s ! nat pick;
          s' = s\<lparr>ss_state := (ss_state s)\<lparr>st_taken := pick\<rparr>\<rparr>
      in if pick < 0 then (None, s)
         else if pick = RNET_STATE_TAKEN_TX
         then (Some (uint (local_slot (ss_cfg s)), tx_op t, tx_slot t, tx_buf t, tx_total t), s')
         else (Some (pick, rx_op rx, rx_slot rx, rx_buf rx, rx_total rx), s'))"

definition rnet_session_state_drop_peer :: "RNetSession \<Rightarrow> int \<Rightarrow> bool \<times> RNetSession" where
  "rnet_session_state_drop_peer s slot =
     (let b = push_bit (nat slot) 1
      in if slot < 0 \<or> slot \<ge> 8 then (False, s)
         else let t = ss_tx s;
                  hit = tx_active t \<and> expects t (nat slot);
                  s1 = (if hit then state_tx_mark_ready_if_complete
                               (put_tx s (t\<lparr>tx_expect_mask := tx_expect_mask t AND NOT b\<rparr>)) else s);
                  pb = ss_probe s1;
                  hit2 = pb_active pb \<and> pb_sender pb \<and> pb_expect_mask pb AND b \<noteq> 0;
                  s2 = (if hit2 then put_probe s1 (pb\<lparr>pb_expect_mask := pb_expect_mask pb AND NOT b\<rparr>)
                        else s1)
              in (hit \<or> hit2, s2))"

definition rnet_session_state_progress :: "RNetSession \<Rightarrow> int \<Rightarrow> (u32 \<times> u32) option" where
  "rnet_session_state_progress s slot =
     (let t = ss_tx s
      in if \<not> tx_active t \<or> slot < 0 \<or> slot \<ge> 8 \<or> \<not> expects t (nat slot) then None
         else Some (tx_ack t ! nat slot, tx_total t))"

definition rnet_session_state_pending_receivers :: "RNetSession \<Rightarrow> u32" where
  "rnet_session_state_pending_receivers s =
     (let t = ss_tx s
      in if \<not> tx_active t then 0 else tx_expect_mask t AND NOT (state_tx_done_mask t))"

definition rnet_session_state_inbound_mask :: "RNetSession \<Rightarrow> u32" where
  "rnet_session_state_inbound_mask s =
     foldl (\<lambda>m i. if rx_active (ss_rx s ! i) then m OR push_bit i 1 else m) 0 [0..<8]"

definition state_finish_rx :: "RNetSession \<Rightarrow> nat \<Rightarrow> RNetSession" where
  "state_finish_rx s src =
     (let rx = ss_rx s ! src; rec = st_received (ss_state s) ! src
      in state_rx_clear (if rx_active rx \<and> rx_ready rx then put_received s src (rec\<lparr>sr_finished := True\<rparr>)
                         else s) src)"

end
