(* ===== verification/RNet_Session.thy ===== *)
theory RNet_Session
  imports RNet_State_Xfer
begin

text \<open>
  The session of \<^verbatim>\<open>src/src/session/rnet_session.c\<close>: input rows on the wire, the confirmation of
  resolved inputs, bootstrap, the arrival of a packet, the pump, admission of a simulation tick and
  the change of the input delay. The host's callbacks are arguments (\<open>sample_local\<close>) or results
  (\<open>publish\<close>); the datagrams the transport delivers are an argument.
\<close>

section \<open>Results\<close>

text \<open>
  A call that does not return, or uses an index outside an array, has no result in C. \<open>Inl\<close> says
  which of the two it is.
\<close>

datatype trap = Hangs | OutOfRange

type_synonym 'a outcome = "trap + 'a"

fun and_then :: "'a outcome \<Rightarrow> ('a \<Rightarrow> 'b outcome) \<Rightarrow> 'b outcome" where
  "and_then (Inl e) f = Inl e"
| "and_then (Inr x) f = f x"

text \<open>
  An access to the arrays that have one element per seat, all declared with \<^verbatim>\<open>RNET_MAX_SLOTS\<close>
  elements, at an index that a packet or the configuration gives.
\<close>

definition at_seat :: "u8 \<Rightarrow> (nat \<Rightarrow> 'a outcome) \<Rightarrow> 'a outcome" where
  "at_seat slot f = (if unat slot < RNET_MAX_SLOTS then f (unat slot) else Inl OutOfRange)"

lemma and_then_Inr: "and_then r f = Inr y \<longleftrightarrow> (\<exists>x. r = Inr x \<and> f x = Inr y)"
  by (cases r) auto

section \<open>Remote input rows\<close>

text \<open>\<^verbatim>\<open>frames[count]\<close> of a stored sample, and the sample of a received frame.\<close>

definition frame_of_sample :: "RNetInputSample \<Rightarrow> RNetWireFrame" where
  "frame_of_sample sm = \<lparr>wf_tick = sm_tick sm, wf_size = sm_size sm, wf_bytes = sm_bytes sm\<rparr>"

definition sample_of_frame :: "RNetWireFrame \<Rightarrow> RNetInputSample" where
  "sample_of_frame f = \<lparr>sm_tick = wf_tick f, sm_size = wf_size f,
     sm_bytes = pad_to 32 0 (take (unat (wf_size f)) (wf_bytes f)), sm_valid = 1\<rparr>"

abbreviation ss_ring :: "RNetSession \<Rightarrow> u8 \<Rightarrow> RNetInputRing" where
  "ss_ring s slot \<equiv> ss_remote_rings s ! unat slot"

definition remote_tick_in_live_window :: "RNetSession \<Rightarrow> u8 \<Rightarrow> u32 \<Rightarrow> bool" where
  "remote_tick_in_live_window s slot tick =
     (if ss_phase s \<noteq> PHASE_RUNNING then True
      else let tip = rnet_wire_tick_from_sim (ss_sim_tick s) (ss_delay s);
               slop = ucast (bundle_redundancy (ss_cfg s)) + 8;
               lo = (if ss_sim_tick s > slop then ss_sim_tick s - slop else 0);
               hi = tip + slop
           in if tick \<ge> lo \<and> tick \<le> hi then True
              else if slot \<ge> slot_count (ss_cfg s) then False
              else let remote_hi = rnet_ring_highest_valid (ss_ring s slot)
                   in tick > remote_hi \<and> tick \<le> hi \<and>
                      (ss_sim_tick s \<le> 64 \<or> tick + 64 \<ge> ss_sim_tick s))"

lemma inc_not_max: "(n :: u32) \<noteq> 0xffffffff \<Longrightarrow> unat (n + 1) = Suc (unat n)"
proof -
  assume n: "n \<noteq> 0xffffffff"
  have "(0xffffffff :: u32) = - 1" by simp
  then have "n < - 1" using n by (metis word_order.not_eq_extremum)
  then show ?thesis by (rule unat_inc)
qed

lemma ticks_left: "(n :: u32) \<noteq> 0xffffffff \<Longrightarrow> 2 ^ 32 - unat (n + 1) < (2 ^ 32 - unat n :: nat)"
proof -
  assume "n \<noteq> 0xffffffff"
  then have "unat (n + 1) = Suc (unat n)" by (rule inc_not_max)
  moreover have "unat n < 2 ^ LENGTH(32)" by (rule unsigned_less)
  ultimately show ?thesis by simp
qed

text \<open>
  The loop that moves \<^verbatim>\<open>remote_contiguous_ack\<close> over the rows present. The counter stops at its
  largest value, so the loop ends.
\<close>

function contiguous_loop :: "RNetInputRing \<Rightarrow> u32 \<Rightarrow> u32 \<Rightarrow> u32" where
  "contiguous_loop ring ack nxt =
     (case rnet_ring_get ring nxt of
        None \<Rightarrow> ack
      | Some _ \<Rightarrow> if nxt = 0xffffffff then nxt else contiguous_loop ring nxt (nxt + 1))"
  by pat_completeness auto
termination
  by (relation "measure (\<lambda>(ring, ack, nxt). 2 ^ 32 - unat nxt)") (auto dest: ticks_left)

declare contiguous_loop.simps [simp del]

definition store_remote_frame :: "RNetSession \<Rightarrow> u8 \<Rightarrow> RNetWireFrame \<Rightarrow> RNetSession outcome" where
  "store_remote_frame s slot f =
     (if slot \<ge> slot_count (ss_cfg s) \<or> slot = local_slot (ss_cfg s) then Inr s
      else if \<not> remote_tick_in_live_window s slot (wf_tick f) then Inr s
      else at_seat slot (\<lambda>k.
        if rnet_ring_get (ss_remote_rings s ! k) (wf_tick f) \<noteq> None then Inr s
        else let idx = ring_slot (wf_tick f);
                 ring = rnet_ring_store (ss_remote_rings s ! k) (sample_of_frame f);
                 acks = ss_remote_contiguous_ack s;
                 acks' = (if slot_count (ss_cfg s) > 2
                          then acks[k := contiguous_loop ring (acks ! k) (acks ! k + 1)] else acks);
                 d = ss_diag s
             in Inr (s\<lparr>ss_remote_rings := (ss_remote_rings s)[k := ring],
                  ss_remote_contiguous_ack := acks',
                  ss_diag := d\<lparr>dg_arr_tick := (dg_arr_tick d)[k := (dg_arr_tick d ! k)[idx := wf_tick f]],
                               dg_arr_ms := (dg_arr_ms d)[k := (dg_arr_ms d ! k)[idx := stamp (ss_now s)]]\<rparr>\<rparr>)))"

section \<open>Confirmation of resolved inputs\<close>

text \<open>One seat's part of the buffer that is hashed.\<close>

definition hash_row :: "RNetInputSample \<Rightarrow> bytes" where
  "hash_row sm = (let sz = (if sm_size sm > 32 then 32 else sm_size sm)
     in write_u16 sz @ take (unat sz) (sm_bytes sm))"

definition hash_resolved_inputs :: "u32 \<Rightarrow> RNetInputSample list \<Rightarrow> nat \<Rightarrow> u32" where
  "hash_resolved_inputs sim_tick by_slot slots =
     rnet_proto_checksum (write_u32 sim_tick @ concat (map hash_row (take slots by_slot)))"

definition send_input_confirm_tick :: "RNetSession \<Rightarrow> u32 \<Rightarrow> u32 \<Rightarrow> RNetSession" where
  "send_input_confirm_tick s tick hash =
     (let s' = send_raw s (rnet_proto_encode_input_confirm RNET_MAX_PACKET (protocol_magic (ss_cfg s))
                 (session_id (ss_cfg s)) (ss_wire_slot s) (ss_input_epoch s) tick hash);
          c = ss_confirm s'
      in s'\<lparr>ss_confirm := c\<lparr>cf_last_sent_ms := (cf_last_sent_ms c)[ring_slot tick := ss_now s]\<rparr>\<rparr>)"

definition remotes_ready_for_play_wire :: "RNetSession \<Rightarrow> u32 \<Rightarrow> bool" where
  "remotes_ready_for_play_wire s play_wire \<longleftrightarrow>
     list_all (\<lambda>i. let slot = of_nat i in slot = local_slot (ss_cfg s) \<or>
         \<not> rnet_config_slot_occupied (ss_cfg s) slot \<or> rnet_ring_get (ss_ring s slot) play_wire \<noteq> None)
       [0..<unat (slot_count (ss_cfg s))]"

text \<open>\<^verbatim>\<open>for (t = 0; t < delay; ++t)\<close>: a neutral row where the local ring has none.\<close>

definition neutral_sample :: "u32 \<Rightarrow> RNetInputSample" where
  "neutral_sample t = zero_sample\<lparr>sm_tick := t, sm_valid := 1\<rparr>"

definition seed_row :: "RNetInputRing \<Rightarrow> nat \<Rightarrow> RNetInputRing" where
  "seed_row ring t =
     (if rnet_ring_get ring (of_nat t) \<noteq> None then ring
      else rnet_ring_store ring (neutral_sample (of_nat t)))"

definition seed_delay_prefix :: "RNetSession \<Rightarrow> RNetSession" where
  "seed_delay_prefix s = s\<lparr>ss_local_ring := foldl seed_row (ss_local_ring s) [0..<unat (ss_delay s)]\<rparr>"

text \<open>The row of one seat at a wire tick; \<open>None\<close> when it has not arrived.\<close>

definition wire_input :: "RNetSession \<Rightarrow> u32 \<Rightarrow> u8 \<Rightarrow> RNetInputSample option" where
  "wire_input s wire slot =
     (if \<not> rnet_config_slot_occupied (ss_cfg s) slot then Some (neutral_sample wire)
      else map_option (\<lambda>sm. sm\<lparr>sm_tick := wire\<rparr>)
        (if slot = local_slot (ss_cfg s) then rnet_ring_get (ss_local_ring s) wire
         else rnet_ring_get (ss_ring s slot) wire))"

definition collect_wire_inputs :: "RNetSession \<Rightarrow> u32 \<Rightarrow> RNetInputSample list option" where
  "collect_wire_inputs s wire =
     (let rows = map (\<lambda>i. wire_input s wire (of_nat i)) [0..<unat (slot_count (ss_cfg s))]
      in if None \<in> set rows then None else Some (map the rows))"

text \<open>A remote seat whose confirmation of \<open>wire\<close> is here, and its hash.\<close>

definition is_remote_seat :: "RNetConfig \<Rightarrow> u8 \<Rightarrow> bool" where
  "is_remote_seat cfg slot \<longleftrightarrow> slot \<noteq> local_slot cfg \<and> rnet_config_slot_occupied cfg slot"

definition peer_confirm :: "RNetConfirm \<Rightarrow> u32 \<Rightarrow> nat \<Rightarrow> u32 option" where
  "peer_confirm c wire i =
     (let e = cf_peer c ! ring_slot wire ! i
      in if he_valid e \<and> he_tick e = wire then Some (he_hash e) else None)"

definition published_entry :: "RNetConfirm \<Rightarrow> u32 \<Rightarrow> u32 option" where
  "published_entry c wire =
     (let e = cf_published c ! ring_slot wire
      in if he_valid e \<and> he_tick e = wire then Some (he_hash e) else None)"

definition note_desync :: "RNetConfirm \<Rightarrow> u32 \<Rightarrow> u32 \<Rightarrow> u32 \<Rightarrow> RNetConfirm" where
  "note_desync c tick local remote = c\<lparr>cf_desync := True, cf_desync_tick := tick,
     cf_desync_local_hash := local, cf_desync_remote_hash := remote\<rparr>"

text \<open>The answer and the session; the answer is the C return value.\<close>

definition prepare_wire_confirm :: "RNetSession \<Rightarrow> u32 \<Rightarrow> bool \<Rightarrow> bool \<times> RNetSession" where
  "prepare_wire_confirm s wire force_send =
     (case collect_wire_inputs s wire of
        None \<Rightarrow> (False, s)
      | Some resolved \<Rightarrow>
          let cfg = ss_cfg s; n = unat (slot_count cfg); idx = ring_slot wire;
              hash = hash_resolved_inputs wire resolved n;
              c = (ss_confirm s)\<lparr>cf_published := (cf_published (ss_confirm s))
                     [idx := \<lparr>he_tick = wire, he_hash = hash, he_valid = True\<rparr>]\<rparr>;
              s1 = s\<lparr>ss_confirm := c\<rparr>
          in case List.find (\<lambda>i. is_remote_seat cfg (of_nat i) \<and>
                      (\<exists>h \<in> set_option (peer_confirm c wire i). h \<noteq> hash)) [0..<n] of
               Some i \<Rightarrow> (False, s1\<lparr>ss_confirm :=
                   note_desync c wire hash (he_hash (cf_peer c ! idx ! i))\<rparr>)
             | None \<Rightarrow>
                 if force_send \<or> cf_last_sent_ms c ! idx = 0 \<or> ss_now s - cf_last_sent_ms c ! idx \<ge> 4
                 then (True, send_input_confirm_tick s1 wire hash) else (True, s1))"

definition wire_confirmations_agree :: "RNetSession \<Rightarrow> u32 \<Rightarrow> bool" where
  "wire_confirmations_agree s wire =
     (case published_entry (ss_confirm s) wire of
        None \<Rightarrow> False
      | Some h \<Rightarrow> list_all (\<lambda>i. is_remote_seat (ss_cfg s) (of_nat i) \<longrightarrow>
                     peer_confirm (ss_confirm s) wire i = Some h)
                   [0..<unat (slot_count (ss_cfg s))])"

text \<open>One tick of the window.\<close>

definition refresh_confirm :: "RNetSession \<Rightarrow> u32 \<Rightarrow> RNetSession" where
  "refresh_confirm s w =
     (case published_entry (ss_confirm s) w of
        Some h \<Rightarrow>
          (let last = cf_last_sent_ms (ss_confirm s) ! ring_slot w
           in if last = 0 \<or> ss_now s - last \<ge> 4 then send_input_confirm_tick s w h else s)
      | None \<Rightarrow> snd (prepare_wire_confirm s w False))"

text \<open>The ticks of an inclusive loop \<^verbatim>\<open>for (w = lo; w <= hi; ++w)\<close> that stops at the largest.\<close>

definition tick_range :: "u32 \<Rightarrow> u32 \<Rightarrow> u32 list" where
  "tick_range lo hi = map of_nat [unat lo..<Suc (unat hi)]"

definition confirm_trail :: "RNetSession \<Rightarrow> u32" where
  "confirm_trail s =
     (let t = ucast (ss_delay s) + ucast (bundle_redundancy (ss_cfg s)) + 8;
          t1 = (if t < 16 then 16 else t)
      in if t1 > 64 then 64 else t1)"

definition refresh_confirm_window :: "RNetSession \<Rightarrow> u32 \<Rightarrow> u32 \<Rightarrow> RNetSession" where
  "refresh_confirm_window s play_wire sample_wire =
     (let trail = confirm_trail s;
          lo = (if play_wire > trail then play_wire - trail else 0);
          hi = (if sample_wire < lo then lo else sample_wire)
      in foldl refresh_confirm s (tick_range lo hi))"

section \<open>The input bundle\<close>

text \<open>
  The inner loop: the rows of the local ring from \<open>t\<close> on, at most \<^verbatim>\<open>RNET_MAX_BUNDLE\<close> of them,
  and the tick it stopped at. At the largest tick it stops without moving on.
\<close>

function gather :: "RNetInputRing \<Rightarrow> nat \<Rightarrow> u32 \<Rightarrow> u32 \<Rightarrow> RNetWireFrame list \<times> u32" where
  "gather ring n t tip =
     (if t \<le> tip \<and> n < RNET_MAX_BUNDLE
      then let fs = (case rnet_ring_get ring t of None \<Rightarrow> [] | Some sm \<Rightarrow> [frame_of_sample sm])
           in if t = 0xffffffff then (fs, t)
              else let (rest, t') = gather ring (n + length fs) (t + 1) tip in (fs @ rest, t')
      else ([], t))"
  by pat_completeness auto
termination
  by (relation "measure (\<lambda>(ring, n, t, tip). 2 ^ 32 - unat t)") (auto dest: ticks_left)

declare gather.simps [simp del]

definition encode_bundle :: "RNetSession \<Rightarrow> u32 \<Rightarrow> RNetWireFrame list \<Rightarrow> bytes option" where
  "encode_bundle s ack frames =
     (let cfg = ss_cfg s
      in if slot_count cfg > 2
         then rnet_proto_encode_input_acks RNET_MAX_PACKET (protocol_magic cfg) (session_id cfg)
                (ss_wire_slot s) (ss_input_epoch s) ack (Some frames)
                (Some (take (unat (slot_count cfg)) (ss_remote_contiguous_ack s)))
         else rnet_proto_encode_input RNET_MAX_PACKET (protocol_magic cfg) (session_id cfg)
                (ss_wire_slot s) (ss_input_epoch s) ack (Some frames))"

definition count_bundle :: "RNetSession \<Rightarrow> RNetSession" where
  "count_bundle s = s\<lparr>ss_diag := (ss_diag s)\<lparr>dg_input_bundle_sends := dg_input_bundle_sends (ss_diag s) + 1\<rparr>\<rparr>"

text \<open>The outer loop: \<open>None\<close> is a run that does not end.\<close>

partial_function (option) bundle_loop ::
  "RNetSession \<Rightarrow> u32 \<Rightarrow> u32 \<Rightarrow> u32 \<Rightarrow> bool \<Rightarrow> (bool \<times> RNetSession) option" where
  "bundle_loop s ack tip t sent_any =
     (if t \<le> tip
      then let (fs, t') = gather (ss_local_ring s) 0 t tip
           in if fs = [] then bundle_loop s ack tip t' sent_any
              else case encode_bundle s ack fs of
                     None \<Rightarrow> Some (sent_any, s)
                   | Some b \<Rightarrow> bundle_loop (count_bundle (send_raw s (Some b))) ack tip t' True
      else Some (sent_any, s))"

text \<open>Where the rows to send begin, as the peers' acknowledgements move it back.\<close>

definition peer_lo :: "RNetSession \<Rightarrow> nat \<Rightarrow> u32" where
  "peer_lo s i =
     (if \<not> ss_peer_ack_seen s ! i \<or> ss_peer_ack_tick s ! i = 0xffffffff then 0
      else ss_peer_ack_tick s ! i + 1)"

definition capped_lo :: "u32 \<Rightarrow> u32 \<Rightarrow> u32" where
  "capped_lo tip ack_lo = (if tip + 1 > 64 \<and> ack_lo + 64 \<le> tip then tip + 1 - 64 else ack_lo)"

definition bundle_lo :: "RNetSession \<Rightarrow> u32 \<Rightarrow> u32" where
  "bundle_lo s tip =
     (let cfg = ss_cfg s;
          r0 = (if bundle_redundancy cfg < 1 then 1 else unat (bundle_redundancy cfg));
          red = of_nat (if r0 < unat (ss_delay s) + 1 then unat (ss_delay s) + 1 else r0) :: u32;
          lo = (if tip + 1 > red then tip + 1 - red else 0)
      in if slot_count cfg > 2
         then let ack_lo = capped_lo tip (foldl (\<lambda>a i. if is_remote_seat cfg (of_nat i) \<and> peer_lo s i < a
                                                       then peer_lo s i else a)
                             (tip + 1) [0..<unat (slot_count cfg)])
              in if ack_lo < lo then ack_lo else lo
         else if ss_highest_remote_ack s < tip
         then let ack_lo = capped_lo tip (ss_highest_remote_ack s + 1)
              in if ack_lo < lo then ack_lo else lo
         else lo)"

definition bundle_ack :: "RNetSession \<Rightarrow> u32" where
  "bundle_ack s = rnet_ring_highest_valid (ss_remote_rings s !
     (if ss_is_observer s then 0
      else (unat (local_slot (ss_cfg s)) + 1) mod unat (slot_count (ss_cfg s))))"

definition send_input_bundle :: "RNetSession \<Rightarrow> RNetSession outcome" where
  "send_input_bundle s =
     (if ss_is_observer s then Inr s
      else if ss_phase s \<noteq> PHASE_RUNNING then Inr s
      else if st_stall_sim (ss_state s) \<or> ss_input_send_suppress s then Inr s
      else let tip = rnet_wire_tick_from_sim (ss_sim_tick s) (ss_delay s)
           in if ss_last_input_tip_valid s \<and> ss_last_input_tip s = tip \<and> ss_now s - ss_last_input_ms s < 8
              then Inr s
              else case bundle_loop s (bundle_ack s) tip (bundle_lo s tip) False of
                     None \<Rightarrow> Inl Hangs
                   | Some (sent_any, s') \<Rightarrow>
                       Inr (if sent_any then s'\<lparr>ss_last_input_ms := ss_now s, ss_last_input_tip := tip,
                                               ss_last_input_tip_valid := True\<rparr> else s'))"

section \<open>Bootstrap\<close>

text \<open>The loop over the seats: empty seats become ready; it stops at the first that is not.\<close>

fun mark_ready :: "RNetConfig \<Rightarrow> bool list \<Rightarrow> nat list \<Rightarrow> bool \<times> bool list" where
  "mark_ready cfg ready [] = (True, ready)"
| "mark_ready cfg ready (i # is') =
     (if \<not> rnet_config_slot_occupied cfg (of_nat i) then mark_ready cfg (ready[i := True]) is'
      else if \<not> ready ! i then (False, ready)
      else mark_ready cfg ready is')"

definition send_hello :: "RNetSession \<Rightarrow> RNetSession" where
  "send_hello s = (send_raw s (rnet_proto_encode_hello RNET_MAX_PACKET (protocol_magic (ss_cfg s))
     (session_id (ss_cfg s)) (ss_wire_slot s) (slot_count (ss_cfg s)) (ss_delay s)))
       \<lparr>ss_last_hello_ms := ss_now s\<rparr>"

definition send_start :: "RNetSession \<Rightarrow> RNetSession" where
  "send_start s = send_raw s (rnet_proto_encode_start RNET_MAX_PACKET (protocol_magic (ss_cfg s))
     (session_id (ss_cfg s)) 0)"

definition begin_running :: "RNetSession \<Rightarrow> u32 \<Rightarrow> RNetSession outcome" where
  "begin_running s tick = send_input_bundle (seed_delay_prefix
     (s\<lparr>ss_sim_tick := tick, ss_phase := PHASE_RUNNING\<rparr>))"

definition maybe_bootstrap :: "RNetSession \<Rightarrow> RNetSession outcome" where
  "maybe_bootstrap s =
     (let now = ss_now s;
          s1 = (if ss_phase s = PHASE_LINKING \<and> now - ss_last_hello_ms s \<ge> 100 then send_hello s else s)
      in if ss_phase s1 \<noteq> PHASE_READY \<and> ss_phase s1 \<noteq> PHASE_LINKING then Inr s1
         else let s2 = s1\<lparr>ss_local_ready := True\<rparr>;
                  s3 = (if now - ss_last_ready_ms s2 \<ge> 100
                        then (send_raw s2 (rnet_proto_encode_ready RNET_MAX_PACKET (protocol_magic (ss_cfg s2))
                                (session_id (ss_cfg s2)) (ss_wire_slot s2)))\<lparr>ss_last_ready_ms := now\<rparr>
                        else s2);
                  own = (if ss_is_observer s3 then Inr (ss_peer_ready s3)
                         else at_seat (local_slot (ss_cfg s3)) (\<lambda>k. Inr ((ss_peer_ready s3)[k := True])))
              in and_then own (\<lambda>own.
                   let (all_ready, ready) = mark_ready (ss_cfg s3) own [0..<unat (slot_count (ss_cfg s3))];
                       s4 = s3\<lparr>ss_peer_ready := ready\<rparr>
                   in if all_ready \<and> ss_is_sim_authority s4 \<and> \<not> ss_start_sent s4
                      then begin_running ((send_start s4)\<lparr>ss_start_sent := True\<rparr>) 0
                      else Inr s4))"

section \<open>Arrival of a packet\<close>

text \<open>One definition per case of the switch in \<^verbatim>\<open>handle_decoded\<close>.\<close>

definition set_delay :: "RNetSession \<Rightarrow> u8 \<Rightarrow> RNetSession" where
  "set_delay s d = s\<lparr>ss_delay := d, ss_cfg := (ss_cfg s)\<lparr>input_delay := d\<rparr>\<rparr>"

definition on_hello :: "RNetSession \<Rightarrow> RNetDecodedPacket \<Rightarrow> RNetSession" where
  "on_hello s p =
     (if dp_slot_count p \<noteq> slot_count (ss_cfg s) then s
      else if dp_wire_version p \<noteq> RNET_WIRE_VERSION
      then s\<lparr>ss_ctrl := (ss_ctrl s)\<lparr>ct_wire_version_mismatch :=
               (if dp_wire_version p \<noteq> 0 then dp_wire_version p else 0xff)\<rparr>\<rparr>
      else let s1 = (if ss_phase s = PHASE_LINKING then s\<lparr>ss_phase := PHASE_READY\<rparr> else s);
               d = dp_delay p
           in if local_slot (ss_cfg s1) \<noteq> 0 \<and> dp_local_slot p = 0 \<and> d \<ge> 2 \<and> d \<le> 20 \<and> d \<noteq> ss_delay s1 \<and>
                 (ss_phase s1 \<noteq> PHASE_RUNNING \<or> ss_sim_tick s1 = 0)
              then let s2 = set_delay s1 d
                   in if ss_phase s2 \<noteq> PHASE_RUNNING then seed_delay_prefix s2 else s2
              else s1)"

definition on_ready :: "RNetSession \<Rightarrow> RNetDecodedPacket \<Rightarrow> RNetSession outcome" where
  "on_ready s p =
     (if \<not> dp_local_slot p < slot_count (ss_cfg s) then Inr s
      else at_seat (dp_local_slot p) (\<lambda>k.
        let s1 = s\<lparr>ss_peer_ready := (ss_peer_ready s)[k := True]\<rparr>
        in Inr (if ss_is_sim_authority s1 \<and> ss_start_sent s1 \<and> ss_phase s1 = PHASE_RUNNING \<and>
                   rnet_config_slot_occupied (ss_cfg s1) (dp_local_slot p)
                then send_start s1 else s1)))"

definition on_start :: "RNetSession \<Rightarrow> RNetDecodedPacket \<Rightarrow> RNetSession outcome" where
  "on_start s p = (if ss_phase s \<noteq> PHASE_RUNNING then begin_running s (dp_start_tick p) else Inr s)"

text \<open>
  The acknowledgements of an INPUT packet. With more than two seats the packet's vector is read at
  this session's own seat; an observer's \<open>local_slot\<close> is the number of seats.
\<close>

definition on_input_acks :: "RNetSession \<Rightarrow> RNetDecodedPacket \<Rightarrow> RNetSession outcome" where
  "on_input_acks s p =
     (let cfg = ss_cfg s
      in if slot_count cfg > 2 \<and> dp_local_slot p < slot_count cfg \<and> dp_ack_count p = slot_count cfg \<and>
            rnet_config_slot_occupied cfg (dp_local_slot p)
         then if \<not> unat (local_slot cfg) < length (dp_acks p) then Inl OutOfRange
              else at_seat (dp_local_slot p) (\<lambda>from.
                   let ack = dp_acks p ! unat (local_slot cfg); old = ss_peer_ack_tick s ! from
                   in Inr (if \<not> ss_peer_ack_seen s ! from \<or>
                              ack \<noteq> 0xffffffff \<and> (old = 0xffffffff \<or> ack > old)
                           then s\<lparr>ss_peer_ack_tick := (ss_peer_ack_tick s)[from := ack],
                                  ss_peer_ack_seen := (ss_peer_ack_seen s)[from := True]\<rparr>
                           else s))
         else Inr (if slot_count cfg = 2 \<and> dp_ack_tick p > ss_highest_remote_ack s
                   then s\<lparr>ss_highest_remote_ack := dp_ack_tick p\<rparr> else s))"

text \<open>\<^verbatim>\<open>for (i = 0; i < pkt->frame_count; ++i) store_remote_frame(...)\<close>\<close>

fun store_frames :: "RNetSession \<Rightarrow> u8 \<Rightarrow> RNetWireFrame list \<Rightarrow> RNetSession outcome" where
  "store_frames s slot [] = Inr s"
| "store_frames s slot (f # fs) = and_then (store_remote_frame s slot f) (\<lambda>s'. store_frames s' slot fs)"

definition on_input :: "RNetSession \<Rightarrow> RNetDecodedPacket \<Rightarrow> RNetSession outcome" where
  "on_input s p =
     (if dp_input_epoch p \<noteq> ss_input_epoch s then Inr s
      else and_then (store_frames s (dp_local_slot p) (take (dp_frame_count p) (dp_frames p)))
             (\<lambda>s'. on_input_acks s' p))"

definition on_delay_sync :: "RNetSession \<Rightarrow> RNetDecodedPacket \<Rightarrow> RNetSession" where
  "on_delay_sync s p =
     (if dp_effective_tick p \<le> ss_sim_tick s \<or> ss_phase s \<noteq> PHASE_RUNNING
      then (set_delay s (dp_new_delay p))\<lparr>ss_delay_pending := False\<rparr>
      else s\<lparr>ss_delay_pending := True, ss_delay_pending_value := dp_new_delay p,
             ss_delay_pending_effective := dp_effective_tick p\<rparr>)"

definition on_input_confirm :: "RNetSession \<Rightarrow> RNetDecodedPacket \<Rightarrow> RNetSession outcome" where
  "on_input_confirm s p =
     (if dp_input_epoch p \<noteq> ss_input_epoch s \<or> \<not> dp_local_slot p < slot_count (ss_cfg s) then Inr s
      else at_seat (dp_local_slot p) (\<lambda>from.
        let tick = dp_confirm_sim_tick p; hash = dp_confirm_hash p; i = ring_slot tick; c = ss_confirm s;
            c1 = c\<lparr>cf_peer := (cf_peer c)[i := (cf_peer c ! i)
                     [from := \<lparr>he_tick = tick, he_hash = hash, he_valid = True\<rparr>]]\<rparr>
        in Inr (s\<lparr>ss_confirm := (case published_entry c1 tick of
                Some h \<Rightarrow> if h \<noteq> hash then note_desync c1 tick h hash else c1
              | None \<Rightarrow> c1)\<rparr>)))"

definition on_bye :: "RNetSession \<Rightarrow> RNetDecodedPacket \<Rightarrow> RNetSession" where
  "on_bye s p =
     (if dp_local_slot p = ss_wire_slot s then s
      else let l = ss_live s
           in s\<lparr>ss_live := l\<lparr>lv_peer_gone := True, lv_peer_gone_mask :=
                (if dp_local_slot p < 8 then lv_peer_gone_mask l OR push_bit (unat (dp_local_slot p)) 1
                 else lv_peer_gone_mask l)\<rparr>\<rparr>)"

definition on_state_packet :: "(nat \<Rightarrow> bool) \<Rightarrow> RNetSession \<Rightarrow> RNetDecodedPacket \<Rightarrow> RNetSession" where
  "on_state_packet alloc s p =
     (if rb_filtered (ss_ctrl s) p then s
      else if dp_type p = RNET_PKT_STATE_BEGIN then state_on_begin alloc s p
      else if dp_type p = RNET_PKT_STATE_CHUNK then state_on_chunk s p
      else if dp_type p = RNET_PKT_STATE_ACK then state_on_ack s p
      else if dp_type p = RNET_PKT_STATE_PROBE then state_on_probe s p
      else if dp_type p = RNET_PKT_STATE_PROBE_REPLY then state_on_probe_reply s p
      else state_on_probe_done s p)"

definition is_state_packet :: "u16 \<Rightarrow> bool" where
  "is_state_packet ty \<longleftrightarrow> ty \<in> {RNET_PKT_STATE_BEGIN, RNET_PKT_STATE_CHUNK, RNET_PKT_STATE_ACK,
     RNET_PKT_STATE_PROBE, RNET_PKT_STATE_PROBE_REPLY, RNET_PKT_STATE_PROBE_DONE}"

definition handle_decoded :: "(nat \<Rightarrow> bool) \<Rightarrow> RNetSession \<Rightarrow> RNetDecodedPacket \<Rightarrow> RNetSession outcome" where
  "handle_decoded alloc s p =
     (if rnet_proto_is_rb_control (dp_type p) \<and> dp_input_epoch p \<noteq> ss_input_epoch s then Inr s
      else if dp_session_id p \<noteq> session_id (ss_cfg s) then Inr s
      else if dp_type p = RNET_PKT_HELLO then Inr (on_hello s p)
      else if dp_type p = RNET_PKT_READY then on_ready s p
      else if dp_type p = RNET_PKT_START then on_start s p
      else if dp_type p = RNET_PKT_INPUT then on_input s p
      else if dp_type p = RNET_PKT_DELAY_SYNC then Inr (on_delay_sync s p)
      else if dp_type p = RNET_PKT_INPUT_CONFIRM then on_input_confirm s p
      else if dp_type p = RNET_PKT_BYE then Inr (on_bye s p)
      else if is_state_packet (dp_type p) then Inr (on_state_packet alloc s p)
      else if dp_type p = RNET_PKT_RB_SYNC \<and>
              (dp_rb_initiator p = PROFILE_OFFER \<or> dp_rb_initiator p = PROFILE_ACK)
      then Inr (s\<lparr>ss_profiles := profiles_receive (ss_cfg s) (ss_profiles s) p\<rparr>)
      else Inr (s\<lparr>ss_ctrl := ctrl_arrive (ss_wire_slot s) (ss_ctrl s) p\<rparr>))"

section \<open>The pump\<close>

definition packet_sender_slot :: "RNetDecodedPacket \<Rightarrow> int" where
  "packet_sender_slot p =
     (if dp_type p = RNET_PKT_START then 0 else if dp_type p = RNET_PKT_DELAY_SYNC then -1
      else uint (dp_local_slot p))"

definition note_rx :: "RNetSession \<Rightarrow> RNetDecodedPacket \<Rightarrow> RNetSession outcome" where
  "note_rx s p =
     (let from = packet_sender_slot p; l = ss_live s
      in and_then (if from \<ge> 0 \<and> from < 8 \<and> from \<noteq> uint (ss_wire_slot s)
                   then at_seat (of_int from) (\<lambda>k. Inr ((lv_peer_rx_ms l)[k := stamp (ss_now s)]))
                   else Inr (lv_peer_rx_ms l)) (\<lambda>rx.
           Inr (s\<lparr>ss_live := l\<lparr>lv_last_peer_rx_ms := ss_now s, lv_peer_rx_ms := rx\<rparr>,
                ss_diag := (ss_diag s)\<lparr>dg_packets_rx := dg_packets_rx (ss_diag s) + 1\<rparr>\<rparr>)))"

text \<open>
  One datagram in the receive buffer \<open>buf\<close>, of which the first \<open>n\<close> bytes are its own: what does not
  decode, or is of another session, is ignored.
\<close>

definition receive_datagram :: "(nat \<Rightarrow> bool) \<Rightarrow> RNetSession \<Rightarrow> bytes \<Rightarrow> nat \<Rightarrow> RNetSession outcome" where
  "receive_datagram alloc s buf n =
     (case rnet_proto_decode buf n (protocol_magic (ss_cfg s)) of
        Decoded p \<Rightarrow> if dp_session_id p = session_id (ss_cfg s) then and_then (note_rx s p) (\<lambda>s'. handle_decoded alloc s' p)
                     else Inr s
      | Rejected \<Rightarrow> Inr s
      | OutOfBounds \<Rightarrow> Inl OutOfRange)"

text \<open>
  The receive loop, with its guard. A datagram overwrites the front of the one receive buffer, so
  what follows it there is left over from before; the datagrams not read are returned.
\<close>

fun recv_loop ::
  "(nat \<Rightarrow> bool) \<Rightarrow> nat \<Rightarrow> bytes \<Rightarrow> RNetSession \<Rightarrow> bytes list \<Rightarrow> (RNetSession \<times> bytes list) outcome" where
  "recv_loop alloc 0 buf s inq = Inr (s, inq)"
| "recv_loop alloc (Suc n) buf s [] = Inr (s, [])"
| "recv_loop alloc (Suc n) buf s (b # inq) =
     (if b = [] then Inr (s, inq)
      else let buf' = b @ drop (length b) buf
           in and_then (receive_datagram alloc s buf' (length b)) (\<lambda>s'. recv_loop alloc n buf' s' inq))"

text \<open>\<open>junk\<close> is what the buffer, a local variable without an initialiser, holds on entry.\<close>

definition pump_recv ::
  "(nat \<Rightarrow> bool) \<Rightarrow> bytes \<Rightarrow> RNetSession \<Rightarrow> bytes list \<Rightarrow> (RNetSession \<times> bytes list) outcome" where
  "pump_recv alloc junk s inq = recv_loop alloc (if state_any_active s then 512 else 64) junk s inq"

definition emit_delay_sync :: "RNetSession \<Rightarrow> u8 \<Rightarrow> u32 \<Rightarrow> RNetSession" where
  "emit_delay_sync s new_delay effective_tick =
     (case rnet_proto_encode_delay_sync RNET_MAX_PACKET (protocol_magic (ss_cfg s)) (session_id (ss_cfg s))
             new_delay effective_tick of
        None \<Rightarrow> s
      | Some b \<Rightarrow> (send_raw s (Some b))\<lparr>ss_delay_pending_last_tx_ms := ss_now s\<rparr>)"

text \<open>\<^verbatim>\<open>for (burst = 0; burst < 4; burst++)\<close>\<close>

fun burst_loop ::
  "(nat \<Rightarrow> bool) \<Rightarrow> bytes \<Rightarrow> nat \<Rightarrow> RNetSession \<Rightarrow> bytes list \<Rightarrow> (RNetSession \<times> bytes list) outcome" where
  "burst_loop alloc junk 0 s inq = Inr (s, inq)"
| "burst_loop alloc junk (Suc n) s inq =
     (let s1 = state_drive_sender s
      in if \<not> state_any_in_progress s1 then Inr (s1, inq)
         else and_then (pump_recv alloc junk s1 inq) (\<lambda>(s2, inq'). burst_loop alloc junk n s2 inq'))"

definition pump_tail :: "RNetSession \<Rightarrow> RNetSession outcome" where
  "pump_tail s =
     (let s1 = (if ss_phase s = PHASE_RUNNING \<and> (ss_input_send_suppress s \<or> st_stall_sim (ss_state s)) \<and>
                   ss_now s - ss_last_hello_ms s \<ge> 250 then send_hello s else s)
      in and_then (send_input_bundle s1) (\<lambda>s2.
           Inr (if ss_delay_pending s2 \<and> ss_phase s2 = PHASE_RUNNING \<and>
                   (ss_delay_pending_last_tx_ms s2 = 0 \<or> ss_now s2 - ss_delay_pending_last_tx_ms s2 \<ge> 50)
                then emit_delay_sync s2 (ss_delay_pending_value s2) (ss_delay_pending_effective s2)
                else s2)))"

text \<open>\<^verbatim>\<open>rnet_session_pump\<close> on a LAN transport, where there is no ICE agent to poll.\<close>

definition rnet_session_pump ::
  "(nat \<Rightarrow> bool) \<Rightarrow> bytes \<Rightarrow> RNetSession \<Rightarrow> bytes list \<Rightarrow> (RNetSession \<times> bytes list) outcome" where
  "rnet_session_pump alloc junk s inq =
     and_then (pump_recv alloc junk s inq) (\<lambda>(s1, in1).
     and_then (maybe_bootstrap s1) (\<lambda>s2.
       let s3 = profiles_drive s2;
           s4 = (if pb_active (ss_probe s3) then state_drive_probe s3 else s3)
       in and_then (if state_any_active s4 then burst_loop alloc junk 4 s4 in1 else Inr (s4, in1)) (\<lambda>(s5, in2).
          and_then (pump_tail s5) (\<lambda>s6. Inr (s6, in2)))))"

section \<open>Admission of a simulation tick\<close>

text \<open>
  What \<^verbatim>\<open>try_admit\<close> does first: sample the local input of the wire tick \<open>D\<close> ahead unless the ring
  has it, and send. \<open>sample_local\<close> is the host's callback.
\<close>

definition clamp_sample :: "RNetInputSample \<Rightarrow> RNetInputSample" where
  "clamp_sample sm = sm\<lparr>sm_valid := 1, sm_size := (if sm_size sm > 32 then 32 else sm_size sm)\<rparr>"

definition local_future ::
  "(u32 \<Rightarrow> RNetInputSample) \<Rightarrow> RNetSession \<Rightarrow> u32 \<Rightarrow> u32 \<Rightarrow> RNetInputSample \<times> RNetSession" where
  "local_future sample_local s sim_tick sample_wire =
     (case rnet_ring_get (ss_local_ring s) sample_wire of
        Some sm \<Rightarrow> (sm, s)
      | None \<Rightarrow> let sm = (clamp_sample (sample_local sim_tick))\<lparr>sm_tick := sample_wire\<rparr>
                in (sm, s\<lparr>ss_local_ring := rnet_ring_store (ss_local_ring s) sm\<rparr>))"

text \<open>The row of each seat that is published; \<open>None\<close> when a remote row is missing.\<close>

definition play_row :: "RNetSession \<Rightarrow> RNetInputSample \<Rightarrow> u32 \<Rightarrow> u8 \<Rightarrow> RNetInputSample option" where
  "play_row s local_play wire slot =
     (if slot = local_slot (ss_cfg s) then Some (local_play\<lparr>sm_tick := wire\<rparr>)
      else if \<not> rnet_config_slot_occupied (ss_cfg s) slot then Some (neutral_sample wire)
      else map_option (\<lambda>sm. sm\<lparr>sm_tick := wire\<rparr>) (rnet_ring_get (ss_ring s slot) wire))"

definition play_rows :: "RNetSession \<Rightarrow> RNetInputSample \<Rightarrow> u32 \<Rightarrow> RNetInputSample list option" where
  "play_rows s local_play wire =
     (let rows = map (\<lambda>i. play_row s local_play wire (of_nat i)) [0..<unat (slot_count (ss_cfg s))]
      in if None \<in> set rows then None else Some (map the rows))"

text \<open>
  The result of \<^verbatim>\<open>rnet_session_try_admit\<close>: \<open>None\<close> for 0, \<open>Some rows\<close> for 1, with the rows handed
  to the host's \<^verbatim>\<open>publish\<close>.
\<close>

type_synonym admit = "RNetInputSample list option \<times> RNetSession"

definition stalled :: "RNetSession \<Rightarrow> RNetAdmitStall \<Rightarrow> admit outcome" where
  "stalled s why = Inr (None, note_admit_stall s why)"

definition resend_stalled :: "RNetSession \<Rightarrow> RNetAdmitStall \<Rightarrow> admit outcome" where
  "resend_stalled s why = and_then (send_input_bundle s) (\<lambda>s'. stalled s' why)"

text \<open>The end of the call: agreement on the hash of the rows.\<close>

definition admit_rows :: "RNetSession \<Rightarrow> u32 \<Rightarrow> RNetInputSample list \<Rightarrow> admit outcome" where
  "admit_rows s tick resolved =
     (let hash = hash_resolved_inputs tick resolved (unat (slot_count (ss_cfg s)));
          (ok, s1) = prepare_wire_confirm s tick False;
          c1 = ss_confirm s1;
          pub = he_hash (cf_published c1 ! ring_slot tick)
      in if \<not> ok \<or> cf_desync c1 then stalled s1 (if cf_desync c1 then ADMIT_DESYNC else ADMIT_WAIT_CONFIRM)
         else if pub \<noteq> hash then stalled (s1\<lparr>ss_confirm := note_desync c1 tick hash pub\<rparr>) ADMIT_DESYNC
         else if \<not> wire_confirmations_agree s1 tick
         then resend_stalled (snd (prepare_wire_confirm s1 tick False)) ADMIT_WAIT_CONFIRM
         else Inr (Some resolved, note_admit_ok s1))"

definition admit_body :: "RNetSession \<Rightarrow> RNetInputSample \<Rightarrow> u32 \<Rightarrow> u32 \<Rightarrow> admit outcome" where
  "admit_body s future play_wire sample_wire =
     (let s1 = refresh_confirm_window s play_wire sample_wire;
          found = rnet_ring_get (ss_local_ring s1) play_wire
      in if \<not> ss_is_observer s1 \<and> found = None \<and> play_wire \<noteq> sample_wire
         then resend_stalled s1 ADMIT_WAIT_LOCAL_INPUT
         else if \<not> remotes_ready_for_play_wire s1 play_wire
         then resend_stalled s1 ADMIT_WAIT_REMOTE_INPUT
         else let local_play = (if ss_is_observer s1 then zero_sample
                                else case found of Some sm \<Rightarrow> sm | None \<Rightarrow> future)
              in case play_rows s1 local_play play_wire of
                   None \<Rightarrow> stalled s1 ADMIT_WAIT_REMOTE_INPUT
                 | Some resolved \<Rightarrow> admit_rows s1 play_wire resolved)"

definition profiles_done :: "profile_status \<Rightarrow> bool" where
  "profiles_done st = (case st of Profiles_agreed _ _ \<Rightarrow> True | _ \<Rightarrow> False)"

definition rnet_session_try_admit ::
  "(u32 \<Rightarrow> RNetInputSample) \<Rightarrow> RNetSession \<Rightarrow> u32 \<Rightarrow> admit outcome" where
  "rnet_session_try_admit sample_local s sim_tick =
     (if ss_phase s \<noteq> PHASE_RUNNING then stalled s ADMIT_NOT_RUNNING
      else if pf_active (ss_profiles s) \<and> \<not> profiles_done (rnet_session_profiles_status s)
      then stalled s ADMIT_NOT_RUNNING
      else if st_stall_sim (ss_state s) \<and> (state_any_active s \<or> pb_active (ss_probe s))
      then stalled s ADMIT_STATE_XFER
      else if sim_tick \<noteq> ss_sim_tick s then stalled s ADMIT_SIM_MISMATCH
      else if cf_desync (ss_confirm s) then stalled s ADMIT_DESYNC
      else let sample_wire = rnet_wire_tick_from_sim sim_tick (ss_delay s)
           in if ss_is_observer s then admit_body s zero_sample sim_tick sample_wire
              else let (future, s1) = local_future sample_local s sim_tick sample_wire
                   in and_then (send_input_bundle s1) (\<lambda>s2. admit_body s2 future sim_tick sample_wire))"

section \<open>The input delay\<close>

definition apply_pending_delay :: "RNetSession \<Rightarrow> RNetSession" where
  "apply_pending_delay s =
     (if \<not> ss_delay_pending s \<or> ss_sim_tick s < ss_delay_pending_effective s then s
      else (set_delay s (ss_delay_pending_value s))\<lparr>ss_delay_pending := False\<rparr>)"

definition rnet_session_advance :: "RNetSession \<Rightarrow> RNetSession" where
  "rnet_session_advance s = apply_pending_delay (s\<lparr>ss_sim_tick := ss_sim_tick s + 1\<rparr>)"

definition rnet_session_set_sim_tick :: "RNetSession \<Rightarrow> u32 \<Rightarrow> RNetSession" where
  "rnet_session_set_sim_tick s sim_tick = apply_pending_delay (s\<lparr>ss_sim_tick := sim_tick\<rparr>)"

definition rnet_session_request_delay_change :: "RNetSession \<Rightarrow> u8 \<Rightarrow> bool \<times> RNetSession" where
  "rnet_session_request_delay_change s new_delay =
     (if ss_phase s \<noteq> PHASE_RUNNING then (False, s)
      else let d = (if new_delay < 2 then 2 else if new_delay > 20 then 20 else new_delay);
               effective = ss_sim_tick s + ucast (ss_delay s) * 2 + 8
           in if d = ss_delay s \<and> \<not> ss_delay_pending s then (False, s)
              else if ss_delay_pending s \<and> ss_delay_pending_effective s > ss_sim_tick s \<and>
                      ss_delay_pending_value s = d
              then (True, emit_delay_sync s d (ss_delay_pending_effective s))
              else (True, emit_delay_sync (s\<lparr>ss_delay_pending := True, ss_delay_pending_value := d,
                            ss_delay_pending_effective := effective\<rparr>) d effective))"

definition rnet_session_committed_delay :: "RNetSession \<Rightarrow> u8" where
  "rnet_session_committed_delay s = ss_delay s"

text \<open>
  The rows of \<^verbatim>\<open>[sim .. sim+D]\<close> that are missing repeat one sample. The loop counts up to
  \<open>sample_wire\<close> inclusive: at the largest tick the counter wraps and the loop never ends.
\<close>

definition fill_row :: "RNetInputSample \<Rightarrow> RNetInputRing \<Rightarrow> u32 \<Rightarrow> RNetInputRing" where
  "fill_row sm ring w =
     (if rnet_ring_get ring w \<noteq> None then ring else rnet_ring_store ring (sm\<lparr>sm_tick := w\<rparr>))"

definition rnet_session_prepare_local_tip ::
  "(u32 \<Rightarrow> RNetInputSample) \<Rightarrow> RNetSession \<Rightarrow> u32 \<Rightarrow> (bool \<times> RNetSession) outcome" where
  "rnet_session_prepare_local_tip sample_local s sim_tick =
     (if ss_phase s \<noteq> PHASE_RUNNING \<or> sim_tick \<noteq> ss_sim_tick s then Inr (False, s)
      else let sample_wire = rnet_wire_tick_from_sim sim_tick (ss_delay s);
               sm = clamp_sample (sample_local sim_tick);
               ring = foldl (fill_row sm) (ss_local_ring s) (tick_range sim_tick sample_wire)
           in if sample_wire = 0xffffffff then Inl Hangs
              else and_then (send_input_bundle (s\<lparr>ss_local_ring := ring\<rparr>)) (\<lambda>s'. Inr (True, s')))"

text \<open>\<^verbatim>\<open>for (t = sim; t < tip; ++t)\<close>\<close>

definition prime_row :: "bytes \<Rightarrow> u16 \<Rightarrow> RNetInputRing \<Rightarrow> u32 \<Rightarrow> RNetInputRing" where
  "prime_row bs n ring t = rnet_ring_store ring
     \<lparr>sm_tick = t, sm_size = n, sm_bytes = pad_to 32 0 (take (unat n) bs), sm_valid = 1\<rparr>"

definition rnet_session_prime_delay_inputs :: "RNetSession \<Rightarrow> bytes \<Rightarrow> u16 \<Rightarrow> RNetSession outcome" where
  "rnet_session_prime_delay_inputs s bs n =
     (if n = 0 \<or> n > 32 \<or> ss_phase s \<noteq> PHASE_RUNNING then Inr s
      else let tip = rnet_wire_tick_from_sim (ss_sim_tick s) (ss_delay s);
               ring = foldl (prime_row bs n) (ss_local_ring s) (map of_nat [unat (ss_sim_tick s)..<unat tip]);
               s1 = s\<lparr>ss_local_ring := ring, ss_last_input_ms := 0, ss_last_input_tip_valid := False,
                      ss_input_send_suppress := False\<rparr>;
               saved = st_stall_sim (ss_state s1)
           in and_then (send_input_bundle (put_stall s1 False)) (\<lambda>s2. Inr (put_stall s2 saved)))"

definition rnet_session_set_input_send_suppress :: "RNetSession \<Rightarrow> bool \<Rightarrow> RNetSession" where
  "rnet_session_set_input_send_suppress s suppress = s\<lparr>ss_input_send_suppress := suppress\<rparr>"

section \<open>Resynchronisation\<close>

definition clear_valid :: "RNetHashEntry \<Rightarrow> RNetHashEntry" where
  "clear_valid e = e\<lparr>he_valid := False\<rparr>"

definition rnet_session_hard_resync :: "RNetSession \<Rightarrow> RNetSession" where
  "rnet_session_hard_resync s =
     (let c = ss_confirm s
      in s\<lparr>ss_local_ring := rnet_ring_clear, ss_remote_rings := replicate 8 rnet_ring_clear,
           ss_confirm := c\<lparr>cf_published := map clear_valid (cf_published c),
             cf_peer := map (map clear_valid) (cf_peer c), cf_last_sent_ms := replicate 128 0,
             cf_desync := False, cf_desync_tick := 0, cf_desync_local_hash := 0,
             cf_desync_remote_hash := 0\<rparr>,
           ss_highest_remote_ack := 0, ss_remote_contiguous_ack := replicate 8 0xffffffff,
           ss_peer_ack_seen := replicate 8 False, ss_last_input_tip_valid := False, ss_sim_tick := 0,
           ss_input_epoch := ss_input_epoch s + 1, ss_ctrl := rb_clear_queues (ss_ctrl s),
           ss_input_send_suppress := True, ss_delay_pending := False\<rparr>)"

definition rnet_session_clear_remote_inputs :: "RNetSession \<Rightarrow> RNetSession" where
  "rnet_session_clear_remote_inputs s =
     s\<lparr>ss_remote_rings := map (\<lambda>i. if of_nat i = local_slot (ss_cfg s) then ss_remote_rings s ! i
                                   else rnet_ring_clear) [0..<8],
       ss_highest_remote_ack := 0, ss_remote_contiguous_ack := replicate 8 0xffffffff,
       ss_peer_ack_seen := replicate 8 False\<rparr>"

text \<open>\<open>from_slot\<close> is the C argument; \<^verbatim>\<open>RNET_STATE_FROM_ALL\<close> is -1.\<close>

definition rnet_session_state_finish_from :: "RNetSession \<Rightarrow> int \<Rightarrow> bool \<Rightarrow> RNetSession" where
  "rnet_session_state_finish_from s from_slot hard_resync =
     (let s1 = (if from_slot = -1 then state_tx_clear (foldl state_finish_rx s [0..<8])
                else if \<not> ss_is_observer s \<and> from_slot = uint (local_slot (ss_cfg s)) then state_tx_clear s
                else if from_slot \<ge> 0 \<and> from_slot < 8 then state_finish_rx s (nat from_slot)
                else s);
          s2 = (if hard_resync then rnet_session_hard_resync s1 else s1)
      in state_recompute_stall s2)"

definition rnet_session_state_finish :: "RNetSession \<Rightarrow> bool \<Rightarrow> RNetSession" where
  "rnet_session_state_finish s hard_resync =
     (let taken = st_taken (ss_state s);
          gone = (if taken = RNET_STATE_TAKEN_TX then \<not> tx_active (ss_tx s)
                  else taken < 0 \<or> \<not> rx_active (ss_rx s ! nat taken));
          target = (if gone then state_pick_ready s else taken)
      in if target < 0 then rnet_session_state_finish_from s (-1) hard_resync
         else let s1 = (if target = RNET_STATE_TAKEN_TX then state_tx_clear s
                        else state_finish_rx s (nat target));
                  s2 = s1\<lparr>ss_state := (ss_state s1)\<lparr>st_taken := -1\<rparr>\<rparr>;
                  s3 = (if hard_resync then rnet_session_hard_resync s2 else s2)
              in state_recompute_stall s3)"

section \<open>Starting on a LAN\<close>

text \<open>\<open>up\<close> is whether the transport could open its socket.\<close>

definition rnet_session_start_lan :: "RNetSession \<Rightarrow> bool \<Rightarrow> bool \<times> RNetSession" where
  "rnet_session_start_lan s up =
     (if \<not> up then (False, s)
      else (True, s\<lparr>ss_mode := TRANSPORT_LAN_UDP, ss_phase := PHASE_LINKING, ss_last_hello_ms := 0\<rparr>))"

definition rnet_session_start_lan_hub :: "RNetSession \<Rightarrow> bool \<Rightarrow> bool \<times> RNetSession" where
  "rnet_session_start_lan_hub s up = rnet_session_start_lan s up"

end
