(* ===== verification/RNet_Session_Query.thy ===== *)
theory RNet_Session_Query
  imports RNet_Session
begin

text \<open>
  Liveness of the peers and the queries of the session: \<^verbatim>\<open>rnet_session_peer_*\<close>, the peeks into the
  input rings and \<^verbatim>\<open>rnet_session_get_stats\<close>.
\<close>

section \<open>Leaving\<close>

definition rnet_session_send_bye :: "RNetSession \<Rightarrow> bool \<times> RNetSession" where
  "rnet_session_send_bye s =
     (if ss_mode s = TRANSPORT_NONE then (False, s)
      else case rnet_proto_encode_bye 64 (protocol_magic (ss_cfg s)) (session_id (ss_cfg s)) (ss_wire_slot s) of
             None \<Rightarrow> (False, s)
           | Some b \<Rightarrow> (True, transport_send (transport_send (transport_send s b) b) b))"

section \<open>Liveness\<close>

definition link_budget :: "u64 \<Rightarrow> u64" where
  "link_budget timeout_ms = (if timeout_ms * 60 < 90000 then 90000 else timeout_ms * 60)"

definition link_overdue :: "RNetSession \<Rightarrow> u64 \<Rightarrow> bool" where
  "link_overdue s timeout_ms \<longleftrightarrow>
     (ss_phase s = PHASE_RUNNING \<or> ss_phase s = PHASE_LINKING) \<and> lv_session_start_ms (ss_live s) \<noteq> 0 \<and>
     ss_os_now s - lv_session_start_ms (ss_live s) > link_budget timeout_ms"

definition rnet_session_peer_disconnected :: "RNetSession \<Rightarrow> u64 \<Rightarrow> bool" where
  "rnet_session_peer_disconnected s timeout_ms =
     (let l = ss_live s; now = ss_os_now s; last = lv_last_peer_rx_ms l
      in if lv_peer_gone l then True
         else if timeout_ms = 0 then False
         else if last = 0 then link_overdue s timeout_ms
         else now > last \<and> now - last \<ge> timeout_ms)"

definition touch_seat :: "RNetSession \<Rightarrow> u64 list \<Rightarrow> nat \<Rightarrow> u64 list" where
  "touch_seat s rx i =
     (if of_nat i = local_slot (ss_cfg s) \<or> \<not> rnet_config_slot_occupied (ss_cfg s) (of_nat i) \<or>
         lv_peer_gone_mask (ss_live s) AND push_bit i 1 \<noteq> 0
      then rx else rx[i := stamp (ss_now s)])"

definition rnet_session_touch_peer_liveness :: "RNetSession \<Rightarrow> RNetSession" where
  "rnet_session_touch_peer_liveness s =
     (let l = ss_live s;
          rx = foldl (touch_seat s) (lv_peer_rx_ms l) [0..<min (unat (slot_count (ss_cfg s))) 8]
      in s\<lparr>ss_live := l\<lparr>lv_peer_rx_ms := rx,
           lv_last_peer_rx_ms := (if lv_peer_gone l then lv_last_peer_rx_ms l else ss_now s)\<rparr>\<rparr>)"

text \<open>The C argument \<open>slot\<close> is an \<open>int\<close>.\<close>

definition liveness_seat_ok :: "RNetSession \<Rightarrow> int \<Rightarrow> bool" where
  "liveness_seat_ok s slot \<longleftrightarrow> slot \<ge> 0 \<and> slot < uint (slot_count (ss_cfg s)) \<and> slot < 8 \<and>
     slot \<noteq> uint (local_slot (ss_cfg s))"

definition rnet_session_peer_gone :: "RNetSession \<Rightarrow> int \<Rightarrow> bool" where
  "rnet_session_peer_gone s slot \<longleftrightarrow>
     liveness_seat_ok s slot \<and> lv_peer_gone_mask (ss_live s) AND push_bit (nat slot) 1 \<noteq> 0"

definition rnet_session_peer_gone_mask :: "RNetSession \<Rightarrow> u32" where
  "rnet_session_peer_gone_mask s = lv_peer_gone_mask (ss_live s)"

text \<open>\<open>None\<close> is \<^verbatim>\<open>RNET_PEER_RX_NEVER\<close>.\<close>

definition rnet_session_peer_rx_age_ms :: "RNetSession \<Rightarrow> int \<Rightarrow> u64 option" where
  "rnet_session_peer_rx_age_ms s slot =
     (let rx = lv_peer_rx_ms (ss_live s) ! nat slot
      in if \<not> liveness_seat_ok s slot \<or> rx = 0 then None
         else Some (if ss_now s > rx then ss_now s - rx else 0))"

definition rnet_session_peer_slot_disconnected :: "RNetSession \<Rightarrow> int \<Rightarrow> u64 \<Rightarrow> bool" where
  "rnet_session_peer_slot_disconnected s slot timeout_ms =
     (if \<not> liveness_seat_ok s slot \<or> \<not> rnet_config_slot_occupied (ss_cfg s) (of_int slot) then False
      else if lv_peer_gone_mask (ss_live s) AND push_bit (nat slot) 1 \<noteq> 0 then True
      else if timeout_ms = 0 then False
      else case rnet_session_peer_rx_age_ms s slot of
             None \<Rightarrow> link_overdue s timeout_ms
           | Some age \<Rightarrow> age \<ge> timeout_ms)"

definition rnet_session_disconnected_peers :: "RNetSession \<Rightarrow> u64 \<Rightarrow> u32" where
  "rnet_session_disconnected_peers s timeout_ms =
     foldl (\<lambda>m i. if rnet_session_peer_slot_disconnected s (int i) timeout_ms then m OR push_bit i 1 else m) 0
       [0..<min (unat (slot_count (ss_cfg s))) 8]"

section \<open>Queries\<close>

definition rnet_session_input_desync :: "RNetSession \<Rightarrow> (u32 \<times> u32 \<times> u32) option" where
  "rnet_session_input_desync s =
     (let c = ss_confirm s
      in if cf_desync c then Some (cf_desync_tick c, cf_desync_local_hash c, cf_desync_remote_hash c) else None)"

definition rnet_session_local_slot :: "RNetSession \<Rightarrow> u8" where
  "rnet_session_local_slot s = local_slot (ss_cfg s)"

definition rnet_session_is_observer :: "RNetSession \<Rightarrow> bool" where
  "rnet_session_is_observer s = ss_is_observer s"

definition rnet_session_sim_tick :: "RNetSession \<Rightarrow> u32" where
  "rnet_session_sim_tick s = ss_sim_tick s"

definition rnet_session_is_running :: "RNetSession \<Rightarrow> bool" where
  "rnet_session_is_running s \<longleftrightarrow> ss_phase s = PHASE_RUNNING"

definition rnet_session_remote_tip :: "RNetSession \<Rightarrow> int \<Rightarrow> u32 option" where
  "rnet_session_remote_tip s slot =
     (if slot < 0 \<or> slot \<ge> uint (slot_count (ss_cfg s)) \<or> slot = uint (local_slot (ss_cfg s)) \<or>
         \<not> rnet_config_slot_occupied (ss_cfg s) (of_int slot) then None
      else Some (rnet_ring_highest_valid (ss_remote_rings s ! nat slot)))"

definition rnet_session_remote_arrival_age_ms :: "RNetSession \<Rightarrow> int \<Rightarrow> u32 \<Rightarrow> u32" where
  "rnet_session_remote_arrival_age_ms s slot wire_tick =
     (if slot < 0 \<or> slot \<ge> uint (slot_count (ss_cfg s)) \<or> slot = uint (local_slot (ss_cfg s)) then 0xffffffff
      else let idx = ring_slot wire_tick; ms = dg_arr_ms (ss_diag s) ! nat slot ! idx
           in if ms = 0 \<or> dg_arr_tick (ss_diag s) ! nat slot ! idx \<noteq> wire_tick then 0xffffffff
              else if ss_now s \<le> ms then 0 else ucast (ss_now s - ms))"

definition rnet_session_peek_input :: "RNetSession \<Rightarrow> int \<Rightarrow> u32 \<Rightarrow> RNetInputSample option" where
  "rnet_session_peek_input s slot wire_tick =
     (if slot < 0 \<or> slot \<ge> uint (slot_count (ss_cfg s)) then None
      else if slot = uint (local_slot (ss_cfg s)) then rnet_ring_get (ss_local_ring s) wire_tick
      else rnet_ring_get (ss_remote_rings s ! nat slot) wire_tick)"

definition rnet_session_peek_remote_input :: "RNetSession \<Rightarrow> int \<Rightarrow> u32 \<Rightarrow> RNetInputSample option" where
  "rnet_session_peek_remote_input s slot wire_tick =
     (if slot = uint (local_slot (ss_cfg s)) \<or> slot < 0 \<or> slot \<ge> uint (slot_count (ss_cfg s)) then None
      else if \<not> rnet_config_slot_occupied (ss_cfg s) (of_int slot) then Some (neutral_sample wire_tick)
      else rnet_session_peek_input s slot wire_tick)"

section \<open>The statistics\<close>

text \<open>\<^verbatim>\<open>RNetSessionStats\<close> without the fields of the ICE agents.\<close>

record RNetSessionStats =
  sn_sim_tick :: u32
  sn_delay :: u8
  sn_local_slot :: u8
  sn_slot_count :: u8
  sn_is_running :: bool
  sn_peer_gone :: bool
  sn_last_peer_rx_age_ms :: u64
  sn_highest_remote_wire :: u32
  sn_remote_lead :: "int option"
  sn_last_stall :: RNetAdmitStall
  sn_consecutive_stalls :: u32
  sn_admit_ok_count :: u32
  sn_stall_streaks :: u32
  sn_last_admit_wait_ms :: u32
  sn_max_admit_wait_ms :: u32
  sn_input_desync :: bool
  sn_desync_tick :: u32
  sn_desync_local_hash :: u32
  sn_desync_remote_hash :: u32
  sn_state_busy :: bool
  sn_state_op :: u8
  sn_state_sender :: bool
  sn_state_bytes_total :: u32
  sn_state_bytes_acked :: u32
  sn_packets_rx :: u32
  sn_input_bundle_sends :: u32
  sn_state_expect_mask :: u32
  sn_state_done_mask :: u32
  sn_state_rx_mask :: u32
  sn_state_probe_expect_mask :: u32
  sn_state_probe_reply_mask :: u32
  sn_peer_gone_mask :: u32
  sn_peer_rx_age_ms :: "u64 option list"

text \<open>The highest row of any remote seat; \<open>None\<close> while \<^verbatim>\<open>have_remote\<close> is 0.\<close>

definition highest_remote :: "RNetSession \<Rightarrow> u32 option" where
  "highest_remote s = foldl (\<lambda>best i.
       if \<not> is_remote_seat (ss_cfg s) (of_nat i) then best
       else let tip = rnet_ring_highest_valid (ss_remote_rings s ! i)
            in case best of None \<Rightarrow> Some tip | Some b \<Rightarrow> Some (if tip > b then tip else b))
     None [0..<unat (slot_count (ss_cfg s))]"

text \<open>\<^verbatim>\<open>(int)a - (int)b\<close>; \<open>None\<close> is a difference that does not fit an \<^verbatim>\<open>int\<close>, which C leaves undefined.\<close>

definition lead32 :: "u32 \<Rightarrow> u32 \<Rightarrow> int option" where
  "lead32 a b = (let d = sint a - sint b in if - (2 ^ 31) \<le> d \<and> d < 2 ^ 31 then Some d else None)"

definition stats_transfer :: "RNetSession \<Rightarrow> u8 \<times> bool \<times> u32 \<times> u32" where
  "stats_transfer s =
     (if tx_active (ss_tx s)
      then (tx_op (ss_tx s), True, tx_total (ss_tx s), state_tx_min_ack (ss_tx s))
      else case List.find rx_active (ss_rx s) of
             Some rx \<Rightarrow> (rx_op rx, False, rx_total rx, rx_contiguity rx)
           | None \<Rightarrow> (if pb_active (ss_probe s) then pb_op (ss_probe s) else 0, False, 0, 0))"

definition stats_waits :: "RNetSession \<Rightarrow> u32 \<times> u32" where
  "stats_waits s =
     (let d = ss_diag s; live = ucast (ss_now s - dg_stall_started_ms d) :: u32
      in if dg_stall_started_ms d \<noteq> 0 \<and> dg_last_stall d \<noteq> ADMIT_OK
         then (live, if live > dg_max_admit_wait_ms d then live else dg_max_admit_wait_ms d)
         else (dg_last_admit_wait_ms d, dg_max_admit_wait_ms d))"

definition rnet_session_get_stats :: "RNetSession \<Rightarrow> RNetSessionStats" where
  "rnet_session_get_stats s =
     (let cfg = ss_cfg s; c = ss_confirm s; d = ss_diag s; l = ss_live s; pb = ss_probe s; t = ss_tx s;
          (op, sender, total, acked) = stats_transfer s; (last_wait, max_wait) = stats_waits s;
          probing = pb_active pb \<and> pb_sender pb
      in \<lparr>sn_sim_tick = ss_sim_tick s, sn_delay = ss_delay s, sn_local_slot = local_slot cfg,
          sn_slot_count = slot_count cfg, sn_is_running = (ss_phase s = PHASE_RUNNING),
          sn_peer_gone = lv_peer_gone l,
          sn_last_peer_rx_age_ms = (if lv_last_peer_rx_ms l \<noteq> 0 then ss_now s - lv_last_peer_rx_ms l else 0),
          sn_highest_remote_wire = (case highest_remote s of None \<Rightarrow> 0 | Some h \<Rightarrow> h),
          sn_remote_lead = (case highest_remote s of None \<Rightarrow> Some 0 | Some h \<Rightarrow> lead32 h (ss_sim_tick s)),
          sn_last_stall = dg_last_stall d, sn_consecutive_stalls = dg_consecutive_stalls d,
          sn_admit_ok_count = dg_admit_ok_count d, sn_stall_streaks = dg_stall_streaks d,
          sn_last_admit_wait_ms = last_wait, sn_max_admit_wait_ms = max_wait,
          sn_input_desync = cf_desync c, sn_desync_tick = cf_desync_tick c,
          sn_desync_local_hash = cf_desync_local_hash c, sn_desync_remote_hash = cf_desync_remote_hash c,
          sn_state_busy = (state_any_active s \<or> pb_active pb), sn_state_op = op, sn_state_sender = sender,
          sn_state_bytes_total = total, sn_state_bytes_acked = acked, sn_packets_rx = dg_packets_rx d,
          sn_input_bundle_sends = dg_input_bundle_sends d,
          sn_state_expect_mask = (if tx_active t then tx_expect_mask t else 0),
          sn_state_done_mask = (if tx_active t then state_tx_done_mask t else 0),
          sn_state_rx_mask = foldl (\<lambda>m i. if rx_active (ss_rx s ! i) then m OR push_bit i 1 else m) 0 [0..<8],
          sn_state_probe_expect_mask = (if probing then pb_expect_mask pb else 0),
          sn_state_probe_reply_mask = (if probing then pb_reply_mask pb else 0),
          sn_peer_gone_mask = lv_peer_gone_mask l,
          sn_peer_rx_age_ms = map (\<lambda>i. rnet_session_peer_rx_age_ms s (int i)) [0..<8]\<rparr>)"

end
