(* ===== verification/RNet_Frames.thy ===== *)
theory RNet_Frames
  imports RNet_Session_Query
begin

text \<open>
  Frame lemmas: which parts of a session each group of operations can change. The state transfer and
  the probe touch the transfer state and the outbox; sending touches the outbox, the counters and the
  pacing of the bundle.
\<close>

named_theorems frame_intros

section \<open>State transfer\<close>

definition only_state :: "RNetSession \<Rightarrow> RNetSession \<Rightarrow> bool" where
  "only_state s s' \<longleftrightarrow> (\<exists>st out. s' = s\<lparr>ss_state := st, ss_out := out\<rparr>)"

lemma only_stateI: "s' = s\<lparr>ss_state := ss_state s', ss_out := ss_out s'\<rparr> \<Longrightarrow> only_state s s'"
  unfolding only_state_def by blast

lemma only_state_refl [frame_intros]: "only_state s s"
  by (rule only_stateI) simp

lemma only_state_trans: "only_state a b \<Longrightarrow> only_state b c \<Longrightarrow> only_state a c"
  unfolding only_state_def by (elim exE, hypsubst) (simp, blast)

lemma only_state_puts [frame_intros]:
  "only_state s x \<Longrightarrow> only_state s (put_tx x t)"
  "only_state s x \<Longrightarrow> only_state s (put_rx x k r)"
  "only_state s x \<Longrightarrow> only_state s (put_probe x pb)"
  "only_state s x \<Longrightarrow> only_state s (put_stall x b)"
  "only_state s x \<Longrightarrow> only_state s (put_received x k rc)"
  "only_state s x \<Longrightarrow> only_state s (x\<lparr>ss_state := st\<rparr>)"
  by (erule only_state_trans, rule only_stateI,
      simp add: put_tx_def put_rx_def put_probe_def put_stall_def put_received_def)+

lemma only_state_send [frame_intros]: "only_state s x \<Longrightarrow> only_state s (send_raw x pkt)"
  by (erule only_state_trans, rule only_stateI) (simp add: send_raw_def split: option.splits)

lemma only_state_basic [frame_intros]:
  "only_state s x \<Longrightarrow> only_state s (state_probe_clear x)"
  "only_state s x \<Longrightarrow> only_state s (state_pacing_reset x)"
  "only_state s x \<Longrightarrow> only_state s (state_pacing_on_ack_progress x)"
  "only_state s x \<Longrightarrow> only_state s (state_pacing_on_timeout x)"
  "only_state s x \<Longrightarrow> only_state s (state_pacing_remember_success x)"
  "only_state s x \<Longrightarrow> only_state s (state_recompute_stall x)"
  "only_state s x \<Longrightarrow> only_state s (state_tx_clear x)"
  "only_state s x \<Longrightarrow> only_state s (state_rx_clear x k)"
  "only_state s x \<Longrightarrow> only_state s (state_send_ack_raw x i n)"
  by (simp_all add: state_probe_clear_def state_pacing_reset_def state_pacing_on_ack_progress_def
      state_pacing_on_timeout_def state_pacing_remember_success_def state_recompute_stall_def
      state_tx_clear_def state_rx_clear_def state_send_ack_raw_def Let_def frame_intros)

lemma only_state_ack [frame_intros]: "only_state s x \<Longrightarrow> only_state s (state_rx_send_ack x k)"
  by (simp add: state_rx_send_ack_def Let_def frame_intros)

lemma only_state_ready [frame_intros]:
  "only_state s x \<Longrightarrow> only_state s (state_rx_mark_ready_if_complete x k)"
  "only_state s x \<Longrightarrow> only_state s (state_tx_mark_ready_if_complete x)"
  by (simp_all add: state_rx_mark_ready_if_complete_def state_tx_mark_ready_if_complete_def Let_def
      frame_intros split: option.splits)

lemma only_state_chunks [frame_intros]: "only_state s x \<Longrightarrow> only_state s (send_chunks n w x)"
  by (induction n arbitrary: x) (simp_all add: Let_def frame_intros split: option.split)

lemma only_state_finish [frame_intros]: "only_state s x \<Longrightarrow> only_state s (state_finish_rx x k)"
  by (simp add: state_finish_rx_def Let_def frame_intros)

text \<open>The structure of a handler: a session bound by \<open>let\<close> is itself framed, other values do not
  matter, and every branch is framed.\<close>

lemma only_state_let_session:
  "only_state s e \<Longrightarrow> (\<And>y. only_state s y \<Longrightarrow> only_state s (F y)) \<Longrightarrow> only_state s (Let e F)"
  by simp

lemma only_state_let: "(\<And>y. only_state s (F y)) \<Longrightarrow> only_state s (Let e F)"
  by simp

lemma only_state_if: "only_state s a \<Longrightarrow> only_state s b \<Longrightarrow> only_state s (if c then a else b)"
  by simp

lemma only_state_option:
  "only_state s a \<Longrightarrow> (\<And>y. only_state s (F y)) \<Longrightarrow> only_state s (case e of None \<Rightarrow> a | Some y \<Rightarrow> F y)"
  by (simp split: option.split)

lemma only_state_prod: "(\<And>a b. only_state s (F a b)) \<Longrightarrow> only_state s (case e of (a, b) \<Rightarrow> F a b)"
  by (simp split: prod.split)

lemmas frame_rules = only_state_let_session only_state_let only_state_if only_state_option only_state_prod

lemma only_state_drive_sender [frame_intros]: "only_state s x \<Longrightarrow> only_state s (state_drive_sender x)"
  unfolding state_drive_sender_def by (assumption | rule frame_rules frame_intros)+

lemma only_state_open [frame_intros]: "only_state s x \<Longrightarrow> only_state s (open_receive alloc x p)"
  unfolding open_receive_def by (assumption | rule frame_rules frame_intros)+

lemma only_state_begin [frame_intros]: "only_state s x \<Longrightarrow> only_state s (state_on_begin alloc x p)"
  unfolding state_on_begin_def by (assumption | rule frame_rules frame_intros)+

lemma only_state_chunk [frame_intros]: "only_state s x \<Longrightarrow> only_state s (state_on_chunk x p)"
  unfolding state_on_chunk_def reack_finished_def by (assumption | rule frame_rules frame_intros)+

lemma only_state_on_ack [frame_intros]: "only_state s x \<Longrightarrow> only_state s (state_on_ack x p)"
  unfolding state_on_ack_def by (assumption | rule frame_rules frame_intros)+

lemma only_state_probes [frame_intros]:
  "only_state s x \<Longrightarrow> only_state s (state_drive_probe x)"
  "only_state s x \<Longrightarrow> only_state s (state_on_probe x p)"
  "only_state s x \<Longrightarrow> only_state s (state_on_probe_reply x p)"
  "only_state s x \<Longrightarrow> only_state s (state_on_probe_done x p)"
  unfolding state_drive_probe_def state_on_probe_def state_on_probe_reply_def state_on_probe_done_def
    probe_tx_def
  by (assumption | rule frame_rules frame_intros)+

lemma only_state_packet [frame_intros]: "only_state s x \<Longrightarrow> only_state s (on_state_packet alloc x p)"
  unfolding on_state_packet_def by (assumption | rule frame_rules frame_intros)+

text \<open>Everything outside the transfer state and the outbox is unchanged.\<close>

lemma only_state_keeps:
  assumes "only_state s s'"
  shows "ss_cfg s' = ss_cfg s" "ss_local_ring s' = ss_local_ring s" "ss_remote_rings s' = ss_remote_rings s"
    "ss_phase s' = ss_phase s" "ss_sim_tick s' = ss_sim_tick s" "ss_delay s' = ss_delay s"
    "ss_is_observer s' = ss_is_observer s" "ss_confirm s' = ss_confirm s" "ss_now s' = ss_now s"
    "ss_profiles s' = ss_profiles s" "ss_input_epoch s' = ss_input_epoch s" "ss_live s' = ss_live s"
    "ss_highest_remote_ack s' = ss_highest_remote_ack s" "ss_wire_slot s' = ss_wire_slot s"
    "ss_remote_contiguous_ack s' = ss_remote_contiguous_ack s" "ss_peer_ready s' = ss_peer_ready s"
    "ss_peer_ack_tick s' = ss_peer_ack_tick s" "ss_peer_ack_seen s' = ss_peer_ack_seen s"
    "ss_diag s' = ss_diag s" "ss_ctrl s' = ss_ctrl s" "ss_delay_pending s' = ss_delay_pending s"
  using assms by (auto simp: only_state_def)

section \<open>Sending\<close>

text \<open>Sending changes the outbox, the counters and the pacing of the bundle, and nothing else.\<close>

definition only_sends :: "RNetSession \<Rightarrow> RNetSession \<Rightarrow> bool" where
  "only_sends s s' \<longleftrightarrow> (\<exists>out d ms tip v. s' = s\<lparr>ss_out := out, ss_diag := d, ss_last_input_ms := ms,
     ss_last_input_tip := tip, ss_last_input_tip_valid := v\<rparr>)"

lemma only_sends_refl [simp]: "only_sends s s"
proof -
  have "s = s\<lparr>ss_out := ss_out s, ss_diag := ss_diag s, ss_last_input_ms := ss_last_input_ms s,
     ss_last_input_tip := ss_last_input_tip s, ss_last_input_tip_valid := ss_last_input_tip_valid s\<rparr>" by simp
  then show ?thesis unfolding only_sends_def by blast
qed

lemma only_sends_trans: "only_sends a b \<Longrightarrow> only_sends b c \<Longrightarrow> only_sends a c"
  unfolding only_sends_def by (elim exE, hypsubst) (simp, blast)

lemma only_sends_keeps:
  assumes "only_sends s s'"
  shows "ss_cfg s' = ss_cfg s" "ss_local_ring s' = ss_local_ring s" "ss_remote_rings s' = ss_remote_rings s"
    "ss_phase s' = ss_phase s" "ss_sim_tick s' = ss_sim_tick s" "ss_delay s' = ss_delay s"
    "ss_is_observer s' = ss_is_observer s" "ss_confirm s' = ss_confirm s" "ss_state s' = ss_state s"
    "ss_profiles s' = ss_profiles s" "ss_now s' = ss_now s" "ss_input_epoch s' = ss_input_epoch s"
    "ss_highest_remote_ack s' = ss_highest_remote_ack s" "ss_wire_slot s' = ss_wire_slot s"
    "ss_remote_contiguous_ack s' = ss_remote_contiguous_ack s" "ss_live s' = ss_live s"
  using assms by (auto simp: only_sends_def)

lemma send_raw_only: "only_sends s (send_raw s x)"
proof -
  have "\<exists>out. send_raw s x = s\<lparr>ss_out := out\<rparr>"
    by (auto simp: send_raw_def split: option.splits intro: exI [of _ "ss_out s"])
  then obtain out where "send_raw s x = s\<lparr>ss_out := out\<rparr>" by blast
  then have "send_raw s x = s\<lparr>ss_out := out, ss_diag := ss_diag s, ss_last_input_ms := ss_last_input_ms s,
     ss_last_input_tip := ss_last_input_tip s, ss_last_input_tip_valid := ss_last_input_tip_valid s\<rparr>" by simp
  then show ?thesis unfolding only_sends_def by blast
qed

lemma count_bundle_only: "only_sends s (count_bundle s)"
proof -
  have "count_bundle s = s\<lparr>ss_out := ss_out s, ss_diag := ss_diag (count_bundle s), ss_last_input_ms := ss_last_input_ms s,
     ss_last_input_tip := ss_last_input_tip s, ss_last_input_tip_valid := ss_last_input_tip_valid s\<rparr>"
    by (simp add: count_bundle_def)
  then show ?thesis unfolding only_sends_def by blast
qed

lemma bundle_loop_only: "bundle_loop s ack tip t sent = Some y \<Longrightarrow> only_sends s (snd y)"
proof (erule bundle_loop.raw_induct [where P = "\<lambda>s ack tip t sent y. only_sends s (snd y)", rotated])
  fix loop :: "RNetSession \<Rightarrow> u32 \<Rightarrow> u32 \<Rightarrow> u32 \<Rightarrow> bool \<Rightarrow> (bool \<times> RNetSession) option" and s ack tip t sent y
  assume IH: "\<And>s ack tip t sent y. loop s ack tip t sent = Some y \<Longrightarrow> only_sends s (snd y)"
    and run: "(if t \<le> tip
      then let (fs, t') = gather (ss_local_ring s) 0 t tip
           in if fs = [] then loop s ack tip t' sent
              else case encode_bundle s ack fs of None \<Rightarrow> Some (sent, s)
                   | Some b \<Rightarrow> loop (count_bundle (send_raw s (Some b))) ack tip t' True
      else Some (sent, s)) = Some y"
  have step: "only_sends s (count_bundle (send_raw s (Some b)))" for b
    by (rule only_sends_trans [OF send_raw_only count_bundle_only])
  show "only_sends s (snd y)"
    using run by (auto split: if_splits prod.splits option.splits dest!: IH intro: only_sends_trans [OF step])
qed

lemma send_input_bundle_only: "send_input_bundle s = Inr s' \<Longrightarrow> only_sends s s'"
proof -
  assume a: "send_input_bundle s = Inr s'"
  have last: "only_sends x (x\<lparr>ss_last_input_ms := ms, ss_last_input_tip := tip, ss_last_input_tip_valid := v\<rparr>)" for x ms tip v
  proof -
    have "x\<lparr>ss_last_input_ms := ms, ss_last_input_tip := tip, ss_last_input_tip_valid := v\<rparr> =
      x\<lparr>ss_out := ss_out x, ss_diag := ss_diag x, ss_last_input_ms := ms, ss_last_input_tip := tip,
        ss_last_input_tip_valid := v\<rparr>" by simp
    then show ?thesis unfolding only_sends_def by blast
  qed
  show ?thesis
    using a by (auto simp: send_input_bundle_def Let_def split: if_splits option.splits prod.splits
        dest!: bundle_loop_only intro: only_sends_trans [OF _ last])
qed

end
