(* ===== verification/RNet_State_Net.thy ===== *)
theory RNet_State_Net
  imports RNet_State_Xfer
begin

text \<open>
  The state transfer over a network that loses, repeats and reorders datagrams: one sender, any
  number of receivers, the real encoders and the real decoder in between. What a receiver reports
  as ready is the sender's blob, byte for byte, and the sender reports completion only when every
  receiver it waits for holds all of it.
\<close>

section \<open>Datagrams\<close>

lemma finish_packet_head: "finish_packet pre cap = Some b \<Longrightarrow> b = pre @ write_u32 (rnet_proto_checksum pre)"
  by (auto simp: finish_packet_def split: if_splits)

lemma encode_msg_head:
  assumes "encode_msg cap magic sid m = Some b"
  shows "\<exists>rest. b = write_u32 magic @ write_u16 (msg_type m) @ rest"
proof -
  have input: "\<exists>rest. b = write_u32 magic @ write_u16 RNET_PKT_INPUT @ rest"
    if "rnet_proto_encode_input cap magic sid ls e a (Some fs) = Some b" for ls e a fs b
    using encode_input_body [OF that] by (auto dest: finish_packet_head)
  have acks: "\<exists>rest. b = write_u32 magic @ write_u16 RNET_PKT_INPUT @ rest"
    if h: "rnet_proto_encode_input_acks cap magic sid ls e a (Some fs) (Some as) = Some b"
    for ls e a fs as
  proof -
    from h obtain out where out: "rnet_proto_encode_input cap magic sid ls e a (Some fs) = Some out"
      and fin: "finish_packet (take (length out - 4) out @ [of_nat (length as)] @
         concat (map write_u32 as)) cap = Some b"
      by (auto simp: rnet_proto_encode_input_acks_def split: if_splits option.splits)
    from encode_input_body [OF out] obtain body where
      "finish_packet (write_u32 magic @ write_u16 RNET_PKT_INPUT @ write_u32 sid @ body) cap = Some out"
      by auto
    then have "take (length out - 4) out = write_u32 magic @ write_u16 RNET_PKT_INPUT @ write_u32 sid @ body"
      by (rule finish_packet_prefix)
    with fin show ?thesis by (auto dest: finish_packet_head)
  qed
  show ?thesis
    using assms input acks
    by (cases m)
      (auto simp: encode_fixed rnet_proto_encode_state_chunk_def rnet_proto_encode_rb_seal_rows_def
        rnet_proto_encode_modset_def rnet_proto_encode_modset_ack_def Let_def
        split: if_splits dest!: finish_packet_head)
qed

text \<open>A datagram that is not a rollback control packet goes out as it is.\<close>

lemma send_raw_plain:
  assumes "encode_msg cap magic sid m = Some b" "\<not> rnet_proto_is_rb_control (msg_type m)"
  shows "send_raw s (Some b) = s\<lparr>ss_out := ss_out s @ [b]\<rparr>"
proof -
  obtain rest where b: "b = write_u32 magic @ write_u16 (msg_type m) @ rest"
    using encode_msg_head [OF assms(1)] by blast
  have "(ucast (b ! 4) OR push_bit 8 (ucast (b ! 5)) :: u16) = msg_type m"
    unfolding b by (simp add: write_u32_def write_u16_def)
  with assms(2) show ?thesis by (simp add: send_raw_def)
qed

section \<open>What travels\<close>

text \<open>\<open>emits P s s'\<close>: from \<open>s\<close> to \<open>s'\<close> only datagrams of messages in \<open>P\<close> were sent, and the identity
  of the session is unchanged.\<close>

definition encodes :: "RNetSession \<Rightarrow> rnet_msg \<Rightarrow> bytes \<Rightarrow> bool" where
  "encodes s m b \<longleftrightarrow>
     (\<exists>cap. encode_msg cap (protocol_magic (ss_cfg s)) (session_id (ss_cfg s)) m = Some b)"

definition emits :: "(rnet_msg \<Rightarrow> bool) \<Rightarrow> RNetSession \<Rightarrow> RNetSession \<Rightarrow> bool" where
  "emits P s s' \<longleftrightarrow> ss_cfg s' = ss_cfg s \<and> ss_wire_slot s' = ss_wire_slot s \<and>
     (\<exists>bs. ss_out s' = ss_out s @ bs \<and> (\<forall>b \<in> set bs. \<exists>m. P m \<and> encodes s m b))"

lemma emits_same:
  "ss_cfg s' = ss_cfg s \<Longrightarrow> ss_wire_slot s' = ss_wire_slot s \<Longrightarrow> ss_out s' = ss_out s \<Longrightarrow> emits P s s'"
  by (simp add: emits_def)

lemma emits_trans: "emits P a b \<Longrightarrow> emits P b c \<Longrightarrow> emits P a c"
  unfolding emits_def encodes_def by (elim conjE exE) (simp add: ball_Un)

lemma emits_mono: "emits P s s' \<Longrightarrow> (\<And>m. P m \<Longrightarrow> Q m) \<Longrightarrow> emits Q s s'"
  unfolding emits_def by blast

text \<open>Sending one plain message.\<close>

lemma emits_send:
  assumes "P m" "\<not> rnet_proto_is_rb_control (msg_type m)"
    and "pkt = encode_msg cap (protocol_magic (ss_cfg s)) (session_id (ss_cfg s)) m"
  shows "emits P s (send_raw s pkt)" "\<exists>bs. send_raw s pkt = s\<lparr>ss_out := ss_out s @ bs\<rparr>"
proof -
  have "emits P s (send_raw s pkt) \<and> (\<exists>bs. send_raw s pkt = s\<lparr>ss_out := ss_out s @ bs\<rparr>)"
  proof (cases pkt)
    case None
    then show ?thesis by (auto simp: send_raw_def emits_def intro: exI [of _ "[]"])
  next
    case (Some b)
    then have e: "encode_msg cap (protocol_magic (ss_cfg s)) (session_id (ss_cfg s)) m = Some b"
      using assms(3) by simp
    have eq: "send_raw s pkt = s\<lparr>ss_out := ss_out s @ [b]\<rparr>"
      unfolding Some by (rule send_raw_plain [OF e assms(2)])
    have "encodes s m b" using e by (auto simp: encodes_def)
    then show ?thesis using assms(1) by (auto simp: eq emits_def)
  qed
  then show "emits P s (send_raw s pkt)" "\<exists>bs. send_raw s pkt = s\<lparr>ss_out := ss_out s @ bs\<rparr>" by auto
qed

text \<open>The blob and its chunks, and the positions a cursor or watermark can take.\<close>

definition chunk_at :: "bytes \<Rightarrow> nat \<Rightarrow> bytes" where
  "chunk_at d i = take 1120 (drop (1120 * i) d)"

definition aligned :: "bytes \<Rightarrow> nat \<Rightarrow> bool" where
  "aligned d n \<longleftrightarrow> n \<le> length d \<and> (1120 dvd n \<or> n = length d)"

record xfer =
  xf_src :: u8
  xf_op :: u8
  xf_slot :: u8
  xf_id :: u32
  xf_data :: bytes

definition xfer_ok :: "xfer \<Rightarrow> bool" where
  "xfer_ok x \<longleftrightarrow> xf_src x < 8 \<and> xf_id x \<noteq> 0 \<and> 0 < length (xf_data x) \<and> length (xf_data x) \<le> 8388608"

text \<open>\<open>held r\<close> is how many bytes receiver \<open>r\<close> holds without a gap.\<close>

fun genuine_msg :: "xfer \<Rightarrow> (u8 \<Rightarrow> nat) \<Rightarrow> rnet_msg \<Rightarrow> bool" where
  "genuine_msg x held (StateBegin ls opc sl xid tot crc) \<longleftrightarrow>
     ls = xf_src x \<and> opc = xf_op x \<and> sl = xf_slot x \<and> xid = xf_id x \<and>
     tot = of_nat (length (xf_data x)) \<and> crc = rnet_proto_checksum (xf_data x)"
| "genuine_msg x held (StateChunk ls xid off d) \<longleftrightarrow>
     ls = xf_src x \<and> xid = xf_id x \<and>
     (\<exists>i. 1120 * i < length (xf_data x) \<and> off = of_nat (1120 * i) \<and> d = chunk_at (xf_data x) i)"
| "genuine_msg x held (StateAck r xid n) \<longleftrightarrow>
     xid = xf_id x \<and> r \<noteq> xf_src x \<and> aligned (xf_data x) (unat n) \<and> unat n \<le> held r"
| "genuine_msg x held _ \<longleftrightarrow> False"

lemma genuine_mono:
  "genuine_msg x held m \<Longrightarrow> (\<And>r. held r \<le> held' r) \<Longrightarrow> genuine_msg x held' m"
  by (cases "(x, held, m)" rule: genuine_msg.cases) (auto intro: order_trans)

lemma genuine_plain: "genuine_msg x held m \<Longrightarrow> msg_ok m \<and> \<not> rnet_proto_is_rb_control (msg_type m)"
  by (cases "(x, held, m)" rule: genuine_msg.cases) (auto simp: rnet_proto_is_rb_control_def)

lemma xfer_len: "xfer_ok x \<Longrightarrow> n \<le> length (xf_data x) \<Longrightarrow> unat (of_nat n :: u32) = n"
  by (simp add: xfer_ok_def unat_of_nat take_bit_nat_eq_self)

lemma put_simps [simp]:
  "ss_tx (put_tx s t) = t" "ss_rx (put_tx s t) = ss_rx s" "ss_cfg (put_tx s t) = ss_cfg s"
  "ss_wire_slot (put_tx s t) = ss_wire_slot s" "ss_out (put_tx s t) = ss_out s"
  "ss_now (put_tx s t) = ss_now s" "st_received (ss_state (put_tx s t)) = st_received (ss_state s)"
  "ss_mode (put_tx s t) = ss_mode s"
  "ss_rx (put_rx s k rx) = (ss_rx s)[k := rx]" "ss_cfg (put_rx s k rx) = ss_cfg s"
  "ss_wire_slot (put_rx s k rx) = ss_wire_slot s" "ss_out (put_rx s k rx) = ss_out s"
  "ss_now (put_rx s k rx) = ss_now s" "st_received (ss_state (put_rx s k rx)) = st_received (ss_state s)"
  "ss_mode (put_rx s k rx) = ss_mode s"
  by (simp_all add: put_tx_def put_rx_def)

section \<open>The sender\<close>

definition snd_ok :: "xfer \<Rightarrow> (u8 \<Rightarrow> nat) \<Rightarrow> RNetSession \<Rightarrow> bool" where
  "snd_ok x held s \<longleftrightarrow> ss_wire_slot s = xf_src x \<and>
     (let t = ss_tx s in
      tx_active t \<and> tx_op t = xf_op x \<and> tx_slot t = xf_slot x \<and> tx_xfer_id t = xf_id x \<and>
      tx_buf t = Some (xf_data x) \<and> tx_total t = of_nat (length (xf_data x)) \<and>
      tx_crc t = rnet_proto_checksum (xf_data x) \<and> length (tx_ack t) = 8 \<and>
      aligned (xf_data x) (unat (tx_send_cursor t)) \<and>
      (\<forall>r < 8. expects t r \<longrightarrow> of_nat r \<noteq> xf_src x \<and> aligned (xf_data x) (unat (tx_ack t ! r)) \<and>
         unat (tx_ack t ! r) \<le> held (of_nat r)) \<and>
      (tx_ready t \<longrightarrow> (\<forall>r < 8. expects t r \<longrightarrow> held (of_nat r) = length (xf_data x))))"

text \<open>Changing only pacing, timers and the cursor keeps the invariant.\<close>

definition same_xfer :: "RNetStateTx \<Rightarrow> RNetStateTx \<Rightarrow> bool" where
  "same_xfer t t' \<longleftrightarrow> tx_active t' = tx_active t \<and> tx_ready t' = tx_ready t \<and> tx_op t' = tx_op t \<and>
     tx_slot t' = tx_slot t \<and> tx_xfer_id t' = tx_xfer_id t \<and> tx_buf t' = tx_buf t \<and>
     tx_total t' = tx_total t \<and> tx_crc t' = tx_crc t \<and> tx_ack t' = tx_ack t \<and>
     tx_expect_mask t' = tx_expect_mask t"

lemma expects_same: "same_xfer t t' \<Longrightarrow> expects t' r = expects t r"
  by (simp add: same_xfer_def expects_def)

lemma min_ack_same: "same_xfer t t' \<Longrightarrow> state_tx_min_ack t' = state_tx_min_ack t"
  by (simp add: state_tx_min_ack_def expects_def same_xfer_def cong: if_cong)

lemma snd_ok_same:
  assumes "snd_ok x held s" "same_xfer (ss_tx s) (ss_tx s')" "ss_wire_slot s' = ss_wire_slot s"
    and "aligned (xf_data x) (unat (tx_send_cursor (ss_tx s')))"
  shows "snd_ok x held s'"
  using assms expects_same [OF assms(2)] by (auto simp: snd_ok_def same_xfer_def Let_def)

lemma snd_ok_keep:
  assumes "snd_ok x held s"
    and "same_xfer (ss_tx s) (ss_tx s') \<and> tx_send_cursor (ss_tx s') = tx_send_cursor (ss_tx s) \<and> emits P s s'"
  shows "snd_ok x held s'"
  using assms snd_ok_same [OF assms(1), of s'] by (auto simp: emits_def snd_ok_def Let_def)

lemma snd_ok_put:
  "snd_ok x held s \<Longrightarrow> same_xfer (ss_tx s) t \<Longrightarrow> aligned (xf_data x) (unat (tx_send_cursor t)) \<Longrightarrow>
     snd_ok x held (put_tx s t) \<and> emits P s (put_tx s t)"
  by (simp add: emits_same snd_ok_same [of x held s])

lemma snd_okD:
  assumes "snd_ok x held s"
  shows "aligned (xf_data x) (unat (tx_send_cursor (ss_tx s)))"
    "\<forall>r < 8. expects (ss_tx s) r \<longrightarrow> aligned (xf_data x) (unat (tx_ack (ss_tx s) ! r))"
    "tx_total (ss_tx s) = of_nat (length (xf_data x))"
  using assms by (auto simp: snd_ok_def Let_def)

lemma min_ack_props:
  "(\<forall>r < 8. expects t r \<longrightarrow> state_tx_min_ack t \<le> tx_ack t ! r) \<and> state_tx_min_ack t \<le> tx_total t \<and>
   (state_tx_min_ack t = tx_total t \<or> (\<exists>r < 8. expects t r \<and> state_tx_min_ack t = tx_ack t ! r))"
proof -
  let ?f = "\<lambda>m r. if expects t r \<and> tx_ack t ! r < m then tx_ack t ! r else m"
  have "(\<forall>r < n. expects t r \<longrightarrow> foldl ?f a [0..<n] \<le> tx_ack t ! r) \<and> foldl ?f a [0..<n] \<le> a \<and>
      (foldl ?f a [0..<n] = a \<or> (\<exists>r < n. expects t r \<and> foldl ?f a [0..<n] = tx_ack t ! r))" for a n
  proof (induction n)
    case (Suc n)
    then show ?case by (auto simp: less_Suc_eq intro: order_trans dest: less_imp_le)
  qed simp
  from this [of 8 "tx_total t"] show ?thesis by (simp add: state_tx_min_ack_def)
qed

lemma min_ack_aligned: "snd_ok x held s \<Longrightarrow> xfer_ok x \<Longrightarrow> aligned (xf_data x) (unat (state_tx_min_ack (ss_tx s)))"
  using min_ack_props [of "ss_tx s"] xfer_len [of x "length (xf_data x)"]
  by (auto simp: snd_ok_def Let_def aligned_def)

lemma pacing_same:
  "same_xfer (ss_tx s) (ss_tx (state_pacing_reset s)) \<and>
     tx_send_cursor (ss_tx (state_pacing_reset s)) = tx_send_cursor (ss_tx s) \<and>
     emits P s (state_pacing_reset s)"
  "same_xfer (ss_tx s) (ss_tx (state_pacing_on_ack_progress s)) \<and>
     tx_send_cursor (ss_tx (state_pacing_on_ack_progress s)) = tx_send_cursor (ss_tx s) \<and>
     emits P s (state_pacing_on_ack_progress s)"
  "same_xfer (ss_tx s) (ss_tx (state_pacing_on_timeout s)) \<and>
     tx_send_cursor (ss_tx (state_pacing_on_timeout s)) = tx_send_cursor (ss_tx s) \<and>
     emits P s (state_pacing_on_timeout s)"
  "same_xfer (ss_tx s) (ss_tx (state_pacing_remember_success s)) \<and>
     tx_send_cursor (ss_tx (state_pacing_remember_success s)) = tx_send_cursor (ss_tx s) \<and>
     emits P s (state_pacing_remember_success s)"
  by (auto simp: same_xfer_def emits_same state_pacing_reset_def state_pacing_on_ack_progress_def
      state_pacing_on_timeout_def state_pacing_remember_success_def put_tx_def Let_def)

lemma snd_ok_ready:
  assumes "snd_ok x held s" "xfer_ok x"
    and "\<And>r. held r \<le> length (xf_data x)"
  shows "snd_ok x held (state_tx_mark_ready_if_complete s) \<and>
    emits P s (state_tx_mark_ready_if_complete s)"
proof (cases "tx_ready (ss_tx s) \<or> state_tx_min_ack (ss_tx s) < tx_total (ss_tx s)")
  case True
  then have "state_tx_mark_ready_if_complete s = s"
    by (auto simp: state_tx_mark_ready_if_complete_def Let_def not_le)
  with assms show ?thesis by (simp add: emits_same)
next
  case False
  let ?s = "put_tx s ((ss_tx s)\<lparr>tx_ready := True\<rparr>)"
  have eq: "state_tx_mark_ready_if_complete s = state_pacing_remember_success ?s"
    using False assms(1) by (auto simp: state_tx_mark_ready_if_complete_def Let_def snd_ok_def)
  have full: "held (of_nat r) = length (xf_data x)" if "r < 8" "expects (ss_tx s) r" for r
  proof -
    have "tx_total (ss_tx s) \<le> tx_ack (ss_tx s) ! r"
      using min_ack_props [of "ss_tx s"] False that by (meson not_less order_trans)
    then have "length (xf_data x) \<le> unat (tx_ack (ss_tx s) ! r)"
      using assms(1) xfer_len [OF assms(2) order_refl] by (simp add: snd_ok_def Let_def word_le_nat_alt)
    also have "\<dots> \<le> held (of_nat r)" using assms(1) that by (simp add: snd_ok_def Let_def)
    finally show ?thesis using assms(3) [of "of_nat r"] by simp
  qed
  have "snd_ok x held ?s"
    using assms(1) full by (auto simp: snd_ok_def Let_def expects_def)
  from snd_ok_keep [OF this pacing_same(4)] pacing_same(4) [of ?s]
  show ?thesis
    unfolding eq using emits_trans [of P s ?s "state_pacing_remember_success ?s"]
    by (simp add: emits_same)
qed

lemma send_chunks_ok:
  assumes "snd_ok x held s" "xfer_ok x" "unat window_end \<le> length (xf_data x)"
  shows "snd_ok x held (send_chunks n window_end s) \<and>
    emits (genuine_msg x held) s (send_chunks n window_end s)"
  using assms(1)
proof (induction n arbitrary: s)
  case 0
  then show ?case by (simp add: emits_same)
next
  case (Suc n)
  let ?t = "ss_tx s" and ?off = "tx_send_cursor (ss_tx s)"
  show ?case
  proof (cases "?off < window_end")
    case False
    then show ?thesis using Suc.prems by (simp add: emits_same Let_def)
  next
    case True
    let ?left = "tx_total ?t - ?off"
    define c where "c = (if ?left > 1120 then 1120 else ?left)"
    let ?data = "take (unat c) (drop (unat ?off) (xf_data x))"
    have t: "tx_total ?t = of_nat (length (xf_data x))" "tx_buf ?t = Some (xf_data x)"
      "tx_xfer_id ?t = xf_id x" "ss_wire_slot s = xf_src x" "aligned (xf_data x) (unat ?off)"
      using Suc.prems by (auto simp: snd_ok_def Let_def)
    have less: "unat ?off < length (xf_data x)"
      using True assms(3) by (simp add: word_less_nat_alt)
    then obtain i where i: "unat ?off = 1120 * i" using t(5) by (auto simp: aligned_def elim: dvdE)
    have total: "unat (tx_total ?t) = length (xf_data x)" using xfer_len [OF assms(2) order_refl] t(1) by simp
    have left: "unat ?left = length (xf_data x) - unat ?off"
      using less total by (simp add: unat_sub word_le_nat_alt)
    have chunk: "unat c = min 1120 (length (xf_data x) - unat ?off)"
      using left by (simp add: c_def word_less_nat_alt)
    have data: "?data = chunk_at (xf_data x) i"
      unfolding chunk i chunk_at_def by (simp add: min_def)
    have off: "?off = of_nat (1120 * i)" by (simp flip: i)
    have g: "genuine_msg x held (StateChunk (xf_src x) (xf_id x) ?off ?data)"
      using less i off data by auto
    let ?m = "StateChunk (xf_src x) (xf_id x) ?off ?data"
    have buf: "(case tx_buf ?t of None \<Rightarrow> [] | Some b \<Rightarrow> b) = xf_data x" by (simp add: t(2))
    have unfold: "send_chunks (Suc n) window_end s =
        (case encode_msg RNET_MAX_PACKET (protocol_magic (ss_cfg s)) (session_id (ss_cfg s)) ?m of
           None \<Rightarrow> s
         | Some b \<Rightarrow> send_chunks n window_end (put_tx (send_raw s (Some b))
             ((ss_tx (send_raw s (Some b)))\<lparr>tx_send_cursor := ?off + c\<rparr>)))"
      unfolding send_chunks.simps Let_def buf encode_msg.simps c_def t(3,4)
      by (simp only: True not_True_eq_False if_False)
    show ?thesis
    proof (cases "encode_msg RNET_MAX_PACKET (protocol_magic (ss_cfg s)) (session_id (ss_cfg s)) ?m")
      case None
      then have "send_chunks (Suc n) window_end s = s"
        unfolding unfold by simp
      then show ?thesis using Suc.prems by (simp add: emits_same)
    next
      case (Some b)
      have raw: "send_raw s (Some b) = s\<lparr>ss_out := ss_out s @ [b]\<rparr>"
        by (rule send_raw_plain [OF Some]) (simp add: rnet_proto_is_rb_control_def)
      let ?s = "put_tx (s\<lparr>ss_out := ss_out s @ [b]\<rparr>) (?t\<lparr>tx_send_cursor := ?off + c\<rparr>)"
      have step: "send_chunks (Suc n) window_end s = send_chunks n window_end ?s"
        unfolding unfold using Some raw by simp
      have sum: "unat ?off + unat c \<le> length (xf_data x)" using chunk less by simp
      have "unat (?off + c) = unat ?off + unat c"
        using sum assms(2) by (simp add: xfer_ok_def unat_word_ariths take_bit_eq_mod)
      then have al: "aligned (xf_data x) (unat (?off + c))"
        using chunk less i by (auto simp: aligned_def min_def)
      have ok: "snd_ok x held ?s"
        by (rule snd_ok_same [OF Suc.prems]) (use al in \<open>simp_all add: same_xfer_def\<close>)
      have "emits (genuine_msg x held) s ?s"
        using g Some by (auto simp: emits_def encodes_def intro!: exI [of _ ?m])
      with Suc.IH [OF ok] show ?thesis unfolding step by (auto intro: emits_trans)
    qed
  qed
qed

lemma timeouts_aligned:
  assumes "\<forall>r < 8. expects t r \<longrightarrow> aligned d (unat (tx_ack t ! r))" "set rs \<subseteq> {..<8}"
    and "aligned d (unat (fst acc))"
  shows "aligned d (unat (fst (foldl (timeout_receiver t m now tmo) acc rs)))"
  using assms(2,3)
proof (induction rs arbitrary: acc)
  case (Cons r rs)
  have "aligned d (unat (fst (timeout_receiver t m now tmo acc r)))"
    using assms(1) Cons.prems by (cases acc) (auto simp: timeout_receiver_def Let_def)
  with Cons show ?case by simp
qed simp

lemma send_begin_ok:
  assumes "snd_ok x held s"
  shows "snd_ok x held (send_raw s (encode_begin cap s)) \<and>
    emits (genuine_msg x held) s (send_raw s (encode_begin cap s)) \<and>
    ss_tx (send_raw s (encode_begin cap s)) = ss_tx s"
proof -
  let ?m = "StateBegin (xf_src x) (xf_op x) (xf_slot x) (xf_id x) (of_nat (length (xf_data x)))
     (rnet_proto_checksum (xf_data x))"
  have enc: "encode_begin cap s = encode_msg cap (protocol_magic (ss_cfg s)) (session_id (ss_cfg s)) ?m"
    using assms by (simp add: encode_begin_def snd_ok_def Let_def)
  have g: "genuine_msg x held ?m" and np: "\<not> rnet_proto_is_rb_control (msg_type ?m)"
    by (simp_all add: rnet_proto_is_rb_control_def)
  obtain bs where bs: "send_raw s (encode_begin cap s) = s\<lparr>ss_out := ss_out s @ bs\<rparr>"
    using emits_send(2) [of "genuine_msg x held", OF g np enc] by blast
  show ?thesis
    using emits_send(1) [of "genuine_msg x held", OF g np enc] assms by (simp add: bs snd_ok_def Let_def)
qed

lemma drive_sender_ok:
  assumes "snd_ok x held s" "xfer_ok x" "\<And>r. held r \<le> length (xf_data x)"
  shows "snd_ok x held (state_drive_sender s) \<and> emits (genuine_msg x held) s (state_drive_sender s)"
proof (cases "tx_ready (ss_tx s)")
  case True
  then have "state_drive_sender s = s" by (simp add: state_drive_sender_def Let_def)
  then show ?thesis using assms(1) by (simp add: emits_same)
next
  case False
  let ?G = "genuine_msg x held"
  have act: "\<not> (\<not> tx_active (ss_tx s) \<or> tx_ready (ss_tx s) \<or> tx_buf (ss_tx s) = None)"
    using assms(1) False by (simp add: snd_ok_def Let_def)
  define s1 where "s1 = (if tx_cwnd (ss_tx s) = 0 \<or> tx_chunks_cap (ss_tx s) = 0
    then state_pacing_reset s else s)"
  have 1: "snd_ok x held s1 \<and> emits ?G s s1"
    using snd_ok_keep [OF assms(1) pacing_same(1)] pacing_same(1) [of s] assms(1)
    by (simp add: s1_def emits_same)
  define nb where "nb \<longleftrightarrow> list_ex (\<lambda>r. expects (ss_tx s1) r \<and> tx_ack (ss_tx s1) ! r = 0) [0..<8] \<and>
    (tx_last_begin_ms (ss_tx s1) = 0 \<or> ss_now s - tx_last_begin_ms (ss_tx s1) \<ge>
       (if state_transport_is_ice s then 80 else 40))"
  define s2 where "s2 = (if nb then put_tx (send_raw s1 (encode_begin RNET_MAX_PACKET s1))
    ((ss_tx (send_raw s1 (encode_begin RNET_MAX_PACKET s1)))\<lparr>tx_last_begin_ms := ss_now s\<rparr>) else s1)"
  have 2: "snd_ok x held s2 \<and> emits ?G s s2"
  proof (cases nb)
    case True
    let ?r = "send_raw s1 (encode_begin RNET_MAX_PACKET s1)"
    have r: "snd_ok x held ?r" "emits ?G s1 ?r" using send_begin_ok [of x held s1] 1 by auto
    have "snd_ok x held s2 \<and> emits ?G ?r s2" unfolding s2_def if_P [OF True]
      by (rule snd_ok_put [OF r(1)]) (use snd_okD(1) [OF r(1)] in \<open>simp_all add: same_xfer_def\<close>)
    then show ?thesis using 1 r by (blast intro: emits_trans)
  qed (use 1 s2_def in simp)
  define min_ack where "min_ack = state_tx_min_ack (ss_tx s2)"
  define tmo :: u64 where "tmo = (if tx_ack_timeout_ms (ss_tx s1) = 0
    then (if state_transport_is_ice s then 80 else 40) else ucast (tx_ack_timeout_ms (ss_tx s1)))"
  obtain cursor timers backoff where f: "foldl (timeout_receiver (ss_tx s2) min_ack (ss_now s) tmo)
      (tx_send_cursor (ss_tx s2), tx_ack_timer_ms (ss_tx s2), False) [0..<8] = (cursor, timers, backoff)"
    by (metis prod_cases3)
  define s3 where "s3 = put_tx s2 ((ss_tx s2)\<lparr>tx_send_cursor := cursor, tx_ack_timer_ms := timers\<rparr>)"
  define s4 where "s4 = (if backoff then state_pacing_on_timeout s3 else s3)"
  define s5 where "s5 = (if tx_send_cursor (ss_tx s4) < min_ack
    then put_tx s4 ((ss_tx s4)\<lparr>tx_send_cursor := min_ack\<rparr>) else s4)"
  define window_end where "window_end = (if min_ack + tx_cwnd (ss_tx s4) > tx_total (ss_tx s4)
    then tx_total (ss_tx s4) else min_ack + tx_cwnd (ss_tx s4))"
  define s6 where "s6 = send_chunks (unat (tx_chunks_cap (ss_tx s4))) window_end s5"
  have eq: "state_drive_sender s = (if min_ack \<ge> tx_total (ss_tx s2) then state_tx_mark_ready_if_complete s2
      else state_tx_mark_ready_if_complete (put_tx s6 ((ss_tx s6)\<lparr>tx_last_tx_ms := ss_now s\<rparr>)))"
    unfolding state_drive_sender_def Let_def if_not_P [OF act] s1_def [symmetric] nb_def [symmetric]
      s2_def [symmetric] min_ack_def [symmetric] tmo_def [symmetric] f prod.case s3_def [symmetric]
      s4_def [symmetric] s5_def [symmetric] window_end_def [symmetric] s6_def [symmetric] ..
  have ok2: "snd_ok x held s2" and e2: "emits ?G s s2" using 2 by auto
  have ma: "aligned (xf_data x) (unat min_ack)"
    unfolding min_ack_def by (rule min_ack_aligned [OF ok2 assms(2)])
  have sub: "set [0..<8] \<subseteq> {..<8 :: nat}" by auto
  have "aligned (xf_data x) (unat cursor)"
    using timeouts_aligned [OF snd_okD(2) [OF ok2] sub, of
        "(tx_send_cursor (ss_tx s2), tx_ack_timer_ms (ss_tx s2), False)" min_ack "ss_now s" tmo]
      snd_okD(1) [OF ok2] f by simp
  then have 3: "snd_ok x held s3" "emits ?G s2 s3"
    using snd_ok_put [OF ok2] by (simp_all add: s3_def same_xfer_def)
  have 4: "snd_ok x held s4" "emits ?G s3 s4"
    using snd_ok_keep [OF 3(1) pacing_same(3)] pacing_same(3) [of s3] 3(1)
    by (simp_all add: s4_def emits_same)
  have 5: "snd_ok x held s5" "emits ?G s4 s5"
    using snd_ok_put [OF 4(1), of "(ss_tx s4)\<lparr>tx_send_cursor := min_ack\<rparr>"] ma 4(1)
    by (auto simp: s5_def same_xfer_def emits_same)
  have "window_end \<le> tx_total (ss_tx s4)" by (simp add: window_end_def not_less)
  then have "unat window_end \<le> length (xf_data x)"
    using xfer_len [OF assms(2) order_refl] snd_okD(3) [OF 4(1)] by (simp add: word_le_nat_alt)
  then have 6: "snd_ok x held s6" "emits ?G s5 s6"
    using send_chunks_ok [OF 5(1) assms(2)] by (auto simp: s6_def)
  let ?s7 = "put_tx s6 ((ss_tx s6)\<lparr>tx_last_tx_ms := ss_now s\<rparr>)"
  have 7: "snd_ok x held ?s7" "emits ?G s6 ?s7"
    using snd_ok_put [OF 6(1), of "(ss_tx s6)\<lparr>tx_last_tx_ms := ss_now s\<rparr>"] snd_okD(1) [OF 6(1)]
    by (auto simp: same_xfer_def)
  have e7: "emits ?G s ?s7" using e2 3 4 5 6 7 by (blast intro: emits_trans)
  show ?thesis
    unfolding eq using snd_ok_ready [OF ok2 assms(2,3)] snd_ok_ready [OF 7(1) assms(2,3)] e2 e7
    by (auto intro: emits_trans)
qed

lemma snd_ok_mono:
  assumes "snd_ok x held s" "\<And>r. held r \<le> held' r" "\<And>r. held' r \<le> length (xf_data x)"
  shows "snd_ok x held' s"
proof -
  have "held' (of_nat r) = length (xf_data x)" if "held (of_nat r) = length (xf_data x)" for r :: nat
    using assms(2) [of "of_nat r"] assms(3) [of "of_nat r"] that by simp
  then show ?thesis
    using assms(1) order_trans [OF _ assms(2)] by (fastforce simp: snd_ok_def Let_def)
qed

lemma on_ack_ok:
  assumes "snd_ok x held s" "xfer_ok x" "\<And>r. held r \<le> length (xf_data x)"
    and "genuine_msg x held (StateAck r xid n)"
  shows "snd_ok x held (state_on_ack s (msg_packet sid (StateAck r xid n))) \<and>
    emits P s (state_on_ack s (msg_packet sid (StateAck r xid n)))"
proof (cases "r < 8 \<and> expects (ss_tx s) (unat r)")
  case False
  then have "state_on_ack s (msg_packet sid (StateAck r xid n)) = s"
    by (auto simp: state_on_ack_def msg_packet_def Let_def)
  then show ?thesis using assms(1) by (simp add: emits_same)
next
  case True
  let ?t = "ss_tx s"
  have g: "xid = xf_id x" "aligned (xf_data x) (unat n)" "unat n \<le> held r" using assms(4) by auto
  have tot: "unat (tx_total ?t) = length (xf_data x)"
    using snd_okD(3) [OF assms(1)] xfer_len [OF assms(2) order_refl] by simp
  have clamp: "(if n > tx_total ?t then tx_total ?t else n) = n"
    using g(2) tot by (simp add: aligned_def word_less_nat_alt)
  have r: "unat r < 8" "of_nat (unat r) = r" using True by (auto simp: word_less_nat_alt)
  define s1 where "s1 = (if n > tx_ack ?t ! unat r
     then put_tx s (?t\<lparr>tx_ack := (tx_ack ?t)[unat r := n],
        tx_ack_timer_ms := (tx_ack_timer_ms ?t)[unat r := stamp (ss_now s)], tx_last_tx_ms := 0\<rparr>) else s)"
  have 1: "snd_ok x held s1" "emits P s s1"
    using assms(1) g r by (auto simp: s1_def snd_ok_def Let_def expects_def nth_list_update emits_same)
  define s2 where "s2 = (if n > tx_ack ?t ! unat r \<and> state_tx_min_ack (ss_tx s1) > state_tx_min_ack ?t
     then state_pacing_on_ack_progress s1 else s1)"
  have 2: "snd_ok x held s2" "emits P s1 s2"
    using snd_ok_keep [OF 1(1) pacing_same(2)] pacing_same(2) [of s1] 1(1)
    by (simp_all add: s2_def emits_same)
  have "state_on_ack s (msg_packet sid (StateAck r xid n)) = state_tx_mark_ready_if_complete s2"
    using True assms(1) g(1) clamp
    by (auto simp: state_on_ack_def msg_packet_def Let_def s2_def s1_def snd_ok_def not_le)
  with snd_ok_ready [OF 2(1) assms(2,3), of P] 1 2 show ?thesis by (auto intro: emits_trans)
qed

section \<open>A receiver\<close>

text \<open>How many bytes a receiver holds without a gap, of the transfer from \<open>src\<close>.\<close>

definition rx_held :: "u8 \<Rightarrow> RNetSession \<Rightarrow> nat" where
  "rx_held src s = (let rx = ss_rx s ! unat src in if rx_active rx then unat (rx_contiguity rx) else 0)"

definition rx_good :: "xfer \<Rightarrow> RNetStateRx \<Rightarrow> bool" where
  "rx_good x rx \<longleftrightarrow> rx_active rx \<and> rx_xfer_id rx = xf_id x \<and>
     rx_total rx = of_nat (length (xf_data x)) \<and> rx_crc rx = rnet_proto_checksum (xf_data x) \<and>
     aligned (xf_data x) (unat (rx_contiguity rx)) \<and>
     (\<forall>i. 1120 * i < unat (rx_contiguity rx) \<longrightarrow> i \<in> rx_bits rx) \<and>
     (\<exists>buf. rx_buf rx = Some buf \<and> length buf = length (xf_data x) \<and>
        (\<forall>i \<in> rx_bits rx. chunk_at buf i = chunk_at (xf_data x) i))"

definition rcv_ok :: "xfer \<Rightarrow> RNetSession \<Rightarrow> bool" where
  "rcv_ok x s \<longleftrightarrow> length (ss_rx s) = 8 \<and> length (st_received (ss_state s)) = 8 \<and>
     ss_wire_slot s \<noteq> xf_src x \<and>
     (let rx = ss_rx s ! unat (xf_src x); rec = st_received (ss_state s) ! unat (xf_src x) in
        sr_id rec = 0 \<and> \<not> rx_active rx \<or>
        sr_id rec = xf_id x \<and> \<not> sr_finished rec \<and> rx_good x rx \<and>
          (rx_ready rx \<longleftrightarrow> rx_contiguity rx = rx_total rx))"

text \<open>Equal chunks make equal blobs.\<close>

lemma chunks_prefix:
  assumes "length a = length b" "\<forall>i. 1120 * i < n \<longrightarrow> chunk_at a i = chunk_at b i" "aligned b n"
  shows "take n a = take n b"
proof (rule nth_equalityI)
  fix k assume "k < length (take n a)"
  then have k: "k < n" "k < length a" by auto
  let ?i = "k div 1120"
  have i: "1120 * ?i \<le> k" "k - 1120 * ?i < 1120" by (auto simp: minus_mult_div_eq_mod)
  have len: "k - 1120 * ?i < length a - 1120 * ?i" using k i by simp
  have "chunk_at a ?i = chunk_at b ?i" using assms(2) i k by (meson le_less_trans)
  then have "chunk_at a ?i ! (k - 1120 * ?i) = chunk_at b ?i ! (k - 1120 * ?i)" by simp
  then show "take n a ! k = take n b ! k"
    using i k assms(1) len by (simp add: chunk_at_def)
qed (use assms in simp)

lemma chunk_store:
  assumes "1120 * i < length buf" "length c = min 1120 (length buf - 1120 * i)"
  shows "length (store_chunk buf (1120 * i) c) = length buf"
    "chunk_at (store_chunk buf (1120 * i) c) j = (if j = i then c else chunk_at buf j)"
proof -
  let ?b = "store_chunk buf (1120 * i) c"
  show len: "length ?b = length buf" using assms by (simp add: store_chunk_def)
  have nth: "?b ! k = (if k < 1120 * i then buf ! k else if k < 1120 * i + length c
      then c ! (k - 1120 * i) else buf ! k)" if "k < length buf" for k
    using assms that by (auto simp: store_chunk_def nth_append)
  have ln: "length (chunk_at d j) = min 1120 (length d - 1120 * j)" for d j by (simp add: chunk_at_def)
  show "chunk_at ?b j = (if j = i then c else chunk_at buf j)"
  proof (rule nth_equalityI)
    show "length (chunk_at ?b j) = length (if j = i then c else chunk_at buf j)"
      using assms(2) by (simp add: ln len)
    fix k assume "k < length (chunk_at ?b j)"
    then have k: "k < 1120" "1120 * j + k < length buf" by (auto simp: ln len)
    have at: "chunk_at d j ! k = d ! (1120 * j + k)" if "length d = length buf" for d
      using k that by (simp add: chunk_at_def)
    show "chunk_at ?b j ! k = (if j = i then c else chunk_at buf j) ! k"
    proof (cases "j = i")
      case True
      have "k < length buf - 1120 * i" using k True by linarith
      with True at [OF len] k assms(2) show ?thesis by (simp add: nth)
    next
      case False
      then have "1120 * j + k < 1120 * i \<or> 1120 * i + 1120 \<le> 1120 * j + k" using k by auto
      moreover have "length c \<le> 1120" using assms(2) by simp
      ultimately show ?thesis using False k at [OF len] at [OF refl] by (auto simp: nth)
    qed
  qed
qed

lemma chunk_count:
  assumes "xfer_ok x"
  shows "unat ((of_nat (length (xf_data x)) + 1120 - 1 :: u32) div 1120) = (length (xf_data x) + 1119) div 1120"
proof -
  have "(of_nat (length (xf_data x)) + 1120 - 1 :: u32) = of_nat (length (xf_data x) + 1119)" by simp
  moreover have "unat (of_nat (length (xf_data x) + 1119) :: u32) = length (xf_data x) + 1119"
    using assms by (simp add: xfer_ok_def unat_of_nat take_bit_nat_eq_self del: of_nat_add)
  ultimately show ?thesis by (simp only: unat_div) simp
qed

definition advances :: "RNetStateRx \<Rightarrow> RNetStateRx \<Rightarrow> bool" where
  "advances rx rx' \<longleftrightarrow> (\<exists>c \<ge> rx_contiguity rx. rx' = rx\<lparr>rx_contiguity := c\<rparr>)"

lemma advance_step_good:
  assumes "xfer_ok x" "rx_good x rx" "1120 * unat i < length (xf_data x)" "unat i \<in> rx_bits rx"
    and "unat (rx_contiguity rx) = 1120 * unat i \<or>
      unat (rx_contiguity rx) = length (xf_data x) \<and> length (xf_data x) < 1120 * (unat i + 1)"
    and "c = (if (i + 1) * 1120 > rx_total rx then rx_total rx else (i + 1) * 1120)"
  shows "unat c = min (1120 * (unat i + 1)) (length (xf_data x))" "rx_contiguity rx \<le> c"
    "rx_good x (rx\<lparr>rx_contiguity := c\<rparr>)"
proof -
  let ?n = "length (xf_data x)"
  have tot: "unat (rx_total rx) = ?n"
    using assms(2) xfer_len [OF assms(1) order_refl] by (simp add: rx_good_def)
  have small: "?n \<le> 8388608" using assms(1) by (simp add: xfer_ok_def)
  have "((i + 1) * 1120 :: u32) = of_nat (1120 * (unat i + 1))" by (simp add: algebra_simps)
  moreover have "unat (of_nat (1120 * (unat i + 1)) :: u32) = 1120 * (unat i + 1)"
    using assms(3) small by (simp add: unat_of_nat take_bit_nat_eq_self del: of_nat_mult of_nat_add)
  ultimately have stop: "unat ((i + 1) * 1120 :: u32) = 1120 * (unat i + 1)" by metis
  show c: "unat c = min (1120 * (unat i + 1)) ?n"
    unfolding assms(6) using stop tot by (simp add: word_less_nat_alt min_def)
  show "rx_contiguity rx \<le> c" using assms(3,5) c by (auto simp: word_le_nat_alt)
  have "j \<in> rx_bits rx" if "1120 * j < unat c" for j
  proof (cases "j = unat i")
    case False
    then have "j < unat i" using that c by auto
    then have "1120 * j < unat (rx_contiguity rx)" using assms(3,5) by auto
    then show ?thesis using assms(2) by (simp add: rx_good_def)
  qed (use assms(4) in simp)
  then show "rx_good x (rx\<lparr>rx_contiguity := c\<rparr>)"
    using assms(2) c by (auto simp: rx_good_def aligned_def min_def)
qed

lemma advance_loop_good:
  assumes "xfer_ok x" "rx_good x rx" "unat chunks = (length (xf_data x) + 1119) div 1120"
    and "unat (rx_contiguity rx) = 1120 * unat i \<or>
      unat (rx_contiguity rx) = length (xf_data x) \<and> length (xf_data x) < 1120 * (unat i + 1)"
  shows "rx_good x (advance_loop rx chunks i) \<and> advances rx (advance_loop rx chunks i)"
  using assms(2,3,4)
proof (induction rx chunks i rule: advance_loop.induct)
  case (1 rx chunks i)
  show ?case
  proof (cases "i < chunks \<and> state_rx_has_chunk rx i")
    case False
    have "rx = rx\<lparr>rx_contiguity := rx_contiguity rx\<rparr>" by simp
    then have "advances rx rx" unfolding advances_def by blast
    then show ?thesis using 1(2) False by (subst (1 2) advance_loop.simps) (simp only: if_False)
  next
    case True
    define c where "c = (if (i + 1) * 1120 > rx_total rx then rx_total rx else (i + 1) * 1120)"
    have i: "unat i < unat chunks" "unat i \<in> rx_bits rx"
      using True by (auto simp: state_rx_has_chunk_def word_less_nat_alt)
    then have less: "1120 * unat i < length (xf_data x)" using 1(3) by (auto simp: less_eq_div_iff_mult_less_eq Suc_le_eq)
    note st = advance_step_good [OF assms(1) 1(2) less i(2) 1(4) c_def]
    have nx: "unat (i + 1) = Suc (unat i)" using True unat_inc by blast
    have "rx_good x (advance_loop (rx\<lparr>rx_contiguity := c\<rparr>) chunks (i + 1)) \<and>
        advances (rx\<lparr>rx_contiguity := c\<rparr>) (advance_loop (rx\<lparr>rx_contiguity := c\<rparr>) chunks (i + 1))"
      by (rule 1(1) [OF True refl, folded c_def]) (use st 1(3) nx in \<open>auto simp: min_def\<close>)
    moreover have "advance_loop rx chunks i = advance_loop (rx\<lparr>rx_contiguity := c\<rparr>) chunks (i + 1)"
      by (subst advance_loop.simps) (simp only: True if_True simp_thms Let_def c_def)
    ultimately show ?thesis using st(2) by (auto simp: advances_def intro: order_trans)
  qed
qed

text \<open>One genuine chunk arriving at an open receive: the buffer, the bitmap and the watermark.\<close>

lemma rx_chunk_good:
  assumes "xfer_ok x" "rx_good x rx" "rx_buf rx = Some buf" "1120 * i < length (xf_data x)"
  defines "rx' \<equiv> state_rx_advance_contiguity (state_rx_set_chunk
      (rx\<lparr>rx_buf := Some (store_chunk buf (1120 * i) (chunk_at (xf_data x) i))\<rparr>) (of_nat i))"
  shows "rx_good x rx'" "rx_ready rx' = rx_ready rx" "rx_contiguity rx \<le> rx_contiguity rx'"
proof -
  let ?d = "xf_data x"
  let ?rx = "rx\<lparr>rx_buf := Some (store_chunk buf (1120 * i) (chunk_at ?d i)), rx_bits := insert i (rx_bits rx)\<rparr>"
  have buf: "length buf = length ?d" "\<forall>j \<in> rx_bits rx. chunk_at buf j = chunk_at ?d j"
    using assms(2,3) by (auto simp: rx_good_def)
  have i: "unat (of_nat i :: u32) = i" using xfer_len [OF assms(1), of i] assms(4) by simp
  have "i < 7490" using assms(1,4) by (simp add: xfer_ok_def)
  then have set: "state_rx_set_chunk (rx\<lparr>rx_buf := Some (store_chunk buf (1120 * i) (chunk_at ?d i))\<rparr>) (of_nat i) = ?rx"
    using i by (simp add: state_rx_set_chunk_def word_le_nat_alt)
  have st: "length (store_chunk buf (1120 * i) (chunk_at ?d i)) = length buf"
    "chunk_at (store_chunk buf (1120 * i) (chunk_at ?d i)) j = (if j = i then chunk_at ?d i else chunk_at buf j)" for j
    using chunk_store [of i buf "chunk_at ?d i"] assms(4) buf(1) by (simp_all add: chunk_at_def)
  have good: "rx_good x ?rx" using assms(2) buf st by (auto simp: rx_good_def)
  have al: "aligned ?d (unat (rx_contiguity ?rx))" using good by (simp add: rx_good_def)
  have pos: "unat (rx_contiguity ?rx) = 1120 * unat (rx_contiguity ?rx div 1120) \<or>
      unat (rx_contiguity ?rx) = length ?d \<and> length ?d < 1120 * (unat (rx_contiguity ?rx div 1120) + 1)"
    using al by (auto simp: aligned_def unat_div)
  have "rx_total ?rx = of_nat (length ?d)" using good by (simp add: rx_good_def)
  then have ch: "unat ((rx_total ?rx + 1120 - 1) div 1120) = (length ?d + 1119) div 1120"
    using chunk_count [OF assms(1)] by simp
  have "rx' = advance_loop ?rx ((rx_total ?rx + 1120 - 1) div 1120) (rx_contiguity ?rx div 1120)"
    unfolding rx'_def set by (simp only: state_rx_advance_contiguity_def)
  with advance_loop_good [OF assms(1) good ch pos]
  show "rx_good x rx'" "rx_ready rx' = rx_ready rx" "rx_contiguity rx \<le> rx_contiguity rx'"
    by (auto simp: advances_def)
qed

lemma rx_good_whole:
  assumes "xfer_ok x" "rx_good x rx" "rx_contiguity rx \<ge> rx_total rx"
  shows "rx_buf rx = Some (xf_data x)"
proof -
  obtain buf where buf: "rx_buf rx = Some buf" "length buf = length (xf_data x)"
    "\<forall>i \<in> rx_bits rx. chunk_at buf i = chunk_at (xf_data x) i"
    using assms(2) by (auto simp: rx_good_def)
  have c: "unat (rx_contiguity rx) = length (xf_data x)"
    using assms(2,3) xfer_len [OF assms(1) order_refl]
    by (auto simp: rx_good_def aligned_def word_le_nat_alt)
  have "take (length (xf_data x)) buf = take (length (xf_data x)) (xf_data x)"
    by (rule chunks_prefix) (use buf assms(2) c in \<open>auto simp: rx_good_def aligned_def\<close>)
  with buf show ?thesis by simp
qed

lemma rx_good_fields [simp]:
  "rx_good x (rx\<lparr>rx_last_ack_ms := l\<rparr>) = rx_good x rx" "rx_good x (rx\<lparr>rx_ready := r\<rparr>) = rx_good x rx"
  by (simp_all add: rx_good_def)

lemma rx_send_ack_ok:
  assumes "rx_xfer_id (ss_rx s ! src) = xf_id x" "ss_wire_slot s \<noteq> xf_src x"
    and "aligned (xf_data x) (unat (rx_contiguity (ss_rx s ! src)))"
    and "unat (rx_contiguity (ss_rx s ! src)) \<le> held (ss_wire_slot s)"
  shows "emits (genuine_msg x held) s (state_rx_send_ack s src)"
    "ss_rx (state_rx_send_ack s src) = (ss_rx s)[src := (ss_rx s ! src)\<lparr>rx_last_ack_ms := ss_now s\<rparr>]"
    "st_received (ss_state (state_rx_send_ack s src)) = st_received (ss_state s)"
proof -
  let ?m = "StateAck (ss_wire_slot s) (xf_id x) (rx_contiguity (ss_rx s ! src))"
  have g: "genuine_msg x held ?m" "\<not> rnet_proto_is_rb_control (msg_type ?m)"
    using assms by (simp_all add: rnet_proto_is_rb_control_def)
  have enc: "rnet_proto_encode_state_ack 64 (protocol_magic (ss_cfg s)) (session_id (ss_cfg s))
      (ss_wire_slot s) (rx_xfer_id (ss_rx s ! src)) (rx_contiguity (ss_rx s ! src)) =
    encode_msg 64 (protocol_magic (ss_cfg s)) (session_id (ss_cfg s)) ?m" using assms(1) by simp
  note snd = emits_send [of "genuine_msg x held", OF g enc]
  obtain bs where bs: "state_send_ack_raw s (rx_xfer_id (ss_rx s ! src)) (rx_contiguity (ss_rx s ! src)) =
      s\<lparr>ss_out := ss_out s @ bs\<rparr>"
    using snd(2) by (auto simp: state_send_ack_raw_def)
  have e: "emits (genuine_msg x held) s (s\<lparr>ss_out := ss_out s @ bs\<rparr>)"
    using snd(1) by (simp add: state_send_ack_raw_def [symmetric] bs)
  show "emits (genuine_msg x held) s (state_rx_send_ack s src)"
    using e by (simp add: state_rx_send_ack_def Let_def bs emits_def)
  show "ss_rx (state_rx_send_ack s src) = (ss_rx s)[src := (ss_rx s ! src)\<lparr>rx_last_ack_ms := ss_now s\<rparr>]"
    "st_received (ss_state (state_rx_send_ack s src)) = st_received (ss_state s)"
    by (simp_all add: state_rx_send_ack_def Let_def bs)
qed

lemma emits_start: "emits P s0 s \<Longrightarrow> ss_wire_slot s = ss_wire_slot s0" by (simp add: emits_def)

text \<open>The end of \<open>state_on_chunk\<close>: the receive in place, an acknowledgement if it is time for one,
  and the check for completion.\<close>

lemma settle_receive:
  assumes "xfer_ok x" "length (ss_rx s) = 8" "length (st_received (ss_state s)) = 8"
    and "ss_wire_slot s \<noteq> xf_src x" "rx_good x (ss_rx s ! unat (xf_src x))"
    and "sr_id (st_received (ss_state s) ! unat (xf_src x)) = xf_id x"
      "\<not> sr_finished (st_received (ss_state s) ! unat (xf_src x))"
    and "rx_ready (ss_rx s ! unat (xf_src x)) \<longrightarrow>
      rx_contiguity (ss_rx s ! unat (xf_src x)) = rx_total (ss_rx s ! unat (xf_src x))"
    and "unat (rx_contiguity (ss_rx s ! unat (xf_src x))) \<le> held (ss_wire_slot s)"
    and "s' = state_rx_mark_ready_if_complete (if b then state_rx_send_ack s (unat (xf_src x)) else s)
       (unat (xf_src x))"
  shows "rcv_ok x s' \<and> rx_held (xf_src x) s' = rx_held (xf_src x) s \<and> emits (genuine_msg x held) s s'"
proof -
  let ?k = "unat (xf_src x)"
  have k: "?k < 8" using assms(1) by (simp add: xfer_ok_def word_less_nat_alt)
  define s2 where "s2 = (if b then state_rx_send_ack s ?k else s)"
  have xid: "rx_xfer_id (ss_rx s ! ?k) = xf_id x" "aligned (xf_data x) (unat (rx_contiguity (ss_rx s ! ?k)))"
    using assms(5) by (auto simp: rx_good_def)
  note ack = rx_send_ack_ok [OF xid(1) assms(4) xid(2), of held]
  have 2: "emits (genuine_msg x held) s s2" "length (ss_rx s2) = 8"
    "st_received (ss_state s2) = st_received (ss_state s)"
    using ack assms(2,9) by (auto simp: s2_def emits_same)
  have rx2: "\<exists>l. ss_rx s2 ! ?k = (ss_rx s ! ?k)\<lparr>rx_last_ack_ms := l\<rparr>"
    using ack(2) assms(2,9) k by (cases b) (auto simp: s2_def intro: exI [of _ "rx_last_ack_ms (ss_rx s ! ?k)"])
  then have good2: "rx_good x (ss_rx s2 ! ?k)" and c2: "rx_contiguity (ss_rx s2 ! ?k) = rx_contiguity (ss_rx s ! ?k)"
    "rx_total (ss_rx s2 ! ?k) = rx_total (ss_rx s ! ?k)" "rx_ready (ss_rx s2 ! ?k) = rx_ready (ss_rx s ! ?k)"
    "rx_active (ss_rx s2 ! ?k)" "rx_active (ss_rx s ! ?k)"
    using assms(5) by (auto simp: rx_good_def)
  have w2: "ss_wire_slot s2 = ss_wire_slot s" using 2(1) by (rule emits_start)
  have le: "rx_contiguity (ss_rx s ! ?k) \<le> rx_total (ss_rx s ! ?k)"
    using assms(5) xfer_len [OF assms(1) order_refl] by (auto simp: rx_good_def aligned_def word_le_nat_alt)
  obtain buf where buf: "rx_buf (ss_rx s2 ! ?k) = Some buf" using good2 by (auto simp: rx_good_def)
  show ?thesis
  proof (cases "rx_ready (ss_rx s2 ! ?k) \<or> rx_contiguity (ss_rx s2 ! ?k) < rx_total (ss_rx s2 ! ?k)")
    case True
    then have "s' = s2"
      unfolding assms(10) s2_def [symmetric]
      by (auto simp: state_rx_mark_ready_if_complete_def Let_def buf)
    moreover have "rx_ready (ss_rx s2 ! ?k) \<longleftrightarrow> rx_contiguity (ss_rx s2 ! ?k) = rx_total (ss_rx s2 ! ?k)"
      using True assms(8) c2 by auto
    ultimately show ?thesis
      using 2 good2 w2 c2 assms(3,4,6,7) by (simp add: rcv_ok_def rx_held_def Let_def)
  next
    case False
    then have full: "rx_contiguity (ss_rx s2 ! ?k) = rx_total (ss_rx s2 ! ?k)" using le c2 by simp
    have whole: "buf = xf_data x" using rx_good_whole [OF assms(1) good2] full buf by simp
    have tot: "unat (rx_total (ss_rx s2 ! ?k)) = length (xf_data x)"
      using good2 xfer_len [OF assms(1) order_refl] by (simp add: rx_good_def)
    have crc: "rnet_proto_checksum (take (unat (rx_total (ss_rx s2 ! ?k))) buf) = rx_crc (ss_rx s2 ! ?k)"
      unfolding whole tot using good2 by (simp add: rx_good_def)
    let ?rx = "(ss_rx s2 ! ?k)\<lparr>rx_ready := True\<rparr>"
    let ?s3 = "put_rx s2 ?k ?rx"
    have s': "s' = state_rx_send_ack ?s3 ?k"
      unfolding assms(10) s2_def [symmetric]
      using False c2 crc by (simp add: state_rx_mark_ready_if_complete_def Let_def buf)
    have at: "ss_rx ?s3 ! ?k = ?rx" using k 2(2) by simp
    have good3: "rx_good x ?rx" using good2 by simp
    have h3: "unat (rx_contiguity (ss_rx ?s3 ! ?k)) \<le> held (ss_wire_slot ?s3)"
      unfolding at using assms(9) c2 w2 by simp
    note ack3 = rx_send_ack_ok [of ?s3 ?k x held, OF _ _ _ h3]
    have p3: "rx_xfer_id (ss_rx ?s3 ! ?k) = xf_id x" "ss_wire_slot ?s3 \<noteq> xf_src x"
      "aligned (xf_data x) (unat (rx_contiguity (ss_rx ?s3 ! ?k)))"
      using good3 assms(4) w2 unfolding at by (auto simp: rx_good_def)
    have rx': "ss_rx s' ! ?k = ?rx\<lparr>rx_last_ack_ms := ss_now ?s3\<rparr>" "length (ss_rx s') = 8"
      using ack3(2) [OF p3, unfolded at] k 2(2) by (simp_all add: s')
    have "emits (genuine_msg x held) s2 ?s3" by (simp add: emits_same)
    then have e: "emits (genuine_msg x held) s s'"
      unfolding s' using 2(1) ack3(1) [OF p3] by (blast intro: emits_trans)
    have w': "ss_wire_slot s' = ss_wire_slot s" using e by (rule emits_start)
    show ?thesis
      unfolding rcv_ok_def rx_held_def Let_def rx'(1)
      using e rx'(2) good2 w' full 2(3) ack3(3) [OF p3, folded s'] c2 assms(3,4,6,7) by simp
  qed
qed

lemma on_chunk_ok:
  assumes "xfer_ok x" "rcv_ok x s" "genuine_msg x held (StateChunk ls xid off d)"
    and "s' = state_on_chunk s (msg_packet sid (StateChunk ls xid off d))"
  shows "rcv_ok x s' \<and> rx_held (xf_src x) s \<le> rx_held (xf_src x) s' \<and>
    (\<forall>held'. rx_held (xf_src x) s' \<le> held' (ss_wire_slot s) \<longrightarrow> emits (genuine_msg x held') s s')"
proof -
  let ?k = "unat (xf_src x)" and ?d = "xf_data x"
  obtain i where i: "1120 * i < length ?d" "off = of_nat (1120 * i)" "d = chunk_at ?d i"
    and ids: "ls = xf_src x" "xid = xf_id x" using assms(3) by auto
  have src: "xf_src x < 8" "xf_src x \<noteq> ss_wire_slot s" "xf_id x \<noteq> 0" and k: "?k < 8"
    using assms(1,2) by (auto simp: xfer_ok_def rcv_ok_def word_less_nat_alt)
  let ?rx = "ss_rx s ! ?k" and ?rec = "st_received (ss_state s) ! ?k"
  consider (closed) "sr_id ?rec = 0" "\<not> rx_active ?rx"
    | (opened) "sr_id ?rec = xf_id x" "\<not> sr_finished ?rec" "rx_good x ?rx"
        "rx_ready ?rx \<longleftrightarrow> rx_contiguity ?rx = rx_total ?rx"
    using assms(2) by (auto simp: rcv_ok_def Let_def)
  then show ?thesis
  proof cases
    case closed
    then have "s' = s"
      using src unfolding assms(4)
      by (auto simp: state_on_chunk_def reack_finished_def msg_packet_def ids Let_def split: option.splits)
    then show ?thesis using assms(2) by (simp add: emits_same)
  next
    case opened
    obtain buf where buf: "rx_buf ?rx = Some buf" "rx_active ?rx" "rx_xfer_id ?rx = xf_id x"
      using opened(3) by (auto simp: rx_good_def)
    have len: "length d = min 1120 (length ?d - 1120 * i)" "0 < length d" "length d \<le> 1120"
      using i by (auto simp: chunk_at_def)
    have uo: "unat off = 1120 * i" using xfer_len [OF assms(1), of "1120 * i"] i by simp
    have us: "unat (of_nat (length d) :: u16) = length d" using len by (simp add: unat_of_nat_u16)
    have tot: "unat (rx_total ?rx) = length ?d"
      using opened(3) xfer_len [OF assms(1) order_refl] by (simp add: rx_good_def)
    have small: "length ?d \<le> 8388608" using assms(1) by (simp add: xfer_ok_def)
    have up: "unat (ucast (of_nat (length d) :: u16) :: u32) = length d"
      using us len by (simp add: unsigned_ucast_eq take_bit_nat_eq_self)
    have sum: "unat (off + ucast (of_nat (length d) :: u16)) = 1120 * i + length d"
      using uo up len i small by (simp add: unat_word_ariths take_bit_eq_mod)
    have guard1: "\<not> (off > rx_total ?rx \<or> (of_nat (length d) :: u16) = 0)"
      using uo tot i us len by (auto simp: word_less_nat_alt)
    have guard2: "\<not> off + ucast (of_nat (length d) :: u16) > rx_total ?rx"
      using sum tot len i by (simp add: word_less_nat_alt)
    have "unat (off div 1120) = unat (of_nat i :: u32)"
      using uo xfer_len [OF assms(1), of i] i by (simp add: unat_div)
    then have div: "off div 1120 = of_nat i" by (rule unsigned_word_eqI)
    define rx2 where "rx2 = state_rx_advance_contiguity (state_rx_set_chunk
        (?rx\<lparr>rx_buf := Some (store_chunk buf (1120 * i) d)\<rparr>) (of_nat i))"
    note good = rx_chunk_good [OF assms(1) opened(3) buf(1) i(1), folded i(3), folded rx2_def]
    define b where "b \<longleftrightarrow> state_transport_is_ice s \<or> ss_now s - rx_last_ack_ms rx2 \<ge> 4 \<or>
      rx_contiguity rx2 \<ge> rx_total rx2"
    let ?s1 = "put_rx s ?k rx2"
    have tk: "take (length d) (pad_to 1120 0 d) = d" by simp
    have s': "s' = state_rx_mark_ready_if_complete (if b then state_rx_send_ack ?s1 ?k else ?s1) ?k"
      unfolding assms(4) state_on_chunk_def Let_def b_def
      using src(1) [unfolded not_le [symmetric]] src(2) buf guard1 guard2 uo us div rx2_def tk
      by (simp add: msg_packet_def ids)
    have at: "ss_rx ?s1 ! ?k = rx2" using k assms(2) by (simp add: rcv_ok_def)
    have l1: "length (ss_rx ?s1) = 8" using assms(2) by (simp add: rcv_ok_def)
    have "rx_total rx2 = rx_total ?rx" using good(1) opened(3) by (simp add: rx_good_def)
    moreover have "rx_contiguity rx2 \<le> rx_total rx2"
      using good(1) xfer_len [OF assms(1) order_refl] by (auto simp: rx_good_def aligned_def word_le_nat_alt)
    ultimately have rdy: "rx_ready rx2 \<longrightarrow> rx_contiguity rx2 = rx_total rx2"
      using good(2,3) opened(4) by auto
    have settle: "rcv_ok x s' \<and> rx_held (xf_src x) s' = rx_held (xf_src x) ?s1 \<and>
        emits (genuine_msg x held') ?s1 s'" if "unat (rx_contiguity rx2) \<le> held' (ss_wire_slot s)" for held'
      by (rule settle_receive [OF assms(1), where b = b])
        (use assms(2) opened good(1) rdy that s' at l1 in \<open>simp_all add: rcv_ok_def del: put_simps(9)\<close>)
    have h1: "rx_held (xf_src x) ?s1 = unat (rx_contiguity rx2)"
      using at good(1) by (simp add: rx_held_def Let_def rx_good_def del: put_simps(9))
    have "rx_held (xf_src x) s \<le> unat (rx_contiguity rx2)"
      using good(3) by (simp add: rx_held_def Let_def word_le_nat_alt)
    moreover have "emits P s ?s1" for P by (simp add: emits_same)
    ultimately show ?thesis
      using settle [of "\<lambda>r. unat (rx_contiguity rx2)"] settle h1 by (auto intro: emits_trans)
  qed
qed

lemma clear_frames:
  "ss_rx (state_probe_clear s) = ss_rx s \<and> st_received (ss_state (state_probe_clear s)) = st_received (ss_state s) \<and>
     emits P s (state_probe_clear s) \<and> ss_now (state_probe_clear s) = ss_now s"
  "ss_rx (state_tx_clear s) = ss_rx s \<and> st_received (ss_state (state_tx_clear s)) = st_received (ss_state s) \<and>
     emits P s (state_tx_clear s) \<and> ss_now (state_tx_clear s) = ss_now s"
  "ss_rx (state_rx_clear s k) = (ss_rx s)[k := zero_rx] \<and>
     st_received (ss_state (state_rx_clear s k)) = st_received (ss_state s) \<and>
     emits P s (state_rx_clear s k) \<and> ss_now (state_rx_clear s k) = ss_now s"
  "ss_rx (put_stall s b) = ss_rx s \<and> st_received (ss_state (put_stall s b)) = st_received (ss_state s) \<and>
     emits P s (put_stall s b) \<and> ss_now (put_stall s b) = ss_now s"
  "ss_rx (put_received s k r) = ss_rx s \<and>
     st_received (ss_state (put_received s k r)) = (st_received (ss_state s))[k := r] \<and>
     emits P s (put_received s k r) \<and> ss_now (put_received s k r) = ss_now s"
  by (simp_all add: state_probe_clear_def state_tx_clear_def state_rx_clear_def put_stall_def
      put_received_def put_probe_def Let_def emits_same)

lemma begin_distance_same: "fst (begin_distance a a) = 0"
  by (simp add: begin_distance_def Let_def)

lemma open_receive_ok:
  assumes "xfer_ok x" "rcv_ok x s" "\<not> rx_active (ss_rx s ! unat (xf_src x))"
    and "p = msg_packet sid (StateBegin (xf_src x) (xf_op x) (xf_slot x) (xf_id x)
      (of_nat (length (xf_data x))) (rnet_proto_checksum (xf_data x)))"
    and "sr_id (st_received (ss_state s) ! unat (xf_src x)) = 0"
  shows "rcv_ok x (open_receive alloc s p) \<and> rx_held (xf_src x) (open_receive alloc s p) = 0 \<and>
    emits (genuine_msg x held) s (open_receive alloc s p)"
proof -
  let ?k = "unat (xf_src x)" and ?d = "xf_data x"
  let ?tot = "of_nat (length ?d) :: u32"
  have k: "?k < 8" using assms(1) by (simp add: xfer_ok_def word_less_nat_alt)
  have p: "dp_local_slot p = xf_src x" "dp_state_op p = xf_op x" "dp_state_slot p = xf_slot x"
    "dp_state_xfer_id p = xf_id x" "dp_state_total_size p = ?tot"
    "dp_state_payload_crc p = rnet_proto_checksum ?d" by (simp_all add: assms(4) msg_packet_def)
  have ut: "unat ?tot = length ?d" using xfer_len [OF assms(1) order_refl] .
  have l: "length (ss_rx s) = 8" "length (st_received (ss_state s)) = 8" "ss_wire_slot s \<noteq> xf_src x"
    using assms(2) by (auto simp: rcv_ok_def)
  let ?G = "genuine_msg x held"
  define s1 where "s1 = (if pb_active (ss_probe s) \<and> (\<not> pb_sender (ss_probe s) \<or>
      pb_expect_mask (ss_probe s) = push_bit ?k 1) then state_probe_clear s else s)"
  have 1: "ss_rx s1 = ss_rx s" "st_received (ss_state s1) = st_received (ss_state s)" "emits ?G s s1"
    using clear_frames(1) [of s] by (auto simp: s1_def emits_same)
  define s2 where "s2 = (if tx_active (ss_tx s1) \<and> tx_expect_mask (ss_tx s1) = push_bit ?k 1
    then state_tx_clear s1 else s1)"
  have 2: "ss_rx s2 = ss_rx s" "st_received (ss_state s2) = st_received (ss_state s)" "emits ?G s s2"
    using clear_frames(2) [of s1] 1 by (auto simp: s2_def intro: emits_trans)
  define s3 where "s3 = state_rx_clear s2 ?k"
  have 3: "ss_rx s3 = (ss_rx s)[?k := zero_rx]" "st_received (ss_state s3) = st_received (ss_state s)"
    "emits ?G s s3"
    using clear_frames(3) [of s2 ?k] 2 by (auto simp: s3_def intro: emits_trans)
  have w3: "ss_wire_slot s3 = ss_wire_slot s" using 3(3) by (rule emits_start)
  show ?thesis
  proof (cases "alloc (length ?d)")
    case False
    then have eq: "open_receive alloc s p = state_recompute_stall s3"
      unfolding open_receive_def Let_def p ut s1_def [symmetric] s2_def [symmetric] s3_def [symmetric]
      by simp
    have "emits ?G s (state_recompute_stall s3)"
      using 3(3) clear_frames(4) [of s3] by (auto simp: state_recompute_stall_def intro: emits_trans)
    moreover have "ss_rx (state_recompute_stall s3) ! ?k = zero_rx" "length (ss_rx (state_recompute_stall s3)) = 8"
      "st_received (ss_state (state_recompute_stall s3)) = st_received (ss_state s)"
      using 3 l k clear_frames(4) [of s3] by (simp_all add: state_recompute_stall_def)
    moreover have "\<not> rx_active zero_rx" by (simp add: zero_rx_def)
    ultimately show ?thesis
      unfolding eq rcv_ok_def rx_held_def Let_def using l assms(5) emits_start [of ?G s] by auto
  next
    case True
    define rx where "rx = (ss_rx s3 ! ?k)\<lparr>rx_buf := Some (replicate (length ?d) 0), rx_active := True,
       rx_ready := False, rx_op := xf_op x, rx_slot := xf_slot x, rx_xfer_id := xf_id x, rx_total := ?tot,
       rx_crc := rnet_proto_checksum ?d, rx_contiguity := 0, rx_start_ms := ss_now s\<rparr>"
    define rec where "rec = \<lparr>sr_id = xf_id x, sr_total = ?tot, sr_crc = rnet_proto_checksum ?d,
       sr_op = xf_op x, sr_slot = xf_slot x, sr_finished = False, sr_last_reack_ms = 0\<rparr>"
    define s4 where "s4 = put_received (put_stall (put_rx s3 ?k rx) True) ?k rec"
    have eq: "open_receive alloc s p = state_rx_send_ack s4 ?k"
      using True
      unfolding open_receive_def Let_def p ut s1_def [symmetric] s2_def [symmetric] s3_def [symmetric]
        rx_def [symmetric] rec_def [symmetric] s4_def [symmetric]
      by simp
    have "ss_rx s3 ! ?k = zero_rx" using 3(1) k l by simp
    then have good: "rx_good x rx" "rx_contiguity rx = 0" "\<not> rx_ready rx" "rx_active rx" "rx_total rx = ?tot"
      by (auto simp: rx_def rx_good_def zero_rx_def aligned_def)
    have rx4: "ss_rx s4 = (ss_rx s3)[?k := rx]"
      "st_received (ss_state s4) = (st_received (ss_state s3))[?k := rec]"
      using clear_frames(5) [of "put_stall (put_rx s3 ?k rx) True" ?k rec]
        clear_frames(4) [of "put_rx s3 ?k rx" True] by (auto simp: s4_def)
    have "emits ?G s3 s4" by (simp add: s4_def emits_same put_received_def put_stall_def)
    with 3(3) have e4: "emits ?G s s4" by (rule emits_trans)
    have at: "ss_rx s4 ! ?k = rx" "st_received (ss_state s4) ! ?k = rec"
      using rx4 3 k l by simp_all
    have w4: "ss_wire_slot s4 = ss_wire_slot s" using e4 by (rule emits_start)
    have pre: "rx_xfer_id (ss_rx s4 ! ?k) = xf_id x" "ss_wire_slot s4 \<noteq> xf_src x"
      "aligned ?d (unat (rx_contiguity (ss_rx s4 ! ?k)))"
      "unat (rx_contiguity (ss_rx s4 ! ?k)) \<le> held (ss_wire_slot s4)"
      using good l w4 unfolding at by (auto simp: rx_good_def)
    note ack = rx_send_ack_ok [of s4 ?k x held, OF pre]
    have "unat ?tot \<noteq> 0" using ut assms(1) by (simp add: xfer_ok_def)
    then have tot0: "?tot \<noteq> 0" by (metis unsigned_0)
    have e: "emits ?G s (state_rx_send_ack s4 ?k)" using e4 ack(1) by (rule emits_trans)
    have w: "ss_wire_slot (state_rx_send_ack s4 ?k) = ss_wire_slot s" using e by (rule emits_start)
    have rx': "ss_rx (state_rx_send_ack s4 ?k) ! ?k = rx\<lparr>rx_last_ack_ms := ss_now s4\<rparr>"
      "length (ss_rx (state_rx_send_ack s4 ?k)) = 8"
      "st_received (ss_state (state_rx_send_ack s4 ?k)) ! ?k = rec"
      "length (st_received (ss_state (state_rx_send_ack s4 ?k))) = 8"
      using ack(2,3) at rx4 3(1,2) l(1,2) k by simp_all
    show ?thesis
      unfolding eq rcv_ok_def rx_held_def Let_def rx'(1,3)
      using e w rx'(2,4) l good tot0 by (simp add: rec_def)
  qed
qed

lemma on_begin_ok:
  assumes "xfer_ok x" "rcv_ok x s" "genuine_msg x held (StateBegin ls opc sl xid tot crc)"
    and "s' = state_on_begin alloc s (msg_packet sid (StateBegin ls opc sl xid tot crc))"
  shows "rcv_ok x s' \<and> rx_held (xf_src x) s \<le> rx_held (xf_src x) s' \<and>
    (\<forall>held'. rx_held (xf_src x) s' \<le> held' (ss_wire_slot s) \<longrightarrow> emits (genuine_msg x held') s s')"
proof -
  let ?k = "unat (xf_src x)"
  let ?p = "msg_packet sid (StateBegin (xf_src x) (xf_op x) (xf_slot x) (xf_id x)
      (of_nat (length (xf_data x))) (rnet_proto_checksum (xf_data x)))"
  let ?rx = "ss_rx s ! ?k" and ?rec = "st_received (ss_state s) ! ?k"
  have m: "s' = state_on_begin alloc s ?p" using assms(3,4) by simp
  have src: "\<not> xf_src x \<ge> 8" "xf_id x \<noteq> 0" using assms(1) by (auto simp: xfer_ok_def)
  have p: "dp_local_slot ?p = xf_src x" "dp_state_xfer_id ?p = xf_id x" by (simp_all add: msg_packet_def)
  consider (closed) "sr_id ?rec = 0" "\<not> rx_active ?rx"
    | (opened) "sr_id ?rec = xf_id x" "\<not> sr_finished ?rec" "rx_good x ?rx"
        "rx_ready ?rx \<longleftrightarrow> rx_contiguity ?rx = rx_total ?rx"
    using assms(2) by (auto simp: rcv_ok_def Let_def)
  then show ?thesis
  proof cases
    case closed
    then have "s' = s \<or> s' = open_receive alloc s ?p"
      unfolding m state_on_begin_def Let_def p by (simp add: src)
    moreover have "rx_held (xf_src x) s = 0" using closed(2) by (simp add: rx_held_def Let_def)
    ultimately show ?thesis
      using assms(2) open_receive_ok [OF assms(1,2) closed(2) refl closed(1)] by (auto simp: emits_same)
  next
    case opened
    then have act: "rx_active ?rx \<and> rx_xfer_id ?rx = xf_id x \<and> rx_buf ?rx \<noteq> None"
      by (auto simp: rx_good_def)
    obtain h where bd: "begin_distance (xf_id x) (xf_id x) = (0, h)"
      using begin_distance_same [of "xf_id x"] by (metis prod.collapse)
    have "s' = s \<or> s' = state_rx_send_ack s ?k"
      unfolding m state_on_begin_def Let_def p using opened(1,2) act by (simp add: src bd)
    then show ?thesis
    proof
      assume s': "s' = state_rx_send_ack s ?k"
      have k: "?k < 8" using assms(1) by (simp add: xfer_ok_def word_less_nat_alt)
      have pre: "rx_xfer_id ?rx = xf_id x" "ss_wire_slot s \<noteq> xf_src x"
        "aligned (xf_data x) (unat (rx_contiguity ?rx))"
        using opened(3) assms(2) by (auto simp: rx_good_def rcv_ok_def)
      have held: "rx_held (xf_src x) s = unat (rx_contiguity ?rx)" using act by (simp add: rx_held_def Let_def)
      note ack = rx_send_ack_ok [OF pre]
      have "ss_rx s' ! ?k = ?rx\<lparr>rx_last_ack_ms := ss_now s\<rparr>" "length (ss_rx s') = 8"
        "st_received (ss_state s') = st_received (ss_state s)" "ss_wire_slot s' = ss_wire_slot s"
        using ack(2,3) [of "\<lambda>r. unat (rx_contiguity ?rx)"] assms(2) k
          emits_start [OF ack(1) [of "\<lambda>r. unat (rx_contiguity ?rx)"]]
        by (auto simp: s' rcv_ok_def)
      then have ok: "rcv_ok x s'" and same: "rx_held (xf_src x) s' = rx_held (xf_src x) s"
        using opened assms(2) by (simp_all add: rcv_ok_def rx_held_def Let_def)
      show ?thesis using ok same held ack(1) by (auto simp: s')
    qed (use assms(2) in \<open>simp add: emits_same\<close>)
  qed
qed

end
