(* ===== verification/RNet_Integrity.thy ===== *)
theory RNet_Integrity
  imports RNet_Codec
begin

text \<open>
  What the wire format guarantees as a whole: every packet kind survives the round trip, with and
  without the input-epoch tag; every message within the protocol limits fits one datagram; and
  the checksum catches every single-byte corruption. The last section records where encoder and
  decoder disagree on the longest mod-set strings.
\<close>

section \<open>Round trip\<close>

text \<open>
  C5. Round trip of the wire protocol: for every one of the 23 packet kinds, if the encoder
  produces a datagram then the decoder of a peer with the same magic accepts it and recovers
  exactly the fields that were encoded, all other fields being zero, whatever the receive buffer
  holds behind the datagram.
\<close>

theorem encode_decode_roundtrip:
  assumes "msg_ok m" and "encode_msg cap magic sid m = Some bs"
  shows "rnet_proto_decode (bs @ stale) (length bs) magic = Decoded (msg_packet sid m)"
  using assms by (rule encode_decode)

definition sample_frame :: RNetWireFrame where
  "sample_frame = \<lparr>wf_tick = 5, wf_size = 2, wf_bytes = [1, 2] @ replicate 30 0\<rparr>"

definition sample_datagram :: bytes where
  "sample_datagram = [7, 0, 0, 0, 4, 0, 9, 0, 0, 0, 1, 1, 3, 0, 4, 0, 0, 0, 5, 0, 0, 0, 2, 0, 1, 2,
     62, 93, 223, 105]"

lemma sample_datagram:
  "encode_msg RNET_MAX_PACKET 7 9 (Input 1 3 4 [sample_frame]) = Some sample_datagram"
  by code_simp

theorem encode_decode_roundtrip_witness:
  "msg_ok (Input 1 3 4 [sample_frame]) \<and>
   encode_msg RNET_MAX_PACKET 7 9 (Input 1 3 4 [sample_frame]) = Some sample_datagram \<and>
   rnet_proto_decode (sample_datagram @ [0xAA]) (length sample_datagram) 7 =
     Decoded (msg_packet 9 (Input 1 3 4 [sample_frame]))"
proof -
  have ok: "msg_ok (Input 1 3 4 [sample_frame])" by (simp add: sample_frame_def)
  show ?thesis
    using ok sample_datagram encode_decode_roundtrip [OF ok sample_datagram] by blast
qed

section \<open>The input-epoch tag\<close>

lemma tagged_prefix:
  assumes "finish_packet (write_u32 magic @ write_u16 ty @ write_u32 sid @ rest) cap = Some bs"
    and "rnet_proto_tag_rb_epoch bs cap' e = Some bs'"
  shows "rnet_proto_decode (bs' @ ex) (length bs') magic =
     rd_result (rd_bind (decode_body (zero_packet\<lparr>dp_type := ty, dp_session_id := sid\<rparr>))
       decode_rb_trailer (rest @ write_u16 e, int (length rest + 2)))"
proof -
  have "finish_packet (write_u32 magic @ write_u16 ty @ write_u32 sid @ (rest @ write_u16 e)) cap'
     = Some bs'"
    using assms(2) finish_packet_prefix [OF assms(1)]
    by (simp add: rnet_proto_tag_rb_epoch_def split: if_splits)
  from decode_finished [OF this] show ?thesis by simp
qed

lemma tagged_fixed:
  assumes "encode_msg cap magic sid m = Some bs" and "fixed_layout m"
    and "rnet_proto_is_rb_control (msg_type m)" and "rnet_proto_tag_rb_epoch bs cap' e = Some bs'"
  shows "rnet_proto_decode (bs' @ ex) (length bs') magic =
     Decoded ((msg_packet sid m)\<lparr>dp_input_epoch := e\<rparr>)"
  using assms
  by (cases m)
     (auto simp: encode_fixed decode_cases reader_simps rd_result_def msg_packet_def
        dest!: tagged_prefix [where ex = ex] split: if_splits)

lemma tagged_seal_rows:
  assumes "encode_msg cap magic sid (RbSealRows ls e m t sl b rows) = Some bs"
    and "length rows \<le> 24" and "rnet_proto_tag_rb_epoch bs cap' ep = Some bs'"
  shows "rnet_proto_decode (bs' @ ex) (length bs') magic =
     Decoded ((msg_packet sid (RbSealRows ls e m t sl b rows))\<lparr>dp_input_epoch := ep\<rparr>)"
proof -
  have n: "unat (of_nat (length rows) :: u16) = length rows"
    using assms(2) unat_of_nat_u16 [of "length rows"] by simp
  from assms have
    fin: "finish_packet (write_u32 magic @ write_u16 RNET_PKT_RB_SEAL_ROWS @ write_u32 sid @
      ([ls, sl] @ write_u16 (of_nat (length rows)) @ write_u32 e @ write_u32 m @ write_u32 t @
       write_u32 b @ concat (map write_rb_frame rows))) cap = Some bs"
    by (simp add: rnet_proto_encode_rb_seal_rows_def n Let_def)
  from tagged_prefix [OF fin assms(3), of ex] show ?thesis
    using assms(2)
    by (simp add: decode_body_def decode_rb_seal_rows_def decode_rb_trailer_def
          rnet_proto_is_rb_control_def reader_simps rd_result_def msg_packet_def n
          read_rb_frames_append length_rb_frames)
qed

text \<open>
  A rollback control packet tagged with the input epoch decodes to the same packet with the
  epoch filled in; the tag is accepted for every rollback control kind.
\<close>

theorem tag_rb_epoch_roundtrip:
  assumes "msg_ok m" and "rnet_proto_is_rb_control (msg_type m)"
    and "encode_msg cap magic sid m = Some bs" and "rnet_proto_tag_rb_epoch bs cap' epoch = Some bs'"
  shows "rnet_proto_decode (bs' @ stale) (length bs') magic =
     Decoded ((msg_packet sid m)\<lparr>dp_input_epoch := epoch\<rparr>)"
proof (cases "fixed_layout m")
  case True
  with assms show ?thesis by (intro tagged_fixed)
next
  case False
  with assms show ?thesis
    by (cases m) (auto simp: rnet_proto_is_rb_control_def intro: tagged_seal_rows)
qed

theorem tag_rb_epoch_roundtrip_witness:
  "msg_ok (RbResolved 1 50) \<and> rnet_proto_is_rb_control (msg_type (RbResolved 1 50)) \<and>
   rnet_proto_decode ([7, 0, 0, 0, 25, 0, 9, 0, 0, 0, 1, 0, 50, 0, 0, 0, 52, 18, 55, 123, 124, 125]) 22 7 =
     Decoded ((msg_packet 9 (RbResolved 1 50))\<lparr>dp_input_epoch := 0x1234\<rparr>)"
proof -
  have 1: "msg_ok (RbResolved 1 50)" by simp
  have 2: "rnet_proto_is_rb_control (msg_type (RbResolved 1 50))"
    by (simp add: rnet_proto_is_rb_control_def)
  have 3: "encode_msg RNET_MAX_PACKET 7 9 (RbResolved 1 50) = Some
     [7, 0, 0, 0, 25, 0, 9, 0, 0, 0, 1, 0, 50, 0, 0, 0, 177, 39, 133, 63]"
    by code_simp
  have 4: "rnet_proto_tag_rb_epoch
     [7, 0, 0, 0, 25, 0, 9, 0, 0, 0, 1, 0, 50, 0, 0, 0, 177, 39, 133, 63]
     RNET_MAX_PACKET 0x1234 = Some
     [7, 0, 0, 0, 25, 0, 9, 0, 0, 0, 1, 0, 50, 0, 0, 0, 52, 18, 55, 123, 124, 125]"
    by code_simp
  show ?thesis
    using tag_rb_epoch_roundtrip [OF 1 2 3 4, of "[]"] 1 2 by (simp add: eval_nat_numeral)
qed

section \<open>Every message within the limits fits one datagram\<close>

text \<open>The limits of the header file, per packet kind; all other kinds have a fixed size.\<close>

fun msg_within_limits :: "rnet_msg \<Rightarrow> bool" where
  "msg_within_limits (Input ls e a fs) \<longleftrightarrow>
     fs \<noteq> [] \<and> length fs \<le> RNET_MAX_BUNDLE \<and>
     list_all (\<lambda>f. unat (wf_size f) \<le> RNET_INPUT_MAX \<and> length (wf_bytes f) = RNET_INPUT_MAX) fs"
| "msg_within_limits (InputAcks ls e a fs as) \<longleftrightarrow>
     fs \<noteq> [] \<and> length fs \<le> RNET_MAX_BUNDLE \<and> 3 \<le> length as \<and> length as \<le> RNET_MAX_SLOTS \<and>
     list_all (\<lambda>f. unat (wf_size f) \<le> RNET_INPUT_MAX \<and> length (wf_bytes f) = RNET_INPUT_MAX) fs"
| "msg_within_limits (StateChunk ls x off d) \<longleftrightarrow> d \<noteq> [] \<and> length d \<le> RNET_STATE_CHUNK_MAX"
| "msg_within_limits m \<longleftrightarrow> msg_ok m"

lemma encode_input_frames_fits:
  "length c + 38 * length fs + 4 \<le> cap \<Longrightarrow>
   list_all (\<lambda>f. unat (wf_size f) \<le> 32 \<and> length (wf_bytes f) = 32) fs \<Longrightarrow>
   \<exists>body. encode_input_frames cap c fs = Some body \<and> length body \<le> length c + 38 * length fs"
proof (induction fs arbitrary: c)
  case (Cons f fs)
  let ?c = "c @ write_u32 (wf_tick f) @ write_u16 (wf_size f) @ take (unat (wf_size f)) (wf_bytes f)"
  from Cons.prems have n: "unat (wf_size f) \<le> 32" "length (wf_bytes f) = 32" by auto
  with Cons.prems have "length ?c + 38 * length fs + 4 \<le> cap" by simp
  from Cons.IH [OF this] Cons.prems obtain body where
    "encode_input_frames cap ?c fs = Some body" "length body \<le> length ?c + 38 * length fs"
    by auto
  with n Cons.prems show ?case by auto
qed simp

lemma finish_packet_fits:
  "length body + 4 \<le> cap \<Longrightarrow> \<exists>bs. finish_packet body cap = Some bs \<and> length bs = length body + 4"
  by (simp add: finish_packet_def)

lemma encode_input_fits:
  assumes "fs \<noteq> []" "length fs \<le> 21"
    and "list_all (\<lambda>f. unat (wf_size f) \<le> 32 \<and> length (wf_bytes f) = 32) fs"
  shows "\<exists>bs. rnet_proto_encode_input 1200 magic sid ls e a (Some fs) = Some bs \<and>
     length bs \<le> 820"
proof -
  let ?c = "write_u32 magic @ write_u16 RNET_PKT_INPUT @ write_u32 sid @
     [ls, of_nat (length fs), ucast (e AND 0xFF), ucast (drop_bit 8 e AND 0xFF)] @ write_u32 a"
  have "length ?c + 38 * length fs + 4 \<le> 1200" using assms(2) by simp
  from encode_input_frames_fits [OF this assms(3)] obtain body where
    body: "encode_input_frames 1200 ?c fs = Some body" "length body \<le> length ?c + 38 * length fs"
    by blast
  then have "length body + 4 \<le> 820" using assms(2) by simp
  with body(1) assms(1,2) show ?thesis
    by (simp add: rnet_proto_encode_input_def finish_packet_def Suc_le_eq)
qed

lemma encode_input_acks_fits:
  assumes "fs \<noteq> []" "length fs \<le> 21" "3 \<le> length as" "length as \<le> 8"
    and "list_all (\<lambda>f. unat (wf_size f) \<le> 32 \<and> length (wf_bytes f) = 32) fs"
  shows "\<exists>bs. rnet_proto_encode_input_acks 1200 magic sid ls e a (Some fs) (Some as) = Some bs \<and>
     length bs \<le> 1200"
proof -
  from encode_input_fits [OF assms(1,2,5)] obtain out where
    "rnet_proto_encode_input 1200 magic sid ls e a (Some fs) = Some out" "length out \<le> 820"
    by blast
  with assms(3,4) show ?thesis
    by (simp add: rnet_proto_encode_input_acks_def finish_packet_def length_acks)
qed

text \<open>
  C11. No silent overflow of the datagram buffer: every message that respects the limits declared
  in the protocol header is encoded, and the datagram is at most the 1200 bytes every send buffer
  of the library has.
\<close>

theorem encode_fits_max_packet:
  assumes "msg_within_limits m"
  shows "\<exists>bs. encode_msg RNET_MAX_PACKET magic sid m = Some bs \<and> length bs \<le> RNET_MAX_PACKET"
proof (cases m)
  case (Input ls e a fs)
  with assms encode_input_fits [of fs magic sid ls e a] show ?thesis by force
next
  case (InputAcks ls e a fs as)
  with assms show ?thesis by (auto intro: encode_input_acks_fits)
next
  case (RbSealRows ls e m t sl b rows)
  with assms unat_of_nat_u16 [of "length rows"] show ?thesis
    by (auto simp: rnet_proto_encode_rb_seal_rows_def Let_def finish_packet_def length_rb_frames)
qed (use assms in \<open>auto simp: encode_fixed rnet_proto_encode_state_chunk_def finish_packet_def
       rnet_proto_encode_modset_def rnet_proto_encode_modset_ack_def clamped_len_def cstr_bytes_def
       clamped_loop_whole Let_def Suc_le_eq\<close>)

theorem encode_fits_max_packet_witness:
  "msg_within_limits (Input 0 0 0 (replicate 21 sample_frame)) \<and>
   (\<exists>bs. encode_msg RNET_MAX_PACKET 7 9 (Input 0 0 0 (replicate 21 sample_frame)) = Some bs \<and>
      length bs \<le> RNET_MAX_PACKET)"
proof -
  have "msg_within_limits (Input 0 0 0 (replicate 21 sample_frame))"
    by (simp add: sample_frame_def list_all_iff)
  with encode_fits_max_packet [OF this, of 7 9] show ?thesis by blast
qed

section \<open>Corruption\<close>

lemma checksum_loop_append:
  "checksum_loop acc (xs @ ys) = checksum_loop (checksum_loop acc xs) ys"
  by (induction xs arbitrary: acc) auto

lemma checksum_loop_inj: "checksum_loop x bs = checksum_loop y bs \<Longrightarrow> x = y"
proof (induction bs arbitrary: x y)
  case (Cons b bs)
  then have "(x XOR ucast b) * 0x01000193 = (y XOR ucast b) * 0x01000193" by simp
  from fnv_prime_cancel [OF this] show ?case by (simp only: xor_right_cancel)
qed simp

lemma checksum_byte:
  assumes "i < length p" and "rnet_proto_checksum (p[i := b]) = rnet_proto_checksum p"
  shows "b = p ! i"
proof -
  let ?h = "checksum_loop 0x811c9dc5 (take i p)"
  have p: "p = take i p @ p ! i # drop (Suc i) p" "p[i := b] = take i p @ b # drop (Suc i) p"
    using assms(1) by (rule id_take_nth_drop, rule upd_conv_take_nth_drop)
  have split: "rnet_proto_checksum (take i p @ x # drop (Suc i) p) =
      checksum_loop ((?h XOR ucast x) * 0x01000193) (drop (Suc i) p)" for x
    by (simp add: rnet_proto_checksum_def checksum_loop_append)
  have "rnet_proto_checksum (take i p @ b # drop (Suc i) p) =
      rnet_proto_checksum (take i p @ p ! i # drop (Suc i) p)"
    using assms(2) by (simp only: p(2) p(1) [symmetric])
  then have "?h XOR ucast b = ?h XOR ucast (p ! i)"
    unfolding split by (rule fnv_prime_cancel [OF checksum_loop_inj])
  then have "(ucast b :: u32) = ucast (p ! i)" by (simp only: xor_left_cancel)
  then show ?thesis by (simp only: ucast_u8_u32_inj)
qed

lemma write_u32_inj: "write_u32 a = write_u32 b \<Longrightarrow> a = b"
  by (metis read_write_u32_Nil rres.inject)

lemma bit_u8_ge: "8 \<le> n \<Longrightarrow> \<not> bit (k :: u8) n"
  by (auto dest: bit_imp_le_length)

lemma write_u32_join:
  "write_u32 (ucast k0 OR push_bit 8 (ucast k1) OR push_bit 16 (ucast k2) OR push_bit 24 (ucast k3))
     = [k0, k1, k2, k3]" (is "write_u32 ?w = _")
proof -
  have "ucast ?w = k0" "ucast (drop_bit 8 ?w) = k1" "ucast (drop_bit 16 ?w) = k2"
    "ucast (drop_bit 24 ?w) = k3"
    by (rule bit_word_eqI, simp add: bit_simps bit_u8_ge)+
  then show ?thesis by (simp only: write_u32_def ucast_and_255)
qed

text \<open>An accepted datagram is its body followed by the checksum of the body.\<close>

lemma accepted_trailer:
  assumes "14 \<le> length d" and "rnet_proto_decode d (length d) magic \<noteq> Rejected"
  shows "drop (length d - 4) d = write_u32 (rnet_proto_checksum (take (length d - 4) d))"
proof -
  from assms(1) obtain m0 m1 m2 m3 t0 t1 s0 s1 s2 s3 rest k0 k1 k2 k3 where
    d: "d = [m0, m1, m2, m3, t0, t1, s0, s1, s2, s3] @ rest @ [k0, k1, k2, k3]"
    by (rule datagram_split)
  let ?h = "[m0, m1, m2, m3, t0, t1, s0, s1, s2, s3] @ rest"
  have len: "length d = 14 + length rest" and h: "take (length d - 4) d = ?h" by (simp_all add: d)
  have "rnet_proto_checksum ?h =
     ucast k0 OR push_bit 8 (ucast k1) OR push_bit 16 (ucast k2) OR push_bit 24 (ucast k3)"
    using assms(2)
      decode_layout [of m0 m1 m2 m3 t0 t1 s0 s1 s2 s3 rest k0 k1 k2 k3 "[]" magic,
        unfolded append_Nil2, folded d len]
    by (auto split: if_splits)
  then show ?thesis unfolding h by (simp only: write_u32_join) (simp add: d)
qed

text \<open>
  C10. The checksum catches every corruption of one byte: if the decoder accepts a datagram, then
  changing any one of its bytes - header, body or trailer - to any other value makes it reject.
\<close>

theorem corrupted_byte_rejected:
  assumes "14 \<le> length d" and "rnet_proto_decode d (length d) magic \<noteq> Rejected"
    and "i < length d" and "b \<noteq> d ! i"
  shows "rnet_proto_decode (d[i := b]) (length d) magic = Rejected"
proof (rule ccontr)
  let ?n = "length d - 4" and ?d' = "d[i := b]"
  assume "rnet_proto_decode ?d' (length d) magic \<noteq> Rejected"
  with assms(1) have
    d': "drop ?n ?d' = write_u32 (rnet_proto_checksum (take ?n ?d'))"
    using accepted_trailer [of ?d' magic, unfolded length_list_update] by blast
  note d = accepted_trailer [OF assms(1,2)]
  show False
  proof (cases "i < ?n")
    case True
    then have "drop ?n ?d' = drop ?n d" and upd: "take ?n ?d' = (take ?n d)[i := b]"
      by (simp_all add: take_update_swap)
    then have "rnet_proto_checksum ((take ?n d)[i := b]) = rnet_proto_checksum (take ?n d)"
      by (intro write_u32_inj) (simp only: d' [symmetric] d [symmetric] upd [symmetric])
    from checksum_byte [OF _ this] True assms(4) show False by simp
  next
    case False
    then have t: "take ?n ?d' = take ?n d" by simp
    then have "drop ?n ?d' = drop ?n d" by (simp only: d d')
    with t have "?d' = d" by (metis append_take_drop_id)
    then have "?d' ! i = d ! i" by simp
    with assms(3,4) show False by simp
  qed
qed

lemma sample_datagram_length: "length sample_datagram = 30"
  by (simp add: sample_datagram_def)

lemma sample_datagram_accepted: "rnet_proto_decode sample_datagram 30 7 \<noteq> Rejected"
proof -
  have "msg_ok (Input 1 3 4 [sample_frame])" by (simp add: sample_frame_def)
  from encode_decode [OF this sample_datagram, of "[]"] show ?thesis
    by (simp add: sample_datagram_length)
qed

theorem corrupted_byte_rejected_witness:
  "length sample_datagram = 30 \<and> rnet_proto_decode sample_datagram 30 7 \<noteq> Rejected \<and>
   rnet_proto_decode (sample_datagram[25 := 3]) 30 7 = Rejected"
proof -
  have ne: "3 \<noteq> sample_datagram ! 25" by (simp add: sample_datagram_def)
  show ?thesis
    using corrupted_byte_rejected [of sample_datagram 7, unfolded sample_datagram_length,
        OF _ sample_datagram_accepted _ ne]
      sample_datagram_accepted sample_datagram_length by simp
qed

section \<open>Mod-set strings at the limit\<close>

lemma clamped_loop_min: "0 \<notin> set t \<Longrightarrow> clamped_loop t cap = min cap (length t)"
  by (induction t cap rule: clamped_loop.induct) auto

text \<open>
  C13. Encoder and decoder disagree on the longest strings: a mod-set whose text is at least 1024
  bytes, and an acknowledgement whose reason is at least 96 bytes, are truncated to exactly the
  size the decoder refuses, so the datagram that is sent is rejected by every receiver.
\<close>

theorem overlong_modset_undecodable:
  assumes "0 \<notin> set t" and "length t \<ge> (if ack then RNET_MODSET_REASON_MAX else RNET_MODSET_TEXT_MAX)"
  shows "\<exists>bs. encode_msg RNET_MAX_PACKET magic sid (if ack then ModsetAck ls st t else Modset ls t) = Some bs
     \<and> rnet_proto_decode (bs @ stale) (length bs) magic = Rejected"
proof -
  define n where "n = (if ack then RNET_MODSET_REASON_MAX else RNET_MODSET_TEXT_MAX)"
  define ty where "ty = (if ack then RNET_PKT_MODSET_ACK else RNET_PKT_MODSET)"
  define rest where "rest = [ls, (if ack then st else 0)] @ write_u16 (of_nat n) @ take n t"
  let ?body = "write_u32 magic @ write_u16 ty @ write_u32 sid @ rest"
  have clamp: "clamped_loop t n = n"
    using assms(1,2) by (simp add: clamped_loop_min n_def)
  obtain bs where fin: "finish_packet ?body 1200 = Some bs"
    using assms(2) by (cases ack) (simp_all add: finish_packet_def rest_def n_def)
  have "encode_msg RNET_MAX_PACKET magic sid (if ack then ModsetAck ls st t else Modset ls t) = Some bs"
    using clamp fin unfolding rest_def ty_def n_def
    by (cases ack) (simp_all add: rnet_proto_encode_modset_def rnet_proto_encode_modset_ack_def
          clamped_len_def cstr_bytes_def)
  moreover have "rnet_proto_decode (bs @ stale) (length bs) magic = Rejected"
    using decode_finished [OF fin, of stale] assms(2)
    by (cases ack)
       (simp_all add: decode_body_def decode_modset_def rd_result_def reader_simps rest_def ty_def
          n_def)
  ultimately show ?thesis by blast
qed
theorem overlong_modset_undecodable_witness:
  "0 \<notin> set (replicate 100 (65 :: u8)) \<and> length (replicate 100 (65 :: u8)) \<ge> RNET_MODSET_REASON_MAX \<and>
   (\<exists>bs. encode_msg RNET_MAX_PACKET 7 9 (ModsetAck 1 2 (replicate 100 65)) = Some bs \<and>
      rnet_proto_decode bs (length bs) 7 = Rejected)"
proof -
  have h: "0 \<notin> set (replicate 100 (65 :: u8))" "length (replicate 100 (65 :: u8)) \<ge> (if True then 96 else 1024)"
    by simp_all
  from h overlong_modset_undecodable [OF h, of 7 9 1 2 "[]"] show ?thesis by simp
qed

end
