(* ===== verification/RNet_Bundle.thy ===== *)
theory RNet_Bundle
  imports RNet_Frames RNet_State_Net RNet_Integrity
begin

text \<open>
  The bundle of input rows: which rows a call of \<^verbatim>\<open>send_input_bundle\<close> sends, and when its loop ends.
\<close>

section \<open>The bundle returns\<close>

text \<open>The rows of the local ring for the ticks from \<open>a\<close> up to \<open>b\<close>, as frames.\<close>

definition frame_at :: "RNetInputRing \<Rightarrow> nat \<Rightarrow> RNetWireFrame list" where
  "frame_at ring k = (case rnet_ring_get ring (of_nat k) of None \<Rightarrow> [] | Some sm \<Rightarrow> [frame_of_sample sm])"

definition frames_in :: "RNetInputRing \<Rightarrow> nat \<Rightarrow> nat \<Rightarrow> RNetWireFrame list" where
  "frames_in ring a b = concat (map (frame_at ring) [a..<b])"

lemma frames_in_step: "a < b \<Longrightarrow> frames_in ring a b = frame_at ring a @ frames_in ring (Suc a) b"
  by (simp add: frames_in_def upt_conv_Cons)

lemma frames_in_append: "a \<le> b \<Longrightarrow> b \<le> c \<Longrightarrow> frames_in ring a b @ frames_in ring b c = frames_in ring a c"
  by (metis concat_append frames_in_def le_Suc_ex map_append upt_add_eq_append)

lemma frame_at_len: "length (frame_at ring k) \<le> 1"
  by (simp add: frame_at_def split: option.splits)

lemma tick_le_max: "(t :: u32) \<le> 0xffffffff"
proof -
  have "(0xffffffff :: u32) = - 1" by simp
  then show ?thesis by (metis word_order.extremum)
qed

lemma not_max_below: "(t :: u32) \<le> tip \<Longrightarrow> tip \<noteq> 0xffffffff \<Longrightarrow> t \<noteq> 0xffffffff"
proof
  assume le: "t \<le> tip" "tip \<noteq> 0xffffffff" and t: "t = 0xffffffff"
  have "(0xffffffff :: u32) = - 1" by simp
  with le(1) t have "- 1 \<le> tip" by simp
  then have "tip = - 1" by (simp add: word_order.extremum_unique)
  with le(2) show False by simp
qed

text \<open>What the inner loop returns: the rows up to the tick it stopped at, which is past the tip unless
  the packet is full.\<close>

definition gathered :: "RNetInputRing \<Rightarrow> nat \<Rightarrow> u32 \<Rightarrow> u32 \<Rightarrow> RNetWireFrame list \<times> u32 \<Rightarrow> bool" where
  "gathered ring n t tip r \<longleftrightarrow>
     (let (fs, t') = r in unat t \<le> unat t' \<and> unat t' \<le> Suc (unat tip) \<and>
        fs = frames_in ring (unat t) (unat t') \<and> n + length fs \<le> 21 \<and>
        (unat t' = Suc (unat tip) \<or> n + length fs = 21))"

lemma gather_spec:
  "tip \<noteq> 0xffffffff \<Longrightarrow> n \<le> 21 \<Longrightarrow> unat t \<le> Suc (unat tip) \<Longrightarrow> gathered ring n t tip (gather ring n t tip)"
proof (induction ring n t tip rule: gather.induct)
  case (1 ring n t tip)
  show ?case
  proof (cases "t \<le> tip \<and> n < 21")
    case False
    then have "unat t = Suc (unat tip) \<or> n = 21" using 1(3,4) by (auto simp: word_le_nat_alt)
    then show ?thesis using False 1(3,4)
      by (subst gather.simps) (auto simp: gathered_def frames_in_def)
  next
    case True
    have t: "t \<noteq> 0xffffffff" using not_max_below True 1(2) by blast
    have u: "unat (t + 1) = Suc (unat t)" by (rule inc_not_max [OF t])
    have at: "(case rnet_ring_get ring t of None \<Rightarrow> [] | Some sm \<Rightarrow> [frame_of_sample sm]) = frame_at ring (unat t)"
      by (simp add: frame_at_def)
    obtain rest t' where g: "gather ring (n + length (frame_at ring (unat t))) (t + 1) tip = (rest, t')"
      by (cases "gather ring (n + length (frame_at ring (unat t))) (t + 1) tip") auto
    have le: "unat t \<le> unat tip" using True by (simp add: word_le_nat_alt)
    have "gathered ring (n + length (frame_at ring (unat t))) (t + 1) tip (rest, t')"
      using 1(1) [OF True refl] t g u le True frame_at_len [of ring "unat t"] 1(2) at by simp
    moreover have "gather ring n t tip = (frame_at ring (unat t) @ rest, t')"
      using True t g by (subst gather.simps) (simp add: at)
    ultimately show ?thesis using u frames_in_step [of "unat t" "unat t'" ring]
      by (auto simp: gathered_def)
  qed
qed

lemma gather_more:
  assumes "tip \<noteq> 0xffffffff" "t \<le> tip" "gather ring 0 t tip = (fs, t')"
  shows "unat t < unat t'" "unat t' \<le> Suc (unat tip)" "fs = frames_in ring (unat t) (unat t')" "length fs \<le> 21"
proof -
  have le: "unat t \<le> unat tip" using assms(2) by (simp add: word_le_nat_alt)
  then have g: "gathered ring 0 t tip (fs, t')" using gather_spec [of tip 0 t ring] assms by simp
  then show "unat t' \<le> Suc (unat tip)" "fs = frames_in ring (unat t) (unat t')" "length fs \<le> 21"
    by (auto simp: gathered_def)
  show "unat t < unat t'"
    using g le by (cases "unat t' = unat t") (auto simp: gathered_def frames_in_def)
qed

lemma bundle_loop_ends:
  assumes "tip \<noteq> 0xffffffff"
  shows "unat t \<le> Suc (unat tip) \<Longrightarrow> \<exists>y. bundle_loop s ack tip t sent = Some y"
proof (induction "Suc (unat tip) - unat t" arbitrary: s t sent rule: less_induct)
  case less
  show ?case
  proof (cases "t \<le> tip")
    case False
    then show ?thesis by (subst bundle_loop.simps) simp
  next
    case True
    obtain fs t' where g: "gather (ss_local_ring s) 0 t tip = (fs, t')" by (cases "gather (ss_local_ring s) 0 t tip") auto
    note m = gather_more [OF assms True g]
    have ih: "\<exists>y. bundle_loop x ack tip t' b = Some y" for x b
      by (rule less) (use m(1,2) in auto)
    show ?thesis
      using ih by (subst bundle_loop.simps) (auto simp: True g split: option.splits)
  qed
qed

text \<open>At the largest tick the loop never ends: the counter cannot pass the tip.\<close>

text \<open>Rows that fit the wire: the size the host gave is at most 32, and the array has 32 bytes.\<close>

definition sample_fits :: "RNetInputSample \<Rightarrow> bool" where
  "sample_fits sm \<longleftrightarrow> unat (sm_size sm) \<le> 32 \<and> length (sm_bytes sm) = 32"

definition rows_ok :: "RNetInputRing \<Rightarrow> bool" where
  "rows_ok ring \<longleftrightarrow> ring_inv ring \<and> (\<forall>sm \<in> set (ring_slots ring). sample_fits sm)"

lemma rows_ok_get: "rows_ok ring \<Longrightarrow> rnet_ring_get ring t = Some sm \<Longrightarrow> sample_fits sm \<and> sm_tick sm = t"
  by (auto simp: rows_ok_def ring_inv_def rnet_ring_get_def Let_def ring_slot_def split: if_splits)

lemma gather_fits:
  "rows_ok ring \<Longrightarrow> n \<le> 21 \<Longrightarrow> n + length (fst (gather ring n t tip)) \<le> 21 \<and>
     list_all (\<lambda>f. unat (wf_size f) \<le> 32 \<and> length (wf_bytes f) = 32) (fst (gather ring n t tip))"
proof (induction ring n t tip rule: gather.induct)
  case (1 ring n t tip)
  show ?case
  proof (cases "t \<le> tip \<and> n < 21")
    case False
    then show ?thesis using 1(3) by (subst (1 2) gather.simps) auto
  next
    case True
    let ?fs = "case rnet_ring_get ring t of None \<Rightarrow> [] | Some sm \<Rightarrow> [frame_of_sample sm]"
    have fs: "length ?fs \<le> 1 \<and> list_all (\<lambda>f. unat (wf_size f) \<le> 32 \<and> length (wf_bytes f) = 32) ?fs"
      using rows_ok_get [OF 1(2), of t] by (auto simp: sample_fits_def frame_of_sample_def split: option.splits)
    show ?thesis
    proof (cases "t = 0xffffffff")
      case t: True
      then show ?thesis using True fs by (subst (1 2) gather.simps) auto
    next
      case False
      obtain rest t' where g: "gather ring (n + length ?fs) (t + 1) tip = (rest, t')"
        by (cases "gather ring (n + length ?fs) (t + 1) tip") auto
      have "gather ring n t tip = (?fs @ rest, t')" using True False g by (subst gather.simps) simp
      moreover have "n + length ?fs + length rest \<le> 21 \<and>
          list_all (\<lambda>f. unat (wf_size f) \<le> 32 \<and> length (wf_bytes f) = 32) rest"
        using 1(1) [OF True refl False 1(2)] fs True g by simp
      ultimately show ?thesis using fs by simp
    qed
  qed
qed

definition seats_ok :: "RNetSession \<Rightarrow> bool" where
  "seats_ok s \<longleftrightarrow> 2 \<le> slot_count (ss_cfg s) \<and> slot_count (ss_cfg s) \<le> 8 \<and> length (ss_remote_contiguous_ack s) = 8"

text \<open>A packet of such rows can always be encoded; it is an INPUT message.\<close>

definition bundle_msg :: "RNetSession \<Rightarrow> u32 \<Rightarrow> RNetWireFrame list \<Rightarrow> rnet_msg" where
  "bundle_msg s ack fs =
     (if slot_count (ss_cfg s) > 2
      then InputAcks (ss_wire_slot s) (ss_input_epoch s) ack fs
             (take (unat (slot_count (ss_cfg s))) (ss_remote_contiguous_ack s))
      else Input (ss_wire_slot s) (ss_input_epoch s) ack fs)"

lemma encode_bundle_msg:
  "encode_bundle s ack fs =
     encode_msg 1200 (protocol_magic (ss_cfg s)) (session_id (ss_cfg s)) (bundle_msg s ack fs)"
  by (simp add: encode_bundle_def bundle_msg_def Let_def)

lemma encode_bundle_some:
  assumes "seats_ok s" "fs \<noteq> []" "length fs \<le> 21"
    and "list_all (\<lambda>f. unat (wf_size f) \<le> 32 \<and> length (wf_bytes f) = 32) fs"
  shows "\<exists>b. encode_bundle s ack fs = Some b"
proof (cases "slot_count (ss_cfg s) > 2")
  case True
  then have "3 \<le> unat (slot_count (ss_cfg s))" "unat (slot_count (ss_cfg s)) \<le> 8"
    using assms(1) by (auto simp: seats_ok_def word_less_nat_alt word_le_nat_alt)
  then show ?thesis
    using encode_input_acks_fits [OF assms(2,3) _ _ assms(4), of
        "take (unat (slot_count (ss_cfg s))) (ss_remote_contiguous_ack s)" "protocol_magic (ss_cfg s)"
        "session_id (ss_cfg s)" "ss_wire_slot s" "ss_input_epoch s" ack] True assms(1)
    by (auto simp: encode_bundle_def Let_def seats_ok_def)
next
  case False
  then show ?thesis
    using encode_input_fits [OF assms(2-4), of "protocol_magic (ss_cfg s)" "session_id (ss_cfg s)"
        "ss_wire_slot s" "ss_input_epoch s" ack] by (auto simp: encode_bundle_def Let_def)
qed

lemma only_sends_seats: "only_sends s s' \<Longrightarrow> seats_ok s' = seats_ok s"
  by (simp add: seats_ok_def only_sends_keeps)

lemma bundle_loop_hangs:
  assumes "bundle_loop s ack tip t sent = Some y"
  shows "tip = 0xffffffff \<Longrightarrow> seats_ok s \<Longrightarrow> rows_ok (ss_local_ring s) \<Longrightarrow> False"
proof -
  have "\<not> (tip = 0xffffffff \<and> seats_ok s \<and> rows_ok (ss_local_ring s))"
  proof (rule bundle_loop.raw_induct [OF _ assms,
      where P = "\<lambda>s ack tip t sent y. \<not> (tip = 0xffffffff \<and> seats_ok s \<and> rows_ok (ss_local_ring s))"])
    fix loop :: "RNetSession \<Rightarrow> u32 \<Rightarrow> u32 \<Rightarrow> u32 \<Rightarrow> bool \<Rightarrow> (bool \<times> RNetSession) option" and s ack tip t sent y
    assume IH: "\<And>s ack tip t sent y. loop s ack tip t sent = Some y \<Longrightarrow>
        \<not> (tip = 0xffffffff \<and> seats_ok s \<and> rows_ok (ss_local_ring s))"
      and run: "(if t \<le> tip
        then let (fs, t') = gather (ss_local_ring s) 0 t tip
             in if fs = [] then loop s ack tip t' sent
                else case encode_bundle s ack fs of None \<Rightarrow> Some (sent, s)
                     | Some b \<Rightarrow> loop (count_bundle (send_raw s (Some b))) ack tip t' True
        else Some (sent, s)) = Some y"
    show "\<not> (tip = 0xffffffff \<and> seats_ok s \<and> rows_ok (ss_local_ring s))"
    proof
      assume a: "tip = 0xffffffff \<and> seats_ok s \<and> rows_ok (ss_local_ring s)"
      then have le: "t \<le> tip" using tick_le_max by simp
      obtain fs t' where g: "gather (ss_local_ring s) 0 t tip = (fs, t')"
        by (cases "gather (ss_local_ring s) 0 t tip") auto
      have fits: "length fs \<le> 21" "list_all (\<lambda>f. unat (wf_size f) \<le> 32 \<and> length (wf_bytes f) = 32) fs"
        using gather_fits [of "ss_local_ring s" 0 t tip] a g by auto
      have keep: "only_sends s (count_bundle (send_raw s (Some b)))" for b
        by (rule only_sends_trans [OF send_raw_only count_bundle_only])
      show False
      proof (cases "fs = []")
        case True
        then have "loop s ack tip t' sent = Some y" using run le g by simp
        from IH [OF this] a show False by blast
      next
        case False
        obtain b where b: "encode_bundle s ack fs = Some b"
          using encode_bundle_some [of s fs ack] a False fits by blast
        have "loop (count_bundle (send_raw s (Some b))) ack tip t' True = Some y" using run le g b False by simp
        from IH [OF this] a only_sends_seats [OF keep] show False
          by (simp add: only_sends_keeps(2) [OF keep])
      qed
    qed
  qed
  then show "tip = 0xffffffff \<Longrightarrow> seats_ok s \<Longrightarrow> rows_ok (ss_local_ring s) \<Longrightarrow> False" by blast
qed

section \<open>What a call does\<close>

definition bundle_due :: "RNetSession \<Rightarrow> bool" where
  "bundle_due s \<longleftrightarrow> \<not> ss_is_observer s \<and> ss_phase s = PHASE_RUNNING \<and> \<not> st_stall_sim (ss_state s) \<and>
     \<not> ss_input_send_suppress s \<and>
     \<not> (ss_last_input_tip_valid s \<and> ss_last_input_tip s = rnet_wire_tick_from_sim (ss_sim_tick s) (ss_delay s) \<and>
        ss_now s - ss_last_input_ms s < 8)"

lemma bundle_lo_le: "bundle_lo s tip \<le> tip + 1"
proof -
  define red :: u32 where "red = of_nat (let r0 = (if bundle_redundancy (ss_cfg s) < 1 then 1
      else unat (bundle_redundancy (ss_cfg s))) in if r0 < unat (ss_delay s) + 1 then unat (ss_delay s) + 1 else r0)"
  define lo where "lo = (if tip + 1 > red then tip + 1 - red else 0)"
  have lo: "lo \<le> tip + 1" by (simp add: lo_def word_sub_le)
  have "bundle_lo s tip \<le> lo"
    unfolding bundle_lo_def Let_def red_def [unfolded Let_def, symmetric] lo_def [symmetric] by auto
  with lo show ?thesis by (rule order_trans [rotated])
qed

text \<open>
  C36. \<^verbatim>\<open>send_input_bundle\<close> ends on every session whose newest wire tick is not the largest 32-bit
  value, and on exactly that tick, when a bundle is due, it never returns: its loop condition
  \<^verbatim>\<open>t <= tip\<close> holds for ever.
\<close>

theorem bundle_hangs_iff:
  assumes "seats_ok s" "rows_ok (ss_local_ring s)"
  shows "send_input_bundle s = Inl Hangs \<longleftrightarrow>
     bundle_due s \<and> rnet_wire_tick_from_sim (ss_sim_tick s) (ss_delay s) = 0xffffffff"
proof -
  let ?tip = "rnet_wire_tick_from_sim (ss_sim_tick s) (ss_delay s)"
  let ?run = "bundle_loop s (bundle_ack s) ?tip (bundle_lo s ?tip) False"
  have "send_input_bundle s = Inl Hangs \<longleftrightarrow> bundle_due s \<and> ?run = None"
    by (auto simp: send_input_bundle_def bundle_due_def Let_def split: option.splits)
  moreover have "?run = None" if "?tip = 0xffffffff"
    using bundle_loop_hangs [of s "bundle_ack s" ?tip "bundle_lo s ?tip" False] that assms
    by (cases ?run) auto
  moreover have "?run \<noteq> None" if "?tip \<noteq> 0xffffffff"
  proof -
    have "unat (bundle_lo s ?tip) \<le> Suc (unat ?tip)"
      using bundle_lo_le [of s ?tip] inc_not_max [OF that] by (simp add: word_le_nat_alt)
    then show ?thesis using bundle_loop_ends [OF that, of "bundle_lo s ?tip" s "bundle_ack s" False] by auto
  qed
  ultimately show ?thesis by blast
qed

lemma frames_in_fits: "rows_ok r \<Longrightarrow> f \<in> set (frames_in r a b) \<Longrightarrow> length (wf_bytes f) = 32"
  using rows_ok_get [of r]
  by (fastforce simp: frames_in_def frame_at_def frame_of_sample_def sample_fits_def split: option.splits)

text \<open>The datagrams a finished loop has sent: the rows in order, cut into packets of at most 21.\<close>

lemma send_raw_input: "encode_bundle s ack fs = Some b \<Longrightarrow> send_raw s' (Some b) = s'\<lparr>ss_out := ss_out s' @ [b]\<rparr>"
  unfolding encode_bundle_msg
  by (erule send_raw_plain) (simp add: bundle_msg_def rnet_proto_is_rb_control_def)

lemma bundle_msg_same: "only_sends s s' \<Longrightarrow> bundle_msg s' = bundle_msg s"
  by (rule ext, rule ext) (simp add: bundle_msg_def only_sends_keeps)

lemma encode_bundle_same: "only_sends s s' \<Longrightarrow> encode_bundle s' = encode_bundle s"
  by (rule ext, rule ext) (simp add: encode_bundle_msg bundle_msg_same only_sends_keeps)

lemma bundle_loop_rows:
  assumes "tip \<noteq> 0xffffffff" "seats_ok s" "rows_ok (ss_local_ring s)" "unat t \<le> Suc (unat tip)"
    and "bundle_loop s ack tip t sent = Some (b, s')"
  shows "\<exists>fss. concat fss = frames_in (ss_local_ring s) (unat t) (Suc (unat tip)) \<and>
     (\<forall>fs \<in> set fss. fs \<noteq> [] \<and> length fs \<le> 21) \<and>
     ss_out s' = ss_out s @ map (\<lambda>fs. the (encode_bundle s ack fs)) fss \<and>
     (\<forall>fs \<in> set fss. encode_bundle s ack fs \<noteq> None) \<and> (b \<longleftrightarrow> sent \<or> fss \<noteq> [])"
  using assms(2-5)
proof (induction "Suc (unat tip) - unat t" arbitrary: s t sent rule: less_induct)
  case less
  show ?case
  proof (cases "t \<le> tip")
    case False
    then have "unat t = Suc (unat tip)" using less(4) by (simp add: word_le_nat_alt)
    moreover have "b = sent" "s' = s" using less(5) False by (subst (asm) bundle_loop.simps, simp)+
    ultimately show ?thesis by (intro exI [of _ "[]"]) (simp add: frames_in_def)
  next
    case True
    obtain fs t' where g: "gather (ss_local_ring s) 0 t tip = (fs, t')" by (cases "gather (ss_local_ring s) 0 t tip") auto
    note m = gather_more [OF assms(1) True g]
    have split: "frames_in (ss_local_ring s) (unat t) (Suc (unat tip)) =
        fs @ frames_in (ss_local_ring s) (unat t') (Suc (unat tip))"
      unfolding m(3) by (rule frames_in_append [symmetric]) (use m in auto)
    have dec: "Suc (unat tip) - unat t' < Suc (unat tip) - unat t" using m(1,2) by simp
    show ?thesis
    proof (cases "fs = []")
      case True
      then have "bundle_loop s ack tip t' sent = Some (b, s')"
        using less(5) \<open>t \<le> tip\<close> g by (subst (asm) bundle_loop.simps) simp
      from less(1) [OF dec less(2,3) m(2) this] show ?thesis unfolding split True by simp
    next
      case False
      have fits: "list_all (\<lambda>f. unat (wf_size f) \<le> 32 \<and> length (wf_bytes f) = 32) fs"
        using gather_fits [OF less(3), of 0 t tip] g by simp
      obtain d where d: "encode_bundle s ack fs = Some d"
        using encode_bundle_some [OF less(2) False m(4) fits] by blast
      let ?s = "count_bundle (send_raw s (Some d))"
      have keep: "only_sends s ?s" by (rule only_sends_trans [OF send_raw_only count_bundle_only])
      have out: "ss_out ?s = ss_out s @ [d]" by (simp add: send_raw_input [OF d] count_bundle_def)
      have run: "bundle_loop ?s ack tip t' True = Some (b, s')"
        using less(5) \<open>t \<le> tip\<close> g d False by (subst (asm) bundle_loop.simps) simp
      have pre: "seats_ok ?s" "rows_ok (ss_local_ring ?s)"
        using less(2,3) only_sends_seats [OF keep] only_sends_keeps(2) [OF keep] by simp_all
      obtain fss where ih: "concat fss = frames_in (ss_local_ring s) (unat t') (Suc (unat tip))"
        "\<forall>fs \<in> set fss. fs \<noteq> [] \<and> length fs \<le> 21"
        "ss_out s' = (ss_out s @ [d]) @ map (\<lambda>fs. the (encode_bundle s ack fs)) fss"
        "\<forall>fs \<in> set fss. encode_bundle s ack fs \<noteq> None" "b"
        using less(1) [OF dec pre m(2) run]
        unfolding encode_bundle_same [OF keep] only_sends_keeps(2) [OF keep] out by auto
      show ?thesis
        by (rule exI [of _ "fs # fss"]) (use ih d m(4) False in \<open>simp add: split\<close>)
    qed
  qed
qed

text \<open>
  C37. A due bundle sends exactly the rows that are there: the datagrams it appends decode, in order,
  to INPUT packets of at most 21 rows each which together hold every local row from the start of the
  window to the newest wire tick, once each and in tick order.
\<close>

theorem bundle_sends_rows:
  assumes "seats_ok s" "rows_ok (ss_local_ring s)" "bundle_due s"
    and "rnet_wire_tick_from_sim (ss_sim_tick s) (ss_delay s) = tip" "tip \<noteq> 0xffffffff"
  shows "\<exists>s' sent fss. send_input_bundle s = Inr s' \<and> ss_out s' = ss_out s @ sent \<and>
     concat fss = frames_in (ss_local_ring s) (unat (bundle_lo s tip)) (Suc (unat tip)) \<and>
     list_all2 (\<lambda>d fs. fs \<noteq> [] \<and> length fs \<le> 21 \<and>
        rnet_proto_decode d (length d) (protocol_magic (ss_cfg s)) =
          Decoded (msg_packet (session_id (ss_cfg s)) (bundle_msg s (bundle_ack s) fs))) sent fss"
proof -
  let ?lo = "bundle_lo s tip" and ?ack = "bundle_ack s"
  have lo: "unat ?lo \<le> Suc (unat tip)"
    using bundle_lo_le [of s tip] inc_not_max [OF assms(5)] by (simp add: word_le_nat_alt)
  obtain b s1 where run: "bundle_loop s ?ack tip ?lo False = Some (b, s1)"
    using bundle_loop_ends [OF assms(5) lo, of s ?ack False] by auto
  obtain fss where fss: "concat fss = frames_in (ss_local_ring s) (unat ?lo) (Suc (unat tip))"
    "\<forall>fs \<in> set fss. fs \<noteq> [] \<and> length fs \<le> 21"
    "ss_out s1 = ss_out s @ map (\<lambda>fs. the (encode_bundle s ?ack fs)) fss"
    "\<forall>fs \<in> set fss. encode_bundle s ?ack fs \<noteq> None"
    using bundle_loop_rows [OF assms(5,1,2) lo run] by blast
  obtain s' where s': "send_input_bundle s = Inr s'" "ss_out s' = ss_out s1"
    using assms(3,4) run by (auto simp: send_input_bundle_def bundle_due_def Let_def split: if_splits)
  have dec: "rnet_proto_decode d (length d) (protocol_magic (ss_cfg s)) =
      Decoded (msg_packet (session_id (ss_cfg s)) (bundle_msg s ?ack fs))"
    if "fs \<in> set fss" "d = the (encode_bundle s ?ack fs)" for d fs
  proof -
    have e: "encode_msg 1200 (protocol_magic (ss_cfg s)) (session_id (ss_cfg s)) (bundle_msg s ?ack fs) = Some d"
      using that fss(4) unfolding encode_bundle_msg by auto
    have "f \<in> set (frames_in (ss_local_ring s) (unat ?lo) (Suc (unat tip)))" if "f \<in> set fs" for f
      using that \<open>fs \<in> set fss\<close> fss(1) by (metis set_concat UN_I)
    then have "length (wf_bytes f) = 32" if "f \<in> set fs" for f
      using that frames_in_fits [OF assms(2)] by blast
    then have "msg_ok (bundle_msg s ?ack fs)" by (auto simp: bundle_msg_def list_all_iff)
    from encode_decode [OF this e, of "[]"] show ?thesis by simp
  qed
  have "list_all2 (\<lambda>d fs. fs \<noteq> [] \<and> length fs \<le> 21 \<and>
        rnet_proto_decode d (length d) (protocol_magic (ss_cfg s)) =
          Decoded (msg_packet (session_id (ss_cfg s)) (bundle_msg s ?ack fs)))
      (map (\<lambda>fs. the (encode_bundle s ?ack fs)) fss) fss"
    using fss(2) dec by (simp add: list_all2_conv_all_nth)
  then show ?thesis using s' fss(1,3) by (intro exI [of _ s'] exI) (intro conjI, assumption, simp, assumption+)
qed

end
