(* ===== verification/RNet_Decode_Shape.thy ===== *)
theory RNet_Decode_Shape
  imports RNet_Decode
begin

text \<open>
  The shape of a decoded packet: whatever the datagram was, the type is that of the header, the frames
  of an INPUT packet are within the limits and every array has its declared length. The lemmas follow
  the reader's combinators.
\<close>

named_theorems rd_post_rules

definition rd_post :: "('a \<Rightarrow> bool) \<Rightarrow> (rstate \<Rightarrow> 'a rres) \<Rightarrow> bool" where
  "rd_post Q m \<longleftrightarrow> (\<forall>s a s'. m s = Ok a s' \<longrightarrow> Q a)"

lemma rd_post_any: "rd_post (\<lambda>_. True) m"
  by (simp add: rd_post_def)

lemma rd_post_ok [rd_post_rules]: "Q a \<Longrightarrow> rd_post Q (rd_ok a)"
  by (simp add: rd_post_def rd_ok_def)

lemma rd_post_need [rd_post_rules]: "rd_post Q m \<Longrightarrow> rd_post Q (rd_need n m)"
  by (simp add: rd_post_def rd_need_def)

lemma rd_post_guard [rd_post_rules]: "(b \<Longrightarrow> rd_post Q m) \<Longrightarrow> rd_post Q (rd_guard b m)"
  by (simp add: rd_post_def rd_guard_def)

lemma rd_post_skip [rd_post_rules]: "rd_post Q m \<Longrightarrow> rd_post Q (rd_skip n m)"
  by (simp add: rd_post_def rd_skip_def)

lemma rd_post_bind_with:
  "rd_post R m \<Longrightarrow> (\<And>a. R a \<Longrightarrow> rd_post Q (f a)) \<Longrightarrow> rd_post Q (rd_bind m f)"
  unfolding rd_post_def rd_bind_def by (fastforce split: rres.splits)

lemma rd_post_bind [rd_post_rules]: "(\<And>a. rd_post Q (f a)) \<Longrightarrow> rd_post Q (rd_bind m f)"
  by (rule rd_post_bind_with [OF rd_post_any])

lemma rd_post_if [rd_post_rules]:
  "rd_post Q a \<Longrightarrow> rd_post Q b \<Longrightarrow> rd_post Q (if c then a else b)"
  by simp

lemma rd_post_let [rd_post_rules]: "(\<And>y. y = e \<Longrightarrow> rd_post Q (F y)) \<Longrightarrow> rd_post Q (Let e F)"
  by simp

lemma rd_post_reject [rd_post_rules]: "rd_post Q (\<lambda>s. Reject)"
  by (simp add: rd_post_def)

section \<open>The parts\<close>

definition frame_fits :: "RNetWireFrame \<Rightarrow> bool" where
  "frame_fits f \<longleftrightarrow> unat (wf_size f) \<le> 32 \<and> length (wf_bytes f) = 32"

definition packet_shape :: "u16 \<Rightarrow> RNetDecodedPacket \<Rightarrow> bool" where
  "packet_shape ty p \<longleftrightarrow> dp_type p = ty \<and> length (dp_frames p) = 21 \<and> dp_frame_count p \<le> 21 \<and>
     (\<forall>f \<in> set (dp_frames p). frame_fits f) \<and> length (dp_acks p) = 8"

lemma read_bytes_len: "rd_post (\<lambda>bs. length bs = n) (read_bytes n)"
  by (auto simp: rd_post_def read_bytes_def split: if_splits)

lemma input_frames_fit:
  "rd_post (\<lambda>fs. length fs = n \<and> (\<forall>f \<in> set fs. frame_fits f)) (decode_input_frames n)"
proof (induction n)
  case (Suc n)
  have tail: "rd_post (\<lambda>fs. length fs = Suc n \<and> (\<forall>f \<in> set fs. frame_fits f))
     (rd_bind (decode_input_frames n) (\<lambda>fs. rd_ok (\<lparr>wf_tick = tick, wf_size = sz, wf_bytes = pad_to 32 0 bs\<rparr> # fs)))"
    if "length bs = unat sz" "unat sz \<le> 32" for tick sz bs
    by (rule rd_post_bind_with [OF Suc.IH], rule rd_post_ok) (use that in \<open>auto simp: frame_fits_def\<close>)
  show ?case
    unfolding decode_input_frames.simps
    by (rule rd_post_need, rule rd_post_bind, rule rd_post_bind, rule rd_post_guard, rule rd_post_need,
        rule rd_post_bind_with [OF read_bytes_len], rule tail) simp_all
qed (simp add: rd_post_ok)

lemma read_acks_len: "rd_post (\<lambda>as. length as = n) (read_acks n)"
proof (induction n)
  case (Suc n)
  have "rd_post (\<lambda>as. length as = Suc n) (rd_bind (read_acks n) (\<lambda>as. rd_ok (a # as)))" for a
    by (rule rd_post_bind_with [OF Suc.IH], rule rd_post_ok) simp
  then show ?case by (auto intro: rd_post_bind)
qed (simp add: rd_post_ok)

lemma input_tail_shape: "packet_shape ty p \<Longrightarrow> rd_post (packet_shape ty) (decode_input_tail p)"
proof -
  assume p: "packet_shape ty p"
  have acks: "packet_shape ty (p\<lparr>dp_ack_count := n, dp_acks := pad_to 8 0 as\<rparr>)"
    if "length as = unat n" "unat n \<le> 8" for n as
    using p that by (simp add: packet_shape_def)
  show ?thesis
    unfolding rd_post_def
  proof (intro allI impI)
    fix s q s' assume run: "decode_input_tail p s = Ok q s'"
    show "packet_shape ty q"
    proof (cases "snd s = 0")
      case True
      with run p show ?thesis by (simp add: decode_input_tail_def rd_ok_def)
    next
      case False
      with run obtain n s1 as where n: "\<not> unat n > 8" and as: "read_acks (unat n) s1 = Ok as s'"
        and q: "q = p\<lparr>dp_ack_count := n, dp_acks := pad_to 8 0 as\<rparr>"
        by (auto simp: decode_input_tail_def rd_bind_def rd_guard_def rd_ok_def split: rres.splits if_splits)
      have "length as = unat n" using as read_acks_len [of "unat n"] unfolding rd_post_def by blast
      with n q acks show ?thesis by simp
    qed
  qed
qed

lemma input_shape: "packet_shape ty p \<Longrightarrow> rd_post (packet_shape ty) (decode_input p)"
proof -
  assume p: "packet_shape ty p"
  have "packet_shape ty (p\<lparr>dp_local_slot := ls, dp_frame_count := n, dp_input_epoch := e,
      dp_ack_tick := a, dp_frames := pad_to 21 zero_wire_frame fs\<rparr>)"
    if "length fs = n" "n \<le> 21" "\<forall>f \<in> set fs. frame_fits f" for ls n e a fs
    using p that by (auto simp: packet_shape_def pad_to_def frame_fits_def zero_wire_frame_def)
  then show ?thesis
    unfolding decode_input_def
    by - (rule rd_post_need, (rule rd_post_bind)+, rule rd_post_guard,
        rule rd_post_bind_with [OF input_frames_fit], rule input_tail_shape, simp)
qed

lemma body_shape: "packet_shape ty p \<Longrightarrow> rd_post (packet_shape ty) (decode_body p)"
  unfolding decode_body_def decode_hello_def decode_slot_only_def decode_start_def decode_delay_sync_def
    decode_input_confirm_def decode_state_begin_def decode_state_chunk_def decode_state_ack_def
    decode_state_probe_def decode_state_probe_reply_def decode_state_probe_done_def
    decode_sio_multi_xfer_def decode_rb_sync_def decode_rb_seal_rows_def decode_rb_baseline_def
    decode_rb_post_def decode_rb_frame_commit_def decode_modset_def decode_rb_resolved_def
  by (auto intro!: rd_post_rules input_shape simp: packet_shape_def)

lemma trailer_shape: "packet_shape ty p \<Longrightarrow> decode_rb_trailer p s = Ok q s' \<Longrightarrow> packet_shape ty q"
  by (auto simp: decode_rb_trailer_def rd_bind_def rd_ok_def packet_shape_def split: if_splits rres.splits)

text \<open>The type field of a datagram, bytes 4 and 5.\<close>

definition wire_type :: "bytes \<Rightarrow> u16" where
  "wire_type b = ucast (b ! 4) OR push_bit 8 (ucast (b ! 5))"

lemma zero_packet_shape: "packet_shape ty (zero_packet\<lparr>dp_type := ty, dp_session_id := sid\<rparr>)"
  by (simp add: packet_shape_def zero_packet_def frame_fits_def zero_wire_frame_def)

lemma read_u32_Ok: "read_u32 (b, r) = Ok v s \<Longrightarrow> \<exists>a0 a1 a2 a3 bs. b = a0 # a1 # a2 # a3 # bs \<and> s = (bs, r - 4)"
  by (cases "(b, r)" rule: read_u32.cases) auto

lemma read_u16_Ok:
  "read_u16 (b, r) = Ok v s \<Longrightarrow> \<exists>a0 a1 bs. b = a0 # a1 # bs \<and> v = ucast a0 OR push_bit 8 (ucast a1)"
  by (cases "(b, r)" rule: read_u16.cases) auto

lemma rd_bind_Ok: "rd_bind m f s = Ok a s' \<longleftrightarrow> (\<exists>x s1. m s = Ok x s1 \<and> f x s1 = Ok a s')"
  by (auto simp: rd_bind_def split: rres.splits)

lemma rd_guard_Ok: "rd_guard b m s = Ok a s' \<longleftrightarrow> b \<and> m s = Ok a s'"
  by (auto simp: rd_guard_def)

text \<open>Every decoded packet has the shape, and the type its datagram says.\<close>

lemma decoded_shape:
  assumes "rnet_proto_decode b n mg = Decoded p"
  shows "packet_shape (wire_type b) p"
proof -
  let ?body = "\<lambda>ty sid. rd_bind (decode_body (zero_packet\<lparr>dp_type := ty, dp_session_id := sid\<rparr>)) decode_rb_trailer"
  obtain s where run: "rd_bind read_u32 (\<lambda>magic. rd_guard (magic = mg) (
           rd_bind read_u16 (\<lambda>ty. rd_bind read_u32 (\<lambda>session_id s.
             rd_bind read_u32 (\<lambda>expect _.
               rd_guard (rnet_proto_checksum (take (n - 4) b) = expect) (?body ty session_id)
                 (fst s, int n - 14))
             (drop (n - 4) b, 4))))) (b, int n) = Ok p s"
    using assms by (auto simp: rnet_proto_decode_def rd_result_def split: if_splits rres.splits)
  then obtain m s1 ty s2 sid s3 where u32: "read_u32 (b, int n) = Ok m s1" and u16: "read_u16 s1 = Ok ty s2"
    and body: "\<exists>s4 q s5 s6. decode_body (zero_packet\<lparr>dp_type := ty, dp_session_id := sid\<rparr>) s4 = Ok q s5 \<and>
        decode_rb_trailer q s5 = Ok p s6"
    unfolding rd_bind_Ok rd_guard_Ok by blast
  obtain a0 a1 a2 a3 bs where b: "b = a0 # a1 # a2 # a3 # bs" "s1 = (bs, int n - 4)"
    using read_u32_Ok [OF u32] by blast
  obtain a4 a5 cs where "bs = a4 # a5 # cs" "ty = ucast a4 OR push_bit 8 (ucast a5)"
    using read_u16_Ok u16 b(2) by blast
  with b have ty: "ty = wire_type b" by (simp add: wire_type_def)
  show ?thesis
    using body body_shape [OF zero_packet_shape, of ty sid] trailer_shape
    unfolding rd_post_def ty by blast
qed

end
