(* ===== verification/RNet_Lockstep.thy ===== *)
theory RNet_Lockstep
  imports RNet_Bundle RNet_Decode_Shape
begin

text \<open>
  The tables of a session. Its tables by seat and by tick keep their lengths and every stored row fits
  its field, whatever arrives and whatever the host calls; \<open>session_step\<close> is one call of the host or
  the passing of time, and the invariant holds in every reachable session.
\<close>

section \<open>Well-formed sessions\<close>

definition confirm_wf :: "RNetConfirm \<Rightarrow> bool" where
  "confirm_wf c \<longleftrightarrow> length (cf_published c) = 128 \<and> length (cf_peer c) = 128 \<and>
     (\<forall>row \<in> set (cf_peer c). length row = 8) \<and> length (cf_last_sent_ms c) = 128"

definition diag_wf :: "RNetDiag \<Rightarrow> bool" where
  "diag_wf d \<longleftrightarrow> length (dg_arr_ms d) = 8 \<and> (\<forall>row \<in> set (dg_arr_ms d). length row = 128) \<and>
     length (dg_arr_tick d) = 8 \<and> (\<forall>row \<in> set (dg_arr_tick d). length row = 128)"

definition session_wf :: "RNetSession \<Rightarrow> bool" where
  "session_wf s \<longleftrightarrow> seats_ok s \<and> rows_ok (ss_local_ring s) \<and> length (ss_remote_rings s) = 8 \<and>
     (\<forall>r \<in> set (ss_remote_rings s). rows_ok r) \<and> length (ss_peer_ready s) = 8 \<and>
     length (ss_peer_ack_tick s) = 8 \<and> length (ss_peer_ack_seen s) = 8 \<and>
     confirm_wf (ss_confirm s) \<and> length (lv_peer_rx_ms (ss_live s)) = 8 \<and> diag_wf (ss_diag s)"

named_theorems wf_intros

lemma set_update_all: "(\<forall>x \<in> set xs. P x) \<Longrightarrow> P v \<Longrightarrow> \<forall>x \<in> set (xs[i := v]). P x"
  using set_update_subset_insert [of xs i v] by blast

lemma update_row: "(\<forall>row \<in> set xss. length row = n) \<Longrightarrow> i < length xss \<Longrightarrow>
    \<forall>row \<in> set (xss[i := (xss ! i)[j := v]]). length row = n"
  by (rule set_update_all) auto

lemma rows_ok_clear [simp]: "rows_ok rnet_ring_clear"
  by (simp add: rows_ok_def ring_inv_clear) (simp add: rnet_ring_clear_def sample_fits_def zero_sample_def)

lemma rows_ok_store: "rows_ok r \<Longrightarrow> sample_fits sm \<Longrightarrow> rows_ok (rnet_ring_store r sm)"
  using set_update_all [of "ring_slots r" sample_fits sm] by (simp add: rows_ok_def ring_inv_store) (simp add: rnet_ring_store_def)

lemma neutral_fits: "sample_fits (neutral_sample t)"
  by (simp add: neutral_sample_def zero_sample_def sample_fits_def)

lemma frame_sample_fits: "frame_fits f \<Longrightarrow> sample_fits (sample_of_frame f)"
  by (simp add: frame_fits_def sample_of_frame_def sample_fits_def)

lemma only_sends_wf: "only_sends s s' \<Longrightarrow> diag_wf (ss_diag s') = diag_wf (ss_diag s) \<Longrightarrow> session_wf s' = session_wf s"
  by (unfold only_sends_def, elim exE, hypsubst) (simp add: session_wf_def seats_ok_def)

lemma only_state_wf: "only_state s s' \<Longrightarrow> session_wf s' = session_wf s"
  by (unfold only_state_def, elim exE, hypsubst) (simp add: session_wf_def seats_ok_def)

text \<open>Updates of fields that are no tables.\<close>

lemma session_wf_fields [simp]:
  "session_wf (s\<lparr>ss_phase := a1\<rparr>) = session_wf s" "session_wf (s\<lparr>ss_out := a2\<rparr>) = session_wf s"
  "session_wf (s\<lparr>ss_sim_tick := a3\<rparr>) = session_wf s" "session_wf (s\<lparr>ss_last_hello_ms := a4\<rparr>) = session_wf s"
  "session_wf (s\<lparr>ss_last_ready_ms := a4\<rparr>) = session_wf s" "session_wf (s\<lparr>ss_last_input_ms := a4\<rparr>) = session_wf s"
  "session_wf (s\<lparr>ss_last_input_tip := a3\<rparr>) = session_wf s" "session_wf (s\<lparr>ss_last_input_tip_valid := b\<rparr>) = session_wf s"
  "session_wf (s\<lparr>ss_local_ready := b\<rparr>) = session_wf s" "session_wf (s\<lparr>ss_start_sent := b\<rparr>) = session_wf s"
  "session_wf (s\<lparr>ss_delay := a5\<rparr>) = session_wf s" "session_wf (s\<lparr>ss_delay_pending := b\<rparr>) = session_wf s"
  "session_wf (s\<lparr>ss_delay_pending_value := a5\<rparr>) = session_wf s"
  "session_wf (s\<lparr>ss_delay_pending_effective := a3\<rparr>) = session_wf s"
  "session_wf (s\<lparr>ss_delay_pending_last_tx_ms := a4\<rparr>) = session_wf s"
  "session_wf (s\<lparr>ss_highest_remote_ack := a3\<rparr>) = session_wf s" "session_wf (s\<lparr>ss_ctrl := a6\<rparr>) = session_wf s"
  "session_wf (s\<lparr>ss_profiles := a7\<rparr>) = session_wf s" "session_wf (s\<lparr>ss_state := a8\<rparr>) = session_wf s"
  "session_wf (s\<lparr>ss_input_send_suppress := b\<rparr>) = session_wf s" "session_wf (s\<lparr>ss_now := a4\<rparr>) = session_wf s"
  "session_wf (s\<lparr>ss_os_now := a4\<rparr>) = session_wf s" "session_wf (s\<lparr>ss_mode := a9\<rparr>) = session_wf s"
  "session_wf (s\<lparr>ss_input_epoch := a10\<rparr>) = session_wf s"
  by (simp_all add: session_wf_def seats_ok_def)

lemma session_wf_cfg [simp]: "session_wf (s\<lparr>ss_cfg := (ss_cfg s)\<lparr>input_delay := d\<rparr>\<rparr>) = session_wf s"
  by (simp add: session_wf_def seats_ok_def)

lemma session_wf_updates:
  "session_wf s \<Longrightarrow> rows_ok r \<Longrightarrow> session_wf (s\<lparr>ss_local_ring := r\<rparr>)"
  "session_wf s \<Longrightarrow> confirm_wf c \<Longrightarrow> session_wf (s\<lparr>ss_confirm := c\<rparr>)"
  "session_wf s \<Longrightarrow> diag_wf d \<Longrightarrow> session_wf (s\<lparr>ss_diag := d\<rparr>)"
  "session_wf s \<Longrightarrow> length rd = 8 \<Longrightarrow> session_wf (s\<lparr>ss_peer_ready := rd\<rparr>)"
  "session_wf s \<Longrightarrow> length at = 8 \<Longrightarrow> session_wf (s\<lparr>ss_peer_ack_tick := at\<rparr>)"
  "session_wf s \<Longrightarrow> length as = 8 \<Longrightarrow> session_wf (s\<lparr>ss_peer_ack_seen := as\<rparr>)"
  "session_wf s \<Longrightarrow> length (lv_peer_rx_ms l) = 8 \<Longrightarrow> session_wf (s\<lparr>ss_live := l\<rparr>)"
  "session_wf s \<Longrightarrow> length ca = 8 \<Longrightarrow> session_wf (s\<lparr>ss_remote_contiguous_ack := ca\<rparr>)"
  "session_wf s \<Longrightarrow> length rs = 8 \<Longrightarrow> (\<forall>r \<in> set rs. rows_ok r) \<Longrightarrow> session_wf (s\<lparr>ss_remote_rings := rs\<rparr>)"
  by (simp_all add: session_wf_def seats_ok_def)

lemma session_wf_parts:
  assumes "session_wf s"
  shows "seats_ok s" "rows_ok (ss_local_ring s)" "length (ss_remote_rings s) = 8"
    "\<forall>r \<in> set (ss_remote_rings s). rows_ok r" "length (ss_peer_ready s) = 8"
    "length (ss_peer_ack_tick s) = 8" "length (ss_peer_ack_seen s) = 8" "confirm_wf (ss_confirm s)"
    "length (lv_peer_rx_ms (ss_live s)) = 8" "diag_wf (ss_diag s)" "length (ss_remote_contiguous_ack s) = 8"
    "slot_count (ss_cfg s) \<le> 8" "2 \<le> slot_count (ss_cfg s)"
  using assms by (auto simp: session_wf_def seats_ok_def)

lemma send_raw_wf [simp]: "session_wf (send_raw s x) = session_wf s"
proof -
  have "\<exists>out. send_raw s x = s\<lparr>ss_out := out\<rparr>"
    by (auto simp: send_raw_def split: option.splits intro: exI [of _ "ss_out s"])
  then show ?thesis by auto
qed

lemma count_bundle_wf [simp]: "session_wf s \<Longrightarrow> session_wf (count_bundle s)"
  unfolding count_bundle_def by (rule session_wf_updates(3)) (auto dest: session_wf_parts(10) simp: diag_wf_def)

lemma seed_row_ok: "rows_ok r \<Longrightarrow> rows_ok (seed_row r t)"
  by (simp add: seed_row_def rows_ok_store neutral_fits)

lemma seed_rows_ok: "rows_ok r \<Longrightarrow> rows_ok (foldl seed_row r ts)"
  by (induction ts arbitrary: r) (simp_all add: seed_row_ok)

lemma seed_wf: "session_wf s \<Longrightarrow> session_wf (seed_delay_prefix s)"
  unfolding seed_delay_prefix_def by (rule session_wf_updates) (simp_all add: seed_rows_ok session_wf_parts(2))

lemma bundle_loop_wf: "bundle_loop s ack tip t sent = Some y \<Longrightarrow> session_wf s \<Longrightarrow> session_wf (snd y)"
proof -
  assume run0: "bundle_loop s ack tip t sent = Some y"
  have "session_wf s \<longrightarrow> session_wf (snd y)"
  proof (rule bundle_loop.raw_induct [OF _ run0, where P = "\<lambda>s ack tip t sent y. session_wf s \<longrightarrow> session_wf (snd y)"])
    fix loop :: "RNetSession \<Rightarrow> u32 \<Rightarrow> u32 \<Rightarrow> u32 \<Rightarrow> bool \<Rightarrow> (bool \<times> RNetSession) option" and s ack tip t sent y
    assume IH: "\<And>s ack tip t sent y. loop s ack tip t sent = Some y \<Longrightarrow> session_wf s \<longrightarrow> session_wf (snd y)"
      and run: "(if t \<le> tip
        then let (fs, t') = gather (ss_local_ring s) 0 t tip
             in if fs = [] then loop s ack tip t' sent
                else case encode_bundle s ack fs of None \<Rightarrow> Some (sent, s)
                     | Some b \<Rightarrow> loop (count_bundle (send_raw s (Some b))) ack tip t' True
        else Some (sent, s)) = Some y"
    show "session_wf s \<longrightarrow> session_wf (snd y)"
      using run by (auto split: if_splits prod.splits option.splits dest!: IH)
  qed
  then show "session_wf s \<Longrightarrow> session_wf (snd y)" by blast
qed

lemma send_input_bundle_wf: "send_input_bundle s = Inr s' \<Longrightarrow> session_wf s \<Longrightarrow> session_wf s'"
  by (auto simp: send_input_bundle_def Let_def split: if_splits option.splits prod.splits dest!: bundle_loop_wf)

text \<open>Bootstrap and the packets.\<close>

lemma send_hello_wf [simp]: "session_wf (send_hello s) = session_wf s"
  by (simp add: send_hello_def)

lemma send_start_wf [simp]: "session_wf (send_start s) = session_wf s"
  by (simp add: send_start_def)

lemma begin_running_wf: "begin_running s tick = Inr s' \<Longrightarrow> session_wf s \<Longrightarrow> session_wf s'"
  unfolding begin_running_def by (erule send_input_bundle_wf) (simp add: seed_wf)

lemma mark_ready_len: "length (snd (mark_ready cfg ready is')) = length ready"
  by (induction cfg ready is' rule: mark_ready.induct) auto

lemma at_seat_Inr: "at_seat slot f = Inr x \<longleftrightarrow> unat slot < 8 \<and> f (unat slot) = Inr x"
  by (simp add: at_seat_def)

lemma maybe_bootstrap_wf: "maybe_bootstrap s = Inr s' \<Longrightarrow> session_wf s \<Longrightarrow> session_wf s'"
proof -
  assume run: "maybe_bootstrap s = Inr s'" and wf: "session_wf s"
  define s1 where "s1 = (if ss_phase s = PHASE_LINKING \<and> ss_now s - ss_last_hello_ms s \<ge> 100 then send_hello s else s)"
  define s2 where "s2 = s1\<lparr>ss_local_ready := True\<rparr>"
  define s3 where "s3 = (if ss_now s - ss_last_ready_ms s2 \<ge> 100
      then (send_raw s2 (rnet_proto_encode_ready RNET_MAX_PACKET (protocol_magic (ss_cfg s2))
              (session_id (ss_cfg s2)) (ss_wire_slot s2)))\<lparr>ss_last_ready_ms := ss_now s\<rparr> else s2)"
  define own where "own = (if ss_is_observer s3 then Inr (ss_peer_ready s3)
      else at_seat (local_slot (ss_cfg s3)) (\<lambda>k. Inr ((ss_peer_ready s3)[k := True])))"
  have w1: "session_wf s1" using wf by (simp add: s1_def)
  then have w3: "session_wf s3" by (simp add: s3_def s2_def)
  have run': "(if ss_phase s1 \<noteq> PHASE_READY \<and> ss_phase s1 \<noteq> PHASE_LINKING then Inr s1
      else and_then own (\<lambda>own.
        let (all_ready, ready) = mark_ready (ss_cfg s3) own [0..<unat (slot_count (ss_cfg s3))];
            s4 = s3\<lparr>ss_peer_ready := ready\<rparr>
        in if all_ready \<and> ss_is_sim_authority s4 \<and> \<not> ss_start_sent s4
           then begin_running ((send_start s4)\<lparr>ss_start_sent := True\<rparr>) 0 else Inr s4)) = Inr s'"
    using run unfolding maybe_bootstrap_def Let_def s1_def [symmetric]
    unfolding s2_def [symmetric] unfolding s3_def [symmetric] unfolding own_def [symmetric] .
  show ?thesis
  proof (cases "ss_phase s1 \<noteq> PHASE_READY \<and> ss_phase s1 \<noteq> PHASE_LINKING")
    case False
    then obtain rd where rd: "own = Inr rd" and rest: "(let (all_ready, ready) = mark_ready (ss_cfg s3) rd [0..<unat (slot_count (ss_cfg s3))];
            s4 = s3\<lparr>ss_peer_ready := ready\<rparr>
        in if all_ready \<and> ss_is_sim_authority s4 \<and> \<not> ss_start_sent s4
           then begin_running ((send_start s4)\<lparr>ss_start_sent := True\<rparr>) 0 else Inr s4) = Inr s'"
      using run' by (auto simp: and_then_Inr)
    obtain all_ready ready where m: "mark_ready (ss_cfg s3) rd [0..<unat (slot_count (ss_cfg s3))] = (all_ready, ready)"
      by (cases "mark_ready (ss_cfg s3) rd [0..<unat (slot_count (ss_cfg s3))]") auto
    define s4 where "s4 = s3\<lparr>ss_peer_ready := ready\<rparr>"
    have "length rd = 8" using rd session_wf_parts(5) [OF w3] by (auto simp: own_def at_seat_Inr split: if_splits)
    then have "length ready = 8"
      using mark_ready_len [of "ss_cfg s3" rd "[0..<unat (slot_count (ss_cfg s3))]"] m by simp
    then have w4: "session_wf s4" unfolding s4_def by (rule session_wf_updates(4) [OF w3])
    have "(if all_ready \<and> ss_is_sim_authority s4 \<and> \<not> ss_start_sent s4
        then begin_running ((send_start s4)\<lparr>ss_start_sent := True\<rparr>) 0 else Inr s4) = Inr s'"
      using rest unfolding m Let_def prod.case unfolding s4_def [symmetric] .
    then show ?thesis using w4 begin_running_wf [of "(send_start s4)\<lparr>ss_start_sent := True\<rparr>" 0 s']
      by (simp split: if_splits)
  qed (use run' w1 in simp)
qed

lemma set_delay_wf [simp]: "session_wf (set_delay s d) = session_wf s"
  by (simp add: set_delay_def session_wf_def seats_ok_def)

lemma on_hello_wf: "session_wf s \<Longrightarrow> session_wf (on_hello s p)"
  by (simp add: on_hello_def Let_def seed_wf)

lemma on_ready_wf: "on_ready s p = Inr s' \<Longrightarrow> session_wf s \<Longrightarrow> session_wf s'"
  by (auto simp: on_ready_def Let_def at_seat_Inr session_wf_updates session_wf_parts split: if_splits)

lemma on_start_wf: "on_start s p = Inr s' \<Longrightarrow> session_wf s \<Longrightarrow> session_wf s'"
  by (auto simp: on_start_def begin_running_wf split: if_splits)

lemma remote_rings_wf:
  assumes "session_wf s" "rows_ok r" "length ca = 8" "diag_wf d"
  shows "session_wf (s\<lparr>ss_remote_rings := (ss_remote_rings s)[k := r], ss_remote_contiguous_ack := ca, ss_diag := d\<rparr>)"
  using set_update_all [OF session_wf_parts(4) [OF assms(1)] assms(2)] assms
  by (simp add: session_wf_def seats_ok_def)

lemma store_remote_frame_wf:
  assumes "store_remote_frame s slot f = Inr s'" "session_wf s" "frame_fits f"
  shows "session_wf s'"
proof (cases "unat slot < 8")
  case k: True
  have ring: "rows_ok (ss_ring s slot)" using session_wf_parts(3,4) [OF assms(2)] k by simp
  have rs: "rows_ok (rnet_ring_store (ss_ring s slot) (sample_of_frame f))"
    by (rule rows_ok_store [OF ring frame_sample_fits [OF assms(3)]])
  have dg: "diag_wf ((ss_diag s)\<lparr>
      dg_arr_tick := (dg_arr_tick (ss_diag s))[unat slot := (dg_arr_tick (ss_diag s) ! unat slot)[i := a]],
      dg_arr_ms := (dg_arr_ms (ss_diag s))[unat slot := (dg_arr_ms (ss_diag s) ! unat slot)[i := b]]\<rparr>)" for i a b
    using session_wf_parts(10) [OF assms(2)] k
      update_row [of "dg_arr_tick (ss_diag s)" 128 "unat slot" i a] update_row [of "dg_arr_ms (ss_diag s)" 128 "unat slot" i b]
    by (simp add: diag_wf_def)
  have "session_wf (s\<lparr>ss_remote_rings := (ss_remote_rings s)[unat slot := rnet_ring_store (ss_ring s slot) (sample_of_frame f)],
      ss_remote_contiguous_ack := ca, ss_diag := (ss_diag s)\<lparr>
      dg_arr_tick := (dg_arr_tick (ss_diag s))[unat slot := (dg_arr_tick (ss_diag s) ! unat slot)[i := a]],
      dg_arr_ms := (dg_arr_ms (ss_diag s))[unat slot := (dg_arr_ms (ss_diag s) ! unat slot)[i := b]]\<rparr>\<rparr>)"
    if "length ca = 8" for ca i a b
    by (rule remote_rings_wf [OF assms(2) rs that dg])
  from this this [of "ss_remote_contiguous_ack s"] show ?thesis
    using assms(1,2) session_wf_parts(11) [OF assms(2)] unfolding store_remote_frame_def Let_def at_seat_def
    by (auto split: if_splits)
qed (use assms in \<open>auto simp: store_remote_frame_def at_seat_def split: if_splits\<close>)

lemma store_frames_wf:
  "store_frames s slot fs = Inr s' \<Longrightarrow> session_wf s \<Longrightarrow> \<forall>f \<in> set fs. frame_fits f \<Longrightarrow> session_wf s'"
  by (induction fs arbitrary: s) (auto simp: and_then_Inr dest: store_remote_frame_wf)

lemma on_input_acks_wf: "on_input_acks s p = Inr s' \<Longrightarrow> session_wf s \<Longrightarrow> session_wf s'"
  by (auto simp: on_input_acks_def Let_def at_seat_Inr session_wf_parts intro!: session_wf_updates split: if_splits)

lemma on_input_wf:
  assumes "on_input s p = Inr s'" "session_wf s" "packet_shape ty p"
  shows "session_wf s'"
proof -
  have "\<forall>f \<in> set (take (dp_frame_count p) (dp_frames p)). frame_fits f"
    using assms(3) by (auto simp: packet_shape_def dest: in_set_takeD)
  then show ?thesis
    using assms(1,2) store_frames_wf on_input_acks_wf by (auto simp: on_input_def and_then_Inr split: if_splits)
qed

lemma on_delay_sync_wf: "session_wf s \<Longrightarrow> session_wf (on_delay_sync s p)"
  by (simp add: on_delay_sync_def)

lemma note_desync_wf [simp]: "confirm_wf (note_desync c t a b) = confirm_wf c"
  by (simp add: note_desync_def confirm_wf_def)

lemma peer_entry_wf: "confirm_wf c \<Longrightarrow> confirm_wf (c\<lparr>cf_peer := (cf_peer c)[ring_slot t := (cf_peer c ! ring_slot t)[j := e]]\<rparr>)"
  using update_row [of "cf_peer c" 8 "ring_slot t" j e] by (simp add: confirm_wf_def)

lemma on_input_confirm_wf: "on_input_confirm s p = Inr s' \<Longrightarrow> session_wf s \<Longrightarrow> session_wf s'"
  unfolding on_input_confirm_def Let_def
  by (auto intro!: session_wf_updates(2) split: option.split if_splits simp: at_seat_Inr peer_entry_wf session_wf_parts(8))

lemma on_bye_wf: "session_wf s \<Longrightarrow> session_wf (on_bye s p)"
  by (simp add: on_bye_def Let_def session_wf_updates session_wf_parts)

lemma on_state_packet_wf: "session_wf s \<Longrightarrow> session_wf (on_state_packet alloc s p)"
  using only_state_wf [OF only_state_packet [OF only_state_refl]] by simp

lemma handle_decoded_wf:
  assumes "handle_decoded alloc s p = Inr s'" "session_wf s" "packet_shape ty p"
  shows "session_wf s'"
  using assms on_state_packet_wf [of s alloc p]
  by (auto simp: handle_decoded_def on_hello_wf on_ready_wf on_start_wf on_input_wf on_delay_sync_wf
      on_input_confirm_wf on_bye_wf split: if_splits)

lemma note_rx_wf: "note_rx s p = Inr s' \<Longrightarrow> session_wf s \<Longrightarrow> session_wf s'"
proof -
  assume run: "note_rx s p = Inr s'" and wf: "session_wf s"
  let ?l = "\<lambda>rx. (ss_live s)\<lparr>lv_last_peer_rx_ms := ss_now s, lv_peer_rx_ms := rx\<rparr>"
  have "session_wf (s\<lparr>ss_live := ?l rx, ss_diag := (ss_diag s)\<lparr>dg_packets_rx := n\<rparr>\<rparr>)" if "length rx = 8" for rx n
    using wf that by (simp add: session_wf_def seats_ok_def diag_wf_def)
  from this this [of "lv_peer_rx_ms (ss_live s)"] show ?thesis using run session_wf_parts(9) [OF wf]
    by (auto simp: note_rx_def Let_def and_then_Inr at_seat_Inr split: if_splits)
qed

lemma receive_datagram_wf:
  assumes "receive_datagram alloc s buf n = Inr s'" "session_wf s"
  shows "session_wf s'"
proof (cases "rnet_proto_decode buf n (protocol_magic (ss_cfg s))")
  case (Decoded p)
  then show ?thesis
    using assms handle_decoded_wf [OF _ _ decoded_shape [OF Decoded]] note_rx_wf
    by (auto simp: receive_datagram_def and_then_Inr split: if_splits)
qed (use assms in \<open>simp_all add: receive_datagram_def\<close>)

lemma recv_loop_wf: "recv_loop alloc n buf s inq = Inr (s', q) \<Longrightarrow> session_wf s \<Longrightarrow> session_wf s'"
  by (induction alloc n buf s inq rule: recv_loop.induct)
     (auto simp: Let_def and_then_Inr dest: receive_datagram_wf split: if_splits)

lemma pump_recv_wf: "pump_recv alloc junk s inq = Inr (s', q) \<Longrightarrow> session_wf s \<Longrightarrow> session_wf s'"
  unfolding pump_recv_def by (rule recv_loop_wf)

lemma burst_loop_wf: "burst_loop alloc junk n s inq = Inr (s', q) \<Longrightarrow> session_wf s \<Longrightarrow> session_wf s'"
proof (induction n arbitrary: s inq)
  case (Suc n)
  have w: "session_wf (state_drive_sender s)"
    using Suc.prems(2) only_state_wf [OF only_state_drive_sender [OF only_state_refl]] by simp
  show ?case
    using Suc.prems(1) w Suc.IH pump_recv_wf
    by (auto simp: Let_def and_then_Inr split: if_splits)
qed simp

lemma emit_delay_sync_wf [simp]: "session_wf (emit_delay_sync s d t) = session_wf s"
  by (simp add: emit_delay_sync_def split: option.split)

lemma pump_tail_wf: "pump_tail s = Inr s' \<Longrightarrow> session_wf s \<Longrightarrow> session_wf s'"
  by (auto simp: pump_tail_def Let_def and_then_Inr dest!: send_input_bundle_wf split: if_splits)

lemma profiles_drive_wf: "session_wf s \<Longrightarrow> session_wf (profiles_drive s)"
  by (simp add: profiles_drive_def Let_def rnet_session_send_rb_sync_def rb_send_def split: option.split)

lemma pump_wf:
  assumes "rnet_session_pump alloc junk s inq = Inr (s', q)" "session_wf s"
  shows "session_wf s'"
proof -
  obtain s1 in1 s2 where s: "pump_recv alloc junk s inq = Inr (s1, in1)" "maybe_bootstrap s1 = Inr s2"
    and rest: "(let s3 = profiles_drive s2;
           s4 = (if pb_active (ss_probe s3) then state_drive_probe s3 else s3)
       in and_then (if state_any_active s4 then burst_loop alloc junk 4 s4 in1 else Inr (s4, in1)) (\<lambda>(s5, in2).
          and_then (pump_tail s5) (\<lambda>s6. Inr (s6, in2)))) = Inr (s', q)"
    using assms(1) unfolding rnet_session_pump_def and_then_Inr by (auto simp: and_then_Inr)
  define s3 where "s3 = profiles_drive s2"
  define s4 where "s4 = (if pb_active (ss_probe s3) then state_drive_probe s3 else s3)"
  have "session_wf s3"
    using s assms(2) unfolding s3_def by (blast intro: profiles_drive_wf maybe_bootstrap_wf pump_recv_wf)
  then have w4: "session_wf s4"
    using only_state_wf [OF only_state_probes(1) [OF only_state_refl]] by (simp add: s4_def)
  show ?thesis
    using rest w4 unfolding s3_def [symmetric] s4_def [symmetric] Let_def
    by (auto simp: and_then_Inr split: if_splits dest: burst_loop_wf pump_tail_wf)
qed

text \<open>Confirmation, admission and the delay.\<close>

lemma publish_wf: "confirm_wf c \<Longrightarrow> confirm_wf (c\<lparr>cf_published := (cf_published c)[i := e]\<rparr>)"
  by (simp add: confirm_wf_def)

lemma send_raw_confirm [simp]: "ss_confirm (send_raw s x) = ss_confirm s"
  by (simp add: send_raw_def split: option.split)

lemma send_confirm_wf: "session_wf s \<Longrightarrow> session_wf (send_input_confirm_tick s t h)"
  unfolding send_input_confirm_tick_def Let_def
  by (rule session_wf_updates(2)) (use session_wf_parts(8) [of s] in \<open>simp_all add: confirm_wf_def\<close>)

lemma prepare_confirm_wf: "session_wf s \<Longrightarrow> session_wf (snd (prepare_wire_confirm s w f))"
  unfolding prepare_wire_confirm_def Let_def
  by (auto split: option.split intro!: send_confirm_wf session_wf_updates(2) simp: publish_wf session_wf_parts(8))

lemma refresh_confirm_wf: "session_wf s \<Longrightarrow> session_wf (refresh_confirm s w)"
  by (simp add: refresh_confirm_def Let_def send_confirm_wf prepare_confirm_wf split: option.split)

lemma refresh_window_wf: "session_wf s \<Longrightarrow> session_wf (refresh_confirm_window s a b)"
proof -
  have "session_wf s \<Longrightarrow> session_wf (foldl refresh_confirm s ws)" for ws
    by (induction ws arbitrary: s) (simp_all add: refresh_confirm_wf)
  then show "session_wf s \<Longrightarrow> ?thesis" by (simp add: refresh_confirm_window_def Let_def)
qed

lemma note_admit_wf: "session_wf s \<Longrightarrow> session_wf (note_admit_stall s why)" "session_wf s \<Longrightarrow> session_wf (note_admit_ok s)"
  unfolding note_admit_stall_def note_admit_ok_def Let_def
  by (rule session_wf_updates(3), assumption, use session_wf_parts(10) [of s] in \<open>simp add: diag_wf_def\<close>)+

lemma stalled_wf: "stalled s why = Inr (r, s') \<Longrightarrow> session_wf s \<Longrightarrow> session_wf s'"
  by (auto simp: stalled_def note_admit_wf)

lemma resend_stalled_wf: "resend_stalled s why = Inr (r, s') \<Longrightarrow> session_wf s \<Longrightarrow> session_wf s'"
  by (auto simp: resend_stalled_def and_then_Inr dest!: send_input_bundle_wf stalled_wf)

lemma admit_rows_wf:
  assumes "admit_rows s tick rows = Inr (r, s')" "session_wf s"
  shows "session_wf s'"
proof -
  obtain ok s1 where p: "prepare_wire_confirm s tick False = (ok, s1)" by (cases "prepare_wire_confirm s tick False")
  have w: "session_wf s1" using prepare_confirm_wf [OF assms(2), of tick False] p by simp
  have "session_wf (s1\<lparr>ss_confirm := note_desync (ss_confirm s1) a b d\<rparr>)" for a b d
    by (rule session_wf_updates(2) [OF w]) (simp add: session_wf_parts(8) [OF w])
  then show ?thesis
    using assms(1) w prepare_confirm_wf [OF w, of tick False] unfolding admit_rows_def Let_def p prod.case
    by (auto split: if_splits intro: note_admit_wf dest!: stalled_wf resend_stalled_wf)
qed

lemma admit_body_wf:
  assumes "admit_body s future play sample = Inr (r, s')" "session_wf s"
  shows "session_wf s'"
  using assms(1) refresh_window_wf [OF assms(2), of play sample] unfolding admit_body_def Let_def
  by (auto split: if_splits option.splits dest: stalled_wf resend_stalled_wf admit_rows_wf)

definition host_sample :: "RNetInputSample \<Rightarrow> bool" where
  "host_sample sm \<longleftrightarrow> length (sm_bytes sm) = 32"

lemma clamp_fits: "host_sample sm \<Longrightarrow> sample_fits ((clamp_sample sm)\<lparr>sm_tick := t\<rparr>)"
  by (simp add: host_sample_def clamp_sample_def sample_fits_def word_le_nat_alt not_less word_less_nat_alt)

lemma local_future_wf:
  assumes "local_future sample_local s t w = (sm, s')" "session_wf s" "host_sample (sample_local t)"
  shows "session_wf s'"
proof -
  let ?sm = "(clamp_sample (sample_local t))\<lparr>sm_tick := w\<rparr>"
  have "rows_ok (rnet_ring_store (ss_local_ring s) ?sm)"
    by (rule rows_ok_store [OF session_wf_parts(2) [OF assms(2)] clamp_fits [OF assms(3)]])
  from session_wf_updates(1) [OF assms(2) this] show ?thesis
    using assms(1,2) unfolding local_future_def Let_def by (cases "rnet_ring_get (ss_local_ring s) w") auto
qed

lemma try_admit_wf:
  assumes "rnet_session_try_admit sample_local s t = Inr (r, s')" "session_wf s" "host_sample (sample_local t)"
  shows "session_wf s'"
  using assms(1,2) local_future_wf [of sample_local s t, OF _ assms(2,3)] unfolding rnet_session_try_admit_def Let_def
  by (auto simp: and_then_Inr split: if_splits prod.splits
      dest!: stalled_wf admit_body_wf send_input_bundle_wf)

lemma apply_delay_wf [simp]: "session_wf (apply_pending_delay s) = session_wf s"
  by (simp add: apply_pending_delay_def)

lemma request_delay_wf: "session_wf s \<Longrightarrow> session_wf (snd (rnet_session_request_delay_change s d))"
  by (simp add: rnet_session_request_delay_change_def Let_def)

lemma fill_rows_ok: "rows_ok r \<Longrightarrow> host_sample sm \<Longrightarrow> rows_ok (foldl (fill_row (clamp_sample sm)) r ws)"
  by (induction ws arbitrary: r) (simp_all add: fill_row_def rows_ok_store clamp_fits)

lemma prepare_tip_wf:
  assumes "rnet_session_prepare_local_tip sample_local s t = Inr (r, s')" "session_wf s" "host_sample (sample_local t)"
  shows "session_wf s'"
proof -
  have "session_wf (s\<lparr>ss_local_ring := foldl (fill_row (clamp_sample (sample_local t))) (ss_local_ring s) ws\<rparr>)" for ws
    by (rule session_wf_updates(1) [OF assms(2) fill_rows_ok [OF session_wf_parts(2) [OF assms(2)] assms(3)]])
  then show ?thesis
    using assms(1,2) unfolding rnet_session_prepare_local_tip_def Let_def
    by (auto simp: and_then_Inr split: if_splits dest!: send_input_bundle_wf)
qed

lemma prime_rows_ok: "rows_ok r \<Longrightarrow> n \<le> 32 \<Longrightarrow> rows_ok (foldl (prime_row bs n) r ts)"
  by (induction ts arbitrary: r) (simp_all add: prime_row_def rows_ok_store sample_fits_def word_le_nat_alt)

lemma put_stall_wf [simp]: "session_wf (put_stall s b) = session_wf s"
  by (simp add: put_stall_def)

lemma prime_delay_wf:
  assumes "rnet_session_prime_delay_inputs s bs n = Inr s'" "session_wf s"
  shows "session_wf s'"
proof (cases "n \<le> 32")
  case True
  have "session_wf (s\<lparr>ss_local_ring := foldl (prime_row bs n) (ss_local_ring s) ts\<rparr>)" for ts
    by (rule session_wf_updates(1) [OF assms(2) prime_rows_ok [OF session_wf_parts(2) [OF assms(2)] True]])
  then show ?thesis
    using assms unfolding rnet_session_prime_delay_inputs_def Let_def
    by (auto simp: and_then_Inr split: if_splits dest!: send_input_bundle_wf)
qed (use assms in \<open>simp add: rnet_session_prime_delay_inputs_def not_le\<close>)

text \<open>Resynchronisation and the calls of the state transfer.\<close>

lemma hard_resync_wf: "session_wf s \<Longrightarrow> session_wf (rnet_session_hard_resync s)"
  by (simp add: rnet_session_hard_resync_def Let_def session_wf_def seats_ok_def confirm_wf_def)

lemma clear_remote_wf: "session_wf s \<Longrightarrow> session_wf (rnet_session_clear_remote_inputs s)"
  by (auto simp: rnet_session_clear_remote_inputs_def session_wf_def seats_ok_def)

lemma only_state_finish_all: "only_state s x \<Longrightarrow> only_state s (foldl state_finish_rx x ks)"
  by (induction ks arbitrary: x) (simp_all add: only_state_finish)

lemma state_finish_from_wf:
  assumes "session_wf s"
  shows "session_wf (rnet_session_state_finish_from s from hard)"
proof -
  define s1 where "s1 = (if from = -1 then state_tx_clear (foldl state_finish_rx s [0..<8])
                else if \<not> ss_is_observer s \<and> from = uint (local_slot (ss_cfg s)) then state_tx_clear s
                else if from \<ge> 0 \<and> from < 8 then state_finish_rx s (nat from) else s)"
  have "only_state s s1"
    unfolding s1_def by (simp only: if_split) (intro conjI impI only_state_basic(7) only_state_finish_all only_state_finish only_state_refl)
  then have "session_wf s1" using assms only_state_wf by blast
  then show ?thesis
    unfolding rnet_session_state_finish_from_def Let_def s1_def [symmetric]
    by (simp add: only_state_wf [OF only_state_basic(6) [OF only_state_refl]] hard_resync_wf)
qed

lemma state_finish_wf:
  assumes "session_wf s"
  shows "session_wf (rnet_session_state_finish s hard)"
proof -
  have "session_wf (state_tx_clear s)" "session_wf (state_finish_rx s k)" for k
    using assms only_state_wf [OF only_state_basic(7) [OF only_state_refl]]
      only_state_wf [OF only_state_finish [OF only_state_refl]] by simp_all
  then show ?thesis
    unfolding rnet_session_state_finish_def Let_def
    by (simp add: only_state_wf [OF only_state_basic(6) [OF only_state_refl]] hard_resync_wf
        state_finish_from_wf [OF assms])
qed

lemma only_state_snd:
  "only_state s x \<Longrightarrow> only_state s (snd (a, x))"
  "only_state s (snd p) \<Longrightarrow> only_state s (snd q) \<Longrightarrow> only_state s (snd (if c then p else q))"
  "(\<And>y. only_state s (snd (F y))) \<Longrightarrow> only_state s (snd (Let e F))"
  "only_state s (snd n) \<Longrightarrow> (\<And>y. only_state s (snd (G y))) \<Longrightarrow>
     only_state s (snd (case oe of None \<Rightarrow> n | Some y \<Rightarrow> G y))"
  by (simp_all split: option.split)

lemma only_state_snd_let:
  "only_state s e \<Longrightarrow> (\<And>y. only_state s y \<Longrightarrow> only_state s (snd (F y))) \<Longrightarrow> only_state s (snd (Let e F))"
  by simp

lemmas host_frame = only_state_snd_let only_state_snd

lemma only_state_host:
  "only_state s (snd (rnet_session_state_begin alloc s opn slot data))"
  "only_state s (snd (rnet_session_state_probe s opn slot n crc))"
  "only_state s (snd (rnet_session_state_probe_reply s m))"
  "only_state s (snd (rnet_session_state_drop_peer s i))"
  "only_state s (rnet_session_state_probe_finish s)"
  "only_state s (snd (rnet_session_state_take_ready_from s))"
  unfolding rnet_session_state_begin_def rnet_session_state_probe_def rnet_session_state_probe_reply_def
    rnet_session_state_drop_peer_def rnet_session_state_probe_finish_def state_send_probe_done_def
    rnet_session_state_take_ready_from_def
  by (assumption | rule host_frame frame_rules frame_intros)+

lemma touch_len: "length (foldl (touch_seat s) rx is') = length rx"
  by (induction is' arbitrary: rx) (simp_all add: touch_seat_def)

lemma touch_wf: "session_wf s \<Longrightarrow> session_wf (rnet_session_touch_peer_liveness s)"
  unfolding rnet_session_touch_peer_liveness_def Let_def
  by (rule session_wf_updates(7)) (simp_all add: touch_len session_wf_parts)

lemma host_calls_wf:
  "session_wf (snd (rnet_session_send_bye s)) = session_wf s"
  "session_wf (snd (rnet_session_profiles_begin s q caps)) = session_wf s"
  "session_wf (snd (rnet_session_start_lan s up)) = session_wf s"
  "session_wf (rnet_session_set_input_send_suppress s b) = session_wf s"
  "session_wf (rnet_session_advance s) = session_wf s"
  "session_wf (rnet_session_set_sim_tick s t) = session_wf s"
  by (simp_all add: rnet_session_send_bye_def transport_send_def rnet_session_profiles_begin_def
      rnet_session_start_lan_def rnet_session_set_input_send_suppress_def rnet_session_advance_def
      rnet_session_set_sim_tick_def split: option.split)

section \<open>Every reachable session\<close>

text \<open>
  One call of the host, or the clock. A call that does not return has no next state. The host's
  sample is of the type the header declares: its buffer has 32 bytes.
\<close>

inductive session_step :: "RNetSession \<Rightarrow> RNetSession \<Rightarrow> bool" where
  clock: "session_step s (s\<lparr>ss_now := now, ss_os_now := os\<rparr>)"
| pump: "rnet_session_pump alloc junk s inq = Inr (s', rest) \<Longrightarrow> session_step s s'"
| try_admit: "host_sample (sample_local t) \<Longrightarrow> rnet_session_try_admit sample_local s t = Inr (r, s') \<Longrightarrow> session_step s s'"
| advance: "session_step s (rnet_session_advance s)"
| set_tick: "session_step s (rnet_session_set_sim_tick s t)"
| request_delay: "session_step s (snd (rnet_session_request_delay_change s d))"
| prepare_tip: "host_sample (sample_local t) \<Longrightarrow> rnet_session_prepare_local_tip sample_local s t = Inr (r, s') \<Longrightarrow>
    session_step s s'"
| prime: "rnet_session_prime_delay_inputs s bs n = Inr s' \<Longrightarrow> session_step s s'"
| suppress: "session_step s (rnet_session_set_input_send_suppress s b)"
| resync: "session_step s (rnet_session_hard_resync s)"
| clear_remote: "session_step s (rnet_session_clear_remote_inputs s)"
| finish_from: "session_step s (rnet_session_state_finish_from s from hard)"
| finish: "session_step s (rnet_session_state_finish s hard)"
| state_begin: "session_step s (snd (rnet_session_state_begin alloc s opn slot data))"
| state_probe: "session_step s (snd (rnet_session_state_probe s opn slot n crc))"
| probe_reply: "session_step s (snd (rnet_session_state_probe_reply s m))"
| probe_finish: "session_step s (rnet_session_state_probe_finish s)"
| take_ready: "session_step s (snd (rnet_session_state_take_ready_from s))"
| drop_peer: "session_step s (snd (rnet_session_state_drop_peer s i))"
| touch: "session_step s (rnet_session_touch_peer_liveness s)"
| bye: "session_step s (snd (rnet_session_send_bye s))"
| profiles: "session_step s (snd (rnet_session_profiles_begin s q caps))"
| start_lan: "session_step s (snd (rnet_session_start_lan s up))"
| peer_slot: "session_step s (rnet_session_set_rb_peer_slot s slot)"
| take_commit: "rnet_session_take_rb_frame_commit s = Some (fc, s') \<Longrightarrow> session_step s s'"
| take_sync: "rnet_session_take_rb_sync s = Some (sy, s') \<Longrightarrow> session_step s s'"
| take_seal: "rnet_session_take_rb_seal_rows s = Some (sl, s') \<Longrightarrow> session_step s s'"
| take_base: "rnet_session_take_rb_baseline s = Some (ba, s') \<Longrightarrow> session_step s s'"
| take_post: "rnet_session_take_rb_post s = Some (po, s') \<Longrightarrow> session_step s s'"
| take_resolved: "rnet_session_take_rb_resolved s = Some (rs, s') \<Longrightarrow> session_step s s'"
| poll_sio: "rnet_session_poll_sio_multi_xfer s = Some (sx, s') \<Longrightarrow> session_step s s'"
| take_modset: "session_step s (snd (rnet_session_take_modset s cap))"
| take_modset_ack: "session_step s (snd (rnet_session_take_modset_ack s cap))"
| send_commit: "session_step s (snd (rnet_session_send_rb_frame_commit s t h))"
| send_sync: "session_step s (snd (rnet_session_send_rb_sync s e mt lt tt slot opc flags))"
| send_seal: "session_step s (snd (rnet_session_send_rb_seal_rows s e mt tt slot t rows))"
| send_base: "session_step s (snd (rnet_session_send_rb_baseline s e lt d1 d2 d3 d4))"
| send_post: "session_step s (snd (rnet_session_send_rb_post s e tt d1 d2 agree))"
| send_resolved: "session_step s (snd (rnet_session_send_rb_resolved s t))"
| send_sio: "session_step s (snd (rnet_session_send_sio_multi_xfer s unit_id seqn word pad))"
| send_modset: "session_step s (snd (rnet_session_send_modset s bs))"
| send_modset_ack: "session_step s (snd (rnet_session_send_modset_ack s st reason))"

lemma take_wf:
  "rnet_session_take_rb_frame_commit s = Some (fc, s') \<Longrightarrow> session_wf s' = session_wf s"
  "rnet_session_take_rb_sync s = Some (sy, s') \<Longrightarrow> session_wf s' = session_wf s"
  "rnet_session_take_rb_seal_rows s = Some (sl, s') \<Longrightarrow> session_wf s' = session_wf s"
  "rnet_session_take_rb_baseline s = Some (ba, s') \<Longrightarrow> session_wf s' = session_wf s"
  "rnet_session_take_rb_post s = Some (po, s') \<Longrightarrow> session_wf s' = session_wf s"
  "rnet_session_take_rb_resolved s = Some (rs, s') \<Longrightarrow> session_wf s' = session_wf s"
  "rnet_session_poll_sio_multi_xfer s = Some (sx, s') \<Longrightarrow> session_wf s' = session_wf s"
  "session_wf (snd (rnet_session_take_modset s cap)) = session_wf s"
  "session_wf (snd (rnet_session_take_modset_ack s cap)) = session_wf s"
  "session_wf (rnet_session_set_rb_peer_slot s slot) = session_wf s"
  by (auto simp: rnet_session_take_rb_frame_commit_def rnet_session_take_rb_sync_def rnet_session_take_rb_seal_rows_def
      rnet_session_take_rb_baseline_def rnet_session_take_rb_post_def rnet_session_take_rb_resolved_def
      rnet_session_poll_sio_multi_xfer_def rnet_session_take_modset_def rnet_session_take_modset_ack_def
      rnet_session_set_rb_peer_slot_def Let_def split: option.split)

lemma control_sends_wf:
  "session_wf (snd (rnet_session_send_rb_frame_commit s t h)) = session_wf s"
  "session_wf (snd (rnet_session_send_rb_sync s e mt lt tt slot opc flags)) = session_wf s"
  "session_wf (snd (rnet_session_send_rb_seal_rows s e mt tt slot t rows)) = session_wf s"
  "session_wf (snd (rnet_session_send_rb_baseline s e lt d1 d2 d3 d4)) = session_wf s"
  "session_wf (snd (rnet_session_send_rb_post s e tt d1 d2 agree)) = session_wf s"
  "session_wf (snd (rnet_session_send_rb_resolved s t)) = session_wf s"
  "session_wf (snd (rnet_session_send_sio_multi_xfer s unit_id seqn word pad)) = session_wf s"
  "session_wf (snd (rnet_session_send_modset s bs)) = session_wf s"
  "session_wf (snd (rnet_session_send_modset_ack s st reason)) = session_wf s"
  by (simp_all add: rnet_session_send_rb_frame_commit_def rnet_session_send_rb_sync_def rnet_session_send_rb_seal_rows_def
      rnet_session_send_rb_baseline_def rnet_session_send_rb_post_def rnet_session_send_rb_resolved_def
      rnet_session_send_sio_multi_xfer_def rnet_session_send_modset_def rnet_session_send_modset_ack_def
      rb_send_def transport_send_def Let_def split: option.split)

lemma session_step_wf: "session_step s s' \<Longrightarrow> session_wf s \<Longrightarrow> session_wf s'"
proof (induction rule: session_step.induct)
  case pump then show ?case by (rule pump_wf)
next
  case try_admit then show ?case by (rule try_admit_wf [rotated 2])
next
  case prepare_tip then show ?case by (rule prepare_tip_wf [rotated 2])
next
  case prime then show ?case by (rule prime_delay_wf)
qed (simp_all add: host_calls_wf request_delay_wf hard_resync_wf clear_remote_wf state_finish_from_wf state_finish_wf
    take_wf control_sends_wf touch_wf only_state_wf [OF only_state_host(1)] only_state_wf [OF only_state_host(2)]
    only_state_wf [OF only_state_host(3)] only_state_wf [OF only_state_host(4)]
    only_state_wf [OF only_state_host(5)] only_state_wf [OF only_state_host(6)])

lemma create_wf: "rnet_session_create cfg now os = Some s \<Longrightarrow> session_wf s"
  by (auto simp: rnet_session_create_def session_wf_def seats_ok_def confirm_wf_def zero_confirm_def diag_wf_def
      zero_diag_def split: if_splits)

lemma reachable_wf:
  assumes "rnet_session_create cfg now os = Some s0" "session_step\<^sup>*\<^sup>* s0 s"
  shows "session_wf s"
  using assms(2) by (induction rule: rtranclp_induct) (use create_wf [OF assms(1)] session_step_wf in blast)+

definition two_seats :: RNetConfig where
  "two_seats = rnet_config_init_defaults\<lparr>slot_count := 2, input_delay := 2\<rparr>"

section \<open>Sessions that send\<close>

lemma two_seats_create:
  "\<exists>s0. rnet_session_create two_seats 1 1 = Some s0 \<and> ss_cfg s0 = two_seats \<and> ss_delay s0 = 2 \<and> ss_sim_tick s0 = 0 \<and>
     \<not> ss_is_observer s0 \<and> \<not> st_stall_sim (ss_state s0) \<and> \<not> ss_input_send_suppress s0 \<and>
     \<not> ss_last_input_tip_valid s0 \<and> ss_out s0 = [] \<and> ss_highest_remote_ack s0 = 0"
  by (auto simp: rnet_session_create_def two_seats_def rnet_config_init_defaults_def rnet_config_wire_slot_def
      rnet_config_is_observer_def init_state_def)

theorem bundle_hangs_iff_witness:
  "\<exists>s. seats_ok s \<and> rows_ok (ss_local_ring s) \<and> send_input_bundle s = Inl Hangs"
proof -
  obtain s0 where s0: "rnet_session_create two_seats 1 1 = Some s0" and c: "ss_delay s0 = 2" "\<not> ss_is_observer s0"
    "\<not> st_stall_sim (ss_state s0)" "\<not> ss_input_send_suppress s0" "\<not> ss_last_input_tip_valid s0"
    using two_seats_create by blast
  let ?s = "s0\<lparr>ss_phase := PHASE_RUNNING, ss_sim_tick := 0xfffffffd\<rparr>"
  have wf: "session_wf ?s" using create_wf [OF s0] by simp
  note p = session_wf_parts(1,2) [OF wf]
  have "send_input_bundle ?s = Inl Hangs"
    unfolding bundle_hangs_iff [OF p] using c by (simp add: bundle_due_def rnet_wire_tick_from_sim_def)
  then show ?thesis using p by blast
qed

definition one_row :: RNetInputRing where
  "one_row = rnet_ring_store rnet_ring_clear (neutral_sample 2)"

lemma one_row_frames: "frames_in one_row 0 3 = [frame_of_sample (neutral_sample 2)]"
proof -
  have "[0..<3] = [0, 1, 2 :: nat]" by (simp add: upt_conv_Cons numeral_3_eq_3)
  moreover have "frame_at one_row 0 = []" "frame_at one_row 1 = []" "frame_at one_row 2 = [frame_of_sample (neutral_sample 2)]"
    by (simp_all add: frame_at_def one_row_def rnet_ring_get_def rnet_ring_store_def rnet_ring_clear_def neutral_sample_def
        ring_slot_def zero_sample_def Let_def)
  ultimately show ?thesis by (simp add: frames_in_def)
qed

theorem bundle_sends_rows_witness:
  "\<exists>s s' sent fss. seats_ok s \<and> rows_ok (ss_local_ring s) \<and> bundle_due s \<and> send_input_bundle s = Inr s' \<and>
     ss_out s' = sent \<and> concat fss = [frame_of_sample (neutral_sample 2)] \<and>
     list_all2 (\<lambda>d fs. rnet_proto_decode d (length d) (protocol_magic (ss_cfg s)) =
        Decoded (msg_packet (session_id (ss_cfg s)) (bundle_msg s (bundle_ack s) fs))) sent fss"
proof -
  obtain s0 where s0: "rnet_session_create two_seats 1 1 = Some s0" and c: "ss_cfg s0 = two_seats" "ss_delay s0 = 2"
    "ss_sim_tick s0 = 0" "\<not> ss_is_observer s0" "\<not> st_stall_sim (ss_state s0)" "\<not> ss_input_send_suppress s0"
    "\<not> ss_last_input_tip_valid s0" "ss_out s0 = []" "ss_highest_remote_ack s0 = 0"
    using two_seats_create by blast
  let ?s = "s0\<lparr>ss_phase := PHASE_RUNNING, ss_local_ring := one_row\<rparr>"
  have "rows_ok one_row" unfolding one_row_def by (rule rows_ok_store [OF rows_ok_clear neutral_fits])
  then have wf: "session_wf ?s" using session_wf_updates(1) [of "s0\<lparr>ss_phase := PHASE_RUNNING\<rparr>" one_row] create_wf [OF s0] by simp
  note p = session_wf_parts(1,2) [OF wf]
  have due: "bundle_due ?s" using c by (simp add: bundle_due_def)
  have tip: "rnet_wire_tick_from_sim (ss_sim_tick ?s) (ss_delay ?s) = 2" using c by (simp add: rnet_wire_tick_from_sim_def)
  have lo: "bundle_lo ?s 2 = 0"
    using c by (simp add: bundle_lo_def capped_lo_def Let_def two_seats_def rnet_config_init_defaults_def)
  obtain s' sent fss where run: "send_input_bundle ?s = Inr s'" "ss_out s' = ss_out ?s @ sent"
    "concat fss = frames_in (ss_local_ring ?s) (unat (bundle_lo ?s 2)) (Suc (unat (2 :: u32)))"
    and dec: "list_all2 (\<lambda>d fs. fs \<noteq> [] \<and> length fs \<le> 21 \<and>
        rnet_proto_decode d (length d) (protocol_magic (ss_cfg ?s)) =
          Decoded (msg_packet (session_id (ss_cfg ?s)) (bundle_msg ?s (bundle_ack ?s) fs))) sent fss"
    using bundle_sends_rows [OF p due tip] by auto
  have three: "Suc (Suc (Suc 0)) = (3 :: nat)" "Suc 2 = (3 :: nat)" by simp_all
  have "ss_out s' = sent" using run(2) c(8) by simp
  moreover have "concat fss = [frame_of_sample (neutral_sample 2)]"
    using run(3) unfolding lo by (simp add: three one_row_frames)
  moreover have "list_all2 (\<lambda>d fs. rnet_proto_decode d (length d) (protocol_magic (ss_cfg ?s)) =
        Decoded (msg_packet (session_id (ss_cfg ?s)) (bundle_msg ?s (bundle_ack ?s) fs))) sent fss"
    by (rule list_all2_mono [OF dec]) blast
  ultimately show ?thesis using p due run(1) by blast
qed

end
