(* ===== verification/RNet_Admit.thy ===== *)
theory RNet_Admit
  imports RNet_Lockstep
begin

text \<open>
  What admission promises: the rows of an admitted tick are those of the rings, every occupied
  remote seat has confirmed their hash, and this session has published it.
\<close>

section \<open>What admission changes\<close>

text \<open>The outbox, the counters, the pacing of the bundle and this session's own confirmations.\<close>

definition only_confirms :: "RNetSession \<Rightarrow> RNetSession \<Rightarrow> bool" where
  "only_confirms s s' \<longleftrightarrow> (\<exists>out d ms tip v c. s' = s\<lparr>ss_out := out, ss_diag := d, ss_last_input_ms := ms,
     ss_last_input_tip := tip, ss_last_input_tip_valid := v, ss_confirm := c\<rparr> \<and> cf_peer c = cf_peer (ss_confirm s))"

lemma only_confirms_refl [simp]: "only_confirms s s"
proof -
  have "s = s\<lparr>ss_out := ss_out s, ss_diag := ss_diag s, ss_last_input_ms := ss_last_input_ms s,
     ss_last_input_tip := ss_last_input_tip s, ss_last_input_tip_valid := ss_last_input_tip_valid s,
     ss_confirm := ss_confirm s\<rparr>" by simp
  then show ?thesis unfolding only_confirms_def by blast
qed

lemma only_confirms_trans: "only_confirms a b \<Longrightarrow> only_confirms b c \<Longrightarrow> only_confirms a c"
  unfolding only_confirms_def by (elim exE conjE, hypsubst) (simp, blast)

lemma only_confirms_keeps:
  assumes "only_confirms s s'"
  shows "ss_cfg s' = ss_cfg s" "ss_local_ring s' = ss_local_ring s" "ss_remote_rings s' = ss_remote_rings s"
    "ss_is_observer s' = ss_is_observer s" "cf_peer (ss_confirm s') = cf_peer (ss_confirm s)"
    "ss_sim_tick s' = ss_sim_tick s" "ss_delay s' = ss_delay s" "ss_phase s' = ss_phase s"
  using assms by (auto simp: only_confirms_def)

lemma only_sends_confirms: "only_sends s s' \<Longrightarrow> only_confirms s s'"
proof -
  assume "only_sends s s'"
  then obtain out d ms tip v where "s' = s\<lparr>ss_out := out, ss_diag := d, ss_last_input_ms := ms,
     ss_last_input_tip := tip, ss_last_input_tip_valid := v\<rparr>" unfolding only_sends_def by blast
  then have "s' = s\<lparr>ss_out := out, ss_diag := d, ss_last_input_ms := ms,
     ss_last_input_tip := tip, ss_last_input_tip_valid := v, ss_confirm := ss_confirm s\<rparr>" by simp
  then show ?thesis unfolding only_confirms_def by blast
qed

lemma set_confirm_only: "cf_peer c = cf_peer (ss_confirm s) \<Longrightarrow> only_confirms s (s\<lparr>ss_confirm := c\<rparr>)"
proof -
  assume "cf_peer c = cf_peer (ss_confirm s)"
  moreover have "s\<lparr>ss_confirm := c\<rparr> = s\<lparr>ss_out := ss_out s, ss_diag := ss_diag s, ss_last_input_ms := ss_last_input_ms s,
     ss_last_input_tip := ss_last_input_tip s, ss_last_input_tip_valid := ss_last_input_tip_valid s,
     ss_confirm := c\<rparr>" by simp
  ultimately show ?thesis unfolding only_confirms_def by blast
qed

lemma set_diag_only: "only_confirms s (s\<lparr>ss_diag := d\<rparr>)"
proof -
  have "s\<lparr>ss_diag := d\<rparr> = s\<lparr>ss_out := ss_out s, ss_diag := d, ss_last_input_ms := ss_last_input_ms s,
     ss_last_input_tip := ss_last_input_tip s, ss_last_input_tip_valid := ss_last_input_tip_valid s,
     ss_confirm := ss_confirm s\<rparr>" by simp
  then show ?thesis unfolding only_confirms_def by blast
qed

lemma send_confirm_only: "only_confirms s (send_input_confirm_tick s t h)"
  unfolding send_input_confirm_tick_def Let_def
  by (rule only_confirms_trans [OF only_sends_confirms [OF send_raw_only] set_confirm_only]) simp

lemma prepare_confirm_only: "only_confirms s (snd (prepare_wire_confirm s w f))"
proof -
  have p: "only_confirms s (s\<lparr>ss_confirm := (ss_confirm s)\<lparr>cf_published := e\<rparr>\<rparr>)" for e
    by (rule set_confirm_only) simp
  have d: "only_confirms s (s\<lparr>ss_confirm := note_desync ((ss_confirm s)\<lparr>cf_published := e\<rparr>) a b c\<rparr>)" for e a b c
    by (rule set_confirm_only) (simp add: note_desync_def)
  show ?thesis
    unfolding prepare_wire_confirm_def Let_def
    by (simp add: p d only_confirms_trans [OF p send_confirm_only] split: option.split)
qed

lemma refresh_only: "only_confirms s (refresh_confirm s w)"
  by (simp add: refresh_confirm_def Let_def send_confirm_only prepare_confirm_only split: option.split)

lemma refresh_window_only: "only_confirms s (refresh_confirm_window s a b)"
proof -
  have "only_confirms s (foldl refresh_confirm s ws)" for ws
    by (induction ws arbitrary: s) (auto intro: only_confirms_trans [OF refresh_only])
  then show ?thesis by (simp add: refresh_confirm_window_def Let_def)
qed

section \<open>An admitted tick\<close>

lemma peer_confirm_same: "cf_peer c = cf_peer c' \<Longrightarrow> peer_confirm c = peer_confirm c'"
  by (intro ext) (simp add: peer_confirm_def)

lemma note_ok_same: "ss_confirm (note_admit_ok s) = ss_confirm s" "only_confirms s (note_admit_ok s)"
  unfolding note_admit_ok_def Let_def by (simp_all add: set_diag_only)

lemma stalled_none: "stalled s why = Inr (r, s') \<Longrightarrow> r = None"
  by (simp add: stalled_def)

lemma resend_none: "resend_stalled s why = Inr (r, s') \<Longrightarrow> r = None"
  by (auto simp: resend_stalled_def and_then_Inr dest: stalled_none)

lemma published_hash: "published_entry c t = Some h \<Longrightarrow> h = he_hash (cf_published c ! ring_slot t)"
  by (auto simp: published_entry_def Let_def split: if_splits)

lemma admit_rows_some:
  assumes "admit_rows s t rows = Inr (Some r, s')"
  shows "r = rows" "only_confirms s s'"
    "published_entry (ss_confirm s') t = Some (hash_resolved_inputs t rows (unat (slot_count (ss_cfg s))))"
    "\<forall>i < unat (slot_count (ss_cfg s)). is_remote_seat (ss_cfg s) (of_nat i) \<longrightarrow>
       peer_confirm (ss_confirm s) t i = Some (hash_resolved_inputs t rows (unat (slot_count (ss_cfg s))))"
proof -
  obtain ok s1 where p: "prepare_wire_confirm s t False = (ok, s1)" by (cases "prepare_wire_confirm s t False")
  have k: "only_confirms s s1" using prepare_confirm_only [of s t False] p by simp
  have a: "r = rows \<and> s' = note_admit_ok s1 \<and> wire_confirmations_agree s1 t \<and>
      he_hash (cf_published (ss_confirm s1) ! ring_slot t) =
        hash_resolved_inputs t rows (unat (slot_count (ss_cfg s)))"
    using assms unfolding admit_rows_def Let_def p prod.case
    by (auto split: if_splits dest: stalled_none resend_none)
  then obtain h where h: "published_entry (ss_confirm s1) t = Some h"
    "\<forall>i < unat (slot_count (ss_cfg s1)). is_remote_seat (ss_cfg s1) (of_nat i) \<longrightarrow> peer_confirm (ss_confirm s1) t i = Some h"
    by (auto simp: wire_confirmations_agree_def list_all_iff split: option.splits)
  show "r = rows" using a by blast
  show "only_confirms s s'" using a only_confirms_trans [OF k note_ok_same(2)] by blast
  show "published_entry (ss_confirm s') t = Some (hash_resolved_inputs t rows (unat (slot_count (ss_cfg s))))"
    using a h(1) published_hash [OF h(1)] by (simp add: note_ok_same)
  show "\<forall>i < unat (slot_count (ss_cfg s)). is_remote_seat (ss_cfg s) (of_nat i) \<longrightarrow>
       peer_confirm (ss_confirm s) t i = Some (hash_resolved_inputs t rows (unat (slot_count (ss_cfg s))))"
    using a h(2) published_hash [OF h(1)] only_confirms_keeps(1) [OF k]
      peer_confirm_same [OF only_confirms_keeps(5) [OF k]] by simp
qed

lemma play_rows_some:
  "play_rows s lp w = Some rows \<Longrightarrow> length rows = unat (slot_count (ss_cfg s)) \<and>
     (\<forall>i < unat (slot_count (ss_cfg s)). play_row s lp w (of_nat i) = Some (rows ! i))"
  by (auto simp: play_rows_def Let_def split: if_splits) (metis (no_types, lifting) atLeastLessThan_iff image_eqI option.collapse zero_le)

lemma admit_body_some:
  assumes "admit_body s future t sw = Inr (Some rows, s')"
  shows "\<exists>lp. only_confirms s s' \<and> length rows = unat (slot_count (ss_cfg s)) \<and>
     (\<forall>i < unat (slot_count (ss_cfg s)). play_row s lp t (of_nat i) = Some (rows ! i)) \<and>
     (\<not> ss_is_observer s \<longrightarrow> (case rnet_ring_get (ss_local_ring s) t of Some sm \<Rightarrow> lp = sm | None \<Rightarrow> t = sw \<and> lp = future)) \<and>
     published_entry (ss_confirm s') t = Some (hash_resolved_inputs t rows (unat (slot_count (ss_cfg s)))) \<and>
     (\<forall>i < unat (slot_count (ss_cfg s)). is_remote_seat (ss_cfg s) (of_nat i) \<longrightarrow>
       peer_confirm (ss_confirm s) t i = Some (hash_resolved_inputs t rows (unat (slot_count (ss_cfg s)))))"
proof -
  define s1 where "s1 = refresh_confirm_window s t sw"
  have k: "only_confirms s s1" unfolding s1_def by (rule refresh_window_only)
  note keep = only_confirms_keeps [OF k]
  define lp where "lp = (if ss_is_observer s1 then zero_sample
      else case rnet_ring_get (ss_local_ring s1) t of Some sm \<Rightarrow> sm | None \<Rightarrow> future)"
  have run: "play_rows s1 lp t = Some resolved \<and> admit_rows s1 t resolved = Inr (Some rows, s')"
    if "play_rows s1 lp t = Some resolved" for resolved
    using assms that unfolding admit_body_def Let_def s1_def [symmetric] lp_def [symmetric]
    by (auto split: if_splits dest: resend_none)
  have "play_rows s1 lp t \<noteq> None" and loc: "\<not> ss_is_observer s1 \<Longrightarrow> rnet_ring_get (ss_local_ring s1) t = None \<Longrightarrow> t = sw"
    using assms unfolding admit_body_def Let_def s1_def [symmetric] lp_def [symmetric]
    by (auto split: if_splits option.splits dest: resend_none stalled_none)
  then obtain resolved where r: "play_rows s1 lp t = Some resolved" "admit_rows s1 t resolved = Inr (Some rows, s')"
    using run by auto
  note a = admit_rows_some [OF r(2)]
  have row: "play_row s1 lp t i = play_row s lp t i" for i by (simp add: play_row_def keep)
  show ?thesis
  proof (intro exI [of _ lp] conjI)
    show "only_confirms s s'" by (rule only_confirms_trans [OF k a(2)])
    show "length rows = unat (slot_count (ss_cfg s))"
      "\<forall>i < unat (slot_count (ss_cfg s)). play_row s lp t (of_nat i) = Some (rows ! i)"
      using play_rows_some [OF r(1)] a(1) by (simp_all add: keep row)
    show "\<not> ss_is_observer s \<longrightarrow> (case rnet_ring_get (ss_local_ring s) t of Some sm \<Rightarrow> lp = sm | None \<Rightarrow> t = sw \<and> lp = future)"
      using loc by (simp add: lp_def keep split: option.split)
    show "published_entry (ss_confirm s') t = Some (hash_resolved_inputs t rows (unat (slot_count (ss_cfg s))))"
      using a(1,3) by (simp add: keep)
    show "\<forall>i < unat (slot_count (ss_cfg s)). is_remote_seat (ss_cfg s) (of_nat i) \<longrightarrow>
       peer_confirm (ss_confirm s) t i = Some (hash_resolved_inputs t rows (unat (slot_count (ss_cfg s))))"
      using a(1,4) peer_confirm_same [OF keep(5)] by (simp add: keep)
  qed
qed

lemma ring_store_get:
  "rows_ok r \<Longrightarrow> sm_valid sm \<noteq> 0 \<Longrightarrow> rnet_ring_get (rnet_ring_store r sm) (sm_tick sm) = Some sm"
  by (simp add: rows_ok_def ring_inv_def rnet_ring_get_def rnet_ring_store_def Let_def)

lemma ring_row_tick: "rows_ok r \<Longrightarrow> rnet_ring_get r t = Some sm \<Longrightarrow> sm\<lparr>sm_tick := t\<rparr> = sm"
  using rows_ok_get by auto

text \<open>Sampling the local input leaves a row at the wire tick and touches nothing but the local ring.\<close>

lemma local_future_spec:
  assumes "session_wf s" "local_future sample_local s t w = (sm, s1)"
  shows "\<exists>r. s1 = s\<lparr>ss_local_ring := r\<rparr> \<and> rnet_ring_get r w = Some sm"
proof (cases "rnet_ring_get (ss_local_ring s) w")
  case None
  let ?sm = "(clamp_sample (sample_local t))\<lparr>sm_tick := w\<rparr>"
  have "rnet_ring_get (rnet_ring_store (ss_local_ring s) ?sm) (sm_tick ?sm) = Some ?sm"
    by (rule ring_store_get [OF session_wf_parts(2) [OF assms(1)]]) (simp add: clamp_sample_def)
  then show ?thesis using assms(2) None by (auto simp: local_future_def Let_def)
next
  case (Some sm')
  then have "s1 = s\<lparr>ss_local_ring := ss_local_ring s\<rparr> \<and> rnet_ring_get (ss_local_ring s) w = Some sm"
    using assms(2) by (simp add: local_future_def)
  then show ?thesis by blast
qed

text \<open>The rows of a tick as the session's rings have them; an empty seat has the neutral row.\<close>

definition seat_row :: "RNetSession \<Rightarrow> u32 \<Rightarrow> nat \<Rightarrow> RNetInputSample option" where
  "seat_row s t i =
     (if of_nat i = local_slot (ss_cfg s) then rnet_ring_get (ss_local_ring s) t
      else if rnet_config_slot_occupied (ss_cfg s) (of_nat i) then rnet_ring_get (ss_remote_rings s ! i) t
      else Some (neutral_sample t))"

lemma play_row_seat:
  assumes "session_wf s" "i < unat (slot_count (ss_cfg s))" "play_row s lp t (of_nat i) = Some row"
    and "of_nat i = local_slot (ss_cfg s) \<Longrightarrow> rnet_ring_get (ss_local_ring s) t = Some lp"
  shows "seat_row s t i = Some row"
proof -
  have i: "i < 8" "unat (of_nat i :: u8) = i"
    using assms(2) session_wf_parts(12) [OF assms(1)] by (auto simp: word_le_nat_alt unat_of_nat)
  then have "rows_ok (ss_remote_rings s ! i)" using session_wf_parts(3,4) [OF assms(1)] by simp
  then show ?thesis
    using assms(3,4) i ring_row_tick [of "ss_remote_rings s ! i" t] ring_row_tick [OF session_wf_parts(2) [OF assms(1)], of t]
    by (auto simp: play_row_def seat_row_def split: if_splits)
qed

text \<open>
  C2. When a tick is admitted the session is running at exactly that tick and has not detected a
  desync; the published rows are, seat by seat, the rows its rings hold for the tick; every occupied
  remote seat has already confirmed the hash of exactly these rows; and the session has published
  the same hash as its own confirmation.
\<close>

theorem admit_sound:
  assumes "session_wf s" "\<not> ss_is_observer s" "host_sample (sample_local t)"
    and "rnet_session_try_admit sample_local s t = Inr (Some rows, s')"
  shows "ss_phase s = PHASE_RUNNING \<and> t = ss_sim_tick s \<and> \<not> cf_desync (ss_confirm s) \<and>
     length rows = unat (slot_count (ss_cfg s)) \<and>
     (\<forall>i < length rows. seat_row s' t i = Some (rows ! i)) \<and> ss_remote_rings s' = ss_remote_rings s \<and>
     (\<forall>i < length rows. is_remote_seat (ss_cfg s) (of_nat i) \<longrightarrow>
        peer_confirm (ss_confirm s) t i = Some (hash_resolved_inputs t rows (length rows))) \<and>
     published_entry (ss_confirm s') t = Some (hash_resolved_inputs t rows (length rows))"
proof -
  let ?sw = "rnet_wire_tick_from_sim t (ss_delay s)"
  obtain future s1 where f: "local_future sample_local s t ?sw = (future, s1)" by (cases "local_future sample_local s t ?sw")
  obtain ring where s1: "s1 = s\<lparr>ss_local_ring := ring\<rparr>" "rnet_ring_get ring ?sw = Some future"
    using local_future_spec [OF assms(1) f] by blast
  have w1: "session_wf s1" by (rule local_future_wf [OF f assms(1,3)])
  obtain s2 where g: "ss_phase s = PHASE_RUNNING" "t = ss_sim_tick s" "\<not> cf_desync (ss_confirm s)"
    and run: "send_input_bundle s1 = Inr s2" "admit_body s2 future t ?sw = Inr (Some rows, s')"
    using assms(2,4) unfolding rnet_session_try_admit_def Let_def f prod.case
    by (auto simp: and_then_Inr split: if_splits dest: stalled_none)
  note k2 = only_sends_keeps [OF send_input_bundle_only [OF run(1)]]
  have w2: "session_wf s2" by (rule send_input_bundle_wf [OF run(1) w1])
  have s2: "ss_cfg s2 = ss_cfg s" "ss_remote_rings s2 = ss_remote_rings s" "ss_confirm s2 = ss_confirm s"
    "ss_local_ring s2 = ring" "ss_is_observer s2 = ss_is_observer s" using k2 s1(1) by simp_all
  obtain lp where b: "only_confirms s2 s'" "length rows = unat (slot_count (ss_cfg s))"
     "\<forall>i < unat (slot_count (ss_cfg s)). play_row s2 lp t (of_nat i) = Some (rows ! i)"
     "case rnet_ring_get ring t of Some sm \<Rightarrow> lp = sm | None \<Rightarrow> t = ?sw \<and> lp = future"
     "published_entry (ss_confirm s') t = Some (hash_resolved_inputs t rows (unat (slot_count (ss_cfg s))))"
     "\<forall>i < unat (slot_count (ss_cfg s)). is_remote_seat (ss_cfg s) (of_nat i) \<longrightarrow>
       peer_confirm (ss_confirm s) t i = Some (hash_resolved_inputs t rows (unat (slot_count (ss_cfg s))))"
    using admit_body_some [OF run(2)] assms(2) unfolding s2 by blast
  note k3 = only_confirms_keeps [OF b(1)]
  have lp: "rnet_ring_get ring t = Some lp" using b(4) s1(2) by (cases "rnet_ring_get ring t") auto
  have "seat_row s2 t i = Some (rows ! i)" if "i < length rows" for i
    using play_row_seat [OF w2, of i lp t] that b(2,3) lp by (simp add: s2)
  moreover have "seat_row s' = seat_row s2" by (intro ext) (simp add: seat_row_def k3)
  ultimately show ?thesis using g b(2,5,6) k3(3) s2(2) by simp
qed

text \<open>Two seats at tick 0 with no delay: both rows are there and seat 1 has confirmed their hash.\<close>

definition both_ring :: RNetInputRing where
  "both_ring = rnet_ring_store rnet_ring_clear (neutral_sample 0)"

definition both_hash :: u32 where
  "both_hash = hash_resolved_inputs 0 [neutral_sample 0, neutral_sample 0] 2"

definition agreed_confirm :: RNetConfirm where
  "agreed_confirm = zero_confirm\<lparr>cf_peer := (cf_peer zero_confirm)[0 := (replicate 8 zero_entry)
     [1 := \<lparr>he_tick = 0, he_hash = both_hash, he_valid = True\<rparr>]], cf_last_sent_ms := replicate 128 1\<rparr>"

definition agreed_session :: "RNetSession \<Rightarrow> RNetSession" where
  "agreed_session s = s\<lparr>ss_phase := PHASE_RUNNING, ss_delay := 0, ss_local_ring := both_ring,
     ss_remote_rings := replicate 8 both_ring, ss_confirm := agreed_confirm,
     ss_last_input_tip := 0, ss_last_input_tip_valid := True, ss_last_input_ms := 1\<rparr>"

lemma both_ring_row: "rnet_ring_get both_ring 0 = Some (neutral_sample 0)"
  using ring_store_get [OF rows_ok_clear, of "neutral_sample 0"] by (simp add: both_ring_def neutral_sample_def)

lemma both_ring_ok: "rows_ok both_ring"
  unfolding both_ring_def by (rule rows_ok_store [OF rows_ok_clear neutral_fits])

lemma agreed_confirm_wf: "confirm_wf agreed_confirm"
  unfolding confirm_wf_def agreed_confirm_def zero_confirm_def RNetConfirm.select_convs RNetConfirm.update_convs
  by (intro conjI set_update_all) simp_all

lemma agreed_wf:
  assumes "rnet_session_create two_seats 1 1 = Some s"
  shows "session_wf (agreed_session s)"
proof -
  have "session_wf (s\<lparr>ss_local_ring := both_ring\<rparr>\<lparr>ss_remote_rings := replicate 8 both_ring\<rparr>)"
    by (intro session_wf_updates create_wf [OF assms]) (simp_all add: both_ring_ok)
  from session_wf_updates(2) [OF this agreed_confirm_wf] show ?thesis
    by (simp add: agreed_session_def session_wf_def seats_ok_def)
qed

lemma two_seats_occupied: "rnet_config_slot_occupied two_seats 0" "rnet_config_slot_occupied two_seats 1"
  by (simp_all add: rnet_config_slot_occupied_def two_seats_def rnet_config_init_defaults_def Let_def word_le_nat_alt)

lemma two_seats_fields: "slot_count two_seats = 2" "local_slot two_seats = 0" "bundle_redundancy two_seats = 3"
  by (simp_all add: two_seats_def rnet_config_init_defaults_def)

lemma two_upt: "[0..<unat (slot_count two_seats)] = [0, 1]"
  by (simp add: upt_conv_Cons two_seats_fields)

lemma agreed_collect:
  assumes "ss_cfg s = two_seats" "ss_local_ring s = both_ring" "ss_remote_rings s = replicate 8 both_ring"
  shows "collect_wire_inputs s 0 = Some [neutral_sample 0, neutral_sample 0]"
proof -
  have "wire_input s 0 (of_nat i) = Some (neutral_sample 0)" if "i \<in> {0, 1}" for i
    using that assms by (auto simp: wire_input_def two_seats_fields two_seats_occupied both_ring_row)
      (simp_all add: neutral_sample_def)
  from this [of 0] this [of 1] show ?thesis unfolding collect_wire_inputs_def assms(1) two_upt by simp
qed

definition agreed_published :: RNetConfirm where
  "agreed_published = agreed_confirm\<lparr>cf_published := (cf_published agreed_confirm)
     [0 := \<lparr>he_tick = 0, he_hash = both_hash, he_valid = True\<rparr>]\<rparr>"

lemma agreed_entries:
  "peer_confirm agreed_confirm 0 (Suc 0) = Some both_hash" "peer_confirm agreed_published 0 (Suc 0) = Some both_hash"
  "published_entry agreed_confirm 0 = None" "published_entry agreed_published 0 = Some both_hash"
  "cf_last_sent_ms agreed_confirm ! 0 = 1" "cf_last_sent_ms agreed_published ! 0 = 1"
  by (simp_all add: peer_confirm_def published_entry_def agreed_published_def agreed_confirm_def zero_confirm_def
      zero_entry_def ring_slot_def)

lemma agreed_prepare:
  assumes "ss_cfg s = two_seats" "ss_local_ring s = both_ring" "ss_remote_rings s = replicate 8 both_ring"
    and "ss_confirm s = agreed_confirm \<or> ss_confirm s = agreed_published" "ss_now s = 1"
  shows "prepare_wire_confirm s 0 False = (True, s\<lparr>ss_confirm := agreed_published\<rparr>)"
proof -
  have h: "hash_resolved_inputs 0 [neutral_sample 0, neutral_sample 0] (unat (slot_count two_seats)) = both_hash"
    by (simp add: both_hash_def two_seats_fields)
  have pub: "(ss_confirm s)\<lparr>cf_published := (cf_published (ss_confirm s))
      [0 := \<lparr>he_tick = 0, he_hash = both_hash, he_valid = True\<rparr>]\<rparr> = agreed_published"
    using assms(4) by (auto simp: agreed_published_def)
  have z: "ring_slot 0 = 0" by (simp add: ring_slot_def)
  show ?thesis
    unfolding prepare_wire_confirm_def agreed_collect [OF assms(1-3)] Let_def option.case assms(1) two_upt h z pub
    by (simp add: is_remote_seat_def two_seats_fields agreed_entries assms(5))
qed

lemma agreed_admits:
  assumes "rnet_session_create two_seats 1 1 = Some s"
  shows "\<exists>s'. rnet_session_try_admit (\<lambda>_. zero_sample) (agreed_session s) 0 =
     Inr (Some [neutral_sample 0, neutral_sample 0], s')"
proof -
  let ?a = "agreed_session s" and ?p = "(agreed_session s)\<lparr>ss_confirm := agreed_published\<rparr>"
  have c: "ss_cfg s = two_seats" "ss_now s = 1" "\<not> ss_is_observer s" "pf_active (ss_profiles s) = False"
    "st_stall_sim (ss_state s) = False" "ss_sim_tick s = 0"
    using assms by (auto simp: rnet_session_create_def two_seats_fields rnet_config_is_observer_def zero_profiles_def
        init_state_def split: if_splits)
  have f: "ss_cfg ?a = two_seats" "ss_local_ring ?a = both_ring" "ss_remote_rings ?a = replicate 8 both_ring"
    "ss_now ?a = 1" "ss_confirm ?a = agreed_confirm" "\<not> ss_is_observer ?a" "ss_delay ?a = 0"
    using c by (simp_all add: agreed_session_def)
  have cp: "ss_cfg ?p = two_seats" by (simp add: f)
  have quiet: "send_input_bundle ?a = Inr ?a"
    using c by (simp add: send_input_bundle_def Let_def agreed_session_def rnet_wire_tick_from_sim_def)
  have fut: "local_future (\<lambda>_. zero_sample) ?a 0 0 = (neutral_sample 0, ?a)"
    by (simp add: local_future_def f both_ring_row)
  have win: "refresh_confirm_window ?a 0 0 = ?p"
    unfolding refresh_confirm_window_def Let_def
    by (simp add: tick_range_def refresh_confirm_def f agreed_entries agreed_prepare [OF f(1-3)])
  have rows: "play_rows ?p (neutral_sample 0) 0 = Some [neutral_sample 0, neutral_sample 0]"
  proof -
    have "play_row ?p (neutral_sample 0) 0 (of_nat i) = Some (neutral_sample 0)" if "i \<in> {0, 1}" for i
      using that by (auto simp: play_row_def f two_seats_fields two_seats_occupied both_ring_row)
        (simp_all add: neutral_sample_def)
    from this [of 0] this [of 1] show ?thesis by (simp add: play_rows_def f two_upt)
  qed
  have ready: "remotes_ready_for_play_wire ?p 0"
    unfolding remotes_ready_for_play_wire_def cp two_upt by (simp add: f two_seats_fields both_ring_row)
  have z: "ring_slot 0 = 0" by (simp add: ring_slot_def)
  have h: "he_hash (cf_published agreed_published ! 0) = both_hash" "\<not> cf_desync agreed_published"
    by (simp_all add: agreed_published_def agreed_confirm_def zero_confirm_def)
  have agree: "wire_confirmations_agree ?p 0"
    unfolding wire_confirmations_agree_def cp two_upt
    by (simp add: agreed_entries f is_remote_seat_def two_seats_fields)
  have hr: "hash_resolved_inputs 0 [neutral_sample 0, neutral_sample 0] (unat (slot_count two_seats)) = both_hash"
    by (simp add: both_hash_def two_seats_fields)
  have fin: "admit_rows ?p 0 [neutral_sample 0, neutral_sample 0] =
      Inr (Some [neutral_sample 0, neutral_sample 0], note_admit_ok ?p)"
    unfolding admit_rows_def Let_def
    using agreed_prepare [of ?p] agree h hr by (simp add: f z)
  have body: "admit_body ?a (neutral_sample 0) 0 0 =
      Inr (Some [neutral_sample 0, neutral_sample 0], note_admit_ok ?p)"
    unfolding admit_body_def Let_def win using f ready rows fin by (simp add: both_ring_row)
  have "\<not> cf_desync agreed_confirm" by (simp add: agreed_confirm_def zero_confirm_def)
  then show ?thesis
    unfolding rnet_session_try_admit_def Let_def using c f fut quiet body
    by (simp add: agreed_session_def [of s, THEN arg_cong, of ss_phase] rnet_wire_tick_from_sim_def)
       (simp add: agreed_session_def)
qed

theorem admit_sound_witness:
  "\<exists>s s'. session_wf s \<and> \<not> ss_is_observer s \<and> host_sample zero_sample \<and>
     rnet_session_try_admit (\<lambda>_. zero_sample) s 0 = Inr (Some [neutral_sample 0, neutral_sample 0], s') \<and>
     peer_confirm (ss_confirm s) 0 1 = Some (hash_resolved_inputs 0 [neutral_sample 0, neutral_sample 0] 2)"
proof -
  obtain s0 where s0: "rnet_session_create two_seats 1 1 = Some s0"
    by (auto simp: rnet_session_create_def two_seats_def rnet_config_init_defaults_def rnet_config_wire_slot_def)
  let ?s = "agreed_session s0"
  obtain s' where run: "rnet_session_try_admit (\<lambda>_. zero_sample) ?s 0 = Inr (Some [neutral_sample 0, neutral_sample 0], s')"
    using agreed_admits [OF s0] by blast
  have c: "ss_cfg ?s = two_seats" "\<not> ss_is_observer ?s"
    using s0 by (auto simp: agreed_session_def rnet_session_create_def two_seats_fields rnet_config_is_observer_def split: if_splits)
  have h: "host_sample zero_sample" by (simp add: host_sample_def zero_sample_def)
  have seat: "is_remote_seat (ss_cfg ?s) (of_nat 1)"
    unfolding c by (simp add: is_remote_seat_def two_seats_fields two_seats_occupied)
  have "peer_confirm (ss_confirm ?s) 0 1 = Some (hash_resolved_inputs 0 [neutral_sample 0, neutral_sample 0]
      (length [neutral_sample 0, neutral_sample 0]))"
    using admit_sound [OF agreed_wf [OF s0] c(2) h run] seat
    by (metis (no_types, lifting) One_nat_def Suc_lessI length_Cons list.size(3) zero_less_Suc lessI)
  then have "peer_confirm (ss_confirm ?s) 0 1 = Some (hash_resolved_inputs 0 [neutral_sample 0, neutral_sample 0] 2)"
    by (simp add: numeral_2_eq_2)
  then show ?thesis using agreed_wf [OF s0] c(2) h run by blast
qed

end
