(* ===== verification/RNet_Delay.thy ===== *)
theory RNet_Delay
  imports RNet_Admit
begin

text \<open>
  The input delay and the local rows. Nothing that arrives changes a running session's local rows or
  its tick; a raised delay leaves wire ticks that the lockstep loop never samples, and that loop stops
  there. A START packet with a large tick makes its receiver never return.
\<close>

section \<open>What the network cannot change\<close>

definition keeps_local :: "RNetSession \<Rightarrow> RNetSession \<Rightarrow> bool" where
  "keeps_local s s' \<longleftrightarrow> ss_phase s = PHASE_RUNNING \<longrightarrow> ss_phase s' = PHASE_RUNNING \<and>
     ss_local_ring s' = ss_local_ring s \<and> ss_sim_tick s' = ss_sim_tick s \<and> ss_is_observer s' = ss_is_observer s"

lemma keeps_refl [simp]: "keeps_local s s"
  by (simp add: keeps_local_def)

lemma keeps_trans: "keeps_local a b \<Longrightarrow> keeps_local b c \<Longrightarrow> keeps_local a c"
  by (simp add: keeps_local_def)

lemma only_state_keeps_local: "only_state s s' \<Longrightarrow> keeps_local s s'"
  by (simp add: keeps_local_def only_state_keeps)

lemma only_sends_keeps_local: "only_sends s s' \<Longrightarrow> keeps_local s s'"
  by (simp add: keeps_local_def only_sends_keeps)

lemma bundle_keeps: "send_input_bundle s = Inr s' \<Longrightarrow> keeps_local s s'"
  by (rule only_sends_keeps_local [OF send_input_bundle_only])

lemma send_hello_keeps: "keeps_local s (send_hello s)"
  using only_sends_keeps [OF send_raw_only [of s]] by (simp add: keeps_local_def send_hello_def)

lemma send_start_keeps: "keeps_local s (send_start s)"
  using only_sends_keeps [OF send_raw_only [of s]] by (simp add: keeps_local_def send_start_def)

lemma bootstrap_keeps: "maybe_bootstrap s = Inr s' \<Longrightarrow> keeps_local s s'"
  by (auto simp: keeps_local_def maybe_bootstrap_def Let_def)

lemma on_hello_keeps: "keeps_local s (on_hello s p)"
  by (simp add: keeps_local_def on_hello_def Let_def set_delay_def)

lemma on_ready_keeps: "on_ready s p = Inr s' \<Longrightarrow> keeps_local s s'"
  using send_start_keeps [of "s\<lparr>ss_peer_ready := rd\<rparr>" for rd]
  by (auto simp: on_ready_def Let_def keeps_local_def at_seat_Inr split: if_splits)

lemma store_frame_keeps: "store_remote_frame s slot f = Inr s' \<Longrightarrow> keeps_local s s'"
  by (auto simp: keeps_local_def store_remote_frame_def Let_def at_seat_Inr split: if_splits)

lemma store_frames_keeps: "store_frames s slot fs = Inr s' \<Longrightarrow> keeps_local s s'"
  by (induction fs arbitrary: s) (auto simp: and_then_Inr intro: keeps_trans dest: store_frame_keeps)

lemma on_input_acks_keeps: "on_input_acks s p = Inr s' \<Longrightarrow> keeps_local s s'"
  by (auto simp: on_input_acks_def Let_def keeps_local_def at_seat_Inr split: if_splits)

lemma on_input_keeps: "on_input s p = Inr s' \<Longrightarrow> keeps_local s s'"
  by (auto simp: on_input_def and_then_Inr split: if_splits intro: keeps_trans [OF store_frames_keeps] dest: on_input_acks_keeps)

lemma handle_decoded_keeps: "handle_decoded alloc s p = Inr s' \<Longrightarrow> keeps_local s s'"
proof -
  have st: "keeps_local s (on_state_packet alloc s p)"
    by (rule only_state_keeps_local [OF only_state_packet [OF only_state_refl]])
  have "keeps_local s (on_delay_sync s p)" "keeps_local s (on_bye s p)"
    "keeps_local s (s\<lparr>ss_profiles := a\<rparr>)" "keeps_local s (s\<lparr>ss_ctrl := b\<rparr>)" for a b
    by (simp_all add: keeps_local_def on_delay_sync_def set_delay_def on_bye_def Let_def)
  moreover have "on_start s p = Inr s' \<Longrightarrow> keeps_local s s'" "on_input_confirm s p = Inr s' \<Longrightarrow> keeps_local s s'"
    by (auto simp: on_start_def on_input_confirm_def Let_def keeps_local_def at_seat_Inr split: if_splits)
  ultimately show "handle_decoded alloc s p = Inr s' \<Longrightarrow> keeps_local s s'"
    using st on_hello_keeps on_ready_keeps on_input_keeps
    by (auto simp: handle_decoded_def split: if_splits)
qed

lemma receive_keeps_local: "receive_datagram alloc s buf n = Inr s' \<Longrightarrow> keeps_local s s'"
proof -
  have "note_rx s p = Inr s1 \<Longrightarrow> keeps_local s s1" for p s1
    by (auto simp: keeps_local_def note_rx_def Let_def and_then_Inr)
  then show "receive_datagram alloc s buf n = Inr s' \<Longrightarrow> keeps_local s s'"
    by (auto simp: receive_datagram_def and_then_Inr split: decode_result.splits if_splits intro: keeps_trans dest: handle_decoded_keeps)
qed

lemma recv_loop_keeps: "recv_loop alloc n buf s inq = Inr (s', q) \<Longrightarrow> keeps_local s s'"
  by (induction alloc n buf s inq rule: recv_loop.induct)
     (auto simp: Let_def and_then_Inr split: if_splits intro: keeps_trans dest: receive_keeps_local)

lemma burst_keeps: "burst_loop alloc junk n s inq = Inr (s', q) \<Longrightarrow> keeps_local s s'"
proof (induction n arbitrary: s inq)
  case (Suc n)
  have d: "keeps_local s (state_drive_sender s)"
    by (rule only_state_keeps_local [OF only_state_drive_sender [OF only_state_refl]])
  show ?case
    using Suc.prems Suc.IH d
    by (auto simp: Let_def and_then_Inr pump_recv_def split: if_splits intro: keeps_trans dest!: recv_loop_keeps)
qed simp

lemma pump_tail_keeps: "pump_tail s = Inr s' \<Longrightarrow> keeps_local s s'"
proof -
  have e: "keeps_local s2 (emit_delay_sync s2 a b)" for s2 a b
    using only_sends_keeps [OF send_raw_only [of s2]] by (simp add: emit_delay_sync_def keeps_local_def split: option.split)
  show "pump_tail s = Inr s' \<Longrightarrow> keeps_local s s'"
    by (auto simp: pump_tail_def Let_def and_then_Inr split: if_splits
        intro: keeps_trans [OF send_hello_keeps] keeps_trans [OF _ e] dest!: bundle_keeps)
qed

lemma profiles_drive_keeps: "keeps_local s (profiles_drive s)"
proof -
  have "only_sends s (snd (rnet_session_send_rb_sync s a b c d e f g))" for s a b c d e f g
    by (simp add: rnet_session_send_rb_sync_def rb_send_def send_raw_only split: option.split)
  note k = only_sends_keeps_local [OF this]
  show ?thesis
    using keeps_trans [OF k k] k unfolding profiles_drive_def Let_def
    by (simp add: keeps_local_def)
qed

lemma pump_keeps:
  assumes "rnet_session_pump alloc junk s inq = Inr (s', q)"
  shows "keeps_local s s'"
proof -
  obtain s1 in1 s2 where s: "pump_recv alloc junk s inq = Inr (s1, in1)" "maybe_bootstrap s1 = Inr s2"
    and rest: "(let s3 = profiles_drive s2;
           s4 = (if pb_active (ss_probe s3) then state_drive_probe s3 else s3)
       in and_then (if state_any_active s4 then burst_loop alloc junk 4 s4 in1 else Inr (s4, in1)) (\<lambda>(s5, in2).
          and_then (pump_tail s5) (\<lambda>s6. Inr (s6, in2)))) = Inr (s', q)"
    using assms unfolding rnet_session_pump_def and_then_Inr by (auto simp: and_then_Inr)
  define s3 where "s3 = profiles_drive s2"
  define s4 where "s4 = (if pb_active (ss_probe s3) then state_drive_probe s3 else s3)"
  have "keeps_local s s3"
    using s unfolding s3_def pump_recv_def
    by (blast intro: keeps_trans profiles_drive_keeps dest: recv_loop_keeps bootstrap_keeps)
  then have w4: "keeps_local s s4"
    using keeps_trans only_state_keeps_local [OF only_state_probes(1) [OF only_state_refl]] by (simp add: s4_def)
  show ?thesis
    using rest w4 unfolding s3_def [symmetric] s4_def [symmetric] Let_def
    by (auto simp: and_then_Inr split: if_splits intro: keeps_trans dest!: burst_keeps pump_tail_keeps)
qed

section \<open>What an attempt to admit changes\<close>

lemma stalled_only: "stalled s why = Inr (r, s') \<Longrightarrow> only_confirms s s'"
  by (auto simp: stalled_def note_admit_stall_def Let_def set_diag_only)

lemma resend_only: "resend_stalled s why = Inr (r, s') \<Longrightarrow> only_confirms s s'"
  by (auto simp: resend_stalled_def and_then_Inr
      intro: only_confirms_trans [OF only_sends_confirms [OF send_input_bundle_only] stalled_only])

lemma admit_rows_only:
  assumes "admit_rows s t rows = Inr (r, s')"
  shows "only_confirms s s'"
proof -
  obtain ok s1 where p: "prepare_wire_confirm s t False = (ok, s1)" by (cases "prepare_wire_confirm s t False")
  have k: "only_confirms s s1" using prepare_confirm_only [of s t False] p by simp
  have d: "only_confirms s1 (s1\<lparr>ss_confirm := note_desync (ss_confirm s1) a b c\<rparr>)" for a b c
    by (rule set_confirm_only) (simp add: note_desync_def)
  have "only_confirms s1 s'"
    using assms prepare_confirm_only [of s1 t False] d note_ok_same(2) [of s1] unfolding admit_rows_def Let_def p prod.case
    by (auto split: if_splits dest!: stalled_only resend_only intro: only_confirms_trans)
  then show ?thesis by (rule only_confirms_trans [OF k])
qed

lemma admit_body_only:
  assumes "admit_body s future t sw = Inr (r, s')"
  shows "only_confirms s s'"
proof -
  have "only_confirms (refresh_confirm_window s t sw) s'"
    using assms unfolding admit_body_def Let_def
    by (auto split: if_splits option.splits dest: stalled_only resend_only admit_rows_only)
  then show ?thesis by (rule only_confirms_trans [OF refresh_window_only])
qed

definition local_attempt :: "RNetSession \<Rightarrow> u32 \<Rightarrow> RNetSession \<Rightarrow> bool" where
  "local_attempt s w s' \<longleftrightarrow> ss_sim_tick s' = ss_sim_tick s \<and> ss_delay s' = ss_delay s \<and>
     ss_phase s' = ss_phase s \<and> ss_is_observer s' = ss_is_observer s \<and>
     (ss_local_ring s' = ss_local_ring s \<or>
      (\<exists>sm. sm_tick sm = w \<and> ss_local_ring s' = rnet_ring_store (ss_local_ring s) sm))"

lemma try_admit_attempt:
  assumes "\<not> ss_is_observer s" "rnet_session_try_admit sample_local s t = Inr (r, s')"
  shows "local_attempt s (rnet_wire_tick_from_sim t (ss_delay s)) s' \<and>
     (r \<noteq> None \<longrightarrow> rnet_ring_get (ss_local_ring s') t \<noteq> None \<or> t = rnet_wire_tick_from_sim t (ss_delay s))"
proof -
  let ?sw = "rnet_wire_tick_from_sim t (ss_delay s)"
  obtain future s1 where f: "local_future sample_local s t ?sw = (future, s1)" by (cases "local_future sample_local s t ?sw")
  have a1: "local_attempt s ?sw s1"
    using f by (auto simp: local_future_def local_attempt_def Let_def split: option.splits
        intro!: exI [of _ "(clamp_sample (sample_local t))\<lparr>sm_tick := ?sw\<rparr>"])
  have st: "local_attempt s ?sw s' \<and> r = None" if "stalled s why = Inr (r, s')" for why
    using stalled_none [OF that] only_confirms_keeps [OF stalled_only [OF that]] by (simp add: local_attempt_def)
  show ?thesis
  proof (cases "\<exists>s2. send_input_bundle s1 = Inr s2 \<and> admit_body s2 future t ?sw = Inr (r, s')")
    case True
    then obtain s2 where run: "send_input_bundle s1 = Inr s2" "admit_body s2 future t ?sw = Inr (r, s')" by blast
    note k2 = only_sends_keeps [OF send_input_bundle_only [OF run(1)]]
      and k3 = only_confirms_keeps [OF admit_body_only [OF run(2)]]
    have "r \<noteq> None \<longrightarrow> rnet_ring_get (ss_local_ring s') t \<noteq> None \<or> t = ?sw"
    proof
      assume "r \<noteq> None"
      then obtain rows where "r = Some rows" by blast
      moreover have "\<not> ss_is_observer s2" using a1 assms(1) k2 by (simp add: local_attempt_def)
      ultimately show "rnet_ring_get (ss_local_ring s') t \<noteq> None \<or> t = ?sw"
        using admit_body_some [of s2 future t ?sw rows s'] run(2) k3 by (auto split: option.splits)
    qed
    then show ?thesis using a1 k2 k3 by (simp add: local_attempt_def)
  next
    case False
    then show ?thesis
      using assms st unfolding rnet_session_try_admit_def Let_def f prod.case
      by (auto simp: and_then_Inr split: if_splits)
  qed
qed

section \<open>A raised delay leaves a gap\<close>

text \<open>
  Plain lockstep: the host tries to admit the tick the session is at, advances when that succeeds,
  pumps and reads the clock. The delay in effect stays as it is; priming, preparing the local tip and
  resynchronising are not part of this loop.
\<close>

inductive lockstep :: "RNetSession \<Rightarrow> RNetSession \<Rightarrow> bool" where
  admitted: "rnet_session_try_admit sample_local s (ss_sim_tick s) = Inr (Some rows, s') \<Longrightarrow> \<not> ss_delay_pending s' \<Longrightarrow>
    lockstep s (rnet_session_advance s')"
| refused: "rnet_session_try_admit sample_local s (ss_sim_tick s) = Inr (None, s') \<Longrightarrow> lockstep s s'"
| time: "lockstep s (s\<lparr>ss_now := now, ss_os_now := os\<rparr>)"
| network: "rnet_session_pump alloc junk s inq = Inr (s', rest) \<Longrightarrow> ss_delay s' = ss_delay s \<Longrightarrow> lockstep s s'"

text \<open>A wire tick ahead of the session that is missing and behind the tick sampled next.\<close>

definition gap :: "u32 \<Rightarrow> RNetSession \<Rightarrow> bool" where
  "gap g s \<longleftrightarrow> ss_phase s = PHASE_RUNNING \<and> \<not> ss_is_observer s \<and> rnet_ring_get (ss_local_ring s) g = None \<and>
     unat (ss_sim_tick s) \<le> unat g \<and> unat g < unat (ss_sim_tick s) + unat (ss_delay s) \<and>
     unat g + unat (ss_delay s) < 2 ^ 32"

lemma ring_store_other: "rnet_ring_get r g = None \<Longrightarrow> sm_tick sm \<noteq> g \<Longrightarrow> rnet_ring_get (rnet_ring_store r sm) g = None"
  by (cases "ring_slot (sm_tick sm) = ring_slot g"; cases "ring_slot g < length (ring_slots r)")
     (auto simp: rnet_ring_get_def rnet_ring_store_def Let_def list_update_beyond not_less split: if_splits)

lemma wire_tick_unat:
  "unat sim + unat d < 2 ^ 32 \<Longrightarrow> unat (rnet_wire_tick_from_sim sim d) = unat sim + unat d"
  unfolding rnet_wire_tick_from_sim_def unat_word_ariths unat_u8_u32 by simp

lemma gap_attempt:
  assumes "gap g s" "rnet_session_try_admit sample_local s (ss_sim_tick s) = Inr (r, s')"
  shows "gap g s' \<and> ss_sim_tick s' = ss_sim_tick s \<and> (r \<noteq> None \<longrightarrow> ss_sim_tick s \<noteq> g)"
proof -
  let ?w = "rnet_wire_tick_from_sim (ss_sim_tick s) (ss_delay s)"
  have w: "unat ?w = unat (ss_sim_tick s) + unat (ss_delay s)"
    by (rule wire_tick_unat) (use assms(1) in \<open>auto simp: gap_def\<close>)
  then have ne: "?w \<noteq> g" "?w \<noteq> ss_sim_tick s" using assms(1) by (auto simp: gap_def)
  have a: "local_attempt s ?w s'"
    "r \<noteq> None \<longrightarrow> rnet_ring_get (ss_local_ring s') (ss_sim_tick s) \<noteq> None \<or> ss_sim_tick s = ?w"
    using try_admit_attempt [OF _ assms(2)] assms(1) by (auto simp: gap_def)
  have "rnet_ring_get (ss_local_ring s') g = None"
    using a(1) assms(1) ne(1) ring_store_other by (auto simp: local_attempt_def gap_def)
  then show ?thesis using a assms(1) ne by (auto simp: gap_def local_attempt_def)
qed

lemma gap_step: "lockstep s s' \<Longrightarrow> gap g s \<Longrightarrow> gap g s'"
proof (induction rule: lockstep.induct)
  case (admitted sample_local s rows s')
  have a: "gap g s'" "ss_sim_tick s' \<noteq> g" using gap_attempt [OF admitted(3,1)] by auto
  then have "unat (ss_sim_tick s') < unat g" by (metis gap_def le_neq_implies_less unsigned_word_eqI)
  moreover have "unat (ss_sim_tick s' + 1) = Suc (unat (ss_sim_tick s'))"
    using calculation unsigned_less [of g, where ?'a = nat] by (simp add: unat_word_ariths)
  ultimately show ?case
    using a admitted(2) by (simp add: gap_def rnet_session_advance_def apply_pending_delay_def)
next
  case (refused sample_local s s')
  then show ?case using gap_attempt by blast
next
  case time then show ?case by (simp add: gap_def)
next
  case (network alloc junk s inq s' rest)
  then show ?case using pump_keeps [OF network(1)] by (simp add: gap_def keeps_local_def)
qed

text \<open>
  C38. A change of the input delay that raises it stops a host that runs plain lockstep:
  \<^verbatim>\<open>rnet_session_advance\<close> puts the new delay into effect without filling the wire ticks between the old
  and the new sampling point. As long as the host only calls \<^verbatim>\<open>rnet_session_try_admit\<close> for the current
  tick, \<^verbatim>\<open>rnet_session_pump\<close> and \<^verbatim>\<open>rnet_session_advance\<close>, and the delay does not change again, none of
  these samples the missing ticks and the simulation never passes the first of them. Calls outside that
  loop can end the stall: \<^verbatim>\<open>rnet_session_prepare_local_tip\<close> (the rollback driver) and
  \<^verbatim>\<open>rnet_session_prime_delay_inputs\<close> fill rows, \<^verbatim>\<open>rnet_session_hard_resync\<close> restarts the ticks.
\<close>

theorem delay_increase_stops_lockstep:
  assumes "ss_phase s = PHASE_RUNNING" "\<not> ss_is_observer s" "ss_delay_pending s"
    and "ss_delay_pending_effective s = ss_sim_tick s + 1" "ss_delay s < ss_delay_pending_value s"
    and "unat (ss_sim_tick s) + 1024 < 2 ^ 32"
    and "rnet_ring_get (ss_local_ring s) g = None" "g = ss_sim_tick s + 1 + ucast (ss_delay s)"
    and "lockstep\<^sup>*\<^sup>* (rnet_session_advance s) s'"
  shows "ss_delay (rnet_session_advance s) = ss_delay_pending_value s \<and>
     unat (ss_sim_tick s') \<le> unat g \<and> rnet_ring_get (ss_local_ring s') g = None"
proof -
  let ?a = "rnet_session_advance s"
  have d: "unat (ss_delay s) < unat (ss_delay_pending_value s)" "unat (ss_delay_pending_value s) < 256"
    using assms(5) unsigned_less [of "ss_delay_pending_value s", where ?'a = nat] by (simp_all add: word_less_nat_alt)
  have t: "unat (ss_sim_tick s + 1) = Suc (unat (ss_sim_tick s))" using assms(6) by (simp add: unat_word_ariths)
  have g: "unat g = Suc (unat (ss_sim_tick s)) + unat (ss_delay s)"
    using wire_tick_unat [of "ss_sim_tick s + 1" "ss_delay s"] assms(6,8) t d by (simp add: rnet_wire_tick_from_sim_def)
  have a: "ss_delay ?a = ss_delay_pending_value s" "ss_sim_tick ?a = ss_sim_tick s + 1"
    "ss_local_ring ?a = ss_local_ring s" "ss_phase ?a = ss_phase s" "ss_is_observer ?a = ss_is_observer s"
    using assms(3,4) by (simp_all add: rnet_session_advance_def apply_pending_delay_def set_delay_def)
  have "gap g ?a" using assms(1,2,6,7) d t g unfolding gap_def a by simp
  with assms(9) have "gap g s'" by (induction rule: rtranclp_induct) (auto intro: gap_step)
  then show ?thesis using a(1) by (simp add: gap_def)
qed

text \<open>The session of the default configuration, linked and running at tick 0 with a raise to 4 pending.\<close>

definition raising_session :: "RNetSession \<Rightarrow> RNetSession" where
  "raising_session s = s\<lparr>ss_phase := PHASE_RUNNING, ss_delay := 2, ss_delay_pending := True,
     ss_delay_pending_value := 4, ss_delay_pending_effective := 1\<rparr>"

lemma clear_row: "rnet_ring_get rnet_ring_clear t = None"
  by (simp add: rnet_ring_get_def rnet_ring_clear_def zero_sample_def Let_def)

theorem delay_increase_stops_lockstep_witness:
  "\<exists>s. rnet_session_create two_seats 1 1 = Some s \<and>
     (\<forall>s'. lockstep\<^sup>*\<^sup>* (rnet_session_advance (raising_session s)) s' \<longrightarrow> unat (ss_sim_tick s') \<le> 3)"
proof -
  obtain s0 where s0: "rnet_session_create two_seats 1 1 = Some s0"
    by (auto simp: rnet_session_create_def two_seats_def rnet_config_init_defaults_def rnet_config_wire_slot_def)
  let ?s = "raising_session s0"
  have c: "ss_is_observer ?s = False" "ss_sim_tick ?s = 0" "ss_local_ring ?s = rnet_ring_clear"
    using s0 by (auto simp: raising_session_def rnet_session_create_def two_seats_fields rnet_config_is_observer_def
        split: if_splits)
  have f: "ss_phase ?s = PHASE_RUNNING" "ss_delay ?s = 2" "ss_delay_pending ?s" "ss_delay_pending_value ?s = 4"
    "ss_delay_pending_effective ?s = 1" by (simp_all add: raising_session_def)
  have "unat (ss_sim_tick s') \<le> unat (3 :: u32)" if "lockstep\<^sup>*\<^sup>* (rnet_session_advance ?s) s'" for s'
    by (rule conjunct1 [OF conjunct2 [OF delay_increase_stops_lockstep [of ?s 3 s']]])
       (simp_all add: that c f clear_row)
  then show ?thesis using s0 by auto
qed

section \<open>A START packet that never returns\<close>

lemma begin_running_hangs:
  assumes "session_wf s" "\<not> ss_is_observer s" "\<not> st_stall_sim (ss_state s)" "\<not> ss_input_send_suppress s"
    and "\<not> ss_last_input_tip_valid s" "rnet_wire_tick_from_sim t (ss_delay s) = 0xffffffff"
  shows "begin_running s t = Inl Hangs"
proof -
  let ?s = "seed_delay_prefix (s\<lparr>ss_sim_tick := t, ss_phase := PHASE_RUNNING\<rparr>)"
  have wf: "session_wf ?s" by (rule seed_wf) (use assms(1) in simp)
  have "bundle_loop ?s (bundle_ack ?s) 0xffffffff (bundle_lo ?s 0xffffffff) False = None"
    using bundle_loop_hangs [of ?s "bundle_ack ?s" "0xffffffff" "bundle_lo ?s 0xffffffff" False]
      session_wf_parts(1,2) [OF wf]
    by (cases "bundle_loop ?s (bundle_ack ?s) 0xffffffff (bundle_lo ?s 0xffffffff) False") auto
  moreover have "ss_is_observer ?s = ss_is_observer s" "ss_phase ?s = PHASE_RUNNING" "ss_state ?s = ss_state s"
    "ss_input_send_suppress ?s = ss_input_send_suppress s" "ss_last_input_tip_valid ?s = ss_last_input_tip_valid s"
    "ss_sim_tick ?s = t" "ss_delay ?s = ss_delay s" by (simp_all add: seed_delay_prefix_def)
  ultimately show ?thesis using assms(2-6) by (simp add: begin_running_def send_input_bundle_def Let_def)
qed

text \<open>
  C39. A single START packet of the session stops the program: when its start tick and the input delay
  add up to the largest 32-bit value, a session that has not started yet never returns from handling
  it. The packet's tick is not checked.
\<close>

theorem start_packet_hangs:
  assumes "session_wf s" "ss_phase s \<noteq> PHASE_RUNNING" "\<not> ss_is_observer s" "\<not> st_stall_sim (ss_state s)"
    and "\<not> ss_input_send_suppress s" "\<not> ss_last_input_tip_valid s"
    and "dp_type p = RNET_PKT_START" "dp_session_id p = session_id (ss_cfg s)"
    and "dp_start_tick p + ucast (ss_delay s) = 0xffffffff"
  shows "handle_decoded alloc s p = Inl Hangs"
  using begin_running_hangs [OF assms(1,3-6), of "dp_start_tick p"] assms(2,7-9)
  by (simp add: handle_decoded_def on_start_def rnet_wire_tick_from_sim_def rnet_proto_is_rb_control_def)

theorem start_packet_hangs_witness:
  "\<exists>s. rnet_session_create two_seats 1 1 = Some s \<and>
     handle_decoded (\<lambda>_. True) s (zero_packet\<lparr>dp_type := RNET_PKT_START, dp_session_id := 1, dp_start_tick := 0xfffffffd\<rparr>) =
       Inl Hangs"
proof -
  obtain s0 where s0: "rnet_session_create two_seats 1 1 = Some s0"
    by (auto simp: rnet_session_create_def two_seats_def rnet_config_init_defaults_def rnet_config_wire_slot_def)
  have c: "ss_is_observer s0 = False" "ss_phase s0 = PHASE_IDLE" "st_stall_sim (ss_state s0) = False"
    "ss_input_send_suppress s0 = False" "ss_last_input_tip_valid s0 = False" "ss_cfg s0 = two_seats" "ss_delay s0 = 2"
    using s0 by (auto simp: rnet_session_create_def two_seats_fields two_seats_def rnet_config_init_defaults_def
        rnet_config_is_observer_def init_state_def split: if_splits)
  have "handle_decoded (\<lambda>_. True) s0 (zero_packet\<lparr>dp_type := RNET_PKT_START, dp_session_id := 1, dp_start_tick := 0xfffffffd\<rparr>) =
       Inl Hangs"
    by (rule start_packet_hangs [OF create_wf [OF s0]])
       (simp_all add: c, simp add: two_seats_def rnet_config_init_defaults_def)
  then show ?thesis using s0 by blast
qed

end
