(* ===== verification/RNet_Session_Safe.thy ===== *)
theory RNet_Session_Safe
  imports RNet_Lockstep RNet_Decode_Safe
begin

text \<open>
  Memory safety of the pump. A session's own seat and its role never change, its control queues stay
  well-formed rings, and no datagram makes the pump index an array of seats out of range, except in
  one configuration: the observer of a full room.
\<close>

section \<open>What stays of a session's seat\<close>

definition keeps_seat :: "RNetSession \<Rightarrow> RNetSession \<Rightarrow> bool" where
  "keeps_seat s s' \<longleftrightarrow> local_slot (ss_cfg s') = local_slot (ss_cfg s) \<and> slot_count (ss_cfg s') = slot_count (ss_cfg s) \<and>
     ss_is_observer s' = ss_is_observer s \<and> ss_wire_slot s' = ss_wire_slot s \<and>
     (ctrl_inv (ss_wire_slot s) (ss_ctrl s) \<longrightarrow> ctrl_inv (ss_wire_slot s) (ss_ctrl s'))"

lemma seat_refl [simp]: "keeps_seat s s"
  by (simp add: keeps_seat_def)

lemma seat_trans: "keeps_seat a b \<Longrightarrow> keeps_seat b c \<Longrightarrow> keeps_seat a c"
  by (simp add: keeps_seat_def)

lemma only_state_seat: "only_state s s' \<Longrightarrow> keeps_seat s s'"
  by (simp add: keeps_seat_def only_state_keeps)

lemma only_sends_seat: "only_sends s s' \<Longrightarrow> keeps_seat s s'"
  by (auto simp: keeps_seat_def only_sends_def)

lemma bundle_seat: "send_input_bundle s = Inr s' \<Longrightarrow> keeps_seat s s'"
  by (rule only_sends_seat [OF send_input_bundle_only])

lemma send_raw_seat [simp]: "keeps_seat s (send_raw s x)"
  by (rule only_sends_seat [OF send_raw_only])

lemma seat_fields [simp]:
  "keeps_seat s (x\<lparr>ss_phase := a1\<rparr>) = keeps_seat s x" "keeps_seat s (x\<lparr>ss_out := a2\<rparr>) = keeps_seat s x"
  "keeps_seat s (x\<lparr>ss_sim_tick := a3\<rparr>) = keeps_seat s x" "keeps_seat s (x\<lparr>ss_last_hello_ms := a4\<rparr>) = keeps_seat s x"
  "keeps_seat s (x\<lparr>ss_last_ready_ms := a4\<rparr>) = keeps_seat s x" "keeps_seat s (x\<lparr>ss_last_input_ms := a4\<rparr>) = keeps_seat s x"
  "keeps_seat s (x\<lparr>ss_local_ready := b\<rparr>) = keeps_seat s x" "keeps_seat s (x\<lparr>ss_start_sent := b\<rparr>) = keeps_seat s x"
  "keeps_seat s (x\<lparr>ss_last_input_tip_valid := b\<rparr>) = keeps_seat s x" "keeps_seat s (x\<lparr>ss_delay := a5\<rparr>) = keeps_seat s x"
  "keeps_seat s (x\<lparr>ss_delay_pending := b\<rparr>) = keeps_seat s x" "keeps_seat s (x\<lparr>ss_delay_pending_value := a5\<rparr>) = keeps_seat s x"
  "keeps_seat s (x\<lparr>ss_delay_pending_effective := a3\<rparr>) = keeps_seat s x"
  "keeps_seat s (x\<lparr>ss_delay_pending_last_tx_ms := a4\<rparr>) = keeps_seat s x"
  "keeps_seat s (x\<lparr>ss_highest_remote_ack := a3\<rparr>) = keeps_seat s x" "keeps_seat s (x\<lparr>ss_profiles := a7\<rparr>) = keeps_seat s x"
  "keeps_seat s (x\<lparr>ss_state := a8\<rparr>) = keeps_seat s x" "keeps_seat s (x\<lparr>ss_input_send_suppress := b\<rparr>) = keeps_seat s x"
  "keeps_seat s (x\<lparr>ss_now := a4\<rparr>) = keeps_seat s x" "keeps_seat s (x\<lparr>ss_os_now := a4\<rparr>) = keeps_seat s x"
  "keeps_seat s (x\<lparr>ss_mode := a9\<rparr>) = keeps_seat s x" "keeps_seat s (x\<lparr>ss_local_ring := r\<rparr>) = keeps_seat s x"
  "keeps_seat s (x\<lparr>ss_confirm := c\<rparr>) = keeps_seat s x" "keeps_seat s (x\<lparr>ss_diag := d\<rparr>) = keeps_seat s x"
  "keeps_seat s (x\<lparr>ss_peer_ready := bs\<rparr>) = keeps_seat s x" "keeps_seat s (x\<lparr>ss_live := l\<rparr>) = keeps_seat s x"
  "keeps_seat s (x\<lparr>ss_cfg := (ss_cfg x)\<lparr>input_delay := a5\<rparr>\<rparr>) = keeps_seat s x"
  "keeps_seat s (x\<lparr>ss_remote_rings := rs\<rparr>) = keeps_seat s x" "keeps_seat s (x\<lparr>ss_remote_contiguous_ack := ws\<rparr>) = keeps_seat s x"
  "keeps_seat s (x\<lparr>ss_peer_ack_tick := ws\<rparr>) = keeps_seat s x" "keeps_seat s (x\<lparr>ss_peer_ack_seen := bs\<rparr>) = keeps_seat s x"
  by (simp_all add: keeps_seat_def)

lemma seed_seat [simp]: "keeps_seat s (seed_delay_prefix x) = keeps_seat s x"
  by (simp add: seed_delay_prefix_def)

lemma set_delay_seat [simp]: "keeps_seat s (set_delay x d) = keeps_seat s x"
  by (simp add: set_delay_def keeps_seat_def)

lemma send_raw_chain [simp]: "keeps_seat s (send_raw x b) = keeps_seat s x"
  using only_sends_keeps [OF send_raw_only [of x b]]
  by (simp add: keeps_seat_def) (simp add: send_raw_def split: option.split)

lemma hello_start_seat [simp]: "keeps_seat s (send_hello x) = keeps_seat s x" "keeps_seat s (send_start x) = keeps_seat s x"
  by (simp_all add: send_hello_def send_start_def)

lemma begin_running_seat: "begin_running x t = Inr s' \<Longrightarrow> keeps_seat s x \<Longrightarrow> keeps_seat s s'"
  unfolding begin_running_def by (drule bundle_seat) (erule seat_trans [rotated], simp)

section \<open>The pump keeps the seat\<close>

lemma bootstrap_seat: "maybe_bootstrap s = Inr s' \<Longrightarrow> keeps_seat s s'"
  unfolding maybe_bootstrap_def Let_def
  by (auto simp: and_then_Inr at_seat_Inr split: if_splits prod.splits elim!: begin_running_seat)

lemma on_hello_seat: "keeps_seat s (on_hello s p)"
  by (simp add: on_hello_def Let_def) (simp add: keeps_seat_def ctrl_inv_def)

lemma arrive_seat: "keeps_seat s (s\<lparr>ss_ctrl := ctrl_arrive (ss_wire_slot s) (ss_ctrl s) p\<rparr>)"
  by (simp add: keeps_seat_def ctrl_inv_arrive)

lemma store_frame_seat: "store_remote_frame s slot f = Inr s' \<Longrightarrow> keeps_seat s s'"
  by (auto simp: store_remote_frame_def Let_def at_seat_Inr split: if_splits)

lemma store_frames_seat: "store_frames s slot fs = Inr s' \<Longrightarrow> keeps_seat s s'"
  by (induction fs arbitrary: s) (auto simp: and_then_Inr intro: seat_trans dest: store_frame_seat)

lemma on_input_seat: "on_input s p = Inr s' \<Longrightarrow> keeps_seat s s'"
proof -
  have "on_input_acks x p = Inr s' \<Longrightarrow> keeps_seat x s'" for x
    by (auto simp: on_input_acks_def Let_def at_seat_Inr split: if_splits)
  then show "on_input s p = Inr s' \<Longrightarrow> keeps_seat s s'"
    by (auto simp: on_input_def and_then_Inr split: if_splits intro: seat_trans [OF store_frames_seat])
qed

lemma handle_decoded_seat: "handle_decoded alloc s p = Inr s' \<Longrightarrow> keeps_seat s s'"
proof -
  have st: "keeps_seat s (on_state_packet alloc s p)"
    by (rule only_state_seat [OF only_state_packet [OF only_state_refl]])
  have "keeps_seat s (on_delay_sync s p)" "keeps_seat s (on_bye s p)"
    by (simp_all add: on_delay_sync_def on_bye_def Let_def)
  moreover have "on_ready s p = Inr s' \<Longrightarrow> keeps_seat s s'" "on_input_confirm s p = Inr s' \<Longrightarrow> keeps_seat s s'"
    by (auto simp: on_ready_def on_input_confirm_def Let_def at_seat_Inr split: if_splits)
  moreover have "on_start s p = Inr s' \<Longrightarrow> keeps_seat s s'"
    by (auto simp: on_start_def split: if_splits elim!: begin_running_seat)
  ultimately show "handle_decoded alloc s p = Inr s' \<Longrightarrow> keeps_seat s s'"
    using st on_hello_seat on_input_seat arrive_seat
    by (auto simp: handle_decoded_def split: if_splits)
qed

lemma note_rx_seat: "note_rx s p = Inr s' \<Longrightarrow> keeps_seat s s'"
  by (auto simp: note_rx_def Let_def and_then_Inr)

lemma receive_seat: "receive_datagram alloc s buf n = Inr s' \<Longrightarrow> keeps_seat s s'"
  by (auto simp: receive_datagram_def and_then_Inr split: decode_result.splits if_splits
      intro: seat_trans [OF note_rx_seat] dest: handle_decoded_seat)

lemma recv_loop_seat: "recv_loop alloc n buf s inq = Inr (s', q) \<Longrightarrow> keeps_seat s s'"
  by (induction alloc n buf s inq rule: recv_loop.induct)
     (auto simp: Let_def and_then_Inr split: if_splits intro: seat_trans dest: receive_seat)

lemma drive_seat: "keeps_seat s (state_drive_sender s)" "keeps_seat s (state_drive_probe s)"
  by (rule only_state_seat [OF only_state_drive_sender [OF only_state_refl]]
      only_state_seat [OF only_state_probes(1) [OF only_state_refl]])+

lemma burst_seat: "burst_loop alloc junk n s inq = Inr (s', q) \<Longrightarrow> keeps_seat s s'"
proof (induction n arbitrary: s inq)
  case (Suc n)
  then show ?case
    using drive_seat(1) [of s]
    by (auto simp: Let_def and_then_Inr pump_recv_def split: if_splits intro: seat_trans dest!: recv_loop_seat)
qed simp

lemma emit_delay_seat [simp]: "keeps_seat s (emit_delay_sync x d t) = keeps_seat s x"
  by (simp add: emit_delay_sync_def split: option.split)

lemma rb_send_seat [simp]: "keeps_seat s (snd (rb_send x b)) = keeps_seat s x"
  by (simp add: rb_send_def split: option.split)

lemma profiles_drive_seat: "keeps_seat s (profiles_drive s)"
  by (simp add: profiles_drive_def Let_def rnet_session_send_rb_sync_def)

lemma pump_tail_seat: "pump_tail s = Inr s' \<Longrightarrow> keeps_seat s s'"
  by (auto simp: pump_tail_def Let_def and_then_Inr split: if_splits
      dest!: bundle_seat elim!: seat_trans [rotated])

lemma pump_seat:
  assumes "rnet_session_pump alloc junk s inq = Inr (s', q)"
  shows "keeps_seat s s'"
proof -
  obtain s1 in1 s2 where s: "pump_recv alloc junk s inq = Inr (s1, in1)" "maybe_bootstrap s1 = Inr s2"
    and rest: "(let s3 = profiles_drive s2;
           s4 = (if pb_active (ss_probe s3) then state_drive_probe s3 else s3)
       in and_then (if state_any_active s4 then burst_loop alloc junk 4 s4 in1 else Inr (s4, in1)) (\<lambda>(s5, in2).
          and_then (pump_tail s5) (\<lambda>s6. Inr (s6, in2)))) = Inr (s', q)"
    using assms unfolding rnet_session_pump_def and_then_Inr by (auto simp: and_then_Inr)
  define s3 where "s3 = profiles_drive s2"
  define s4 where "s4 = (if pb_active (ss_probe s3) then state_drive_probe s3 else s3)"
  have "keeps_seat s s3"
    using s unfolding s3_def pump_recv_def
    by (blast intro: seat_trans profiles_drive_seat dest: recv_loop_seat bootstrap_seat)
  then have k4: "keeps_seat s s4" using seat_trans [OF _ drive_seat(2)] by (simp add: s4_def)
  show ?thesis
    using rest k4 unfolding s3_def [symmetric] s4_def [symmetric] Let_def
    by (auto simp: and_then_Inr split: if_splits intro: seat_trans dest!: burst_seat pump_tail_seat)
qed

section \<open>The calls of the host keep the seat\<close>

lemma send_confirm_seat [simp]: "keeps_seat s (send_input_confirm_tick x t h) = keeps_seat s x"
  by (simp add: send_input_confirm_tick_def Let_def)

lemma prepare_confirm_seat [simp]: "keeps_seat s x \<Longrightarrow> keeps_seat s (snd (prepare_wire_confirm x w f))"
  by (auto simp: prepare_wire_confirm_def Let_def split: option.split)

lemma refresh_seat [simp]: "keeps_seat s x \<Longrightarrow> keeps_seat s (refresh_confirm x w)"
  by (simp add: refresh_confirm_def Let_def split: option.split)

lemma refresh_window_seat [simp]: "keeps_seat s x \<Longrightarrow> keeps_seat s (refresh_confirm_window x a b)"
proof -
  have "keeps_seat s x \<Longrightarrow> keeps_seat s (foldl refresh_confirm x ws)" for ws
    by (induction ws arbitrary: x) simp_all
  then show "keeps_seat s x \<Longrightarrow> ?thesis" by (simp add: refresh_confirm_window_def Let_def)
qed

lemma note_admit_seat [simp]: "keeps_seat s (note_admit_stall x why) = keeps_seat s x" "keeps_seat s (note_admit_ok x) = keeps_seat s x"
  by (simp_all add: note_admit_stall_def note_admit_ok_def Let_def)

lemma stalled_seat: "stalled x why = Inr (r, s') \<Longrightarrow> keeps_seat s x \<Longrightarrow> keeps_seat s s'"
  by (auto simp: stalled_def)

lemma resend_seat: "resend_stalled x why = Inr (r, s') \<Longrightarrow> keeps_seat s x \<Longrightarrow> keeps_seat s s'"
  by (auto simp: resend_stalled_def and_then_Inr elim!: stalled_seat intro: seat_trans dest!: bundle_seat)

lemma admit_rows_seat:
  assumes "admit_rows x t rows = Inr (r, s')" "keeps_seat s x"
  shows "keeps_seat s s'"
proof -
  obtain ok s1 where p: "prepare_wire_confirm x t False = (ok, s1)" by (cases "prepare_wire_confirm x t False")
  have k: "keeps_seat s s1" using prepare_confirm_seat [OF assms(2), of t False] p by simp
  then show ?thesis
    using assms(1) unfolding admit_rows_def Let_def p prod.case
    by (auto split: if_splits elim!: stalled_seat resend_seat)
qed

lemma admit_body_seat: "admit_body x future t sw = Inr (r, s') \<Longrightarrow> keeps_seat s x \<Longrightarrow> keeps_seat s s'"
  unfolding admit_body_def Let_def
  by (auto split: if_splits option.splits elim!: stalled_seat resend_seat admit_rows_seat)

lemma local_future_seat: "local_future sample_local s t w = (sm, x) \<Longrightarrow> keeps_seat s x"
  by (auto simp: local_future_def Let_def split: option.splits)

lemma try_admit_seat: "rnet_session_try_admit sample_local s t = Inr (r, s') \<Longrightarrow> keeps_seat s s'"
  unfolding rnet_session_try_admit_def Let_def
  by (auto simp: and_then_Inr split: if_splits prod.splits elim!: stalled_seat admit_body_seat
      dest!: local_future_seat bundle_seat intro: seat_trans)

lemma put_stall_seat [simp]: "keeps_seat s (put_stall x b) = keeps_seat s x"
  by (simp add: put_stall_def)

lemma prepare_prime_seat:
  "rnet_session_prepare_local_tip sample_local s t = Inr (r, s') \<Longrightarrow> keeps_seat s s'"
  "rnet_session_prime_delay_inputs s bs n = Inr s' \<Longrightarrow> keeps_seat s s'"
  unfolding rnet_session_prepare_local_tip_def rnet_session_prime_delay_inputs_def Let_def
  by (auto simp: and_then_Inr split: if_splits dest!: bundle_seat elim!: seat_trans [rotated])

lemma delay_seat [simp]: "keeps_seat s (apply_pending_delay x) = keeps_seat s x"
  by (simp add: apply_pending_delay_def)

lemma resync_seat: "keeps_seat s x \<Longrightarrow> keeps_seat s (rnet_session_hard_resync x)"
  using ctrl_inv_step [of "ss_wire_slot s" "ss_ctrl x" Clear_queues]
  by (simp add: rnet_session_hard_resync_def Let_def keeps_seat_def)

lemma tx_clear_seat: "keeps_seat s x \<Longrightarrow> keeps_seat s (state_tx_clear x)"
  by (erule seat_trans) (rule only_state_seat [OF only_state_basic(7) [OF only_state_refl]])

lemma finish_rx_seat: "keeps_seat s x \<Longrightarrow> keeps_seat s (state_finish_rx x k)"
  by (erule seat_trans) (rule only_state_seat [OF only_state_finish [OF only_state_refl]])

lemma stall_seat: "keeps_seat s x \<Longrightarrow> keeps_seat s (state_recompute_stall x)"
  by (erule seat_trans) (rule only_state_seat [OF only_state_basic(6) [OF only_state_refl]])

lemma finish_from_seat: "keeps_seat s (rnet_session_state_finish_from s from hard)"
  unfolding rnet_session_state_finish_from_def Let_def
  by (auto intro!: stall_seat resync_seat tx_clear_seat finish_rx_seat
      only_state_seat [OF only_state_finish_all [OF only_state_refl]])

lemma finish_seat: "keeps_seat s (rnet_session_state_finish s hard)"
  unfolding rnet_session_state_finish_def Let_def
  by (auto intro!: stall_seat resync_seat tx_clear_seat finish_rx_seat finish_from_seat)

lemma host_calls_seat:
  "keeps_seat s (rnet_session_clear_remote_inputs s)" "keeps_seat s (rnet_session_touch_peer_liveness s)"
  "keeps_seat s (snd (rnet_session_send_bye s))" "keeps_seat s (snd (rnet_session_profiles_begin s q caps))"
  "keeps_seat s (snd (rnet_session_start_lan s up))" "keeps_seat s (rnet_session_set_input_send_suppress s b)"
  "keeps_seat s (rnet_session_advance s)" "keeps_seat s (rnet_session_set_sim_tick s t)"
  "keeps_seat s (snd (rnet_session_request_delay_change s d))"
  by (simp_all add: rnet_session_clear_remote_inputs_def rnet_session_touch_peer_liveness_def rnet_session_send_bye_def
      transport_send_def rnet_session_profiles_begin_def rnet_session_start_lan_def rnet_session_advance_def
      rnet_session_set_input_send_suppress_def rnet_session_set_sim_tick_def rnet_session_request_delay_change_def
      Let_def split: option.split)

lemma ctrl_inv_aux [simp]:
  "ctrl_inv w (c\<lparr>ct_last_from := k\<rparr>) = ctrl_inv w c" "ctrl_inv w (c\<lparr>ct_peer_slot := k\<rparr>) = ctrl_inv w c"
  "ctrl_inv w (c\<lparr>ct_modset_pending := b\<rparr>) = ctrl_inv w c" "ctrl_inv w (c\<lparr>ct_modset_ack_pending := m\<rparr>) = ctrl_inv w c"
  by (simp_all add: ctrl_inv_def)

lemma q_take_rest: "q_take q = Some (m, q') \<Longrightarrow> q' = q_rest q"
  by (simp add: q_rest_def)

lemma take_seat:
  "rnet_session_take_rb_frame_commit s = Some (fc, s') \<Longrightarrow> keeps_seat s s'"
  "rnet_session_take_rb_sync s = Some (sy, s') \<Longrightarrow> keeps_seat s s'"
  "rnet_session_take_rb_seal_rows s = Some (sl, s') \<Longrightarrow> keeps_seat s s'"
  "rnet_session_take_rb_baseline s = Some (ba, s') \<Longrightarrow> keeps_seat s s'"
  "rnet_session_take_rb_post s = Some (po, s') \<Longrightarrow> keeps_seat s s'"
  "rnet_session_take_rb_resolved s = Some (rs, s') \<Longrightarrow> keeps_seat s s'"
  "rnet_session_poll_sio_multi_xfer s = Some (sx, s') \<Longrightarrow> keeps_seat s s'"
  "keeps_seat s (snd (rnet_session_take_modset s cap))"
  "keeps_seat s (snd (rnet_session_take_modset_ack s cap))"
  "keeps_seat s (rnet_session_set_rb_peer_slot s slot)"
  using ctrl_inv_step [of "ss_wire_slot s" "ss_ctrl s" Take_fc] ctrl_inv_step [of "ss_wire_slot s" "ss_ctrl s" Take_sync]
    ctrl_inv_step [of "ss_wire_slot s" "ss_ctrl s" Take_seal] ctrl_inv_step [of "ss_wire_slot s" "ss_ctrl s" Take_base]
    ctrl_inv_step [of "ss_wire_slot s" "ss_ctrl s" Take_post] ctrl_inv_step [of "ss_wire_slot s" "ss_ctrl s" Take_resolved]
    ctrl_inv_step [of "ss_wire_slot s" "ss_ctrl s" Take_sio]
  by (auto simp: rnet_session_take_rb_frame_commit_def rnet_session_take_rb_sync_def rnet_session_take_rb_seal_rows_def
      rnet_session_take_rb_baseline_def rnet_session_take_rb_post_def rnet_session_take_rb_resolved_def
      rnet_session_poll_sio_multi_xfer_def rnet_session_take_modset_def rnet_session_take_modset_ack_def
      rnet_session_set_rb_peer_slot_def Let_def keeps_seat_def split: option.split dest!: q_take_rest)

lemma control_sends_seat:
  "keeps_seat s (snd (rnet_session_send_rb_frame_commit s t h))"
  "keeps_seat s (snd (rnet_session_send_rb_sync s e mt lt tt slot opc flags))"
  "keeps_seat s (snd (rnet_session_send_rb_seal_rows s e mt tt slot t rows))"
  "keeps_seat s (snd (rnet_session_send_rb_baseline s e lt d1 d2 d3 d4))"
  "keeps_seat s (snd (rnet_session_send_rb_post s e tt d1 d2 agree))"
  "keeps_seat s (snd (rnet_session_send_rb_resolved s t))"
  "keeps_seat s (snd (rnet_session_send_sio_multi_xfer s unit_id seqn word pad))"
  "keeps_seat s (snd (rnet_session_send_modset s bs))"
  "keeps_seat s (snd (rnet_session_send_modset_ack s st reason))"
  by (simp_all add: rnet_session_send_rb_frame_commit_def rnet_session_send_rb_sync_def rnet_session_send_rb_seal_rows_def
      rnet_session_send_rb_baseline_def rnet_session_send_rb_post_def rnet_session_send_rb_resolved_def
      rnet_session_send_sio_multi_xfer_def rnet_session_send_modset_def rnet_session_send_modset_ack_def
      transport_send_def Let_def split: option.split)

lemma session_step_seat: "session_step s s' \<Longrightarrow> keeps_seat s s'"
  by (induction rule: session_step.induct)
     (simp_all add: pump_seat try_admit_seat prepare_prime_seat host_calls_seat resync_seat finish_from_seat finish_seat
        take_seat control_sends_seat only_state_host [THEN only_state_seat])

lemma reachable_seat: "session_step\<^sup>*\<^sup>* s0 s \<Longrightarrow> keeps_seat s0 s"
  by (induction rule: rtranclp_induct) (auto intro: seat_trans dest: session_step_seat)

section \<open>No index out of range\<close>

lemma and_then_Inl: "and_then r f = Inl e \<longleftrightarrow> r = Inl e \<or> (\<exists>x. r = Inr x \<and> f x = Inl e)"
  by (cases r) auto

lemma bundle_range: "send_input_bundle s \<noteq> Inl OutOfRange"
  by (auto simp: send_input_bundle_def Let_def split: option.split)

lemma seat_below: "session_wf s \<Longrightarrow> k < slot_count (ss_cfg s) \<Longrightarrow> unat k < 8"
  using session_wf_parts(1) [of s] by (auto simp: seats_ok_def word_less_nat_alt word_le_nat_alt)

text \<open>A session that can index the acknowledgement vectors of eight entries by its own seat.\<close>

definition seat_fits :: "RNetSession \<Rightarrow> bool" where
  "seat_fits s \<longleftrightarrow> session_wf s \<and> unat (local_slot (ss_cfg s)) < 8"

lemma seat_fits_step: "seat_fits s \<Longrightarrow> keeps_seat s s' \<Longrightarrow> session_wf s' \<Longrightarrow> seat_fits s'"
  by (simp add: seat_fits_def keeps_seat_def)

lemma store_frame_range: "session_wf s \<Longrightarrow> store_remote_frame s slot f \<noteq> Inl OutOfRange"
  using seat_below [of s slot]
  by (auto simp: store_remote_frame_def Let_def at_seat_def not_le)

lemma store_frames_range:
  "session_wf s \<Longrightarrow> \<forall>f \<in> set fs. frame_fits f \<Longrightarrow> store_frames s slot fs \<noteq> Inl OutOfRange"
  by (induction fs arbitrary: s) (auto simp: and_then_Inl store_frame_range dest: store_remote_frame_wf)

lemma on_input_range:
  assumes "seat_fits s" "packet_shape ty p"
  shows "on_input s p \<noteq> Inl OutOfRange"
proof -
  have acks: "on_input_acks x p \<noteq> Inl OutOfRange" if "seat_fits x" for x
    using that assms(2) seat_below [of x "dp_local_slot p"]
    by (auto simp: on_input_acks_def Let_def at_seat_def seat_fits_def packet_shape_def)
  let ?fs = "take (dp_frame_count p) (dp_frames p)"
  have fs: "\<forall>f \<in> set ?fs. frame_fits f"
    using assms(2) set_take_subset [of "dp_frame_count p" "dp_frames p"] by (auto simp: packet_shape_def)
  have wf: "session_wf s" using assms(1) by (simp add: seat_fits_def)
  have "seat_fits x" if "store_frames s (dp_local_slot p) ?fs = Inr x" for x
    using seat_fits_step [OF assms(1) store_frames_seat [OF that] store_frames_wf [OF that wf fs]] .
  then show ?thesis
    using acks store_frames_range [OF wf fs] by (auto simp: on_input_def and_then_Inl)
qed

lemma handle_decoded_range:
  assumes "seat_fits s" "packet_shape ty p"
  shows "handle_decoded alloc s p \<noteq> Inl OutOfRange"
proof -
  have wf: "session_wf s" using assms(1) by (simp add: seat_fits_def)
  have "on_ready s p \<noteq> Inl OutOfRange" "on_input_confirm s p \<noteq> Inl OutOfRange"
    using seat_below [OF wf, of "dp_local_slot p"]
    by (auto simp: on_ready_def on_input_confirm_def Let_def at_seat_def)
  moreover have "on_start s p \<noteq> Inl OutOfRange"
    using bundle_range by (simp add: on_start_def begin_running_def)
  ultimately show ?thesis using on_input_range [OF assms] by (simp add: handle_decoded_def)
qed

lemma note_rx_range: "note_rx s p \<noteq> Inl OutOfRange"
proof -
  have "unat (of_int k :: u8) < 8" if "0 \<le> k" "k < 8" for k :: int
    using that by (simp add: unat_eq_nat_uint uint_word_of_int nat_less_iff)
  then show ?thesis by (auto simp: note_rx_def Let_def and_then_Inl at_seat_def)
qed

text \<open>
  The datagrams the decoder reads within their bounds: at most the size of the receive buffer, and
  either too short to be looked at or long enough for header, checksum and trailer.
\<close>

definition datagram_ok :: "bytes \<Rightarrow> bool" where
  "datagram_ok b \<longleftrightarrow> length b \<le> RNET_MAX_PACKET \<and> (length b < 10 \<or> 14 \<le> length b)"

lemma decode_range:
  assumes "length b < 10 \<or> 14 \<le> length b"
  shows "rnet_proto_decode (b @ rest) (length b) magic \<noteq> OutOfBounds"
  using assms decode_datagram(1) [of b] decode_datagram(2) [of b] by (auto simp: rnet_proto_decode_def rd_result_def)

lemma receive_range:
  assumes "seat_fits s" "length b < 10 \<or> 14 \<le> length b"
  shows "receive_datagram alloc s (b @ rest) (length b) \<noteq> Inl OutOfRange"
proof (cases "rnet_proto_decode (b @ rest) (length b) (protocol_magic (ss_cfg s))")
  case (Decoded p)
  have "seat_fits x" if "note_rx s p = Inr x" for x
    using assms(1) seat_fits_step note_rx_seat [OF that] note_rx_wf [OF that] by (auto simp: seat_fits_def)
  then show ?thesis
    using note_rx_range [of s p] handle_decoded_range [OF _ decoded_shape [OF Decoded]]
    by (auto simp: receive_datagram_def Decoded and_then_Inl)
qed (use decode_range [OF assms(2)] in \<open>simp_all add: receive_datagram_def\<close>)

lemma receive_fits: "receive_datagram alloc s b n = Inr x \<Longrightarrow> seat_fits s \<Longrightarrow> seat_fits x"
  using seat_fits_step [OF _ receive_seat] receive_datagram_wf by (simp add: seat_fits_def)

lemma recv_loop_range:
  "seat_fits s \<Longrightarrow> \<forall>b \<in> set inq. datagram_ok b \<Longrightarrow> recv_loop alloc n buf s inq \<noteq> Inl OutOfRange"
  by (induction alloc n buf s inq rule: recv_loop.induct)
     (auto simp: Let_def and_then_Inl datagram_ok_def receive_range dest: receive_fits)

lemma recv_loop_rest: "recv_loop alloc n buf s inq = Inr (s', q) \<Longrightarrow> set q \<subseteq> set inq"
  by (induction alloc n buf s inq rule: recv_loop.induct) (auto simp: Let_def and_then_Inr split: if_splits)

lemma burst_range:
  "seat_fits s \<Longrightarrow> \<forall>b \<in> set inq. datagram_ok b \<Longrightarrow> burst_loop alloc junk n s inq \<noteq> Inl OutOfRange"
proof (induction n arbitrary: s inq)
  case (Suc n)
  let ?s = "state_drive_sender s"
  have f: "seat_fits ?s"
    using seat_fits_step [OF Suc.prems(1) drive_seat(1)] Suc.prems(1) only_state_wf [OF only_state_drive_sender [OF only_state_refl]]
    by (simp add: seat_fits_def)
  have "burst_loop alloc junk n x q \<noteq> Inl OutOfRange" if "recv_loop alloc m junk ?s inq = Inr (x, q)" for m x q
    using Suc.IH [OF seat_fits_step [OF f recv_loop_seat [OF that] recv_loop_wf [OF that]]] f
      recv_loop_rest [OF that] Suc.prems(2) by (auto simp: seat_fits_def)
  then show ?case
    using recv_loop_range [OF f Suc.prems(2)] by (auto simp: Let_def and_then_Inl pump_recv_def)
qed simp

lemma send_raw_cfg [simp]: "ss_cfg (send_raw s b) = ss_cfg s" "ss_is_observer (send_raw s b) = ss_is_observer s"
  using only_sends_keeps [OF send_raw_only [of s b]] by simp_all

lemma bootstrap_range:
  assumes "seat_fits s"
  shows "maybe_bootstrap s \<noteq> Inl OutOfRange"
proof -
  define s1 where "s1 = (if ss_phase s = PHASE_LINKING \<and> ss_now s - ss_last_hello_ms s \<ge> 100 then send_hello s else s)"
  define s2 where "s2 = s1\<lparr>ss_local_ready := True\<rparr>"
  define s3 where "s3 = (if ss_now s - ss_last_ready_ms s2 \<ge> 100
      then (send_raw s2 (rnet_proto_encode_ready RNET_MAX_PACKET (protocol_magic (ss_cfg s2))
              (session_id (ss_cfg s2)) (ss_wire_slot s2)))\<lparr>ss_last_ready_ms := ss_now s\<rparr> else s2)"
  have cfg: "ss_cfg s3 = ss_cfg s" by (simp add: s3_def s2_def s1_def send_hello_def)
  define own where "own = (if ss_is_observer s3 then Inr (ss_peer_ready s3)
      else at_seat (local_slot (ss_cfg s3)) (\<lambda>k. Inr ((ss_peer_ready s3)[k := True])))"
  have own: "own \<noteq> Inl OutOfRange"
    using assms by (simp add: own_def at_seat_def cfg seat_fits_def)
  have "(let (all_ready, ready) = mark_ready (ss_cfg s3) rd ks; s4 = s3\<lparr>ss_peer_ready := ready\<rparr>
        in if all_ready \<and> ss_is_sim_authority s4 \<and> \<not> ss_start_sent s4
           then begin_running ((send_start s4)\<lparr>ss_start_sent := True\<rparr>) 0 else Inr s4) \<noteq> Inl OutOfRange" for rd ks
    unfolding begin_running_def
    by (cases "mark_ready (ss_cfg s3) rd ks") (simp add: Let_def bundle_range)
  then show ?thesis
    using own unfolding maybe_bootstrap_def Let_def s1_def [symmetric]
    unfolding s2_def [symmetric] unfolding s3_def [symmetric] unfolding own_def [symmetric]
    by (simp add: and_then_Inl)
qed

lemma pump_tail_range: "pump_tail s \<noteq> Inl OutOfRange"
  using bundle_range by (auto simp: pump_tail_def Let_def and_then_Inl)

lemma pump_range:
  assumes "seat_fits s" "\<forall>b \<in> set inq. datagram_ok b"
  shows "rnet_session_pump alloc junk s inq \<noteq> Inl OutOfRange"
proof -
  have recv: "pump_recv alloc junk s inq \<noteq> Inl OutOfRange"
    unfolding pump_recv_def by (rule recv_loop_range [OF assms])
  have "maybe_bootstrap s1 \<noteq> Inl OutOfRange \<and> (\<forall>s2. maybe_bootstrap s1 = Inr s2 \<longrightarrow>
      (\<forall>s4. s4 = profiles_drive s2 \<or> s4 = state_drive_probe (profiles_drive s2) \<longrightarrow>
         burst_loop alloc junk 4 s4 in1 \<noteq> Inl OutOfRange))"
    if r: "pump_recv alloc junk s inq = Inr (s1, in1)" for s1 in1
  proof -
    note r' = r [unfolded pump_recv_def]
    have f1: "seat_fits s1"
      using seat_fits_step [OF assms(1) recv_loop_seat [OF r'] recv_loop_wf [OF r']] assms(1) by (simp add: seat_fits_def)
    have f3: "seat_fits (profiles_drive s2)" if "maybe_bootstrap s1 = Inr s2" for s2
      using seat_fits_step [OF f1 seat_trans [OF bootstrap_seat [OF that] profiles_drive_seat]]
        profiles_drive_wf [OF maybe_bootstrap_wf [OF that]] f1 by (simp add: seat_fits_def)
    have f4: "seat_fits (state_drive_probe x)" if "seat_fits x" for x
      using seat_fits_step [OF that drive_seat(2)] that only_state_wf [OF only_state_probes(1) [OF only_state_refl]]
      by (simp add: seat_fits_def)
    have "\<forall>b \<in> set in1. datagram_ok b" using recv_loop_rest [OF r'] assms(2) by blast
    then show ?thesis using bootstrap_range [OF f1] burst_range f3 f4 by blast
  qed
  with recv pump_tail_range show ?thesis
    unfolding rnet_session_pump_def Let_def by (auto simp: and_then_Inl)
qed

lemma create_seat:
  assumes "rnet_session_create cfg now os = Some s"
  shows "ss_cfg s = cfg" "ss_wire_slot s = rnet_config_wire_slot cfg" "ctrl_inv (ss_wire_slot s) (ss_ctrl s)"
  using assms by (auto simp: rnet_session_create_def ctrl_inv_init split: if_splits)

text \<open>
  C3. Memory safety of a session against the network. Take any session the host created, after any
  sequence of calls and arrivals. Its tables have the lengths the header declares (two to eight
  seats, eight rings of 128 rows of at most 32 bytes, the tables of confirmations,
  acknowledgements, arrivals and liveness), and its seven control queues are well-formed rings. The
  pump, on any datagrams of at most 1200 bytes that are not of ten to thirteen bytes, never reads
  outside a datagram and never indexes an array of seats out of range, provided the session's own
  seat number is below eight, which only the observer of a full room violates. The trap-checked
  indexes are those that a packet or the configuration gives: input rows, acknowledgements,
  readiness, confirmations, liveness; the arrays of the state transfer and of the profiles are not
  among them.
\<close>

theorem session_memory_safe:
  assumes "rnet_session_create cfg now os = Some s0" "session_step\<^sup>*\<^sup>* s0 s" "local_slot cfg < 8"
    "\<forall>b \<in> set inq. datagram_ok b"
  shows "session_wf s \<and> ctrl_inv (rnet_config_wire_slot cfg) (ss_ctrl s) \<and>
     rnet_session_pump alloc junk s inq \<noteq> Inl OutOfRange"
proof -
  note k = reachable_seat [OF assms(2)] and c = create_seat [OF assms(1)]
  have wf: "session_wf s" by (rule reachable_wf [OF assms(1,2)])
  moreover have "ctrl_inv (rnet_config_wire_slot cfg) (ss_ctrl s)" using k c by (simp add: keeps_seat_def)
  moreover have "seat_fits s" using wf k c assms(3) by (simp add: seat_fits_def keeps_seat_def word_less_nat_alt)
  ultimately show ?thesis using pump_range [OF _ assms(4)] by blast
qed

theorem session_memory_safe_witness:
  "\<exists>s0. rnet_session_create two_seats 1 1 = Some s0 \<and> local_slot two_seats < 8 \<and>
     datagram_ok (replicate 14 0) \<and> session_step\<^sup>*\<^sup>* s0 (rnet_session_hard_resync (snd (rnet_session_start_lan s0 True))) \<and>
     rnet_session_pump (\<lambda>n. True) [] (rnet_session_hard_resync (snd (rnet_session_start_lan s0 True)))
       [replicate 14 0] \<noteq> Inl OutOfRange"
proof -
  obtain s0 where s0: "rnet_session_create two_seats 1 1 = Some s0" using two_seats_create by blast
  let ?s = "rnet_session_hard_resync (snd (rnet_session_start_lan s0 True))"
  have run: "session_step\<^sup>*\<^sup>* s0 ?s"
    using session_step.start_lan [of s0 True] session_step.resync [of "snd (rnet_session_start_lan s0 True)"]
    by (meson rtranclp.rtrancl_into_rtrancl rtranclp.rtrancl_refl)
  have ls: "local_slot two_seats < 8" by (simp add: two_seats_def rnet_config_init_defaults_def)
  have d: "datagram_ok (replicate 14 0)" by (simp add: datagram_ok_def)
  then have "\<forall>b \<in> set [replicate 14 0 :: bytes]. datagram_ok b" by simp
  from session_memory_safe [OF s0 run ls this, of "\<lambda>n. True" "[]"] show ?thesis using s0 run ls d by blast
qed

section \<open>The observer of a full room\<close>

lemma store_frames_Inl: "store_frames s slot fs = Inl e \<Longrightarrow> e = OutOfRange"
  by (induction fs arbitrary: s)
     (auto simp: and_then_Inl store_remote_frame_def Let_def at_seat_def split: if_splits)

lemma store_frames_cfg: "store_frames s slot fs = Inr x \<Longrightarrow> ss_cfg x = ss_cfg s"
proof (induction fs arbitrary: s)
  case (Cons f fs)
  have "store_remote_frame s slot f = Inr y \<Longrightarrow> ss_cfg y = ss_cfg s" for y
    by (auto simp: store_remote_frame_def Let_def at_seat_Inr split: if_splits)
  with Cons show ?case by (auto simp: and_then_Inr)
qed simp

lemma note_rx_same: "note_rx s p = Inr x \<Longrightarrow> ss_cfg x = ss_cfg s \<and> ss_input_epoch x = ss_input_epoch s"
  by (auto simp: note_rx_def Let_def and_then_Inr)

lemma note_rx_Inr: "\<exists>x. note_rx s p = Inr x"
proof (cases "note_rx s p")
  case (Inl e)
  then show ?thesis using note_rx_range [of s p] by (auto simp: note_rx_def Let_def and_then_Inl at_seat_def split: if_splits)
qed simp

text \<open>
  C40. A spectator in a room of eight seats reads outside the packet: any bundle that a seated peer of
  the same room and epoch sends makes its pump read the ninth of eight acknowledgements.
\<close>

theorem full_room_observer_overreads:
  assumes "slot_count (ss_cfg s) = 8" "local_slot (ss_cfg s) = 8"
    and "seats_ok peer" "slot_count (ss_cfg peer) = 8" "protocol_magic (ss_cfg peer) = protocol_magic (ss_cfg s)"
      "session_id (ss_cfg peer) = session_id (ss_cfg s)" "ss_input_epoch peer = ss_input_epoch s"
      "rnet_config_slot_occupied (ss_cfg s) (ss_wire_slot peer)"
    and "\<forall>f \<in> set fs. length (wf_bytes f) = 32" "encode_bundle peer ack fs = Some b"
  shows "rnet_session_pump alloc junk s (b # inq) = Inl OutOfRange"
proof -
  let ?m = "bundle_msg peer ack fs" and ?sid = "session_id (ss_cfg s)" and ?buf = "b @ drop (length b) junk"
  define p where "p = msg_packet ?sid ?m"
  have m: "?m = InputAcks (ss_wire_slot peer) (ss_input_epoch s) ack fs (ss_remote_contiguous_ack peer)"
    using assms by (simp add: bundle_msg_def seats_ok_def)
  have dec: "rnet_proto_decode (b @ ex) (length b) (protocol_magic (ss_cfg s)) = Decoded p" for ex
    using encode_decode [of ?m 1200 "protocol_magic (ss_cfg s)" ?sid b ex] assms(5,6,9,10)
    by (simp add: p_def encode_bundle_msg m list_all_iff)
  have p: "dp_type p = RNET_PKT_INPUT" "dp_session_id p = ?sid" "dp_input_epoch p = ss_input_epoch s"
    "dp_local_slot p = ss_wire_slot peer" "dp_ack_count p = 8" "length (dp_acks p) = 8"
    using assms(3) decoded_shape [OF dec [of "[]"]] by (simp_all add: p_def m msg_packet_def seats_ok_def packet_shape_def)
  have "b \<noteq> []" using dec [of "[]"] by (auto simp: rnet_proto_decode_def rd_result_def)
  have acks: "on_input_acks x p = Inl OutOfRange" if "ss_cfg x = ss_cfg s" for x
  proof -
    have "ss_wire_slot peer < 8" using assms(1,8) by (auto simp: rnet_config_slot_occupied_def not_le split: if_splits)
    then show ?thesis using that assms(1,2,8) p by (simp add: on_input_acks_def)
  qed
  have inp: "on_input x p = Inl OutOfRange" if "ss_cfg x = ss_cfg s" "ss_input_epoch x = ss_input_epoch s" for x
    using that acks p store_frames_cfg [of x "dp_local_slot p"] store_frames_Inl [of x "dp_local_slot p"]
    by (cases "store_frames x (dp_local_slot p) (take (dp_frame_count p) (dp_frames p))") (auto simp: on_input_def)
  have han: "handle_decoded alloc x p = Inl OutOfRange" if "note_rx s p = Inr x" for x
  proof -
    have "ss_cfg x = ss_cfg s" "ss_input_epoch x = ss_input_epoch s" using note_rx_same [OF that] by simp_all
    then show ?thesis using inp p(1,2) by (simp add: handle_decoded_def rnet_proto_is_rb_control_def)
  qed
  have "receive_datagram alloc s ?buf (length b) = Inl OutOfRange"
    using note_rx_Inr [of s p] han p(2) unfolding receive_datagram_def dec by auto
  then have "recv_loop alloc (Suc n) junk s (b # inq) = Inl OutOfRange" for n using \<open>b \<noteq> []\<close> by (simp add: Let_def)
  from this [of 63] this [of 511] have "pump_recv alloc junk s (b # inq) = Inl OutOfRange"
    by (simp add: pump_recv_def del: recv_loop.simps)
  then show ?thesis by (simp add: rnet_session_pump_def)
qed

definition full_room :: RNetConfig where
  "full_room = rnet_config_init_defaults\<lparr>slot_count := 8\<rparr>"

theorem full_room_observer_overreads_witness:
  "\<exists>s peer b. rnet_session_create (full_room\<lparr>local_slot := 8\<rparr>) 1 1 = Some s \<and>
     rnet_session_create (full_room\<lparr>local_slot := 1\<rparr>) 1 1 = Some peer \<and>
     encode_bundle peer 0 [frame_of_sample (neutral_sample 0)] = Some b \<and>
     rnet_session_pump (\<lambda>n. True) [] s [b] = Inl OutOfRange"
proof -
  obtain s peer where s: "rnet_session_create (full_room\<lparr>local_slot := 8\<rparr>) 1 1 = Some s" "ss_input_epoch s = 0"
    "rnet_session_create (full_room\<lparr>local_slot := 1\<rparr>) 1 1 = Some peer" "ss_input_epoch peer = 0"
    by (auto simp: rnet_session_create_def full_room_def rnet_config_init_defaults_def rnet_config_wire_slot_def)
  note cs = create_seat [OF s(1)] and cp = create_seat [OF s(3)]
  let ?f = "frame_of_sample (neutral_sample 0)"
  have ok: "seats_ok peer" using create_wf [OF s(3)] by (rule session_wf_parts(1))
  have fit: "unat (wf_size ?f) \<le> 32 \<and> length (wf_bytes ?f) = 32"
    by (simp add: frame_of_sample_def neutral_sample_def zero_sample_def)
  then obtain b where b: "encode_bundle peer 0 [?f] = Some b" using encode_bundle_some [OF ok, of "[?f]" 0] by auto
  have occ: "rnet_config_slot_occupied (ss_cfg s) (ss_wire_slot peer)"
    unfolding cs cp by (simp add: full_room_def rnet_config_init_defaults_def rnet_config_wire_slot_def
        rnet_config_slot_occupied_def word_le_nat_alt)
  have cfg: "slot_count (ss_cfg s) = 8" "local_slot (ss_cfg s) = 8" "slot_count (ss_cfg peer) = 8"
    "protocol_magic (ss_cfg peer) = protocol_magic (ss_cfg s)" "session_id (ss_cfg peer) = session_id (ss_cfg s)"
    "ss_input_epoch peer = ss_input_epoch s"
    unfolding cs cp s by (simp_all add: full_room_def)
  have fs: "\<forall>f \<in> set [?f]. length (wf_bytes f) = 32" using fit by simp
  from full_room_observer_overreads [OF cfg(1,2) ok cfg(3-6) occ fs b, of "\<lambda>n. True" "[]" "[]"]
  show ?thesis using s(1,3) b by blast
qed

end
