(* ===== verification/RNet_State_Sound.thy ===== *)
theory RNet_State_Sound
  imports RNet_State_Net
begin

text \<open>
  The network of one sender and its receivers, as a step relation over datagrams, and the soundness
  of the state transfer in it.
\<close>

section \<open>The network\<close>

text \<open>One call of a session operation: the clock it reads, and an empty outbox.\<close>

definition at_time :: "u64 \<Rightarrow> RNetSession \<Rightarrow> RNetSession" where
  "at_time t s = s\<lparr>ss_now := t, ss_out := []\<rparr>"

text \<open>A receiver that has not heard of the transfer from \<open>src\<close>.\<close>

definition fresh_receiver :: "u8 \<Rightarrow> RNetSession \<Rightarrow> bool" where
  "fresh_receiver src s \<longleftrightarrow> length (ss_rx s) = 8 \<and> length (st_received (ss_state s)) = 8 \<and>
     sr_id (st_received (ss_state s) ! unat src) = 0 \<and> \<not> rx_active (ss_rx s ! unat src)"

definition speaks :: "u32 \<Rightarrow> u32 \<Rightarrow> RNetSession \<Rightarrow> bool" where
  "speaks mg sid s \<longleftrightarrow> protocol_magic (ss_cfg s) = mg \<and> session_id (ss_cfg s) = sid"

text \<open>
  \<open>state_net alloc mg sid d s R M\<close>: a sender that began the transfer of \<open>d\<close> has reached \<open>s\<close>, the
  other seats have reached \<open>R\<close>, and \<open>M\<close> are the datagrams sent so far. Each of them may be delivered
  any number of times, in any order, or not at all.
\<close>

inductive state_net ::
  "(nat \<Rightarrow> bool) \<Rightarrow> u32 \<Rightarrow> u32 \<Rightarrow> bytes \<Rightarrow> RNetSession \<Rightarrow> (u8 \<Rightarrow> RNetSession) \<Rightarrow> bytes set \<Rightarrow> bool"
  for alloc mg sid d where
  start: "rnet_session_state_begin alloc (at_time t s0) opn slot (Some d) = (True, s) \<Longrightarrow>
    speaks mg sid s0 \<Longrightarrow> ss_wire_slot s0 = local_slot (ss_cfg s0) \<Longrightarrow> ss_wire_slot s0 < 8 \<Longrightarrow>
    (\<And>r. speaks mg sid (R r) \<and> ss_wire_slot (R r) = r \<and> fresh_receiver (ss_wire_slot s0) (R r)) \<Longrightarrow>
    state_net alloc mg sid d s R (set (ss_out s))"
| pump: "state_net alloc mg sid d s R M \<Longrightarrow> s' = state_drive_sender (at_time t s) \<Longrightarrow>
    state_net alloc mg sid d s' R (M \<union> set (ss_out s'))"
| ack: "state_net alloc mg sid d s R M \<Longrightarrow> b \<in> M \<Longrightarrow> rnet_proto_decode b (length b) mg = Decoded p \<Longrightarrow>
    dp_type p = RNET_PKT_STATE_ACK \<Longrightarrow> s' = state_on_ack (at_time t s) p \<Longrightarrow>
    state_net alloc mg sid d s' R (M \<union> set (ss_out s'))"
| recv_begin: "state_net alloc mg sid d s R M \<Longrightarrow> b \<in> M \<Longrightarrow>
    rnet_proto_decode b (length b) mg = Decoded p \<Longrightarrow> dp_type p = RNET_PKT_STATE_BEGIN \<Longrightarrow>
    r \<noteq> ss_wire_slot s \<Longrightarrow> s' = state_on_begin alloc (at_time t (R r)) p \<Longrightarrow>
    state_net alloc mg sid d s (R(r := s')) (M \<union> set (ss_out s'))"
| recv_chunk: "state_net alloc mg sid d s R M \<Longrightarrow> b \<in> M \<Longrightarrow>
    rnet_proto_decode b (length b) mg = Decoded p \<Longrightarrow> dp_type p = RNET_PKT_STATE_CHUNK \<Longrightarrow>
    r \<noteq> ss_wire_slot s \<Longrightarrow> s' = state_on_chunk (at_time t (R r)) p \<Longrightarrow>
    state_net alloc mg sid d s (R(r := s')) (M \<union> set (ss_out s'))"

section \<open>The invariant\<close>

definition held_by :: "xfer \<Rightarrow> (u8 \<Rightarrow> RNetSession) \<Rightarrow> u8 \<Rightarrow> nat" where
  "held_by x R r = (if r = xf_src x then 0 else rx_held (xf_src x) (R r))"

definition state_inv :: "xfer \<Rightarrow> u32 \<Rightarrow> u32 \<Rightarrow> RNetSession \<Rightarrow> (u8 \<Rightarrow> RNetSession) \<Rightarrow> bytes set \<Rightarrow> bool" where
  "state_inv x mg sid s R M \<longleftrightarrow> xfer_ok x \<and> speaks mg sid s \<and> snd_ok x (held_by x R) s \<and>
     (\<forall>r. r \<noteq> xf_src x \<longrightarrow> rcv_ok x (R r) \<and> speaks mg sid (R r) \<and> ss_wire_slot (R r) = r) \<and>
     (\<forall>b \<in> M. \<exists>m cap. genuine_msg x (held_by x R) m \<and> encode_msg cap mg sid m = Some b)"

lemma at_time_simps [simp]:
  "ss_cfg (at_time t s) = ss_cfg s" "ss_wire_slot (at_time t s) = ss_wire_slot s"
  "ss_state (at_time t s) = ss_state s" "ss_out (at_time t s) = []" "ss_now (at_time t s) = t"
  "ss_ctrl (at_time t s) = ss_ctrl s" "ss_phase (at_time t s) = ss_phase s"
  by (simp_all add: at_time_def)

lemma at_time_ok [simp]:
  "snd_ok x held (at_time t s) = snd_ok x held s" "rcv_ok x (at_time t s) = rcv_ok x s"
  "rx_held k (at_time t s) = rx_held k s" "speaks mg sid (at_time t s) = speaks mg sid s"
  by (simp_all add: snd_ok_def rcv_ok_def rx_held_def speaks_def)

lemma rx_held_le: "rcv_ok x s \<Longrightarrow> rx_held (xf_src x) s \<le> length (xf_data x)"
  by (auto simp: rcv_ok_def rx_held_def rx_good_def aligned_def Let_def)

lemma held_by_le: "state_inv x mg sid s R M \<Longrightarrow> held_by x R r \<le> length (xf_data x)"
  using rx_held_le [of x "R r"] by (auto simp: held_by_def state_inv_def)

lemma emits_new:
  assumes "emits P s s'" "speaks mg sid s" "ss_out s = []"
  shows "speaks mg sid s' \<and> (\<forall>b \<in> set (ss_out s'). \<exists>m cap. P m \<and> encode_msg cap mg sid m = Some b)"
  using assms by (auto simp: emits_def encodes_def speaks_def)

lemma genuine_decoded:
  assumes "state_inv x mg sid s R M" "b \<in> M" "rnet_proto_decode b (length b) mg = Decoded p"
  obtains m where "genuine_msg x (held_by x R) m" "p = msg_packet sid m" "dp_type p = msg_type m"
proof -
  obtain m cap where m: "genuine_msg x (held_by x R) m" "encode_msg cap mg sid m = Some b"
    using assms(1,2) by (auto simp: state_inv_def)
  have "rnet_proto_decode (b @ []) (length b) mg = Decoded (msg_packet sid m)"
    by (rule encode_decode [OF _ m(2)]) (use genuine_plain [OF m(1)] in simp)
  with assms(3) have p: "p = msg_packet sid m" by simp
  have "dp_type (msg_packet sid m) = msg_type m"
    using m(1) by (cases m) (auto simp: msg_packet_def)
  with m p that show thesis by blast
qed

text \<open>A receiver's step: it holds at least as much as before, and what it sent is genuine.\<close>

lemma state_inv_receiver:
  assumes "state_inv x mg sid s R M" "r \<noteq> xf_src x"
    and "rcv_ok x s' \<and> rx_held (xf_src x) (R r) \<le> rx_held (xf_src x) s' \<and>
      (\<forall>held'. rx_held (xf_src x) s' \<le> held' r \<longrightarrow> emits (genuine_msg x held') (at_time t (R r)) s')"
  shows "state_inv x mg sid s (R(r := s')) (M \<union> set (ss_out s'))"
proof -
  let ?h = "held_by x (R(r := s'))"
  have le: "held_by x R k \<le> ?h k" for k using assms(2,3) by (auto simp: held_by_def)
  have hr: "?h r = rx_held (xf_src x) s'" using assms(2) by (simp add: held_by_def)
  have bound: "?h k \<le> length (xf_data x)" for k
    using assms held_by_le [OF assms(1), of k] rx_held_le [of x s'] by (auto simp: held_by_def)
  have em: "emits (genuine_msg x ?h) (at_time t (R r)) s'" using assms(3) hr by simp
  have r: "speaks mg sid (at_time t (R r))" "ss_wire_slot (R r) = r" using assms(1,2) by (auto simp: state_inv_def)
  note new = emits_new [OF em r(1)]
  have "snd_ok x ?h s"
    using snd_ok_mono [of x "held_by x R" s ?h] assms(1) le bound by (simp add: state_inv_def)
  moreover have "\<exists>m cap. genuine_msg x ?h m \<and> encode_msg cap mg sid m = Some b" if "b \<in> M" for b
    using assms(1) that genuine_mono [of x "held_by x R" _ ?h, OF _ le] by (fastforce simp: state_inv_def)
  moreover have "ss_wire_slot s' = r" using em r(2) by (simp add: emits_def)
  ultimately show ?thesis using assms new by (auto simp: state_inv_def)
qed

text \<open>A step of the sender.\<close>

lemma state_inv_sender:
  assumes "state_inv x mg sid s R M"
    and "snd_ok x (held_by x R) s' \<and> emits (genuine_msg x (held_by x R)) (at_time t s) s'"
  shows "state_inv x mg sid s' R (M \<union> set (ss_out s'))"
  using assms emits_new [of "genuine_msg x (held_by x R)" "at_time t s" s' mg sid]
  by (auto simp: state_inv_def)

text \<open>The mask of receivers never has the sender in it.\<close>

lemma receivers_loop:
  "bit (foldl (\<lambda>m i. if c i then m OR push_bit i 1 else m) m xs :: u32) k \<Longrightarrow>
     bit m k \<or> k \<in> set xs \<and> c k"
  by (induction xs arbitrary: m) (fastforce split: if_splits)+

lemma default_receivers_others:
  assumes "k < 8" "state_default_receivers s opn AND push_bit k 1 \<noteq> 0"
    and "opn = RNET_STATE_OP_MEMCARD \<longrightarrow> local_slot (ss_cfg s) \<noteq> 0"
  shows "of_nat k \<noteq> local_slot (ss_cfg s)"
proof -
  let ?peer = "ct_peer_slot (ss_ctrl s)"
  consider (card) "opn = RNET_STATE_OP_MEMCARD" | (peer) "opn \<noteq> RNET_STATE_OP_MEMCARD" "?peer \<ge> 0"
    | (all) "opn \<noteq> RNET_STATE_OP_MEMCARD" "\<not> ?peer \<ge> 0" by blast
  then show ?thesis
  proof cases
    case card
    then have "k = 0" using assms(1,2)
      by (simp add: state_default_receivers_def bit_simps flip: bit_iff_and_push_bit_not_eq_0)
    with card assms(3) show ?thesis by simp
  next
    case peer
    then have "k = nat ?peer" "?peer \<noteq> uint (local_slot (ss_cfg s))" using assms(1,2)
      by (auto simp: state_default_receivers_def Let_def bit_simps split: if_splits
          simp flip: bit_iff_and_push_bit_not_eq_0)
    moreover have "unat (of_nat k :: u8) = k" using assms(1) by (simp add: unat_of_nat take_bit_nat_eq_self)
    ultimately show ?thesis using peer by (metis int_nat_eq nat_int uint_nat)
  next
    case all
    then show ?thesis using assms(2)
      by (auto simp: state_default_receivers_def Let_def dest!: receivers_loop)
  qed
qed

lemma memcard_id: "(0x40000000 OR push_bit 24 a OR b :: u32) \<noteq> 0"
proof -
  have "bit (0x40000000 OR push_bit 24 a OR b :: u32) 30" by (simp add: bit_simps)
  then show ?thesis by auto
qed

lemma clear_keeps [simp]:
  "ss_cfg (state_tx_clear (state_probe_clear s)) = ss_cfg s"
  "ss_wire_slot (state_tx_clear (state_probe_clear s)) = ss_wire_slot s"
  "ss_out (state_tx_clear (state_probe_clear s)) = ss_out s"
  "ss_tx (state_tx_clear (state_probe_clear s)) = zero_tx"
  by (simp_all add: state_tx_clear_def state_probe_clear_def put_stall_def put_probe_def Let_def)

text \<open>A transfer that began: the invariant holds of the state handed to the first drive.\<close>

lemma begin_start:
  assumes "rnet_session_state_begin alloc s opn slot (Some d) = (True, s')"
    and "ss_wire_slot s = local_slot (ss_cfg s)" "ss_wire_slot s < 8"
  obtains x where "xfer_ok x" "xf_data x = d" "xf_src x = ss_wire_slot s"
    "snd_ok x (\<lambda>_. 0) s'" "emits (genuine_msg x (\<lambda>_. 0)) s s'"
proof -
  define expect where "expect = state_default_receivers s opn"
  define s1 where "s1 = state_tx_clear (state_probe_clear s)"
  define st where "st = ss_state s1"
  define nid where "nid = (if st_next_xfer_id st + 1 = 0 then 1 else st_next_xfer_id st + 1)"
  define xid where "xid = (if opn = RNET_STATE_OP_MEMCARD
    then 0x40000000 OR push_bit 24 ((ucast (local_slot (ss_cfg s)) - 1) AND 0x3f) OR (nid AND 0x00ffffff)
    else nid)"
  define t where "t = (st_tx st)\<lparr>tx_buf := Some d, tx_active := True, tx_ready := False,
    tx_op := opn, tx_slot := slot, tx_expect_mask := expect, tx_xfer_id := xid,
    tx_total := of_nat (length d), tx_crc := rnet_proto_checksum d, tx_send_cursor := 0,
    tx_start_ms := ss_now s\<rparr>"
  define s0 where "s0 = s1\<lparr>ss_state := st\<lparr>st_tx := t, st_stall_sim := True, st_next_xfer_id := nid\<rparr>\<rparr>"
  define s2 where "s2 = state_pacing_reset s0"
  define s3 where "s3 = (case encode_begin 64 s2 of None \<Rightarrow> s2
    | Some b \<Rightarrow> put_tx (send_raw s2 (Some b)) ((ss_tx (send_raw s2 (Some b)))\<lparr>tx_last_begin_ms := ss_now s\<rparr>))"
  note folds = expect_def [symmetric] s1_def [symmetric] st_def [symmetric] nid_def [symmetric]
    xid_def [symmetric] t_def [symmetric] s0_def [symmetric] s2_def [symmetric] s3_def [symmetric]
  have s': "s' = state_drive_sender s3" and guards: "0 < length d" "length d \<le> 8388608" 
    "opn = RNET_STATE_OP_MEMCARD \<longrightarrow> local_slot (ss_cfg s) \<noteq> 0"
    using assms(1) unfolding rnet_session_state_begin_def Let_def option.case
    unfolding folds by (auto split: if_splits)
  define x where "x = \<lparr>xf_src = ss_wire_slot s, xf_op = opn, xf_slot = slot, xf_id = xid, xf_data = d\<rparr>"
  have "nid \<noteq> 0" by (simp add: nid_def)
  then have "xid \<noteq> 0" by (simp only: xid_def memcard_id split: if_splits) simp
  then have x: "xfer_ok x" using guards assms(3) by (simp add: xfer_ok_def x_def)
  let ?h = "\<lambda>_ :: u8. 0 :: nat"
  have others: "of_nat r \<noteq> ss_wire_slot s" if "r < 8" "expects t r" for r
    using default_receivers_others [of r s opn] that guards(3) assms(2)
    by (simp add: expects_def t_def expect_def)
  have tx: "st_tx st = zero_tx" by (simp add: st_def s1_def)
  have 0: "snd_ok x ?h s0" using others
    by (auto simp: snd_ok_def Let_def s0_def x_def t_def tx zero_tx_def s1_def aligned_def)
  have em0: "emits P s s0" for P by (rule emits_same) (simp_all add: s0_def s1_def)
  have 2: "snd_ok x ?h s2" "emits P s s2" for P
    using snd_ok_keep [OF 0 pacing_same(1)] emits_trans [OF em0] pacing_same(1) [of s0 P] by (auto simp: s2_def)
  have 3: "snd_ok x ?h s3 \<and> emits (genuine_msg x ?h) s s3"
  proof (cases "encode_begin 64 s2")
    case None
    then show ?thesis using 2 by (simp add: s3_def)
  next
    case (Some b)
    note b = send_begin_ok [OF 2(1), of 64, unfolded Some]
    have "same_xfer (ss_tx s2) ((ss_tx s2)\<lparr>tx_last_begin_ms := ss_now s\<rparr>)" by (simp add: same_xfer_def)
    then have "snd_ok x ?h s3 \<and> emits (genuine_msg x ?h) (send_raw s2 (Some b)) s3"
      using snd_ok_put [of x ?h "send_raw s2 (Some b)"] b snd_okD(1) [OF 2(1)] by (simp add: s3_def Some Let_def)
    then show ?thesis using b 2(2) emits_trans by blast
  qed
  then have "snd_ok x ?h s' \<and> emits (genuine_msg x ?h) s s'"
    using drive_sender_ok [of x ?h s3] x emits_trans by (auto simp: s')
  with x show thesis by (intro that [of x]) (simp_all add: x_def)
qed

section \<open>Soundness\<close>

lemma state_inv_start:
  assumes "rnet_session_state_begin alloc (at_time t s0) opn slot (Some d) = (True, s)"
    and "speaks mg sid s0" "ss_wire_slot s0 = local_slot (ss_cfg s0)" "ss_wire_slot s0 < 8"
    and "\<And>r. speaks mg sid (R r) \<and> ss_wire_slot (R r) = r \<and> fresh_receiver (ss_wire_slot s0) (R r)"
  obtains x where "state_inv x mg sid s R (set (ss_out s))" "xf_data x = d"
proof -
  obtain x where x: "xfer_ok x" "xf_data x = d" "xf_src x = ss_wire_slot s0"
    "snd_ok x (\<lambda>_. 0) s" "emits (genuine_msg x (\<lambda>_. 0)) (at_time t s0) s"
    using begin_start [OF assms(1)] assms(3,4) by auto
  have h: "held_by x R = (\<lambda>_. 0)"
    using assms(5) x(3) by (auto simp: held_by_def rx_held_def fresh_receiver_def Let_def)
  have "rcv_ok x (R r)" if "r \<noteq> xf_src x" for r
    using assms(5) [of r] x(3) that by (simp add: rcv_ok_def fresh_receiver_def Let_def)
  then have "state_inv x mg sid s R (set (ss_out s))"
    using x emits_new [OF x(5), of mg sid] assms(2,5) by (auto simp: state_inv_def h)
  then show thesis using that x(2) by blast
qed

lemma state_net_inv:
  "state_net alloc mg sid d s R M \<Longrightarrow> \<exists>x. state_inv x mg sid s R M \<and> xf_data x = d"
proof (induction rule: state_net.induct)
  case (start t s0 opn slot s R)
  then show ?case using state_inv_start by metis
next
  case (pump s R M s' t)
  then obtain x where x: "state_inv x mg sid s R M" "xf_data x = d" by blast
  have "snd_ok x (held_by x R) s' \<and> emits (genuine_msg x (held_by x R)) (at_time t s) s'"
    using drive_sender_ok [of x "held_by x R" "at_time t s"] x(1) held_by_le [OF x(1)] pump(2)
    by (simp add: state_inv_def)
  then show ?case using state_inv_sender [OF x(1)] x(2) by blast
next
  case (ack s R M b p s' t)
  then obtain x where x: "state_inv x mg sid s R M" "xf_data x = d" by blast
  obtain m where m: "genuine_msg x (held_by x R) m" "p = msg_packet sid m" "dp_type p = msg_type m"
    using genuine_decoded [OF x(1) ack(2,3)] by blast
  obtain r xid n where "m = StateAck r xid n" using m ack(4) by (cases m) auto
  then have "snd_ok x (held_by x R) s' \<and> emits (genuine_msg x (held_by x R)) (at_time t s) s'"
    using on_ack_ok [of x "held_by x R" "at_time t s" r xid n] x(1) held_by_le [OF x(1)] ack(5) m
    by (simp add: state_inv_def)
  then show ?case using state_inv_sender [OF x(1)] x(2) by blast
next
  case (recv_begin s R M b p r s' t)
  then obtain x where x: "state_inv x mg sid s R M" "xf_data x = d" by blast
  obtain m where m: "genuine_msg x (held_by x R) m" "p = msg_packet sid m" "dp_type p = msg_type m"
    using genuine_decoded [OF x(1) recv_begin(2,3)] by blast
  have r: "r \<noteq> xf_src x" using recv_begin(5) x(1) by (simp add: state_inv_def snd_ok_def)
  then have R: "rcv_ok x (at_time t (R r))" "ss_wire_slot (R r) = r" "xfer_ok x"
    using x(1) by (auto simp: state_inv_def)
  obtain ls opc sl xid tot crc where "m = StateBegin ls opc sl xid tot crc" using m recv_begin(4) by (cases m) auto
  then have "rcv_ok x s' \<and> rx_held (xf_src x) (R r) \<le> rx_held (xf_src x) s' \<and>
      (\<forall>held'. rx_held (xf_src x) s' \<le> held' r \<longrightarrow> emits (genuine_msg x held') (at_time t (R r)) s')"
    using on_begin_ok [OF R(3,1), of "held_by x R" ls opc sl xid tot crc s' alloc sid] R(2) recv_begin(6) m by simp
  then show ?case using state_inv_receiver [OF x(1) r] x(2) by blast
next
  case (recv_chunk s R M b p r s' t)
  then obtain x where x: "state_inv x mg sid s R M" "xf_data x = d" by blast
  obtain m where m: "genuine_msg x (held_by x R) m" "p = msg_packet sid m" "dp_type p = msg_type m"
    using genuine_decoded [OF x(1) recv_chunk(2,3)] by blast
  have r: "r \<noteq> xf_src x" using recv_chunk(5) x(1) by (simp add: state_inv_def snd_ok_def)
  then have R: "rcv_ok x (at_time t (R r))" "ss_wire_slot (R r) = r" "xfer_ok x"
    using x(1) by (auto simp: state_inv_def)
  obtain ls xid off dd where "m = StateChunk ls xid off dd" using m recv_chunk(4) by (cases m) auto
  then have "rcv_ok x s' \<and> rx_held (xf_src x) (R r) \<le> rx_held (xf_src x) s' \<and>
      (\<forall>held'. rx_held (xf_src x) s' \<le> held' r \<longrightarrow> emits (genuine_msg x held') (at_time t (R r)) s')"
    using on_chunk_ok [OF R(3,1), of "held_by x R" ls xid off dd s' sid] R(2) recv_chunk(6) m by simp
  then show ?case using state_inv_receiver [OF x(1) r] x(2) by blast
qed

text \<open>A receiver that holds everything is ready with exactly the sender's bytes.\<close>

lemma rcv_ready:
  assumes "xfer_ok x" "rcv_ok x s" "rx_ready (ss_rx s ! unat (xf_src x)) \<and> rx_active (ss_rx s ! unat (xf_src x))
      \<or> rx_held (xf_src x) s = length (xf_data x)"
  shows "rx_ready (ss_rx s ! unat (xf_src x)) \<and> rx_buf (ss_rx s ! unat (xf_src x)) = Some (xf_data x)"
proof -
  let ?rx = "ss_rx s ! unat (xf_src x)"
  have act: "rx_active ?rx" using assms(1,3) by (auto simp: rx_held_def xfer_ok_def Let_def split: if_splits)
  then have g: "rx_good x ?rx" "rx_ready ?rx \<longleftrightarrow> rx_contiguity ?rx = rx_total ?rx"
    using assms(2) by (auto simp: rcv_ok_def Let_def)
  have "unat (rx_total ?rx) = length (xf_data x)"
    using g(1) xfer_len [OF assms(1)] by (simp add: rx_good_def)
  then have "rx_contiguity ?rx = rx_total ?rx"
    using assms(3) act g(2) by (auto simp: rx_held_def Let_def word_unat_eq_iff)
  then show ?thesis using rx_good_whole [OF assms(1) g(1)] g(2) by simp
qed

text \<open>
  C1. State transfer (save states, boot images, memory cards) is sound on a network that loses, repeats
  and reorders datagrams: once the sender has begun a transfer of \<open>d\<close>, a receiver that reports the
  blob ready holds exactly \<open>d\<close>, and a sender that reports the transfer complete has every seat it
  expects in that state.
\<close>

theorem state_transfer_sound:
  assumes "state_net alloc mg sid d s R M"
  shows "(\<forall>r. r \<noteq> ss_wire_slot s \<longrightarrow> rx_active (ss_rx (R r) ! unat (ss_wire_slot s)) \<longrightarrow>
        rx_ready (ss_rx (R r) ! unat (ss_wire_slot s)) \<longrightarrow>
        rx_buf (ss_rx (R r) ! unat (ss_wire_slot s)) = Some d) \<and>
     (tx_ready (ss_tx s) \<longrightarrow> (\<forall>k < 8. expects (ss_tx s) k \<longrightarrow>
        rx_ready (ss_rx (R (of_nat k)) ! unat (ss_wire_slot s)) \<and>
        rx_buf (ss_rx (R (of_nat k)) ! unat (ss_wire_slot s)) = Some d))"
proof -
  obtain x where x: "state_inv x mg sid s R M" "xf_data x = d" using state_net_inv [OF assms] by blast
  have src: "ss_wire_slot s = xf_src x" using x(1) by (simp add: state_inv_def snd_ok_def)
  have "rx_ready (ss_rx (R (of_nat k)) ! unat (xf_src x)) \<and>
      rx_buf (ss_rx (R (of_nat k)) ! unat (xf_src x)) = Some d"
    if "tx_ready (ss_tx s)" "k < 8" "expects (ss_tx s) k" for k
  proof -
    have "of_nat k \<noteq> xf_src x" "held_by x R (of_nat k) = length d"
      using x that by (auto simp: state_inv_def snd_ok_def Let_def)
    then show ?thesis using rcv_ready [of x "R (of_nat k)"] x by (simp add: held_by_def state_inv_def)
  qed
  moreover have "rx_buf (ss_rx (R r) ! unat (xf_src x)) = Some d"
    if "r \<noteq> xf_src x" "rx_active (ss_rx (R r) ! unat (xf_src x))" "rx_ready (ss_rx (R r) ! unat (xf_src x))" for r
    using rcv_ready [of x "R r"] x that by (simp add: state_inv_def)
  ultimately show ?thesis unfolding src by blast
qed

text \<open>
  A run of two seats: seat 0 sends the one byte 7 to seat 1, the begin and the chunk arrive, the
  acknowledgement comes back. The parts of a session the transfer does not touch are left small.
\<close>

definition no_queue :: "'a RNetQueue" where
  "no_queue = \<lparr>q_slots = [], q_head = 0, q_tail = 0, q_count = 0\<rparr>"

definition small_session :: "u8 \<Rightarrow> RNetSession" where
  "small_session k = \<lparr>ss_profiles = zero_profiles,
     ss_cfg = rnet_config_init_defaults\<lparr>local_slot := k\<rparr>, ss_now = 0, ss_os_now = 0,
     ss_mode = TRANSPORT_LAN_UDP, ss_out = [], ss_phase = PHASE_RUNNING,
     ss_local_ring = \<lparr>ring_slots = []\<rparr>, ss_remote_rings = [], ss_peer_ready = [],
     ss_local_ready = True, ss_start_sent = True, ss_delay = 2, ss_delay_pending = False,
     ss_delay_pending_value = 0, ss_delay_pending_effective = 0, ss_delay_pending_last_tx_ms = 0,
     ss_sim_tick = 0, ss_highest_remote_ack = 0, ss_remote_contiguous_ack = [],
     ss_peer_ack_tick = [], ss_peer_ack_seen = [], ss_last_hello_ms = 0, ss_last_ready_ms = 0,
     ss_last_input_ms = 0, ss_last_input_tip = 0, ss_last_input_tip_valid = False,
     ss_is_sim_authority = (k = 0), ss_is_observer = False, ss_wire_slot = k,
     ss_confirm = \<lparr>cf_published = [], cf_peer = [], cf_last_sent_ms = [], cf_desync = False,
       cf_desync_tick = 0, cf_desync_local_hash = 0, cf_desync_remote_hash = 0\<rparr>,
     ss_live = \<lparr>lv_last_peer_rx_ms = 0, lv_session_start_ms = 0, lv_peer_gone = False,
       lv_peer_rx_ms = [], lv_peer_gone_mask = 0\<rparr>,
     ss_state = init_state, ss_input_send_suppress = False, ss_input_epoch = 0,
     ss_diag = \<lparr>dg_last_stall = ADMIT_OK, dg_consecutive_stalls = 0, dg_admit_ok_count = 0,
       dg_stall_streaks = 0, dg_stall_started_ms = 0, dg_last_admit_wait_ms = 0,
       dg_max_admit_wait_ms = 0, dg_packets_rx = 0, dg_input_bundle_sends = 0, dg_arr_ms = [],
       dg_arr_tick = []\<rparr>,
     ss_ctrl = \<lparr>ct_peer_slot = -1, ct_fc_q = no_queue, ct_sync_q = no_queue, ct_seal_q = no_queue,
       ct_base_q = no_queue, ct_post_q = no_queue, ct_resolved_q = no_queue, ct_sio_q = no_queue,
       ct_last_from = -1, ct_dropped = 0, ct_wire_version_mismatch = 0, ct_modset_text = [],
       ct_modset_pending = False, ct_modset_ack_reason = [], ct_modset_ack_status = [],
       ct_modset_ack_pending = 0\<rparr>\<rparr>"

definition run_sender :: RNetSession where
  "run_sender = snd (rnet_session_state_begin (\<lambda>_. True) (at_time 5 (small_session 0))
     RNET_STATE_OP_SAVE 0 (Some [7]))"

definition run_begin :: rnet_msg where
  "run_begin = StateBegin 0 RNET_STATE_OP_SAVE 0 1 1 (rnet_proto_checksum [7])"

definition run_chunk :: rnet_msg where
  "run_chunk = StateChunk 0 1 0 [7]"

definition run_ack :: rnet_msg where
  "run_ack = StateAck 1 1 1"

text \<open>The same packets without the unused arrays, for evaluation.\<close>

definition small_packet :: RNetDecodedPacket where
  "small_packet = \<lparr>
     dp_type = 0, dp_session_id = 0, dp_local_slot = 0, dp_slot_count = 0, dp_delay = 0,
     dp_wire_version = 0, dp_start_tick = 0, dp_ack_tick = 0, dp_ack_count = 0,
     dp_acks = [], dp_new_delay = 0, dp_effective_tick = 0,
     dp_confirm_sim_tick = 0, dp_confirm_hash = 0, dp_input_epoch = 0, dp_frame_count = 0,
     dp_frames = [],
     dp_state_op = 0, dp_state_slot = 0, dp_state_xfer_id = 0, dp_state_total_size = 0,
     dp_state_payload_crc = 0, dp_state_offset = 0, dp_state_chunk_size = 0,
     dp_state_ack_bytes = 0, dp_state_chunk = [],
     dp_state_probe_match = 0, dp_state_probe_replied = 0,
     dp_rb_epoch_id = 0, dp_rb_mismatch_tick = 0, dp_rb_load_tick = 0, dp_rb_target_tick = 0,
     dp_rb_corrected_slot = 0, dp_rb_initiator = 0, dp_rb_flags = 0, dp_rb_slot = 0,
     dp_rb_row_begin = 0, dp_rb_row_count = 0,
     dp_rb_rows = [],
     dp_rb_digest_master = 0, dp_rb_digest_a = 0, dp_rb_digest_b = 0, dp_rb_digest_c = 0,
     dp_rb_input_digest = 0, dp_rb_match = 0, dp_rb_through_tick = 0, dp_rb_state_hash = 0,
     dp_rb_resolved_through = 0,
     dp_modset_text = [], dp_modset_len = 0,
     dp_modset_status = 0, dp_modset_reason = [],
     dp_sio_unit_id = 0, dp_sio_xfer_seq = 0, dp_sio_send = 0, dp_sio_confirm = 0,
     dp_sio_vblank = 0\<rparr>"

lemma on_begin_reads:
  assumes "dp_local_slot p = dp_local_slot q" "dp_state_op p = dp_state_op q"
    "dp_state_slot p = dp_state_slot q" "dp_state_xfer_id p = dp_state_xfer_id q"
    "dp_state_total_size p = dp_state_total_size q" "dp_state_payload_crc p = dp_state_payload_crc q"
  shows "state_on_begin alloc s p = state_on_begin alloc s q"
  unfolding state_on_begin_def open_receive_def assms ..

lemma on_chunk_reads:
  assumes "dp_local_slot p = dp_local_slot q" "dp_state_xfer_id p = dp_state_xfer_id q"
    "dp_state_offset p = dp_state_offset q" "dp_state_chunk_size p = dp_state_chunk_size q"
    "take (unat (dp_state_chunk_size q)) (dp_state_chunk p) = take (unat (dp_state_chunk_size q)) (dp_state_chunk q)"
  shows "state_on_chunk s p = state_on_chunk s q"
  unfolding state_on_chunk_def reack_finished_def assms ..

lemma on_ack_reads:
  assumes "dp_local_slot p = dp_local_slot q" "dp_state_xfer_id p = dp_state_xfer_id q"
    "dp_state_ack_bytes p = dp_state_ack_bytes q"
  shows "state_on_ack s p = state_on_ack s q"
  unfolding state_on_ack_def assms ..

lemma small_begin:
  "state_on_begin alloc s (msg_packet sid (StateBegin ls opc sl xid tot crc)) =
     state_on_begin alloc s (small_packet\<lparr>dp_local_slot := ls, dp_state_op := opc, dp_state_slot := sl,
       dp_state_xfer_id := xid, dp_state_total_size := tot, dp_state_payload_crc := crc\<rparr>)"
  by (rule on_begin_reads) (simp_all add: msg_packet_def)

lemma small_chunk:
  "length d < 65536 \<Longrightarrow> state_on_chunk s (msg_packet sid (StateChunk ls xid off d)) =
     state_on_chunk s (small_packet\<lparr>dp_local_slot := ls, dp_state_xfer_id := xid, dp_state_offset := off,
       dp_state_chunk_size := of_nat (length d), dp_state_chunk := d\<rparr>)"
  by (rule on_chunk_reads) (simp_all add: msg_packet_def unat_of_nat take_bit_nat_eq_self)

lemma small_ack:
  "state_on_ack s (msg_packet sid (StateAck r xid n)) =
     state_on_ack s (small_packet\<lparr>dp_local_slot := r, dp_state_xfer_id := xid, dp_state_ack_bytes := n\<rparr>)"
  by (rule on_ack_reads) (simp_all add: msg_packet_def)

definition run_opened :: RNetSession where
  "run_opened = state_on_begin (\<lambda>_. True) (at_time 6 (small_session 1)) (msg_packet 1 run_begin)"

definition run_stored :: RNetSession where
  "run_stored = state_on_chunk (at_time 7 run_opened) (msg_packet 1 run_chunk)"

definition run_acked :: RNetSession where
  "run_acked = state_on_ack (at_time 8 run_sender) (msg_packet 1 run_ack)"

definition sends_msg :: "RNetSession \<Rightarrow> nat \<Rightarrow> rnet_msg \<Rightarrow> bool" where
  "sends_msg s k m \<longleftrightarrow> (let bs = ss_out s
     in k < length bs \<and> encode_msg 1200 0x524E4554 1 m = Some (bs ! k))"

text \<open>The sender's side, evaluated once.\<close>

definition run_sender_ok :: bool where
  "run_sender_ok \<longleftrightarrow>
     (case rnet_session_state_begin (\<lambda>_. True) (at_time 5 (small_session 0)) RNET_STATE_OP_SAVE 0 (Some [7]) of
        (ok, s) \<Rightarrow> ok \<and> sends_msg s 0 run_begin \<and> sends_msg s 1 run_chunk \<and> ss_wire_slot s = 0 \<and>
          (let a = state_on_ack (at_time 8 s)
                     (small_packet\<lparr>dp_local_slot := 1, dp_state_xfer_id := 1, dp_state_ack_bytes := 1\<rparr>)
           in tx_ready (ss_tx a) \<and> expects (ss_tx a) 1 \<and> ss_wire_slot a = 0))"

lemma run_sender_ok: "run_sender_ok"
  by code_simp

lemma run_sender_facts:
  "rnet_session_state_begin (\<lambda>_. True) (at_time 5 (small_session 0)) RNET_STATE_OP_SAVE 0 (Some [7]) =
     (True, run_sender)"
  "sends_msg run_sender 0 run_begin" "sends_msg run_sender 1 run_chunk" "ss_wire_slot run_sender = 0"
  "tx_ready (ss_tx run_acked)" "expects (ss_tx run_acked) 1" "ss_wire_slot run_acked = 0"
  using run_sender_ok
  unfolding run_sender_ok_def run_acked_def run_ack_def small_ack run_sender_def
  by (auto simp: Let_def split: prod.splits)

lemma run_stored_sends: "sends_msg run_stored 0 run_ack"
  unfolding run_stored_def run_opened_def run_begin_def run_chunk_def
  by (subst small_chunk, simp, subst small_begin) code_simp

lemma sends_decoded:
  assumes "sends_msg s k m" "msg_ok m"
  shows "ss_out s ! k \<in> set (ss_out s)"
    "rnet_proto_decode (ss_out s ! k) (length (ss_out s ! k)) 0x524E4554 = Decoded (msg_packet 1 m)"
proof -
  have e: "encode_msg 1200 0x524E4554 1 m = Some (ss_out s ! k)" and k: "k < length (ss_out s)"
    using assms(1) by (simp_all add: sends_msg_def Let_def)
  from k show "ss_out s ! k \<in> set (ss_out s)" by simp
  have "rnet_proto_decode (ss_out s ! k @ []) (length (ss_out s ! k)) 0x524E4554 = Decoded (msg_packet 1 m)"
    by (rule encode_decode [OF assms(2) e])
  then show "rnet_proto_decode (ss_out s ! k) (length (ss_out s ! k)) 0x524E4554 = Decoded (msg_packet 1 m)"
    by simp
qed

lemma run_reached:
  "\<exists>M. state_net (\<lambda>_. True) 0x524E4554 1 [7] run_acked (small_session(1 := run_stored)) M"
proof -
  have sp: "speaks 0x524E4554 1 (small_session k) \<and> ss_wire_slot (small_session k) = k \<and>
      local_slot (ss_cfg (small_session k)) = k \<and> fresh_receiver 0 (small_session k)" for k
    by (simp add: speaks_def small_session_def rnet_config_init_defaults_def fresh_receiver_def
        init_state_def zero_rx_def zero_received_def)
  note b = sends_decoded [OF run_sender_facts(2)] and c = sends_decoded [OF run_sender_facts(3)]
    and a = sends_decoded [OF run_stored_sends]
  have ok: "msg_ok run_begin" "msg_ok run_chunk" "msg_ok run_ack"
    by (simp_all add: run_begin_def run_chunk_def run_ack_def)
  have ty: "dp_type (msg_packet 1 run_begin) = RNET_PKT_STATE_BEGIN"
    "dp_type (msg_packet 1 run_chunk) = RNET_PKT_STATE_CHUNK" "dp_type (msg_packet 1 run_ack) = RNET_PKT_STATE_ACK"
    by (simp_all add: msg_packet_def run_begin_def run_chunk_def run_ack_def)
  have 0: "state_net (\<lambda>_. True) 0x524E4554 1 [7] run_sender small_session (set (ss_out run_sender))"
    by (rule state_net.start [OF run_sender_facts(1)]) (use sp in auto)
  have 1: "state_net (\<lambda>_. True) 0x524E4554 1 [7] run_sender (small_session(1 := run_opened))
      (set (ss_out run_sender) \<union> set (ss_out run_opened))"
    by (rule state_net.recv_begin [OF 0 b(1) b(2)])
      (use ok ty run_sender_facts(4) in \<open>auto simp: run_opened_def\<close>)
  have 2: "state_net (\<lambda>_. True) 0x524E4554 1 [7] run_sender (small_session(1 := run_opened, 1 := run_stored))
      (set (ss_out run_sender) \<union> set (ss_out run_opened) \<union> set (ss_out run_stored))"
    by (rule state_net.recv_chunk [OF 1 _ c(2)])
      (use ok ty run_sender_facts(4) c(1) in \<open>auto simp: run_stored_def\<close>)
  have "state_net (\<lambda>_. True) 0x524E4554 1 [7] run_acked (small_session(1 := run_opened, 1 := run_stored))
      (set (ss_out run_sender) \<union> set (ss_out run_opened) \<union> set (ss_out run_stored) \<union> set (ss_out run_acked))"
    by (rule state_net.ack [OF 2 _ a(2)]) (use ok ty a(1) in \<open>auto simp: run_acked_def\<close>)
  then show ?thesis by auto
qed

theorem state_transfer_sound_witness:
  "tx_ready (ss_tx run_acked) \<and> rx_buf (ss_rx run_stored ! 0) = Some [7]"
proof -
  obtain M where net: "state_net (\<lambda>_. True) 0x524E4554 1 [7] run_acked (small_session(1 := run_stored)) M"
    using run_reached by blast
  show ?thesis
    using state_transfer_sound [OF net, THEN conjunct2, rule_format, of 1] run_sender_facts(5-7) by simp
qed

end
