(* ===== verification/RNet_Quorum.thy ===== *)
theory RNet_Quorum
  imports RNet_Interfaces
begin

text \<open>
  The reply quorum of one rollback handshake (\<^verbatim>\<open>src/rollback/rnet_rb_quorum.c\<close>). The seat masks are
  32-bit words. The abstraction \<open>quorum_abs\<close> reads a quorum as a partial map from seats to
  replies; every operation is shown to be the expected operation on that map, and the digest view
  to compare as its header promises.
\<close>

section \<open>The quorum\<close>

record RNetRbQuorum =
  q_expect :: u32
  q_epoch :: u32
  q_seen :: u32
  q_ready :: u32
  q_digest :: "u32 list list"

definition rnet_rb_quorum_reset :: "u32 \<Rightarrow> u32 \<Rightarrow> RNetRbQuorum" where
  "rnet_rb_quorum_reset expect epoch =
     \<lparr>q_expect = expect AND (push_bit 8 1 - 1), q_epoch = epoch, q_seen = 0, q_ready = 0,
      q_digest = replicate 8 (replicate 4 0)\<rparr>"

definition rnet_rb_quorum_note ::
  "RNetRbQuorum \<Rightarrow> int \<Rightarrow> u32 \<Rightarrow> u32 list option \<Rightarrow> u8 \<Rightarrow> RNetRbQuorum option" where
  "rnet_rb_quorum_note q seat epoch digest ready =
     (if epoch \<noteq> q_epoch q \<or> seat < 0 \<or> seat \<ge> 8 then None
      else if q_expect q AND push_bit (nat seat) 1 = 0 then None
      else Some (q\<lparr>q_digest := (q_digest q)[nat seat :=
               (case digest of None \<Rightarrow> replicate 4 0 | Some d \<Rightarrow> map (\<lambda>i. d ! i) [0..<4])],
             q_seen := q_seen q OR push_bit (nat seat) 1,
             q_ready := (if ready \<noteq> 0 then q_ready q OR push_bit (nat seat) 1 else q_ready q)\<rparr>))"

definition rnet_rb_quorum_complete :: "RNetRbQuorum \<Rightarrow> bool" where
  "rnet_rb_quorum_complete q \<longleftrightarrow> q_seen q AND q_expect q = q_expect q"

definition rnet_rb_quorum_all_ready :: "RNetRbQuorum \<Rightarrow> bool" where
  "rnet_rb_quorum_all_ready q \<longleftrightarrow> q_ready q AND q_expect q = q_expect q"

definition rnet_rb_quorum_missing :: "RNetRbQuorum \<Rightarrow> u32" where
  "rnet_rb_quorum_missing q = q_expect q AND NOT (q_seen q)"

definition rnet_rb_quorum_not_ready :: "RNetRbQuorum \<Rightarrow> u32" where
  "rnet_rb_quorum_not_ready q = q_expect q AND NOT (q_ready q)"

definition replied :: "RNetRbQuorum \<Rightarrow> nat \<Rightarrow> bool" where
  "replied q s \<longleftrightarrow> (q_expect q AND q_seen q) AND push_bit s 1 \<noteq> 0"

text \<open>
  The loops of \<open>rnet_rb_quorum_view\<close>: the search for the first reply, the scan of all seats for
  one digest index with the locals \<open>v\<close>, \<open>agree\<close>, \<open>dissent\<close>, and the loop over the indices.
\<close>

fun first_reply :: "RNetRbQuorum \<Rightarrow> nat list \<Rightarrow> nat option" where
  "first_reply q [] = None"
| "first_reply q (s # ss) = (if replied q s then Some s else first_reply q ss)"

fun view_seats :: "RNetRbQuorum \<Rightarrow> u32 list option \<Rightarrow> nat \<Rightarrow> nat \<Rightarrow> nat list \<Rightarrow> u32 \<Rightarrow> bool \<Rightarrow> int
    \<Rightarrow> u32 \<times> bool \<times> int" where
  "view_seats q loc first i [] v agree dissent = (v, agree, dissent)"
| "view_seats q loc first i (s # ss) v agree dissent =
     (if \<not> replied q s then view_seats q loc first i ss v agree dissent
      else
        let d = q_digest q ! s ! i;
            differs = (d \<noteq> q_digest q ! first ! i);
            agree' = (if differs then False else agree);
            dissent' = (if differs \<and> dissent < 0 then int s else dissent);
            v' = (case loc of None \<Rightarrow> v | Some l \<Rightarrow> if d \<noteq> l ! i then d else v)
        in view_seats q loc first i ss v' agree' dissent')"

fun view_digests :: "RNetRbQuorum \<Rightarrow> u32 list option \<Rightarrow> nat \<Rightarrow> nat list \<Rightarrow> int \<Rightarrow> u32 list \<times> int" where
  "view_digests q loc first [] dissent = ([], dissent)"
| "view_digests q loc first (i # is) dissent =
     (let (v, agree, dissent') =
            view_seats q loc first i [0..<8] (q_digest q ! first ! i) True dissent;
          (out, dissent'') = view_digests q loc first is dissent'
      in ((if agree then q_digest q ! first ! i else v) # out, dissent''))"

text \<open>The result: the digests to compare, the dissenting seat, and whether the replies agree.\<close>

definition rnet_rb_quorum_view ::
  "RNetRbQuorum \<Rightarrow> u32 list option \<Rightarrow> u32 list \<times> int \<times> bool" where
  "rnet_rb_quorum_view q loc =
     (case first_reply q [0..<8] of
        None \<Rightarrow> (replicate 4 0, -1, False)
      | Some first \<Rightarrow>
          let (out, dissent) = view_digests q loc first [0..<4] (-1)
          in (out, dissent, dissent < 0))"

fun sole_loop :: "u32 \<Rightarrow> nat list \<Rightarrow> int" where
  "sole_loop expect [] = -1"
| "sole_loop expect (s # ss) =
     (if expect AND push_bit s 1 \<noteq> 0 then int s else sole_loop expect ss)"

definition rnet_rb_quorum_sole_seat :: "u32 \<Rightarrow> int" where
  "rnet_rb_quorum_sole_seat expect =
     (if expect = 0 \<or> expect AND (expect - 1) \<noteq> 0 then -1 else sole_loop expect [0..<8])"

section \<open>A quorum as a map from seats to replies\<close>

definition quorum_inv :: "RNetRbQuorum \<Rightarrow> bool" where
  "quorum_inv q \<longleftrightarrow> length (q_digest q) = 8 \<and> (\<forall>r \<in> set (q_digest q). length r = 4) \<and>
     (\<forall>s \<ge> 8. \<not> bit (q_expect q) s) \<and>
     (\<forall>s. bit (q_ready q) s \<longrightarrow> bit (q_seen q) s) \<and> (\<forall>s. bit (q_seen q) s \<longrightarrow> bit (q_expect q) s)"

definition quorum_abs :: "RNetRbQuorum \<Rightarrow> nat \<rightharpoonup> u32 list \<times> bool" where
  "quorum_abs q s = (if bit (q_seen q) s then Some (q_digest q ! s, bit (q_ready q) s) else None)"

lemma quorum_inv_reset: "quorum_inv (rnet_rb_quorum_reset expect epoch)"
  by (simp add: quorum_inv_def rnet_rb_quorum_reset_def)

lemma quorum_abs_reset [simp]: "quorum_abs (rnet_rb_quorum_reset expect epoch) = Map.empty"
  by (simp add: quorum_abs_def rnet_rb_quorum_reset_def fun_eq_iff)

lemma note_Some:
  assumes "rnet_rb_quorum_note q seat epoch digest ready = Some q'"
  shows "epoch = q_epoch q" "0 \<le> seat" "seat < 8" "bit (q_expect q) (nat seat)"
  using assms by (auto simp: rnet_rb_quorum_note_def split: if_splits)

lemma quorum_inv_note:
  assumes "quorum_inv q" "rnet_rb_quorum_note q seat epoch digest ready = Some q'"
  shows "quorum_inv q'"
proof -
  note s = note_Some [OF assms(2)]
  from assms(2) have q': "q' = q\<lparr>q_digest := (q_digest q)[nat seat :=
       (case digest of None \<Rightarrow> replicate 4 0 | Some d \<Rightarrow> map (\<lambda>i. d ! i) [0..<4])],
     q_seen := q_seen q OR push_bit (nat seat) 1,
     q_ready := (if ready \<noteq> 0 then q_ready q OR push_bit (nat seat) 1 else q_ready q)\<rparr>"
    by (auto simp: rnet_rb_quorum_note_def split: if_splits)
  show ?thesis
    using assms(1) s unfolding q' quorum_inv_def
    by (auto dest!: subsetD [OF set_update_subset_insert] split: option.splits)
qed

lemma quorum_length [simp]:
  "quorum_inv q \<Longrightarrow> length (q_digest q) = 8"
  "quorum_inv q \<Longrightarrow> s < 8 \<Longrightarrow> length (q_digest q ! s) = 4"
  by (auto simp: quorum_inv_def)

lemma replied_iff: "quorum_inv q \<Longrightarrow> replied q s \<longleftrightarrow> s \<in> dom (quorum_abs q)"
  by (auto simp: replied_def quorum_inv_def quorum_abs_def bit_and_iff split: if_splits)

lemma replied_less: "quorum_inv q \<Longrightarrow> replied q s \<Longrightarrow> s < 8"
  by (rule ccontr) (auto simp: replied_def quorum_inv_def bit_and_iff)

text \<open>What a note does to the map of replies.\<close>

definition note_spec ::
  "u32 \<Rightarrow> u32 \<Rightarrow> (nat \<rightharpoonup> u32 list \<times> bool) \<Rightarrow> int \<Rightarrow> u32 \<Rightarrow> u32 list \<Rightarrow> bool \<Rightarrow> (nat \<rightharpoonup> u32 list \<times> bool) option"
  where
  "note_spec expect epoch m seat ep d ready =
     (if ep = epoch \<and> 0 \<le> seat \<and> bit expect (nat seat)
      then Some (m(nat seat \<mapsto> (d, ready \<or> (case m (nat seat) of None \<Rightarrow> False | Some (_, r) \<Rightarrow> r))))
      else None)"

lemma map_nth_4: "length d = 4 \<Longrightarrow> map (\<lambda>i. d ! i) [0..<4] = d"
  using map_nth [of d] by simp

lemma note_refines:
  assumes "quorum_inv q" "length d = 4"
  shows "map_option quorum_abs (rnet_rb_quorum_note q seat ep (Some d) ready) =
     note_spec (q_expect q) (q_epoch q) (quorum_abs q) seat ep d (ready \<noteq> 0)"
proof (cases "ep = q_epoch q \<and> 0 \<le> seat \<and> bit (q_expect q) (nat seat)")
  case True
  with assms(1) have "\<not> 8 \<le> nat seat" unfolding quorum_inv_def by blast
  then have s: "nat seat < 8" "seat < 8" "nat seat < 32" by auto
  have rs: "bit (q_ready q) t \<Longrightarrow> bit (q_seen q) t" for t using assms(1) by (simp add: quorum_inv_def)
  from True s assms rs show ?thesis
    by (auto simp: rnet_rb_quorum_note_def note_spec_def quorum_abs_def fun_eq_iff map_nth_4
          split: option.splits)
next
  case False
  then show ?thesis
    by (auto simp: rnet_rb_quorum_note_def note_spec_def)
qed

text \<open>
  C18. A quorum is the map from seats to replies its header describes: it starts empty; a reply
  is recorded exactly when it is for the current epoch and from an expected seat, replaces that
  seat's earlier digests, latches its ready flag and changes nothing for any other seat; the
  quorum is complete, or ready, exactly when every expected seat has replied, or set ready, and
  the missing masks name exactly the seats that have not.
\<close>

theorem quorum_refines_map:
  assumes "quorum_inv q" and "length d = 4"
  shows "quorum_abs (rnet_rb_quorum_reset expect epoch) = Map.empty \<and>
     map_option quorum_abs (rnet_rb_quorum_note q seat ep (Some d) ready) =
       note_spec (q_expect q) (q_epoch q) (quorum_abs q) seat ep d (ready \<noteq> 0) \<and>
     rnet_rb_quorum_complete q = ({s. bit (q_expect q) s} \<subseteq> dom (quorum_abs q)) \<and>
     rnet_rb_quorum_all_ready q =
       ({s. bit (q_expect q) s} \<subseteq> {s. \<exists>r. quorum_abs q s = Some (r, True)}) \<and>
     {s. bit (rnet_rb_quorum_missing q) s} = {s. bit (q_expect q) s} - dom (quorum_abs q) \<and>
     {s. bit (rnet_rb_quorum_not_ready q) s} =
       {s. bit (q_expect q) s} - {s. \<exists>r. quorum_abs q s = Some (r, True)}"
proof -
  have rs: "bit (q_ready q) t \<Longrightarrow> bit (q_seen q) t" for t using assms(1) by (simp add: quorum_inv_def)
  show ?thesis
    using note_refines [OF assms] rs
    by (auto simp: quorum_abs_def rnet_rb_quorum_reset_def rnet_rb_quorum_complete_def mask_contains
          rnet_rb_quorum_all_ready_def rnet_rb_quorum_missing_def rnet_rb_quorum_not_ready_def
          fun_eq_iff bit_and_iff bit_not_iff dest: bit_imp_le_length split: if_splits)
qed

lemma reset_fields:
  "q_expect (rnet_rb_quorum_reset 6 3) = 6" "q_epoch (rnet_rb_quorum_reset 6 3) = 3"
  by (simp_all add: rnet_rb_quorum_reset_def)

theorem quorum_refines_map_witness:
  "quorum_inv (rnet_rb_quorum_reset 6 3) \<and>
   map_option quorum_abs (rnet_rb_quorum_note (rnet_rb_quorum_reset 6 3) 2 3 (Some [1, 2, 3, 4]) 1) =
     note_spec 6 3 Map.empty 2 3 [1, 2, 3, 4] True"
proof -
  have l: "length [1, 2, 3, 4 :: u32] = 4" by simp
  from quorum_refines_map [OF quorum_inv_reset l, of _ _ 6 3 2 3 1] quorum_refines_map
      [OF quorum_inv_reset l, of 6 3 6 3 2 3 1] quorum_inv_reset [of 6 3]
  show ?thesis unfolding reset_fields by simp
qed

section \<open>Comparing digests\<close>

abbreviation seat_digest :: "RNetRbQuorum \<Rightarrow> nat \<Rightarrow> nat \<Rightarrow> u32" where
  "seat_digest q s i \<equiv> q_digest q ! s ! i"

lemma view_seats_agree:
  "fst (snd (view_seats q loc first i ss v agree dissent)) \<longleftrightarrow>
     agree \<and> (\<forall>s \<in> set ss. replied q s \<longrightarrow> seat_digest q s i = seat_digest q first i)"
  by (induction ss arbitrary: v agree dissent) (auto simp: Let_def)

lemma view_seats_dissent:
  "snd (snd (view_seats q loc first i ss v agree dissent)) =
     (if 0 \<le> dissent then dissent
      else case filter (\<lambda>s. replied q s \<and> seat_digest q s i \<noteq> seat_digest q first i) ss of
             [] \<Rightarrow> dissent | s # _ \<Rightarrow> int s)"
  by (induction ss arbitrary: v agree dissent) (auto simp: Let_def)

lemma view_seats_value:
  "fst (view_seats q (Some l) first i ss v agree dissent) = l ! i \<longleftrightarrow>
     v = l ! i \<and> (\<forall>s \<in> set ss. replied q s \<longrightarrow> seat_digest q s i = l ! i)"
  by (induction ss arbitrary: v agree dissent) (auto simp: Let_def)

lemma first_reply_Some: "first_reply q ss = Some s \<Longrightarrow> s \<in> set ss \<and> replied q s"
  by (induction ss) (auto split: if_splits)

lemma first_reply_None: "first_reply q ss = None \<longleftrightarrow> (\<forall>s \<in> set ss. \<not> replied q s)"
  by (induction ss) auto

definition view_digest :: "RNetRbQuorum \<Rightarrow> u32 list option \<Rightarrow> nat \<Rightarrow> nat \<Rightarrow> u32" where
  "view_digest q loc first i =
     (let (v, agree, _) = view_seats q loc first i [0..<8] (seat_digest q first i) True (-1)
      in if agree then seat_digest q first i else v)"

lemma view_seats_independent:
  "fst (view_seats q loc first i ss v agree dissent) = fst (view_seats q loc first i ss v agree' dissent')"
  by (induction ss arbitrary: v agree dissent agree' dissent') (auto simp: Let_def)

lemma view_digests_map: "fst (view_digests q loc first is dissent) = map (view_digest q loc first) is"
proof (induction "is" arbitrary: dissent)
  case (Cons i "is")
  let ?r = "\<lambda>d. view_seats q loc first i [0..<8] (seat_digest q first i) True d"
  have "fst (?r dissent) = fst (?r (-1))" by (rule view_seats_independent)
  moreover have "fst (snd (?r dissent)) = fst (snd (?r (-1)))" by (simp only: view_seats_agree)
  ultimately show ?case
    using Cons.IH by (simp add: view_digest_def case_prod_unfold Let_def)
qed simp

lemma view_digests_keep: "0 \<le> dissent \<Longrightarrow> snd (view_digests q loc first is dissent) = dissent"
proof (induction "is" arbitrary: dissent)
  case (Cons i "is")
  then show ?case
    using view_seats_dissent [of q loc first i "[0..<8]" "seat_digest q first i" True dissent]
    by (simp add: case_prod_unfold Let_def)
qed simp

lemma view_digests_dissent:
  assumes "dissent < 0"
  shows "if snd (view_digests q loc first is dissent) < 0
     then snd (view_digests q loc first is dissent) = dissent \<and>
       (\<forall>i \<in> set is. \<forall>s < 8. replied q s \<longrightarrow> seat_digest q s i = seat_digest q first i)
     else \<exists>i \<in> set is. \<exists>s < 8. snd (view_digests q loc first is dissent) = int s \<and> replied q s \<and>
       seat_digest q s i \<noteq> seat_digest q first i"
  using assms
proof (induction "is" arbitrary: dissent)
  case (Cons i "is")
  let ?bad = "filter (\<lambda>s. replied q s \<and> seat_digest q s i \<noteq> seat_digest q first i) [0..<8]"
  let ?d = "snd (snd (view_seats q loc first i [0..<8] (seat_digest q first i) True dissent))"
  have d: "?d = (case ?bad of [] \<Rightarrow> dissent | s # _ \<Rightarrow> int s)"
    using Cons.prems by (simp only: view_seats_dissent) simp
  have step: "snd (view_digests q loc first (i # is) dissent) = snd (view_digests q loc first is ?d)"
    by (simp add: case_prod_unfold Let_def)
  show ?case
  proof (cases ?bad)
    case Nil
    then have "\<forall>s < 8. replied q s \<longrightarrow> seat_digest q s i = seat_digest q first i"
      by (auto simp: filter_empty_conv)
    moreover have "?d = dissent" using d Nil by simp
    ultimately show ?thesis using Cons.IH [OF Cons.prems] step by (auto split: if_splits)
  next
    case (Cons s ss)
    then have "s \<in> set ?bad" by (metis list.set_intros(1))
    then have "s < 8 \<and> replied q s \<and> seat_digest q s i \<noteq> seat_digest q first i" by simp
    moreover have "snd (view_digests q loc first (i # is) dissent) = int s"
      using d Cons step by (simp add: view_digests_keep)
    ultimately show ?thesis by auto
  qed
qed simp

lemma view_digest_local:
  assumes "replied q first" "first < 8"
  shows "view_digest q (Some l) first i = l ! i \<longleftrightarrow>
     (\<forall>s < 8. replied q s \<longrightarrow> seat_digest q s i = l ! i)"
proof -
  let ?r = "view_seats q (Some l) first i [0..<8] (seat_digest q first i) True (-1)"
  let ?same = "\<forall>s < 8. replied q s \<longrightarrow> seat_digest q s i = seat_digest q first i"
  have "fst (snd ?r) \<longleftrightarrow> ?same"
    unfolding view_seats_agree set_upt atLeastLessThan_iff Ball_def by blast
  then have v: "view_digest q (Some l) first i = (if ?same then seat_digest q first i else fst ?r)"
    by (simp only: view_digest_def case_prod_unfold Let_def)
  have r: "fst ?r = l ! i \<longleftrightarrow> seat_digest q first i = l ! i \<and>
      (\<forall>s < 8. replied q s \<longrightarrow> seat_digest q s i = l ! i)"
    unfolding view_seats_value set_upt atLeastLessThan_iff Ball_def by blast
  show ?thesis
  proof (cases ?same)
    case True
    then show ?thesis unfolding v using assms by metis
  next
    case False
    then have "view_digest q (Some l) first i = fst ?r" unfolding v by (rule if_not_P)
    with r assms show ?thesis by metis
  qed
qed

lemma digest_eq_iff:
  "quorum_inv q \<Longrightarrow> s < 8 \<Longrightarrow> length l = 4 \<Longrightarrow> q_digest q ! s = l \<longleftrightarrow> (\<forall>i < 4. seat_digest q s i = l ! i)"
  by (auto simp: list_eq_iff_nth_eq)

lemma quorum_abs_digests:
  assumes "quorum_inv q"
  shows "fst ` ran (quorum_abs q) = (\<lambda>s. q_digest q ! s) ` {s. replied q s}"
proof (intro set_eqI iffI)
  fix d assume "d \<in> fst ` ran (quorum_abs q)"
  then obtain s r where "quorum_abs q s = Some (d, r)" by (auto simp: ran_def)
  then have "d = q_digest q ! s" "replied q s"
    using replied_iff [OF assms, of s] by (auto simp: quorum_abs_def split: if_splits)
  then show "d \<in> (\<lambda>s. q_digest q ! s) ` {s. replied q s}" by blast
next
  fix d assume "d \<in> (\<lambda>s. q_digest q ! s) ` {s. replied q s}"
  then obtain s where "replied q s" "d = q_digest q ! s" by auto
  then have "quorum_abs q s = Some (d, bit (q_ready q) s)"
    using replied_iff [OF assms, of s] by (auto simp: quorum_abs_def split: if_splits)
  then show "d \<in> fst ` ran (quorum_abs q)" by (force simp: ran_def)
qed

text \<open>
  C19. The digest view is safe to compare: once a seat has replied, the returned digests equal the
  local ones exactly when every reply equals the local digests, so a comparison fails whenever
  any seat disagrees with us or with another seat; the result flag is set exactly when all
  replies are the same, and otherwise the reported seat has replied and differs from another.
\<close>

theorem quorum_view_comparison:
  assumes "quorum_inv q" and "length l = 4" and "dom (quorum_abs q) \<noteq> {}"
    and "rnet_rb_quorum_view q (Some l) = (out, seat, agree)"
  shows "(out = l \<longleftrightarrow> (\<forall>(d, r) \<in> ran (quorum_abs q). d = l)) \<and>
     (agree \<longleftrightarrow> (\<exists>d. fst ` ran (quorum_abs q) = {d})) \<and>
     (if agree then seat = -1 else 0 \<le> seat \<and> (\<exists>d d' r. quorum_abs q (nat seat) = Some (d, r) \<and>
        d' \<in> fst ` ran (quorum_abs q) \<and> d \<noteq> d'))"
proof -
  note ran = quorum_abs_digests [OF assms(1)] and rep = replied_less [OF assms(1)]
  from assms(3) obtain s0 where "replied q s0" using replied_iff [OF assms(1)] by blast
  then have "first_reply q [0..<8] \<noteq> None"
    using rep [of s0] by (auto simp only: first_reply_None set_upt atLeastLessThan_iff)
  then obtain first where f: "first_reply q [0..<8] = Some first" by blast
  from first_reply_Some [OF f] have first: "replied q first" "first < 8" by auto
  let ?r = "view_digests q (Some l) first [0..<4] (-1)"
  have res: "out = map (view_digest q (Some l) first) [0..<4]" "seat = snd ?r" "agree \<longleftrightarrow> snd ?r < 0"
    using assms(4) view_digests_map [of q "Some l" first "[0..<4]" "-1"]
    unfolding rnet_rb_quorum_view_def f by (auto simp only: option.case case_prod_unfold Let_def prod.inject)
  have len: "length (q_digest q ! s) = 4" if "replied q s" for s
    using that rep assms(1) by simp
  have eq: "q_digest q ! s = q_digest q ! first \<longleftrightarrow>
      (\<forall>i < 4. seat_digest q s i = seat_digest q first i)" if "replied q s" for s
    using digest_eq_iff [OF assms(1) rep [OF that] len [OF first(1)]] .
  have "out = l \<longleftrightarrow> (\<forall>i < 4. view_digest q (Some l) first i = l ! i)"
    unfolding res(1) using assms(2) by (simp add: list_eq_iff_nth_eq)
  also have "\<dots> \<longleftrightarrow> (\<forall>s. replied q s \<longrightarrow> q_digest q ! s = l)"
  proof -
    have "q_digest q ! s = l \<longleftrightarrow> (\<forall>i < 4. seat_digest q s i = l ! i)" if "replied q s" for s
      by (rule digest_eq_iff [OF assms(1) rep [OF that] assms(2)])
    then show ?thesis unfolding view_digest_local [OF first] using rep by blast
  qed
  finally have 1: "out = l \<longleftrightarrow> (\<forall>d \<in> fst ` ran (quorum_abs q). d = l)" unfolding ran by auto
  note D = view_digests_dissent [of "-1" q "Some l" first "[0..<4]"]
  have split: "(agree \<and> seat = -1 \<and> (\<forall>i < 4. \<forall>s < 8. replied q s \<longrightarrow>
        seat_digest q s i = seat_digest q first i)) \<or>
      (\<not> agree \<and> (\<exists>i < 4. \<exists>s. seat = int s \<and> replied q s \<and>
        seat_digest q s i \<noteq> seat_digest q first i))"
  proof (cases "snd ?r < 0")
    case True
    with D show ?thesis unfolding res(2,3) by simp
  next
    case False
    with D obtain i s where "i < 4" "snd ?r = int s" "replied q s"
      "seat_digest q s i \<noteq> seat_digest q first i"
      by auto
    with False show ?thesis unfolding res(2,3) by blast
  qed
  have all: "agree \<longleftrightarrow> (\<forall>s. replied q s \<longrightarrow> q_digest q ! s = q_digest q ! first)"
  proof
    assume agree
    then have "\<forall>i < 4. \<forall>s < 8. replied q s \<longrightarrow> seat_digest q s i = seat_digest q first i"
      using split by blast
    then show "\<forall>s. replied q s \<longrightarrow> q_digest q ! s = q_digest q ! first" using eq rep by blast
  next
    assume "\<forall>s. replied q s \<longrightarrow> q_digest q ! s = q_digest q ! first"
    then show agree using split by metis
  qed
  have 2: "agree \<longleftrightarrow> (\<exists>d. fst ` ran (quorum_abs q) = {d})"
  proof
    assume agree
    then have "\<And>s. replied q s \<Longrightarrow> q_digest q ! s \<in> {q_digest q ! first}" unfolding all by blast
    with first(1) have "fst ` ran (quorum_abs q) = {q_digest q ! first}" unfolding ran by blast
    then show "\<exists>d. fst ` ran (quorum_abs q) = {d}" ..
  next
    assume "\<exists>d. fst ` ran (quorum_abs q) = {d}"
    then obtain d where "(\<lambda>s. q_digest q ! s) ` {s. replied q s} = {d}" unfolding ran ..
    then have "\<And>s. replied q s \<Longrightarrow> q_digest q ! s = d" by blast
    with first(1) show agree unfolding all by metis
  qed
  have 4: "0 \<le> seat \<and> (\<exists>d d' r. quorum_abs q (nat seat) = Some (d, r) \<and>
        d' \<in> fst ` ran (quorum_abs q) \<and> d \<noteq> d')" if "\<not> agree"
  proof -
    from that split obtain i s where
      s: "seat = int s" "replied q s" "seat_digest q s i \<noteq> seat_digest q first i"
      by blast
    then have "quorum_abs q s = Some (q_digest q ! s, bit (q_ready q) s)"
      using replied_iff [OF assms(1), of s] by (auto simp: quorum_abs_def split: if_splits)
    moreover have "q_digest q ! first \<in> fst ` ran (quorum_abs q)" unfolding ran using first(1) by blast
    moreover have "q_digest q ! s \<noteq> q_digest q ! first" using s(3) by metis
    ultimately show ?thesis unfolding s(1) nat_int by (intro conjI, simp, blast)
  qed
  have pairs: "(\<forall>d \<in> fst ` ran (quorum_abs q). d = l) = (\<forall>(d, r) \<in> ran (quorum_abs q). d = l)"
    by auto
  show ?thesis
  proof (intro conjI)
    show "out = l \<longleftrightarrow> (\<forall>(d, r) \<in> ran (quorum_abs q). d = l)" using 1 unfolding pairs .
    show "agree \<longleftrightarrow> (\<exists>d. fst ` ran (quorum_abs q) = {d})" by (rule 2)
    show "if agree then seat = -1 else 0 \<le> seat \<and> (\<exists>d d' r. quorum_abs q (nat seat) = Some (d, r) \<and>
        d' \<in> fst ` ran (quorum_abs q) \<and> d \<noteq> d')"
      using split 4 by (cases agree) simp_all
  qed
qed

theorem quorum_view_comparison_witness:
  "\<exists>q out seat agree. rnet_rb_quorum_note (rnet_rb_quorum_reset 6 3) 2 3 (Some [1, 2, 3, 4]) 1 = Some q \<and>
     rnet_rb_quorum_view q (Some [1, 2, 3, 5]) = (out, seat, agree) \<and> out \<noteq> [1, 2, 3, 5] \<and> agree"
proof -
  obtain q where q: "rnet_rb_quorum_note (rnet_rb_quorum_reset 6 3) 2 3 (Some [1, 2, 3, 4]) 1 = Some q"
    by (simp add: rnet_rb_quorum_note_def rnet_rb_quorum_reset_def)
  obtain out seat agree where v: "rnet_rb_quorum_view q (Some [1, 2, 3, 5]) = (out, seat, agree)"
    by (metis prod_cases3)
  have inv: "quorum_inv q" by (rule quorum_inv_note [OF quorum_inv_reset q])
  have abs: "quorum_abs q = [2 \<mapsto> ([1, 2, 3, 4], True)]"
    using note_refines [OF quorum_inv_reset, of "[1, 2, 3, 4]" 6 3 2 3 1] q
    by (simp add: note_spec_def reset_fields)
  have l: "length [1, 2, 3, 5 :: u32] = 4" by simp
  have d: "dom (quorum_abs q) \<noteq> {}" by (simp add: abs)
  have ran: "ran (quorum_abs q) = {([1, 2, 3, 4], True)}" by (simp add: abs)
  from quorum_view_comparison [OF inv l d v] have "out \<noteq> [1, 2, 3, 5] \<and> agree"
    unfolding ran by simp
  with q v show ?thesis by blast
qed

section \<open>The sole seat of a mask\<close>

lemma pred_keeps_high_bit:
  fixes x :: u32
  assumes "bit x m" "m < n" "bit x n"
  shows "bit (x - 1) n"
proof -
  let ?X = "unat x"
  have "bit (take_bit n ?X) m" using assms by (simp add: bit_take_bit_iff bit_unsigned_iff)
  then have "take_bit n ?X \<noteq> 0" by (intro notI) simp
  then have r: "?X mod 2 ^ n \<noteq> 0" unfolding take_bit_eq_mod .
  have "x \<noteq> 0" using assms(1) by auto
  then have X1: "unat (x - 1) = ?X - 1" by (simp add: unat_minus_one)
  define p :: nat where "p = 2 ^ n"
  have p: "0 < p" by (simp add: p_def)
  obtain k where k: "?X mod p = Suc k" using r not0_implies_Suc unfolding p_def by blast
  then have "Suc k < p" using mod_less_divisor [OF p, of ?X] by simp
  moreover have "?X - 1 = k + p * (?X div p)" using mult_div_mod_eq [of p ?X] k by simp
  ultimately have "(?X - 1) div p = ?X div p" by simp
  then have "(?X - 1) div 2 ^ n = ?X div 2 ^ n" unfolding p_def .
  then have "bit (unat (x - 1)) n = bit ?X n" unfolding X1 by (simp only: bit_iff_odd)
  moreover have "n < 32" using bit_imp_le_length [OF assms(3)] by simp
  ultimately show ?thesis using assms(3) by (simp add: bit_unsigned_iff)
qed

lemma one_bit:
  fixes x :: u32
  assumes "x AND (x - 1) = 0" "bit x m" "bit x n"
  shows "m = n"
proof (rule ccontr)
  assume "m \<noteq> n"
  then consider "m < n" | "n < m" by linarith
  then have "\<exists>k. bit x k \<and> bit (x - 1) k"
    using assms pred_keeps_high_bit [of x m n] pred_keeps_high_bit [of x n m] by cases blast+
  then obtain k where "bit (x AND (x - 1)) k" by (auto simp: bit_and_iff)
  with assms(1) show False by simp
qed

lemma sole_loop_find:
  "sole_loop e ss = (case filter (bit e) ss of [] \<Rightarrow> -1 | s # _ \<Rightarrow> int s)"
  by (induction ss) auto

text \<open>
  The sole seat of a mask: the function returns a seat exactly when the mask is the single
  bit of that seat and the seat exists; for every other mask, empty, with several bits or with a
  bit beyond the eight seats, it returns -1.
\<close>

theorem sole_seat_iff:
  "(rnet_rb_quorum_sole_seat e = int s \<longleftrightarrow> s < 8 \<and> e = 2 ^ s) \<and>
   (rnet_rb_quorum_sole_seat e = -1 \<longleftrightarrow> e \<notin> (\<lambda>k. 2 ^ k) ` {..<8})"
proof -
  have found: "rnet_rb_quorum_sole_seat e = int k \<Longrightarrow> k < 8 \<and> e = 2 ^ k" for k
  proof -
    assume h: "rnet_rb_quorum_sole_seat e = int k"
    then have e: "e AND (e - 1) = 0" and loop: "sole_loop e [0..<8] = int k"
      by (auto simp: rnet_rb_quorum_sole_seat_def split: if_splits)
    from loop have "k \<in> set (filter (bit e) [0..<8])"
      unfolding sole_loop_find by (cases "filter (bit e) [0..<8]") auto
    then have k: "k < 8" "bit e k" by auto
    have only: "bit e n \<longleftrightarrow> n = k" for n using one_bit [OF e _ k(2), of n] k(2) by blast
    have "e = 2 ^ k" by (rule bit_word_eqI) (auto simp: only bit_exp_iff)
    with k show ?thesis by simp
  qed
  have "list_all (\<lambda>k. rnet_rb_quorum_sole_seat (2 ^ k) = int k) [0..<8]" by code_simp
  then have single: "rnet_rb_quorum_sole_seat (2 ^ k) = int k" if "k < 8" for k
    using that by (simp only: list_all_iff set_upt atLeastLessThan_iff Ball_def) blast
  have range: "rnet_rb_quorum_sole_seat e = -1 \<or> (\<exists>k. rnet_rb_quorum_sole_seat e = int k)"
    by (auto simp: rnet_rb_quorum_sole_seat_def sole_loop_find split: list.splits)
  show ?thesis
  proof (rule conjI; rule iffI)
    show "s < 8 \<and> e = 2 ^ s" if "rnet_rb_quorum_sole_seat e = int s" by (rule found [OF that])
    show "rnet_rb_quorum_sole_seat e = int s" if "s < 8 \<and> e = 2 ^ s" using that single by blast
    show "e \<notin> (\<lambda>k. 2 ^ k) ` {..<8}" if "rnet_rb_quorum_sole_seat e = -1"
    proof
      assume "e \<in> (\<lambda>k. 2 ^ k) ` {..<8}"
      then obtain k where "k < 8" "e = 2 ^ k" by blast
      with single [of k] that show False by simp
    qed
    show "rnet_rb_quorum_sole_seat e = -1" if "e \<notin> (\<lambda>k. 2 ^ k) ` {..<8}"
      using that range found by blast
  qed
qed

end
