(* ===== verification/RNet_Hash_Confirm.thy ===== *)
theory RNet_Hash_Confirm
  imports RNet_Interfaces
begin

text \<open>
  Confirmation of simulated ticks by exchanged state digests
  (\<^verbatim>\<open>src/rollback/rnet_hash_confirm.c\<close>). The arrays of the struct are lists of 128 entries; the flag
  arrays, which only ever hold 0 and 1, are lists of booleans. The local digest ring is a
  \<open>tick_ring\<close>. The invariant ties the peer digest of a tick to the commits of all masked seats,
  which is what makes the watermark sound.
\<close>

section \<open>State and lookups\<close>

record RNetHashConfirm =
  local_tick :: "u32 list"
  local_digest :: "u32 list"
  local_valid :: "bool list"
  peer_tick :: "u32 list"
  peer_digest :: "u32 list"
  peer_valid :: "bool list"
  resolved_through :: u32
  resolved_valid :: bool
  peer_mask :: u32
  quorum_tick :: "u32 list"
  quorum_seen :: "u8 list"
  quorum_conflict :: "bool list"
  quorum_digest :: "u32 list list"

definition hc_zero :: "u32 \<Rightarrow> RNetHashConfirm" where
  "hc_zero pmask =
     \<lparr>local_tick = replicate 128 0, local_digest = replicate 128 0, local_valid = replicate 128 False,
      peer_tick = replicate 128 0, peer_digest = replicate 128 0, peer_valid = replicate 128 False,
      resolved_through = 0, resolved_valid = False, peer_mask = pmask,
      quorum_tick = replicate 128 0, quorum_seen = replicate 128 0,
      quorum_conflict = replicate 128 False, quorum_digest = replicate 128 (replicate 8 0)\<rparr>"

definition rnet_hc_reset :: "RNetHashConfirm \<Rightarrow> RNetHashConfirm" where
  "rnet_hc_reset hc = hc_zero (peer_mask hc)"

definition rnet_hc_prime_after :: "RNetHashConfirm \<Rightarrow> u32 \<Rightarrow> RNetHashConfirm" where
  "rnet_hc_prime_after hc last_ok =
     (rnet_hc_reset hc)\<lparr>resolved_through := last_ok, resolved_valid := True\<rparr>"

definition local_at :: "RNetHashConfirm \<Rightarrow> u32 \<Rightarrow> u32 option" where
  "local_at hc tick = (let i = ring_slot tick in
     if \<not> local_valid hc ! i \<or> local_tick hc ! i \<noteq> tick then None else Some (local_digest hc ! i))"

definition peer_at :: "RNetHashConfirm \<Rightarrow> u32 \<Rightarrow> u32 option" where
  "peer_at hc tick = (let i = ring_slot tick in
     if \<not> peer_valid hc ! i \<or> peer_tick hc ! i \<noteq> tick then None else Some (peer_digest hc ! i))"

text \<open>The tick after the watermark; \<open>None\<close> when the watermark is the last 32-bit tick.\<close>

definition next_tick :: "RNetHashConfirm \<Rightarrow> u32 option" where
  "next_tick hc =
     (if \<not> resolved_valid hc then Some 0
      else if resolved_through hc = 0xffffffff then None
      else Some (resolved_through hc + 1))"

definition matched :: "RNetHashConfirm \<Rightarrow> u32 \<Rightarrow> bool" where
  "matched hc t \<longleftrightarrow> local_at hc t \<noteq> None \<and> peer_at hc t = local_at hc t \<and>
     \<not> quorum_conflict hc ! ring_slot t"

lemma max_u32: "(r :: u32) \<noteq> 0xffffffff \<Longrightarrow> unat (r + 1) = Suc (unat r)"
proof -
  assume h: "r \<noteq> 0xffffffff"
  have "r + 1 \<noteq> 0"
  proof
    assume "r + 1 = 0"
    then have "r = - 1" by (simp add: add_eq_0_iff2)
    with h show False by simp
  qed
  then show ?thesis by (metis add.commute unatSuc)
qed

section \<open>Advancing the watermark\<close>

function try_advance :: "RNetHashConfirm \<Rightarrow> RNetHashConfirm" where
  "try_advance hc =
     (case next_tick hc of
        None \<Rightarrow> hc
      | Some nxt \<Rightarrow>
          (case local_at hc nxt of
             None \<Rightarrow> hc
           | Some ld \<Rightarrow>
               (case peer_at hc nxt of
                  None \<Rightarrow> hc
                | Some pd \<Rightarrow>
                    if ld \<noteq> pd \<or> quorum_conflict hc ! ring_slot nxt then hc
                    else try_advance (hc\<lparr>resolved_through := nxt, resolved_valid := True\<rparr>))))"
  by pat_completeness auto

definition advance_measure :: "RNetHashConfirm \<Rightarrow> nat" where
  "advance_measure hc = (if resolved_valid hc then 2 ^ 32 - unat (resolved_through hc) else 2 ^ 32 + 1)"

lemma advance_decreases:
  "next_tick hc = Some nxt \<Longrightarrow>
     advance_measure (hc\<lparr>resolved_through := nxt, resolved_valid := True\<rparr>) < advance_measure hc"
proof -
  assume h: "next_tick hc = Some nxt"
  have "unat (resolved_through hc) < 2 ^ LENGTH(32)" by (rule unsigned_less)
  with h show ?thesis
    by (auto simp: next_tick_def advance_measure_def max_u32 split: if_splits)
qed

termination try_advance
  by (relation "measure advance_measure") (simp_all add: advance_decreases)

declare try_advance.simps [simp del]

section \<open>Notes\<close>

definition rnet_hc_note_local :: "RNetHashConfirm \<Rightarrow> u32 \<Rightarrow> u32 \<Rightarrow> RNetHashConfirm" where
  "rnet_hc_note_local hc tick digest = (let i = ring_slot tick in
     try_advance (hc\<lparr>local_tick := (local_tick hc)[i := tick],
       local_digest := (local_digest hc)[i := digest],
       local_valid := (local_valid hc)[i := True]\<rparr>))"

definition rnet_hc_note_peer :: "RNetHashConfirm \<Rightarrow> u32 \<Rightarrow> u32 \<Rightarrow> RNetHashConfirm" where
  "rnet_hc_note_peer hc tick digest = (let i = ring_slot tick in
     try_advance (hc\<lparr>peer_tick := (peer_tick hc)[i := tick],
       peer_digest := (peer_digest hc)[i := digest],
       peer_valid := (peer_valid hc)[i := True],
       quorum_conflict := (quorum_conflict hc)[i := False]\<rparr>))"

definition rnet_hc_set_peer_mask :: "RNetHashConfirm \<Rightarrow> u32 \<Rightarrow> RNetHashConfirm" where
  "rnet_hc_set_peer_mask hc pmask = hc\<lparr>peer_mask := pmask AND (push_bit 8 1 - 1)\<rparr>"

definition rnet_hc_peer_mask :: "RNetHashConfirm \<Rightarrow> u32" where
  "rnet_hc_peer_mask hc = peer_mask hc"

text \<open>
  The seat loop of \<open>rnet_hc_note_peer_from\<close>: the first masked seat's digest, and whether a later
  one differs from it.
\<close>

fun quorum_scan :: "u32 \<Rightarrow> u32 list \<Rightarrow> nat list \<Rightarrow> bool \<Rightarrow> u32 \<Rightarrow> bool \<Rightarrow> u32 \<times> bool" where
  "quorum_scan pmask digests [] have_first first conflict = (first, conflict)"
| "quorum_scan pmask digests (s # ss) have_first first conflict =
     (if pmask AND push_bit s 1 = 0 then quorum_scan pmask digests ss have_first first conflict
      else if \<not> have_first then quorum_scan pmask digests ss True (digests ! s) conflict
      else if digests ! s \<noteq> first then quorum_scan pmask digests ss have_first first True
      else quorum_scan pmask digests ss have_first first conflict)"

text \<open>Forgetting the commits of the tick that used the ring slot before.\<close>

definition open_slot :: "RNetHashConfirm \<Rightarrow> u32 \<Rightarrow> RNetHashConfirm" where
  "open_slot hc tick = (let i = ring_slot tick in
     if quorum_tick hc ! i \<noteq> tick \<or> quorum_seen hc ! i = 0 then
       hc\<lparr>quorum_tick := (quorum_tick hc)[i := tick], quorum_seen := (quorum_seen hc)[i := 0],
          peer_valid := (if peer_tick hc ! i \<noteq> tick then (peer_valid hc)[i := False]
                         else peer_valid hc)\<rparr>
     else hc)"

definition record_commit :: "RNetHashConfirm \<Rightarrow> nat \<Rightarrow> u32 \<Rightarrow> u32 \<Rightarrow> RNetHashConfirm" where
  "record_commit hc seat tick digest = (let i = ring_slot tick in
     hc\<lparr>quorum_digest := (quorum_digest hc)[i := (quorum_digest hc ! i)[seat := digest]],
        quorum_seen := (quorum_seen hc)[i := ucast (ucast (quorum_seen hc ! i) OR (push_bit seat 1 :: u32))]\<rparr>)"

definition rnet_hc_note_peer_from ::
  "RNetHashConfirm \<Rightarrow> int \<Rightarrow> u32 \<Rightarrow> u32 \<Rightarrow> RNetHashConfirm" where
  "rnet_hc_note_peer_from hc seat tick digest =
     (if peer_mask hc = 0 then rnet_hc_note_peer hc tick digest
      else if seat < 0 \<or> seat \<ge> 8 \<or> peer_mask hc AND push_bit (nat seat) 1 = 0 then hc
      else
        let i = ring_slot tick; hc' = record_commit (open_slot hc tick) (nat seat) tick digest in
        if ucast (quorum_seen hc' ! i) AND peer_mask hc' \<noteq> peer_mask hc' then hc'
        else
          let (first, conflict) = quorum_scan (peer_mask hc') (quorum_digest hc' ! i) [0..<8] False 0 False
          in try_advance (hc'\<lparr>peer_tick := (peer_tick hc')[i := tick],
               peer_digest := (peer_digest hc')[i := first],
               peer_valid := (peer_valid hc')[i := True],
               quorum_conflict := (quorum_conflict hc')[i := conflict]\<rparr>))"

section \<open>Queries and healing\<close>

fun reported_scan :: "RNetHashConfirm \<Rightarrow> nat \<Rightarrow> u32 \<Rightarrow> nat list \<Rightarrow> u32" where
  "reported_scan hc i loc [] = peer_digest hc ! i"
| "reported_scan hc i loc (s # ss) =
     (if peer_mask hc AND push_bit s 1 \<noteq> 0 \<and> quorum_digest hc ! i ! s \<noteq> loc
      then quorum_digest hc ! i ! s else reported_scan hc i loc ss)"

definition reported_peer :: "RNetHashConfirm \<Rightarrow> nat \<Rightarrow> u32 \<Rightarrow> u32" where
  "reported_peer hc i loc =
     (if \<not> quorum_conflict hc ! i then peer_digest hc ! i else reported_scan hc i loc [0..<8])"

definition rnet_hc_resolved_through :: "RNetHashConfirm \<Rightarrow> u32" where
  "rnet_hc_resolved_through hc = (if \<not> resolved_valid hc then 0 else resolved_through hc)"

definition rnet_hc_confirm_through :: "RNetHashConfirm \<Rightarrow> u32 \<Rightarrow> bool" where
  "rnet_hc_confirm_through hc tick = (if \<not> resolved_valid hc then False else tick \<le> resolved_through hc)"

definition rnet_hc_local_digest :: "RNetHashConfirm \<Rightarrow> u32 \<Rightarrow> u32 option" where
  "rnet_hc_local_digest hc tick = local_at hc tick"

definition rnet_hc_peer_digest :: "RNetHashConfirm \<Rightarrow> u32 \<Rightarrow> u32 option" where
  "rnet_hc_peer_digest hc tick = peer_at hc tick"

definition rnet_hc_peek_mismatch :: "RNetHashConfirm \<Rightarrow> (u32 \<times> u32 \<times> u32) option" where
  "rnet_hc_peek_mismatch hc =
     (case next_tick hc of
        None \<Rightarrow> None
      | Some nxt \<Rightarrow>
          (case (local_at hc nxt, peer_at hc nxt) of
             (Some ld, Some pd) \<Rightarrow>
               if ld = pd \<and> \<not> quorum_conflict hc ! ring_slot nxt then None
               else Some (nxt, ld, reported_peer hc (ring_slot nxt) ld)
           | _ \<Rightarrow> None))"

text \<open>The ring scan of the healing routine; \<open>None\<close> is its early return on a live mismatch.\<close>

fun heal_scan :: "RNetHashConfirm \<Rightarrow> nat list \<Rightarrow> u32 option \<Rightarrow> u32 option option" where
  "heal_scan hc [] best = Some best"
| "heal_scan hc (i # is) best =
     (if \<not> local_valid hc ! i \<or> \<not> peer_valid hc ! i then heal_scan hc is best
      else if local_tick hc ! i \<noteq> peer_tick hc ! i then heal_scan hc is best
      else
        let t = local_tick hc ! i in
        if t \<le> resolved_through hc then heal_scan hc is best
        else if local_digest hc ! i \<noteq> peer_digest hc ! i \<or> quorum_conflict hc ! i then None
        else heal_scan hc is (case best of None \<Rightarrow> Some t | Some b \<Rightarrow> if t > b then Some t else Some b))"

definition rnet_hc_heal_stale_gap :: "RNetHashConfirm \<Rightarrow> RNetHashConfirm option" where
  "rnet_hc_heal_stale_gap hc =
     (if \<not> resolved_valid hc then None
      else if resolved_through hc = 0xffffffff then None
      else
        let nxt = resolved_through hc + 1 in
        if local_at hc nxt \<noteq> None \<and> peer_at hc nxt \<noteq> None then None
        else if local_at hc nxt \<noteq> None \<or> peer_at hc nxt \<noteq> None then None
        else (case heal_scan hc [0..<128] None of
                None \<Rightarrow> None
              | Some None \<Rightarrow> None
              | Some (Some best) \<Rightarrow>
                  if best \<le> resolved_through hc then None
                  else Some (hc\<lparr>resolved_through := best\<rparr>)))"

section \<open>The rings\<close>

text \<open>Advancing moves only the watermark.\<close>

lemma try_advance_fields [simp]:
  "local_tick (try_advance hc) = local_tick hc" "local_digest (try_advance hc) = local_digest hc"
  "local_valid (try_advance hc) = local_valid hc" "peer_tick (try_advance hc) = peer_tick hc"
  "peer_digest (try_advance hc) = peer_digest hc" "peer_valid (try_advance hc) = peer_valid hc"
  "peer_mask (try_advance hc) = peer_mask hc" "quorum_tick (try_advance hc) = quorum_tick hc"
  "quorum_seen (try_advance hc) = quorum_seen hc"
  "quorum_conflict (try_advance hc) = quorum_conflict hc"
  "quorum_digest (try_advance hc) = quorum_digest hc"
  by (induction hc rule: try_advance.induct,
      subst try_advance.simps, simp split: option.splits)+

lemma try_advance_at [simp]:
  "local_at (try_advance hc) = local_at hc" "peer_at (try_advance hc) = peer_at hc"
  "matched (try_advance hc) = matched hc"
  by (simp_all add: local_at_def peer_at_def matched_def fun_eq_iff Let_def)

definition hc_lengths :: "RNetHashConfirm \<Rightarrow> bool" where
  "hc_lengths hc \<longleftrightarrow> length (local_tick hc) = 128 \<and> length (local_digest hc) = 128 \<and>
     length (local_valid hc) = 128 \<and> length (peer_tick hc) = 128 \<and> length (peer_digest hc) = 128 \<and>
     length (peer_valid hc) = 128 \<and> length (quorum_tick hc) = 128 \<and> length (quorum_seen hc) = 128 \<and>
     length (quorum_conflict hc) = 128 \<and> length (quorum_digest hc) = 128 \<and>
     (\<forall>r \<in> set (quorum_digest hc). length r = 8)"

lemma hc_lengths_try [simp]: "hc_lengths (try_advance hc) = hc_lengths hc"
  by (simp add: hc_lengths_def)

interpretation local_ring: tick_ring hc_lengths "\<lambda>t d. True" rnet_hc_note_local local_at
  by unfold_locales
     (auto simp: rnet_hc_note_local_def Let_def hc_lengths_def local_at_def nth_list_update)

section \<open>The invariant\<close>

text \<open>
  For a ring slot whose peer digest is valid: without a mask there is no conflict; with a mask
  every masked seat has committed the tick, the peer digest is one of the commits, and the
  conflict flag says whether some commit differs from it.
\<close>

definition slot_sound :: "RNetHashConfirm \<Rightarrow> nat \<Rightarrow> bool" where
  "slot_sound hc i \<longleftrightarrow>
     (if peer_mask hc = 0 then \<not> quorum_conflict hc ! i
      else quorum_tick hc ! i = peer_tick hc ! i \<and>
        (\<forall>s. bit (peer_mask hc) s \<longrightarrow> bit (quorum_seen hc ! i) s) \<and>
        (\<exists>s. bit (peer_mask hc) s \<and> quorum_digest hc ! i ! s = peer_digest hc ! i) \<and>
        (quorum_conflict hc ! i \<longleftrightarrow>
           (\<exists>s. bit (peer_mask hc) s \<and> quorum_digest hc ! i ! s \<noteq> peer_digest hc ! i)))"

definition hc_inv :: "RNetHashConfirm \<Rightarrow> bool" where
  "hc_inv hc \<longleftrightarrow> hc_lengths hc \<and> (\<forall>s. bit (peer_mask hc) s \<longrightarrow> s < 8) \<and>
     (\<forall>i < 128. peer_valid hc ! i \<longrightarrow> slot_sound hc i)"

lemma slot_sound_try [simp]: "slot_sound (try_advance hc) = slot_sound hc"
  by (simp add: slot_sound_def fun_eq_iff)

lemma hc_inv_try [simp]: "hc_inv (try_advance hc) = hc_inv hc"
  by (simp add: hc_inv_def)

lemma hc_inv_zero: "(\<forall>s. bit m s \<longrightarrow> s < 8) \<Longrightarrow> hc_inv (hc_zero m)"
  by (simp add: hc_inv_def hc_zero_def hc_lengths_def)

lemma hc_inv_resolved:
  "hc_inv (hc\<lparr>resolved_through := r\<rparr>) = hc_inv hc"
  "hc_inv (hc\<lparr>resolved_valid := v\<rparr>) = hc_inv hc"
  by (simp_all add: hc_inv_def hc_lengths_def slot_sound_def)

lemma hc_inv_note_local: "hc_inv hc \<Longrightarrow> hc_inv (rnet_hc_note_local hc t d)"
  by (auto simp: rnet_hc_note_local_def Let_def hc_inv_def hc_lengths_def slot_sound_def)

lemma hc_inv_note_peer:
  assumes "hc_inv hc" "peer_mask hc = 0"
  shows "hc_inv (rnet_hc_note_peer hc t d)"
  using assms
  by (auto simp: rnet_hc_note_peer_def Let_def hc_inv_def hc_lengths_def slot_sound_def
        nth_list_update)

lemma quorum_scan_first:
  "quorum_scan m D ss True first c = (first, c \<or> (\<exists>s \<in> set ss. bit m s \<and> D ! s \<noteq> first))"
  by (induction ss arbitrary: c) auto

lemma quorum_scan_filter:
  "quorum_scan m D ss False z False =
     (case filter (bit m) ss of
        [] \<Rightarrow> (z, False)
      | s # ss' \<Rightarrow> (D ! s, \<exists>t \<in> set ss'. D ! t \<noteq> D ! s))"
  by (induction ss) (auto simp: quorum_scan_first)

lemma quorum_scan_spec:
  assumes "m \<noteq> (0 :: u32)" "\<forall>s. bit m s \<longrightarrow> s < 8"
    and "quorum_scan m D [0..<8] False z False = (first, conflict)"
  shows "(\<exists>s. bit m s \<and> D ! s = first) \<and> (conflict \<longleftrightarrow> (\<exists>s. bit m s \<and> D ! s \<noteq> first))"
proof -
  let ?ss = "filter (bit m) [0..<8]"
  have set: "set ?ss = {s. bit m s}" using assms(2) by auto
  obtain k where "bit m k" using assms(1) by (auto simp: bit_eq_iff)
  with set obtain s ss' where ss: "?ss = s # ss'" by (cases ?ss) auto
  with set have all: "insert s (set ss') = {s. bit m s}" by simp
  from assms(3) ss have first: "first = D ! s" "conflict \<longleftrightarrow> (\<exists>t \<in> set ss'. D ! t \<noteq> D ! s)"
    by (auto simp: quorum_scan_filter)
  show ?thesis unfolding first using all by (metis insert_iff mem_Collect_eq)
qed

lemma seen_insert:
  "seat < 8 \<Longrightarrow> bit (ucast (ucast (x :: u8) OR (2 ^ seat :: u32)) :: u8) s \<longleftrightarrow> bit x s \<or> s = seat"
  by (auto simp: bit_simps dest: bit_imp_le_length)

lemma seen_complete:
  "(ucast (x :: u8) :: u32) AND m = m \<longleftrightarrow> (\<forall>s. bit m s \<longrightarrow> bit x s)"
  unfolding mask_contains by (auto simp: bit_simps dest: bit_imp_le_length)

lemma open_slot_inv:
  assumes "hc_inv hc" "peer_mask hc \<noteq> 0"
  shows "hc_inv (open_slot hc t)" and "quorum_tick (open_slot hc t) ! ring_slot t = t"
    and "peer_mask (open_slot hc t) = peer_mask hc"
    and "peer_valid (open_slot hc t) ! ring_slot t \<Longrightarrow> peer_tick (open_slot hc t) ! ring_slot t = t"
proof -
  let ?i = "ring_slot t"
  obtain k where k: "bit (peer_mask hc) k" using assms(2) by (auto simp: bit_eq_iff)
  have same: "quorum_tick hc ! ?i = t \<and> quorum_seen hc ! ?i \<noteq> 0"
    if "peer_valid hc ! ?i" "peer_tick hc ! ?i = t"
  proof -
    from assms that have "slot_sound hc ?i" by (simp add: hc_inv_def)
    with assms(2) that k have "quorum_tick hc ! ?i = t" "bit (quorum_seen hc ! ?i) k"
      by (auto simp: slot_sound_def)
    then show ?thesis by auto
  qed
  show "hc_inv (open_slot hc t)"
    using assms same
    by (auto simp: open_slot_def Let_def hc_inv_def hc_lengths_def slot_sound_def nth_list_update)
  show "quorum_tick (open_slot hc t) ! ?i = t" "peer_mask (open_slot hc t) = peer_mask hc"
    using assms(1) by (auto simp: open_slot_def Let_def hc_inv_def hc_lengths_def)
  show "peer_tick (open_slot hc t) ! ?i = t" if "peer_valid (open_slot hc t) ! ?i"
  proof (cases "quorum_tick hc ! ?i \<noteq> t \<or> quorum_seen hc ! ?i = 0")
    case True
    with that assms(1) show ?thesis
      by (auto simp: open_slot_def Let_def hc_inv_def hc_lengths_def split: if_splits)
  next
    case False
    then have "open_slot hc t = hc" by (auto simp: open_slot_def Let_def)
    moreover have "slot_sound hc ?i" using that assms(1) calculation by (simp add: hc_inv_def)
    ultimately show ?thesis using False assms(2) by (simp add: slot_sound_def)
  qed
qed

text \<open>The state after a commit is recorded: sound everywhere else, and complete or not valid here.\<close>

lemma record_commit_inv:
  fixes d :: u32
  assumes "hc_inv hc" "peer_mask hc \<noteq> 0" "seat < 8"
    and "quorum_tick hc ! ring_slot t = t" "peer_valid hc ! ring_slot t \<Longrightarrow> peer_tick hc ! ring_slot t = t"
  defines "hc' \<equiv> record_commit hc seat t d"
  shows "hc_lengths hc'" and "peer_mask hc' = peer_mask hc"
    and "\<And>j. j < 128 \<Longrightarrow> j \<noteq> ring_slot t \<Longrightarrow> peer_valid hc' ! j \<Longrightarrow> slot_sound hc' j"
    and "quorum_tick hc' ! ring_slot t = t"
    and "\<not> (\<forall>s. bit (peer_mask hc') s \<longrightarrow> bit (quorum_seen hc' ! ring_slot t) s) \<Longrightarrow>
      \<not> peer_valid hc' ! ring_slot t"
proof -
  have len: "hc_lengths hc" using assms(1) by (simp add: hc_inv_def)
  show "hc_lengths hc'"
    using len by (auto simp: hc'_def record_commit_def Let_def hc_lengths_def
      dest!: subsetD [OF set_update_subset_insert])
  show "peer_mask hc' = peer_mask hc" "quorum_tick hc' ! ring_slot t = t"
    using assms(4) by (simp_all add: hc'_def record_commit_def Let_def)
  show "slot_sound hc' j" if "j < 128" "j \<noteq> ring_slot t" "peer_valid hc' ! j" for j
    using assms(1) that len
    by (auto simp: hc'_def record_commit_def Let_def hc_inv_def slot_sound_def)
  show "\<not> peer_valid hc' ! ring_slot t"
    if "\<not> (\<forall>s. bit (peer_mask hc') s \<longrightarrow> bit (quorum_seen hc' ! ring_slot t) s)"
  proof
    assume "peer_valid hc' ! ring_slot t"
    then have "peer_valid hc ! ring_slot t" by (simp add: hc'_def record_commit_def Let_def)
    with assms(1,2) have "\<forall>s. bit (peer_mask hc) s \<longrightarrow> bit (quorum_seen hc ! ring_slot t) s"
      by (auto simp: hc_inv_def slot_sound_def)
    with that len assms(3) show False
      by (auto simp: hc'_def record_commit_def Let_def hc_lengths_def seen_insert)
  qed
qed

lemma hc_inv_note_peer_from:
  assumes "hc_inv hc"
  shows "hc_inv (rnet_hc_note_peer_from hc seat t d)"
proof (cases "peer_mask hc = 0 \<or> seat < 0 \<or> seat \<ge> 8 \<or> \<not> bit (peer_mask hc) (nat seat)")
  case True
  with assms show ?thesis by (auto simp: rnet_hc_note_peer_from_def hc_inv_note_peer)
next
  case False
  let ?i = "ring_slot t" and ?hc = "record_commit (open_slot hc t) (nat seat) t d"
  have m: "peer_mask hc \<noteq> 0" and seat: "nat seat < 8" using False by auto
  note o = open_slot_inv [OF assms m, of t]
  have m': "peer_mask (open_slot hc t) \<noteq> 0" using o(3) m by simp
  note r = record_commit_inv [where d = d, OF o(1) m' seat o(2) o(4)]
  have mask8: "\<forall>s. bit (peer_mask ?hc) s \<longrightarrow> s < 8" using assms r(2) o(3) by (simp add: hc_inv_def)
  show ?thesis
  proof (cases "\<forall>s. bit (peer_mask ?hc) s \<longrightarrow> bit (quorum_seen ?hc ! ?i) s")
    case seen: False
    then have "rnet_hc_note_peer_from hc seat t d = ?hc"
      using False m by (simp add: rnet_hc_note_peer_from_def Let_def seen_complete)
    moreover have "hc_inv ?hc"
      using r(1,3,5) seen mask8 unfolding hc_inv_def by (metis)
    ultimately show ?thesis by simp
  next
    case seen: True
    obtain first conflict where
      scan: "quorum_scan (peer_mask ?hc) (quorum_digest ?hc ! ?i) [0..<8] False 0 False = (first, conflict)"
      by (cases "quorum_scan (peer_mask ?hc) (quorum_digest ?hc ! ?i) [0..<8] False 0 False")
    define hc2 where "hc2 = ?hc\<lparr>peer_tick := (peer_tick ?hc)[?i := t],
        peer_digest := (peer_digest ?hc)[?i := first],
        peer_valid := (peer_valid ?hc)[?i := True],
        quorum_conflict := (quorum_conflict ?hc)[?i := conflict]\<rparr>"
    have "rnet_hc_note_peer_from hc seat t d = try_advance hc2"
      using False m seen scan by (auto simp: rnet_hc_note_peer_from_def Let_def seen_complete hc2_def)
    moreover have "slot_sound hc2 ?i"
      using quorum_scan_spec [OF _ mask8 scan] r(1,2,4) m' seen
      by (auto simp: slot_sound_def hc2_def hc_lengths_def)
    moreover have "slot_sound hc2 j" if "j < 128" "j \<noteq> ?i" "peer_valid hc2 ! j" for j
      using r(3) [of j] that by (auto simp: slot_sound_def hc2_def)
    moreover have "hc_lengths hc2" using r(1) by (simp add: hc_lengths_def hc2_def)
    moreover have "\<forall>s. bit (peer_mask hc2) s \<longrightarrow> s < 8" using mask8 by (simp add: hc2_def)
    ultimately show ?thesis unfolding hc_inv_def by (metis hc_inv_def hc_inv_try)
  qed
qed

section \<open>The watermark\<close>

text \<open>The number of ticks, from 0, the watermark covers.\<close>

definition watermark :: "RNetHashConfirm \<Rightarrow> nat" where
  "watermark hc = (if resolved_valid hc then Suc (unat (resolved_through hc)) else 0)"

definition settled :: "RNetHashConfirm \<Rightarrow> bool" where
  "settled hc \<longleftrightarrow> (\<forall>t. unat t = watermark hc \<longrightarrow> \<not> matched hc t)"

lemma confirm_watermark: "rnet_hc_confirm_through hc t \<longleftrightarrow> unat t < watermark hc"
  by (auto simp: rnet_hc_confirm_through_def watermark_def word_le_nat_alt)

lemma next_tick_watermark: "next_tick hc = Some t \<longleftrightarrow> unat t = watermark hc"
proof -
  have max: "unat (0xffffffff :: u32) = 2 ^ 32 - 1" by simp
  have lt: "unat t < 2 ^ LENGTH(32)" by (rule unsigned_less)
  show ?thesis
  proof (cases "resolved_valid hc")
    case True
    then show ?thesis
      using max_u32 [of "resolved_through hc"] lt max
      by (auto simp: next_tick_def watermark_def word_unat_eq_iff)
  next
    case False
    then show ?thesis by (auto simp: next_tick_def watermark_def unat_eq_0)
  qed
qed

lemma matched_resolved [simp]:
  "matched (hc\<lparr>resolved_through := r, resolved_valid := v\<rparr>) = matched hc"
  "matched (hc\<lparr>resolved_through := r\<rparr>) = matched hc"
  by (simp_all add: matched_def local_at_def peer_at_def fun_eq_iff Let_def)

lemma try_advance_step:
  assumes "next_tick hc = Some t" "matched hc t"
  shows "try_advance hc = try_advance (hc\<lparr>resolved_through := t, resolved_valid := True\<rparr>)"
  using assms by (subst try_advance.simps) (auto simp: matched_def)

lemma try_advance_stop:
  assumes "\<And>t. next_tick hc = Some t \<Longrightarrow> \<not> matched hc t"
  shows "try_advance hc = hc"
  using assms by (subst try_advance.simps) (auto simp: matched_def split: option.splits)

lemma try_advance_run:
  "watermark hc \<le> watermark (try_advance hc) \<and> settled (try_advance hc) \<and>
   (\<forall>t. watermark hc \<le> unat t \<and> unat t < watermark (try_advance hc) \<longrightarrow> matched hc t)"
proof (induction hc rule: try_advance.induct)
  case (1 hc)
  show ?case
  proof (cases "\<exists>t. next_tick hc = Some t \<and> matched hc t")
    case True
    then obtain t where t: "next_tick hc = Some t" "matched hc t" by blast
    then obtain ld where ld: "local_at hc t = Some ld" "peer_at hc t = Some ld"
      "\<not> quorum_conflict hc ! ring_slot t"
      by (auto simp: matched_def)
    let ?hc = "hc\<lparr>resolved_through := t, resolved_valid := True\<rparr>"
    have w: "watermark ?hc = Suc (watermark hc)" "unat t = watermark hc"
      using t(1) next_tick_watermark by (auto simp: watermark_def)
    from 1 [OF t(1) ld(1,2)] ld(3) have
      IH: "watermark ?hc \<le> watermark (try_advance ?hc)" "settled (try_advance ?hc)"
        "\<And>u. watermark ?hc \<le> unat u \<Longrightarrow> unat u < watermark (try_advance ?hc) \<Longrightarrow> matched ?hc u"
      by auto
    have "matched hc u" if "watermark hc \<le> unat u" "unat u < watermark (try_advance ?hc)" for u
    proof (cases "unat u = watermark hc")
      case True
      then have "u = t" using w(2) by (simp add: word_unat_eq_iff)
      with t(2) show ?thesis by simp
    next
      case False
      with that w IH(3) [of u] show ?thesis by simp
    qed
    then show ?thesis using IH w unfolding try_advance_step [OF t] by auto
  next
    case False
    then have "try_advance hc = hc" by (intro try_advance_stop) blast
    moreover have "settled hc" using False next_tick_watermark by (auto simp: settled_def)
    ultimately show ?thesis by auto
  qed
qed

text \<open>How an operation that only records and then advances moves the watermark.\<close>

definition advanced :: "RNetHashConfirm \<Rightarrow> RNetHashConfirm \<Rightarrow> bool" where
  "advanced hc hc' \<longleftrightarrow> watermark hc \<le> watermark hc' \<and> settled hc' \<and>
     (\<forall>t. watermark hc \<le> unat t \<and> unat t < watermark hc' \<longrightarrow> matched hc' t)"

lemma advanced_try: "watermark hc1 = watermark hc \<Longrightarrow> advanced hc (try_advance hc1)"
  using try_advance_run [of hc1] by (simp add: advanced_def)

lemma advanced_refl: "settled hc' \<Longrightarrow> watermark hc' = watermark hc \<Longrightarrow> advanced hc hc'"
  by (auto simp: advanced_def)

lemma advanced_exact:
  assumes "advanced hc hc'"
  shows "rnet_hc_confirm_through hc' t \<longleftrightarrow>
     rnet_hc_confirm_through hc t \<or> (\<forall>u. u \<le> t \<and> \<not> rnet_hc_confirm_through hc u \<longrightarrow> matched hc' u)"
proof -
  have le: "watermark hc \<le> watermark hc'" and run: "\<And>u. watermark hc \<le> unat u \<Longrightarrow>
      unat u < watermark hc' \<Longrightarrow> matched hc' u" and st: "settled hc'"
    using assms by (auto simp: advanced_def)
  show ?thesis
  proof
    assume "rnet_hc_confirm_through hc' t"
    then show "rnet_hc_confirm_through hc t \<or>
        (\<forall>u. u \<le> t \<and> \<not> rnet_hc_confirm_through hc u \<longrightarrow> matched hc' u)"
      using run by (auto simp: confirm_watermark word_le_nat_alt)
  next
    assume h: "rnet_hc_confirm_through hc t \<or>
        (\<forall>u. u \<le> t \<and> \<not> rnet_hc_confirm_through hc u \<longrightarrow> matched hc' u)"
    show "rnet_hc_confirm_through hc' t"
    proof (rule ccontr)
      assume n: "\<not> rnet_hc_confirm_through hc' t"
      define u :: u32 where "u = of_nat (watermark hc')"
      have "unat t < 2 ^ LENGTH(32)" by (rule unsigned_less)
      with n have u: "unat u = watermark hc'"
        by (simp add: u_def confirm_watermark unat_of_nat take_bit_nat_eq_self)
      then have "\<not> matched hc' u" using st by (simp add: settled_def)
      moreover have "u \<le> t" "\<not> rnet_hc_confirm_through hc u"
        using u n le by (auto simp: confirm_watermark word_le_nat_alt)
      ultimately show False using h n le by (auto simp: confirm_watermark)
    qed
  qed
qed

lemma watermark_update [simp]:
  "watermark (hc\<lparr>local_tick := a, local_digest := b, local_valid := c\<rparr>) = watermark hc"
  "watermark (hc\<lparr>peer_tick := a, peer_digest := b, peer_valid := c, quorum_conflict := e\<rparr>) = watermark hc"
  by (simp_all add: watermark_def)

lemma watermark_record [simp]:
  "watermark (record_commit hc seat t d) = watermark hc" "watermark (open_slot hc t) = watermark hc"
  by (simp_all add: watermark_def record_commit_def open_slot_def Let_def)

lemma note_local_advanced: "advanced hc (rnet_hc_note_local hc t d)"
  by (simp add: rnet_hc_note_local_def Let_def advanced_try)

lemma note_peer_advanced: "advanced hc (rnet_hc_note_peer hc t d)"
  by (simp add: rnet_hc_note_peer_def Let_def advanced_try)

lemma record_matched:
  assumes "hc_lengths hc" "matched (record_commit (open_slot hc t) seat t d) u"
  shows "matched hc u"
  using assms
  by (auto simp: matched_def local_at_def peer_at_def record_commit_def open_slot_def Let_def
        hc_lengths_def nth_list_update split: if_splits)

lemma note_peer_from_advanced:
  assumes "hc_lengths hc" "settled hc"
  shows "advanced hc (rnet_hc_note_peer_from hc seat t d)"
proof -
  have "settled (record_commit (open_slot hc t) (nat seat) t d)"
    using assms record_matched by (auto simp: settled_def)
  then show ?thesis
    using assms(2)
    by (auto simp: rnet_hc_note_peer_from_def Let_def note_peer_advanced advanced_refl advanced_try
          split: prod.splits)
qed

text \<open>A local digest sits in the ring slot of its tick.\<close>

definition hc_placed :: "RNetHashConfirm \<Rightarrow> bool" where
  "hc_placed hc \<longleftrightarrow> (\<forall>i < 128. local_valid hc ! i \<longrightarrow> ring_slot (local_tick hc ! i) = i)"

lemma hc_placed_update [simp]:
  "hc_placed (try_advance hc) = hc_placed hc" "hc_placed (hc\<lparr>resolved_through := r\<rparr>) = hc_placed hc"
  "hc_placed (hc\<lparr>resolved_valid := v\<rparr>) = hc_placed hc" "hc_placed (hc_zero m)"
  "hc_placed (rnet_hc_note_peer_from hc seat t d) = hc_placed hc"
  by (simp_all add: hc_placed_def hc_zero_def rnet_hc_note_peer_from_def rnet_hc_note_peer_def
        record_commit_def open_slot_def Let_def split: prod.splits)

lemma hc_placed_note_local: "hc_lengths hc \<Longrightarrow> hc_placed hc \<Longrightarrow> hc_placed (rnet_hc_note_local hc t d)"
  by (auto simp: hc_placed_def rnet_hc_note_local_def Let_def hc_lengths_def nth_list_update)

text \<open>The converse of \<open>slot_sound\<close>: once every masked seat has committed, the peer digest is there.\<close>

definition hc_complete :: "RNetHashConfirm \<Rightarrow> bool" where
  "hc_complete hc \<longleftrightarrow> (\<forall>i < 128. peer_mask hc \<noteq> 0 \<and> (\<forall>s. bit (peer_mask hc) s \<longrightarrow> bit (quorum_seen hc ! i) s) \<longrightarrow>
     peer_valid hc ! i \<and> peer_tick hc ! i = quorum_tick hc ! i)"

lemma mask_has_bit: "m \<noteq> (0 :: u32) \<Longrightarrow> \<exists>s. bit m s"
  by (metis bit_0_eq bit_eqI bot_apply bot_bool_def)

lemma hc_complete_update [simp]:
  "hc_complete (try_advance hc) = hc_complete hc"
  "hc_complete (hc\<lparr>resolved_through := r\<rparr>) = hc_complete hc"
  "hc_complete (hc\<lparr>resolved_valid := v\<rparr>) = hc_complete hc"
  "hc_complete (hc\<lparr>local_tick := a, local_digest := b, local_valid := c\<rparr>) = hc_complete hc"
  by (simp_all add: hc_complete_def)

lemma hc_complete_zero: "hc_complete (hc_zero m)"
  using mask_has_bit [of m] by (auto simp: hc_complete_def hc_zero_def)

lemma hc_complete_note_local: "hc_complete hc \<Longrightarrow> hc_complete (rnet_hc_note_local hc t d)"
  by (simp add: rnet_hc_note_local_def Let_def)

lemma open_slot_complete: "hc_lengths hc \<Longrightarrow> hc_complete hc \<Longrightarrow> hc_complete (open_slot hc t)"
  using mask_has_bit [of "peer_mask hc"]
  by (auto simp: hc_complete_def open_slot_def Let_def hc_lengths_def nth_list_update)

lemma hc_complete_note_peer_from:
  assumes "hc_lengths hc" "hc_complete hc"
  shows "hc_complete (rnet_hc_note_peer_from hc seat t d)"
proof -
  let ?i = "ring_slot t"
  let ?o = "open_slot hc t"
  let ?r = "record_commit ?o (nat seat) t d"
  have o: "hc_complete ?o" "quorum_tick ?o ! ?i = t" "hc_lengths ?o"
    using assms open_slot_complete
    by (auto simp: open_slot_def Let_def hc_lengths_def)
  have r: "peer_mask ?r = peer_mask hc" "quorum_tick ?r = quorum_tick ?o" "peer_valid ?r = peer_valid ?o"
    "peer_tick ?r = peer_tick ?o" "peer_mask ?o = peer_mask hc"
    "\<And>j. j \<noteq> ?i \<Longrightarrow> quorum_seen ?r ! j = quorum_seen ?o ! j"
    by (simp_all add: record_commit_def open_slot_def Let_def)
  have other: "peer_valid ?o ! j \<and> peer_tick ?o ! j = quorum_tick ?o ! j"
    if "j < 128" "j \<noteq> ?i" "peer_mask hc \<noteq> 0" "\<forall>s. bit (peer_mask hc) s \<longrightarrow> bit (quorum_seen ?r ! j) s" for j
    using o(1) that r by (simp add: hc_complete_def)
  have partial: "hc_complete ?r"
    if n: "ucast (quorum_seen ?r ! ?i) AND peer_mask ?r \<noteq> peer_mask ?r"
    unfolding hc_complete_def
  proof (intro allI impI)
    fix j assume j: "j < 128"
      and c: "peer_mask ?r \<noteq> 0 \<and> (\<forall>s. bit (peer_mask ?r) s \<longrightarrow> bit (quorum_seen ?r ! j) s)"
    from n have "\<not> (\<forall>s. bit (peer_mask ?r) s \<longrightarrow> bit (quorum_seen ?r ! ?i) s)"
      by (metis seen_complete)
    with c have "j \<noteq> ?i" by metis
    with other [OF j] c r show "peer_valid ?r ! j \<and> peer_tick ?r ! j = quorum_tick ?r ! j" by simp
  qed
  have full: "hc_complete (?r\<lparr>peer_tick := (peer_tick ?r)[?i := t], peer_digest := x,
      peer_valid := (peer_valid ?r)[?i := True], quorum_conflict := y\<rparr>)" for x y
    using other o(2,3) r by (auto simp: hc_complete_def hc_lengths_def nth_list_update)
  show ?thesis
  proof (cases "peer_mask hc = 0")
    case True
    then show ?thesis by (simp add: rnet_hc_note_peer_from_def rnet_hc_note_peer_def Let_def hc_complete_def)
  next
    case False
    then show ?thesis using assms partial full
      by (auto simp: rnet_hc_note_peer_from_def Let_def simp del: mask_test split: prod.splits)
  qed
qed

definition hc_ok :: "RNetHashConfirm \<Rightarrow> bool" where
  "hc_ok hc \<longleftrightarrow> hc_inv hc \<and> settled hc \<and> hc_complete hc \<and> hc_placed hc"

lemma hc_okD: "hc_ok hc \<Longrightarrow> hc_lengths hc" "hc_ok hc \<Longrightarrow> settled hc" "hc_ok hc \<Longrightarrow> hc_inv hc"
  by (auto simp: hc_ok_def hc_inv_def)

lemma settled_zero: "settled (hc_zero m)" "settled ((hc_zero m)\<lparr>resolved_through := r, resolved_valid := v\<rparr>)"
  by (simp_all add: settled_def matched_def local_at_def hc_zero_def Let_def)

lemma hc_ok_zero:
  "(\<forall>s. bit m s \<longrightarrow> s < 8) \<Longrightarrow> hc_ok (hc_zero m)"
  "(\<forall>s. bit m s \<longrightarrow> s < 8) \<Longrightarrow> hc_ok ((hc_zero m)\<lparr>resolved_through := r, resolved_valid := v\<rparr>)"
  by (simp_all add: hc_ok_def hc_inv_zero hc_inv_resolved settled_zero hc_complete_zero)

section \<open>Healing\<close>

lemma ring_entry:
  assumes "hc_lengths hc" "local_at hc t \<noteq> None" "peer_at hc t \<noteq> None"
  shows "ring_slot t < 128 \<and> local_valid hc ! ring_slot t \<and> peer_valid hc ! ring_slot t \<and>
     local_tick hc ! ring_slot t = t \<and> peer_tick hc ! ring_slot t = t"
  using assms by (auto simp: local_at_def peer_at_def Let_def split: if_splits)

text \<open>An index that takes part in the scan: both digests are present, for one tick above the watermark.\<close>

definition live_index :: "RNetHashConfirm \<Rightarrow> nat \<Rightarrow> bool" where
  "live_index hc i \<longleftrightarrow> local_valid hc ! i \<and> peer_valid hc ! i \<and> local_tick hc ! i = peer_tick hc ! i \<and>
     local_tick hc ! i > resolved_through hc"

definition agrees_index :: "RNetHashConfirm \<Rightarrow> nat \<Rightarrow> bool" where
  "agrees_index hc i \<longleftrightarrow> local_digest hc ! i = peer_digest hc ! i \<and> \<not> quorum_conflict hc ! i"

lemma heal_scan_spec:
  "heal_scan hc is best = Some r \<Longrightarrow>
     (\<forall>i \<in> set is. live_index hc i \<longrightarrow> agrees_index hc i) \<and>
     (\<forall>i \<in> set is. live_index hc i \<longrightarrow> (\<exists>b. r = Some b \<and> local_tick hc ! i \<le> b)) \<and>
     (\<forall>b0. best = Some b0 \<longrightarrow> (\<exists>b. r = Some b \<and> b0 \<le> b)) \<and>
     (\<forall>b. r = Some b \<longrightarrow> best = Some b \<or> (\<exists>i \<in> set is. live_index hc i \<and> local_tick hc ! i = b))"
proof (induction "is" arbitrary: best)
  case (Cons i "is")
  show ?case
  proof (cases "live_index hc i")
    case True
    then have ag: "agrees_index hc i" and rec: "heal_scan hc is
        (case best of None \<Rightarrow> Some (local_tick hc ! i)
         | Some b \<Rightarrow> if local_tick hc ! i > b then Some (local_tick hc ! i) else Some b) = Some r"
      using Cons.prems
      by (cases best; auto simp: live_index_def agrees_index_def Let_def split: if_splits)+
    from Cons.IH [OF rec] True ag show ?thesis
      by (cases best) (force split: if_splits)+
  next
    case False
    then have "heal_scan hc is best = Some r"
      using Cons.prems by (auto simp: live_index_def Let_def not_less split: if_splits)
    from Cons.IH [OF this] False show ?thesis by auto
  qed
qed simp

lemma matched_live:
  assumes "hc_lengths hc" "matched hc t" "t > resolved_through hc"
  shows "live_index hc (ring_slot t)" "local_tick hc ! ring_slot t = t"
  using assms ring_entry [of hc t] by (auto simp: matched_def live_index_def)

lemma heal_cases:
  assumes "hc_lengths hc" "rnet_hc_heal_stale_gap hc = Some hc'"
  obtains best where "hc' = hc\<lparr>resolved_through := best\<rparr>" "resolved_valid hc"
    "best > resolved_through hc" "local_at hc (resolved_through hc + 1) = None"
    "peer_at hc (resolved_through hc + 1) = None"
    "\<exists>i < 128. live_index hc i \<and> agrees_index hc i \<and> local_tick hc ! i = best"
    "\<And>i. i < 128 \<Longrightarrow> live_index hc i \<Longrightarrow> agrees_index hc i \<and> local_tick hc ! i \<le> best"
proof -
  from assms(2) obtain best where scan: "heal_scan hc [0..<128] None = Some (Some best)" and
    o: "hc' = hc\<lparr>resolved_through := best\<rparr>" "resolved_valid hc" "best > resolved_through hc"
      "local_at hc (resolved_through hc + 1) = None" "peer_at hc (resolved_through hc + 1) = None"
    by (auto simp: rnet_hc_heal_stale_gap_def Let_def not_le split: if_splits option.splits)
  note sp = heal_scan_spec [OF scan]
  from sp have "\<exists>i < 128. live_index hc i \<and> agrees_index hc i \<and> local_tick hc ! i = best" by auto
  moreover from sp have "\<And>i. i < 128 \<Longrightarrow> live_index hc i \<Longrightarrow>
      agrees_index hc i \<and> local_tick hc ! i \<le> best" by auto
  ultimately show thesis using that o by blast
qed

lemma heal_settled:
  assumes "hc_lengths hc" "rnet_hc_heal_stale_gap hc = Some hc'"
  shows "settled hc'" and "watermark hc < watermark hc'"
proof -
  obtain best where b: "hc' = hc\<lparr>resolved_through := best\<rparr>" "resolved_valid hc"
      "best > resolved_through hc"
    and top: "\<And>i. i < 128 \<Longrightarrow> live_index hc i \<Longrightarrow> agrees_index hc i \<and> local_tick hc ! i \<le> best"
    using heal_cases [OF assms] by metis
  show "watermark hc < watermark hc'" using b by (simp add: watermark_def word_less_nat_alt)
  show "settled hc'"
    unfolding settled_def
  proof (intro allI impI notI)
    fix t assume t: "unat t = watermark hc'" and "matched hc' t"
    then have m: "matched hc t" using b(1) by simp
    have "t > best" using t b by (simp add: watermark_def word_less_nat_alt)
    moreover from this b(3) have "t > resolved_through hc" by simp
    from matched_live [OF assms(1) m this] top [of "ring_slot t"] have "t \<le> best" by simp
    ultimately show False by simp
  qed
qed

section \<open>Sequences of operations\<close>

datatype hc_live = NoteLocal u32 u32 | NotePeerFrom int u32 u32 | HealGap

datatype hc_op = Live hc_live | PrimeAfter u32 | ResetAll

fun hc_live_step :: "RNetHashConfirm \<Rightarrow> hc_live \<Rightarrow> RNetHashConfirm" where
  "hc_live_step hc (NoteLocal t d) = rnet_hc_note_local hc t d"
| "hc_live_step hc (NotePeerFrom s t d) = rnet_hc_note_peer_from hc s t d"
| "hc_live_step hc HealGap = (case rnet_hc_heal_stale_gap hc of None \<Rightarrow> hc | Some hc' \<Rightarrow> hc')"

fun hc_step :: "RNetHashConfirm \<Rightarrow> hc_op \<Rightarrow> RNetHashConfirm" where
  "hc_step hc (Live opn) = hc_live_step hc opn"
| "hc_step hc (PrimeAfter t) = rnet_hc_prime_after hc t"
| "hc_step hc ResetAll = rnet_hc_reset hc"

lemma hc_ok_live: "hc_ok hc \<Longrightarrow> hc_ok (hc_live_step hc opn)"
proof (cases opn)
  case (NoteLocal t d)
  assume h: "hc_ok hc"
  then show ?thesis
    using NoteLocal note_local_advanced [of hc t d]
    by (simp add: hc_ok_def hc_inv_note_local advanced_def hc_complete_note_local
          hc_placed_note_local hc_okD(1) [OF h])
next
  case (NotePeerFrom s t d)
  assume h: "hc_ok hc"
  then show ?thesis
    using NotePeerFrom note_peer_from_advanced [OF hc_okD(1,2) [OF h], of s t d]
    by (simp add: hc_ok_def hc_inv_note_peer_from advanced_def hc_complete_note_peer_from hc_okD(1) [OF h])
next
  case HealGap
  assume h: "hc_ok hc"
  show ?thesis
  proof (cases "rnet_hc_heal_stale_gap hc")
    case None
    with h HealGap show ?thesis by simp
  next
    case (Some hc')
    from heal_cases [OF hc_okD(1) [OF h] Some] obtain best
      where "hc' = hc\<lparr>resolved_through := best\<rparr>" by metis
    with h heal_settled [OF hc_okD(1) [OF h] Some] HealGap Some show ?thesis
      by (simp add: hc_ok_def hc_inv_resolved)
  qed
qed

interpretation hc_run: monotone_system hc_ok hc_live_step watermark
proof
  fix hc opn assume h: "hc_ok hc"
  show "hc_ok (hc_live_step hc opn)" by (rule hc_ok_live [OF h])
  show "watermark hc \<le> watermark (hc_live_step hc opn)"
    using note_local_advanced note_peer_from_advanced [OF hc_okD(1,2) [OF h]]
      heal_settled(2) [OF hc_okD(1) [OF h]]
    by (cases opn) (auto simp: advanced_def less_imp_le split: option.splits)
qed

interpretation hc_ops: op_system hc_ok hc_step
proof
  fix hc opn assume h: "hc_ok hc"
  then have m: "\<forall>s. bit (peer_mask hc) s \<longrightarrow> s < 8" by (simp add: hc_ok_def hc_inv_def)
  show "hc_ok (hc_step hc opn)"
    by (cases opn) (simp_all add: h m hc_ok_live rnet_hc_prime_after_def rnet_hc_reset_def hc_ok_zero)
qed

definition hc_start :: "u32 \<Rightarrow> RNetHashConfirm" where
  "hc_start pmask = rnet_hc_set_peer_mask (hc_zero 0) pmask"

lemma hc_ok_start: "hc_ok (hc_start pmask)"
proof -
  have "hc_start pmask = hc_zero (pmask AND (2 ^ 8 - 1))"
    by (simp add: hc_start_def rnet_hc_set_peer_mask_def hc_zero_def)
  then show ?thesis by (simp add: hc_ok_zero)
qed

text \<open>The commit of one seat for one tick, as far as the ring still holds it.\<close>

definition seat_commit :: "RNetHashConfirm \<Rightarrow> nat \<Rightarrow> u32 \<Rightarrow> u32 option" where
  "seat_commit hc s t = (let i = ring_slot t in
     if quorum_tick hc ! i = t \<and> bit (quorum_seen hc ! i) s then Some (quorum_digest hc ! i ! s) else None)"

text \<open>Every required digest of a tick is known, and they are all the same.\<close>

definition agreed :: "RNetHashConfirm \<Rightarrow> u32 \<Rightarrow> bool" where
  "agreed hc t \<longleftrightarrow> (\<exists>d. rnet_hc_local_digest hc t = Some d \<and>
     (if rnet_hc_peer_mask hc = 0 then rnet_hc_peer_digest hc t = Some d
      else \<forall>s. bit (rnet_hc_peer_mask hc) s \<longrightarrow> seat_commit hc s t = Some d))"

lemma peer_at_sound:
  assumes "hc_inv hc" "peer_at hc t = Some d"
  shows "slot_sound hc (ring_slot t)" "peer_tick hc ! ring_slot t = t" "peer_digest hc ! ring_slot t = d"
  using assms by (auto simp: peer_at_def hc_inv_def Let_def split: if_splits)

lemma matched_agreed:
  assumes "hc_ok hc"
  shows "matched hc t \<longleftrightarrow> agreed hc t"
proof (cases "peer_mask hc = 0")
  case True
  with peer_at_sound [OF hc_okD(3) [OF assms], of t] show ?thesis
    by (cases "peer_at hc t")
       (auto simp: matched_def agreed_def rnet_hc_local_digest_def rnet_hc_peer_digest_def
          rnet_hc_peer_mask_def slot_sound_def)
next
  case mask: False
  let ?i = "ring_slot t"
  show ?thesis
  proof
    assume "matched hc t"
    then obtain d where d: "local_at hc t = Some d" "peer_at hc t = Some d" "\<not> quorum_conflict hc ! ?i"
      by (auto simp: matched_def)
    with peer_at_sound [OF hc_okD(3) [OF assms] d(2)] mask
    have "seat_commit hc s t = Some d" if "bit (peer_mask hc) s" for s
      using that by (auto simp: slot_sound_def seat_commit_def Let_def)
    with d mask show "agreed hc t" by (simp add: agreed_def rnet_hc_local_digest_def rnet_hc_peer_mask_def)
  next
    assume "agreed hc t"
    with mask obtain d where d: "local_at hc t = Some d"
      "\<And>s. bit (peer_mask hc) s \<Longrightarrow> quorum_tick hc ! ?i = t \<and> bit (quorum_seen hc ! ?i) s \<and>
         quorum_digest hc ! ?i ! s = d"
      by (auto simp: agreed_def rnet_hc_local_digest_def rnet_hc_peer_mask_def seat_commit_def Let_def
            split: if_splits)
    with mask mask_has_bit [OF mask] assms have v: "peer_valid hc ! ?i" "peer_tick hc ! ?i = t"
      by (auto simp: hc_ok_def hc_complete_def)
    with assms have "slot_sound hc ?i" by (simp add: hc_ok_def hc_inv_def)
    with d(2) mask have "peer_digest hc ! ?i = d" "\<not> quorum_conflict hc ! ?i"
      by (auto simp: slot_sound_def)
    with v d(1) show "matched hc t" by (simp add: matched_def peer_at_def Let_def)
  qed
qed

lemma reported_scan_spec:
  "reported_scan hc i l ss = (case filter (\<lambda>s. bit (peer_mask hc) s \<and> quorum_digest hc ! i ! s \<noteq> l) ss of
     [] \<Rightarrow> peer_digest hc ! i | s # _ \<Rightarrow> quorum_digest hc ! i ! s)"
  by (induction ss) auto

lemma reported_scan_differs:
  assumes "\<forall>s. bit (peer_mask hc) s \<longrightarrow> s < 8" "bit (peer_mask hc) s" "quorum_digest hc ! i ! s \<noteq> l"
  obtains s' where "bit (peer_mask hc) s'" "quorum_digest hc ! i ! s' \<noteq> l"
    "reported_scan hc i l [0..<8] = quorum_digest hc ! i ! s'"
proof -
  let ?f = "filter (\<lambda>s. bit (peer_mask hc) s \<and> quorum_digest hc ! i ! s \<noteq> l) [0..<8]"
  from assms have "s \<in> set ?f" by simp
  then obtain s' ss where f: "?f = s' # ss" by (cases ?f) auto
  then have "s' \<in> set ?f" by (simp del: set_filter)
  then have "bit (peer_mask hc) s'" "quorum_digest hc ! i ! s' \<noteq> l" by simp_all
  moreover have "reported_scan hc i l [0..<8] = quorum_digest hc ! i ! s'"
    unfolding reported_scan_spec f by simp
  ultimately show thesis using that by blast
qed

lemma hc_run_ok: "hc_ok (foldl hc_step (hc_start m) opns)"
  by (rule hc_ops.run_inv [OF hc_ok_start])

lemma first_unconfirmed:
  "unat t = watermark hc \<longleftrightarrow>
      \<not> rnet_hc_confirm_through hc t \<and> (\<forall>u < t. rnet_hc_confirm_through hc u)"
proof
  assume r: "\<not> rnet_hc_confirm_through hc t \<and> (\<forall>u < t. rnet_hc_confirm_through hc u)"
  show "unat t = watermark hc"
  proof (cases "t = 0")
    case False
    then have s: "unat (t - 1) = unat t - 1" "t - 1 < t" "unat t > 0"
      by (auto simp: unat_minus_one word_less_nat_alt unat_gt_0)
    with r have "unat t - 1 < watermark hc" by (auto simp: confirm_watermark)
    with r s show ?thesis by (auto simp: confirm_watermark)
  qed (use r in \<open>auto simp: confirm_watermark\<close>)
qed (auto simp: confirm_watermark word_less_nat_alt)

lemma peek_first:
  assumes "hc_ok hc"
  shows "(\<exists>l p. rnet_hc_peek_mismatch hc = Some (t, l, p)) \<longleftrightarrow>
       \<not> rnet_hc_confirm_through hc t \<and> (\<forall>u < t. rnet_hc_confirm_through hc u) \<and>
       rnet_hc_local_digest hc t \<noteq> None \<and> rnet_hc_peer_digest hc t \<noteq> None"
  using hc_okD(2) [OF assms] unfolding conj_assoc [symmetric] first_unconfirmed [symmetric]
  by (auto simp: rnet_hc_peek_mismatch_def next_tick_watermark [symmetric] settled_def matched_def
        rnet_hc_local_digest_def rnet_hc_peer_digest_def split: option.splits if_splits)

lemma peek_report:
  assumes h: "hc_ok hc" and pk: "rnet_hc_peek_mismatch hc = Some (t, l, p)"
  shows "rnet_hc_local_digest hc t = Some l \<and> p \<noteq> l \<and>
       (if rnet_hc_peer_mask hc = 0 then rnet_hc_peer_digest hc t = Some p
        else \<exists>s. bit (rnet_hc_peer_mask hc) s \<and> seat_commit hc s t = Some p)"
proof -
  from pk obtain pd where d: "next_tick hc = Some t" "local_at hc t = Some l" "peer_at hc t = Some pd"
    "l \<noteq> pd \<or> quorum_conflict hc ! ring_slot t" "p = reported_peer hc (ring_slot t) l"
    by (auto simp: rnet_hc_peek_mismatch_def split: option.splits if_splits)
  note sound = peer_at_sound [OF hc_okD(3) [OF h] d(3)]
  have m8: "\<forall>s. bit (peer_mask hc) s \<longrightarrow> s < 8" using h by (simp add: hc_ok_def hc_inv_def)
  show ?thesis
  proof (cases "quorum_conflict hc ! ring_slot t")
    case True
    with sound have "peer_mask hc \<noteq> 0" by (auto simp: slot_sound_def)
    with True sound obtain s1 s2 where "bit (peer_mask hc) s1" "bit (peer_mask hc) s2"
      "quorum_digest hc ! ring_slot t ! s1 \<noteq> quorum_digest hc ! ring_slot t ! s2"
      by (auto simp: slot_sound_def)
    then obtain s where "bit (peer_mask hc) s" "quorum_digest hc ! ring_slot t ! s \<noteq> l" by metis
    with m8 obtain s' where s': "bit (peer_mask hc) s'" "quorum_digest hc ! ring_slot t ! s' \<noteq> l"
      "reported_scan hc (ring_slot t) l [0..<8] = quorum_digest hc ! ring_slot t ! s'"
      by (rule reported_scan_differs)
    with sound True d \<open>peer_mask hc \<noteq> 0\<close> show ?thesis
      by (auto simp: reported_peer_def rnet_hc_local_digest_def rnet_hc_peer_mask_def slot_sound_def
            seat_commit_def Let_def)
  next
    case False
    with sound d show ?thesis
      by (auto simp: reported_peer_def rnet_hc_local_digest_def rnet_hc_peer_mask_def
            rnet_hc_peer_digest_def slot_sound_def seat_commit_def Let_def split: if_splits)
  qed
qed

section \<open>Properties\<close>

text \<open>
  C9. After any sequence of operations, recording a digest confirms exactly the ticks that were
  confirmed before and those up to which every unconfirmed tick is agreed: the local digest and
  the digest of every seat of the quorum are known and all the same. Nothing is confirmed on the
  word of some of the peers, and nothing agreed is held back.
\<close>

theorem confirm_through_exact:
  assumes "hc = foldl hc_step (hc_start m) opns"
    and "note = NoteLocal u d \<or> note = NotePeerFrom seat u d"
  shows "rnet_hc_confirm_through (hc_live_step hc note) t \<longleftrightarrow>
     rnet_hc_confirm_through hc t \<or>
     (\<forall>v. v \<le> t \<and> \<not> rnet_hc_confirm_through hc v \<longrightarrow> agreed (hc_live_step hc note) v)"
proof -
  have h: "hc_ok hc" unfolding assms(1) by (rule hc_run_ok)
  have "advanced hc (hc_live_step hc note)"
    using assms(2) note_local_advanced note_peer_from_advanced [OF hc_okD(1,2) [OF h]] by auto
  from advanced_exact [OF this] matched_agreed [OF hc_ok_live [OF h]] show ?thesis by simp
qed

theorem confirm_through_exact_witness:
  "rnet_hc_confirm_through (hc_live_step (foldl hc_step (hc_start 6)
      [Live (NoteLocal 0 7), Live (NotePeerFrom 1 0 7)]) (NotePeerFrom 2 0 7)) 0 \<longleftrightarrow>
   rnet_hc_confirm_through (foldl hc_step (hc_start 6) [Live (NoteLocal 0 7), Live (NotePeerFrom 1 0 7)]) 0 \<or>
   (\<forall>v. v \<le> 0 \<and> \<not> rnet_hc_confirm_through (foldl hc_step (hc_start 6)
        [Live (NoteLocal 0 7), Live (NotePeerFrom 1 0 7)]) v \<longrightarrow>
      agreed (hc_live_step (foldl hc_step (hc_start 6)
        [Live (NoteLocal 0 7), Live (NotePeerFrom 1 0 7)]) (NotePeerFrom 2 0 7)) v)"
  by (rule confirm_through_exact [OF refl, where u = 0 and d = 7 and seat = 2]) simp

text \<open>
  C20. A confirmed tick stays confirmed: notes and gap healing only ever raise the watermark; only
  a reset or a priming lowers it.
\<close>

theorem confirmed_stays:
  assumes "hc = foldl hc_step (hc_start m) opns" "rnet_hc_confirm_through hc t"
  shows "rnet_hc_confirm_through (foldl hc_live_step hc lops) t"
  using assms hc_run.run_mark [of hc lops] hc_run_ok [of m opns] by (simp add: confirm_watermark)

theorem confirmed_stays_witness:
  "rnet_hc_confirm_through (foldl hc_live_step (foldl hc_step (hc_start 0) [PrimeAfter 9]) [NoteLocal 3 4]) 5"
  by (rule confirmed_stays [OF refl])
     (simp add: hc_start_def rnet_hc_prime_after_def rnet_hc_confirm_through_def)

text \<open>
  C21. A mismatch is reported exactly when the first unconfirmed tick has both a local and a
  complete peer digest, and the report is genuine: the local digest is the one recorded and the
  peer digest, which differs from it, is the peer's or some masked seat's commit for that tick.
\<close>

theorem peek_mismatch_genuine:
  assumes "hc = foldl hc_step (hc_start m) opns"
  shows "((\<exists>l p. rnet_hc_peek_mismatch hc = Some (t, l, p)) \<longleftrightarrow>
       \<not> rnet_hc_confirm_through hc t \<and> (\<forall>u < t. rnet_hc_confirm_through hc u) \<and>
       rnet_hc_local_digest hc t \<noteq> None \<and> rnet_hc_peer_digest hc t \<noteq> None) \<and>
     (rnet_hc_peek_mismatch hc = Some (t, l, p) \<longrightarrow>
       rnet_hc_local_digest hc t = Some l \<and> p \<noteq> l \<and>
       (if rnet_hc_peer_mask hc = 0 then rnet_hc_peer_digest hc t = Some p
        else \<exists>s. bit (rnet_hc_peer_mask hc) s \<and> seat_commit hc s t = Some p))"
  unfolding assms using peek_first [OF hc_run_ok] peek_report [OF hc_run_ok] by blast

theorem peek_mismatch_genuine_witness:
  "let hc = foldl hc_step (hc_start 6)
     [Live (NoteLocal 0 7), Live (NotePeerFrom 1 0 7), Live (NotePeerFrom 2 0 8)] in
   rnet_hc_peek_mismatch hc = Some (0, 7, 8) \<and>
   (\<exists>s. bit (rnet_hc_peer_mask hc) s \<and> seat_commit hc s 0 = Some 8)"
proof -
  let ?hc = "foldl hc_step (hc_start 6)
     [Live (NoteLocal 0 7), Live (NotePeerFrom 1 0 7), Live (NotePeerFrom 2 0 8)]"
  have "rnet_hc_peek_mismatch ?hc = Some (0, 7, 8) \<and> rnet_hc_peer_mask ?hc = 6" by code_simp
  with peek_mismatch_genuine [OF refl, of 6 "[Live (NoteLocal 0 7), Live (NotePeerFrom 1 0 7),
      Live (NotePeerFrom 2 0 8)]" 0 7 8]
  show ?thesis by (simp add: Let_def)
qed

text \<open>
  C22. Gap healing: when it moves the watermark, the new one is an agreed tick above the old one,
  the next tick was known to neither side, every tick above the old watermark with both digests
  in the rings is agreed and at most the new watermark.
\<close>

theorem heal_stale_gap_spec:
  assumes "hc = foldl hc_step (hc_start m) opns" "rnet_hc_heal_stale_gap hc = Some hc'"
  shows "let old = rnet_hc_resolved_through hc; nw = rnet_hc_resolved_through hc' in
     old < nw \<and> agreed hc nw \<and>
     rnet_hc_local_digest hc (old + 1) = None \<and> rnet_hc_peer_digest hc (old + 1) = None \<and>
     (\<forall>t > old. rnet_hc_local_digest hc t \<noteq> None \<and> rnet_hc_peer_digest hc t \<noteq> None \<longrightarrow>
        agreed hc t \<and> t \<le> nw)"
proof -
  have h: "hc_ok hc" unfolding assms by (rule hc_run_ok)
  note len = hc_okD(1) [OF h]
  from heal_cases [OF len assms(2)] obtain best where
    b: "hc' = hc\<lparr>resolved_through := best\<rparr>" "resolved_valid hc" "best > resolved_through hc"
      "local_at hc (resolved_through hc + 1) = None" "peer_at hc (resolved_through hc + 1) = None"
    and at: "\<exists>i < 128. live_index hc i \<and> agrees_index hc i \<and> local_tick hc ! i = best"
    and top: "\<And>i. i < 128 \<Longrightarrow> live_index hc i \<Longrightarrow> agrees_index hc i \<and> local_tick hc ! i \<le> best"
    by metis
  have live: "matched hc t \<and> t \<le> best"
    if "t > resolved_through hc" "local_at hc t \<noteq> None" "peer_at hc t \<noteq> None" for t
    using ring_entry [OF len that(2,3)] top [of "ring_slot t"] that
    by (auto simp: live_index_def agrees_index_def matched_def local_at_def peer_at_def Let_def)
  from at obtain i where i: "i < 128" "live_index hc i" "agrees_index hc i" "local_tick hc ! i = best"
    by blast
  with h have "ring_slot best = i" by (auto simp: hc_ok_def hc_placed_def live_index_def)
  with i have "matched hc best"
    by (auto simp: live_index_def agrees_index_def matched_def local_at_def peer_at_def Let_def)
  with b live matched_agreed [OF h] show ?thesis
    by (auto simp: Let_def rnet_hc_resolved_through_def rnet_hc_local_digest_def rnet_hc_peer_digest_def)
qed

theorem heal_stale_gap_spec_witness:
  "let hc = foldl hc_step (hc_start 0) [PrimeAfter 0, Live (NoteLocal 5 7), Live (NotePeerFrom 1 5 7)];
       hc' = hc\<lparr>resolved_through := 5\<rparr> in
   rnet_hc_heal_stale_gap hc = Some hc' \<and> rnet_hc_resolved_through hc' = 5 \<and> agreed hc 5"
proof -
  let ?ops = "[PrimeAfter 0, Live (NoteLocal 5 7), Live (NotePeerFrom 1 5 7)]"
  let ?hc = "foldl hc_step (hc_start 0) ?ops"
  let ?hc' = "?hc\<lparr>resolved_through := 5\<rparr>"
  have r: "rnet_hc_resolved_through ?hc' = 5" by code_simp
  have h: "rnet_hc_heal_stale_gap ?hc = Some ?hc'" by code_simp
  with r heal_stale_gap_spec [OF refl h] show ?thesis by (simp add: Let_def)
qed

text \<open>
  The watermark can therefore cover ticks that never matched: two peers that noted only
  ticks 0 and 5 end with tick 3 confirmed, although neither side holds a digest for it.
\<close>

theorem heal_confirms_unmatched:
  "let hc = foldl hc_live_step (hc_start 0)
     [NoteLocal 0 9, NotePeerFrom 1 0 9, NoteLocal 5 7, NotePeerFrom 1 5 7, HealGap] in
   rnet_hc_confirm_through hc 3 \<and> rnet_hc_local_digest hc 3 = None \<and> rnet_hc_peer_digest hc 3 = None"
  by code_simp

end
