(* ===== verification/RNet_Rollback.thy ===== *)
theory RNet_Rollback
  imports RNet_History RNet_Interfaces
begin

text \<open>
  The episode core of rollback (\<^verbatim>\<open>src/rollback/rnet_rollback.c\<close>): the phase machine, the sealed input
  table, the per-seat completion masks, the resolved-through frontier and the event queue. The
  table is the flat array of the source, indexed by \<^verbatim>\<open>offset * 8 + slot\<close>. The only callback the core
  makes, \<^verbatim>\<open>get_input_row\<close>, reads the host's history at the moment of the call, so it is an argument
  \<open>gir\<close> of every operation that calls it; \<open>None\<close> is its 0 return. Allocation succeeds.
\<close>

section \<open>Data\<close>

datatype RNetRbPhase =
    nRNetRbPhaseLive | nRNetRbPhaseSealInputs | nRNetRbPhaseAwaitingBaseline | nRNetRbPhaseReplay
  | nRNetRbPhaseVerify | nRNetRbPhaseTipHold | nRNetRbPhaseCommit | nRNetRbPhaseAbort

datatype RNetRbEventType =
    nRNetRbEventNone | nRNetRbEventInputMismatch | nRNetRbEventPeerSymmetric
  | nRNetRbEventStateDiverge | nRNetRbEventFrameCommit

record RNetRbCorrection =
  co_epoch_id :: u32
  co_mismatch_tick :: u32
  co_load_tick :: u32
  co_target_tick :: u32
  co_slot :: int
  co_initiator :: u8
  co_from_peer_notify :: u8
  co_flags :: u8

record RNetRbEvent =
  ev_type :: RNetRbEventType
  ev_slot :: int
  ev_mismatch_tick :: u32
  ev_target_tick :: u32
  ev_load_tick :: u32
  ev_epoch_id :: u32
  ev_follower_local_auth :: u8

record RNetRbConfig =
  rc_local_slot :: u32
  rc_delay :: u32
  rc_seal_max_span :: u32
  rc_slot_count :: u32
  rc_tip_runway :: u32
  rc_tip_seal_slack :: u32
  rc_light_tip_max_depth :: u32
  rc_occupied_mask :: u32

type_synonym get_input_row = "int \<Rightarrow> u32 \<Rightarrow> RNetRbFrame option"

text \<open>Of the host's callbacks, whether the required ones are set, and the stick gates.\<close>

record RNetRollbackVTable =
  vt_load_state :: bool
  vt_advance_sim :: bool
  vt_get_input_row :: bool
  vt_stick_gates :: RNetInputContractHostGates

record RNetRbSession =
  rs_cfg :: RNetRbConfig
  rs_vt :: RNetRollbackVTable
  rs_phase :: RNetRbPhase
  rs_corr :: RNetRbCorrection
  rs_sealed :: "RNetRbFrame list"
  rs_sealed_span :: u32
  rs_seal_base_tick :: u32
  rs_inputs_sealed :: bool
  rs_peer_seal_mask :: "u64 list"
  rs_resolved_through :: u32
  rs_events :: "RNetRbEvent list"
  rs_event_head :: nat
  rs_event_tail :: nat

abbreviation local_slot :: "RNetRbSession \<Rightarrow> u32" where
  "local_slot s \<equiv> rc_local_slot (rs_cfg s)"

abbreviation target_tick :: "RNetRbSession \<Rightarrow> u32" where
  "target_tick s \<equiv> co_target_tick (rs_corr s)"

definition rnet_rb_seal_index :: "nat \<Rightarrow> nat \<Rightarrow> nat" where
  "rnet_rb_seal_index offset slot = offset * 8 + slot"

definition rnet_rb_slot_valid :: "int \<Rightarrow> bool" where
  "rnet_rb_slot_valid slot \<longleftrightarrow> slot \<ge> 0 \<and> slot < 8"

definition zero_correction :: RNetRbCorrection where
  "zero_correction = \<lparr>co_epoch_id = 0, co_mismatch_tick = 0, co_load_tick = 0, co_target_tick = 0,
     co_slot = 0, co_initiator = 0, co_from_peer_notify = 0, co_flags = 0\<rparr>"

definition zero_event :: RNetRbEvent where
  "zero_event = \<lparr>ev_type = nRNetRbEventNone, ev_slot = 0, ev_mismatch_tick = 0, ev_target_tick = 0,
     ev_load_tick = 0, ev_epoch_id = 0, ev_follower_local_auth = 0\<rparr>"

section \<open>Lifecycle\<close>

definition rnet_rb_session_reset :: "RNetRbSession \<Rightarrow> RNetRbSession" where
  "rnet_rb_session_reset s =
     s\<lparr>rs_phase := nRNetRbPhaseLive, rs_corr := zero_correction\<lparr>co_slot := -1\<rparr>,
       rs_sealed_span := 0, rs_seal_base_tick := 0, rs_inputs_sealed := False,
       rs_peer_seal_mask := replicate 8 0, rs_event_head := 0, rs_event_tail := 0\<rparr>"

text \<open>The clamping of the configuration; \<open>None\<close> is the refusal of a local seat that does not exist.\<close>

definition clamp_config :: "RNetRbConfig \<Rightarrow> RNetRbConfig option" where
  "clamp_config c =
     (let max_span = (if rc_seal_max_span c = 0 \<or> rc_seal_max_span c > 64 then 64 else rc_seal_max_span c);
          slots = (if rc_slot_count c = 0 then 2 else rc_slot_count c);
          slots = (if slots > 8 then 8 else slots) in
      if rc_local_slot c > slots then None
      else
        let runway = (if rc_tip_runway c > 32 then 32 else rc_tip_runway c);
            slack = (if rc_tip_seal_slack c = 0 \<and> runway > 0 then 2
                     else if rc_tip_seal_slack c = 0xffffffff then 0 else rc_tip_seal_slack c);
            slack = (if slack > 8 then 8 else slack);
            depth = (if rc_light_tip_max_depth c = 0 then 16 else rc_light_tip_max_depth c);
            depth = (if depth > 32 then 32 else depth) in
        Some (c\<lparr>rc_seal_max_span := max_span, rc_slot_count := slots, rc_tip_runway := runway,
               rc_tip_seal_slack := slack, rc_light_tip_max_depth := depth\<rparr>))"

definition rnet_rb_create :: "RNetRbConfig \<Rightarrow> RNetRollbackVTable \<Rightarrow> RNetRbSession option" where
  "rnet_rb_create cfg vt =
     (if \<not> vt_load_state vt \<or> \<not> vt_advance_sim vt \<or> \<not> vt_get_input_row vt then None
      else case clamp_config cfg of
        None \<Rightarrow> None
      | Some c \<Rightarrow> Some (rnet_rb_session_reset
          \<lparr>rs_cfg = c, rs_vt = vt, rs_phase = nRNetRbPhaseLive, rs_corr = zero_correction,
           rs_sealed = replicate (unat (rc_seal_max_span c) * 8) zero_frame, rs_sealed_span = 0,
           rs_seal_base_tick = 0, rs_inputs_sealed = False, rs_peer_seal_mask = replicate 8 0,
           rs_resolved_through = 0, rs_events = replicate 8 zero_event, rs_event_head = 0,
           rs_event_tail = 0\<rparr>))"

section \<open>Phase and tuple queries\<close>

definition rnet_rb_get_phase :: "RNetRbSession \<Rightarrow> RNetRbPhase" where
  "rnet_rb_get_phase s = rs_phase s"

definition rnet_rb_is_active :: "RNetRbSession \<Rightarrow> bool" where
  "rnet_rb_is_active s \<longleftrightarrow> rs_phase s \<noteq> nRNetRbPhaseLive"

definition rnet_rb_is_resimulating :: "RNetRbSession \<Rightarrow> bool" where
  "rnet_rb_is_resimulating s \<longleftrightarrow> rs_phase s = nRNetRbPhaseAwaitingBaseline \<or>
     rs_phase s = nRNetRbPhaseReplay \<or> rs_phase s = nRNetRbPhaseVerify"

definition rnet_rb_is_tip_holding :: "RNetRbSession \<Rightarrow> bool" where
  "rnet_rb_is_tip_holding s \<longleftrightarrow> rs_phase s = nRNetRbPhaseTipHold"

definition rnet_rb_get_tip_runway :: "RNetRbSession \<Rightarrow> u32" where
  "rnet_rb_get_tip_runway s = rc_tip_runway (rs_cfg s)"

definition rnet_rb_get_tip_seal_slack :: "RNetRbSession \<Rightarrow> u32" where
  "rnet_rb_get_tip_seal_slack s = rc_tip_seal_slack (rs_cfg s)"

definition rnet_rb_get_light_tip_max_depth :: "RNetRbSession \<Rightarrow> u32" where
  "rnet_rb_get_light_tip_max_depth s = rc_light_tip_max_depth (rs_cfg s)"

definition rnet_rb_get_epoch_id :: "RNetRbSession \<Rightarrow> u32" where
  "rnet_rb_get_epoch_id s = co_epoch_id (rs_corr s)"

definition rnet_rb_get_mismatch_tick :: "RNetRbSession \<Rightarrow> u32" where
  "rnet_rb_get_mismatch_tick s = co_mismatch_tick (rs_corr s)"

definition rnet_rb_get_load_tick :: "RNetRbSession \<Rightarrow> u32" where
  "rnet_rb_get_load_tick s = co_load_tick (rs_corr s)"

definition rnet_rb_get_target_tick :: "RNetRbSession \<Rightarrow> u32" where
  "rnet_rb_get_target_tick s = target_tick s"

definition rnet_rb_is_observer :: "RNetRbSession \<Rightarrow> bool" where
  "rnet_rb_is_observer s \<longleftrightarrow> local_slot s \<ge> rc_slot_count (rs_cfg s)"

definition rnet_rb_get_corrected_slot :: "RNetRbSession \<Rightarrow> int" where
  "rnet_rb_get_corrected_slot s = co_slot (rs_corr s)"

definition rnet_rb_is_from_peer_notify :: "RNetRbSession \<Rightarrow> bool" where
  "rnet_rb_is_from_peer_notify s \<longleftrightarrow> co_from_peer_notify (rs_corr s) \<noteq> 0"

definition rnet_rb_get_corr_flags :: "RNetRbSession \<Rightarrow> u8" where
  "rnet_rb_get_corr_flags s = co_flags (rs_corr s)"

definition rnet_rb_is_light_tip_candidate_ex :: "u32 \<Rightarrow> u32 \<Rightarrow> u32 \<Rightarrow> u32 \<Rightarrow> bool" where
  "rnet_rb_is_light_tip_candidate_ex load_tick target resolved max_depth =
     (if target < load_tick then False
      else
        let depth = target - load_tick in
        if depth > max_depth then False
        else if resolved = 0 then depth \<le> 2
        else load_tick \<ge> resolved)"

definition rnet_rb_is_light_tip_candidate :: "u32 \<Rightarrow> u32 \<Rightarrow> u32 \<Rightarrow> bool" where
  "rnet_rb_is_light_tip_candidate load_tick target resolved =
     rnet_rb_is_light_tip_candidate_ex load_tick target resolved 16"

definition rnet_rb_recommend_light_tip :: "RNetRbSession \<Rightarrow> bool" where
  "rnet_rb_recommend_light_tip s \<longleftrightarrow> co_flags (rs_corr s) AND 0x01 \<noteq> 0"

definition rnet_rb_suggest_target :: "RNetRbSession \<Rightarrow> u32 \<Rightarrow> u32 \<Rightarrow> u32" where
  "rnet_rb_suggest_target s mismatch_tick sim_tip =
     (let target = (if sim_tip > mismatch_tick then sim_tip else mismatch_tick);
          slack = rc_tip_seal_slack (rs_cfg s) in
      if slack > 0 \<and> target \<le> 0xffffffff - slack then target + slack else target)"

definition rnet_rb_begin_episode :: "RNetRbSession \<Rightarrow> RNetRbCorrection \<Rightarrow> RNetRbSession" where
  "rnet_rb_begin_episode s corr =
     s\<lparr>rs_corr := (if co_from_peer_notify corr = 0 \<and>
          rnet_rb_is_light_tip_candidate_ex (co_load_tick corr) (co_target_tick corr)
            (rs_resolved_through s) (rc_light_tip_max_depth (rs_cfg s))
        then corr\<lparr>co_flags := co_flags corr OR 0x01\<rparr> else corr),
       rs_inputs_sealed := False, rs_sealed_span := 0, rs_peer_seal_mask := replicate 8 0,
       rs_phase := nRNetRbPhaseSealInputs\<rparr>"

section \<open>Sealing\<close>

definition put_row :: "RNetRbSession \<Rightarrow> nat \<Rightarrow> nat \<Rightarrow> RNetRbFrame \<Rightarrow> RNetRbSession" where
  "put_row s offset slot row =
     s\<lparr>rs_sealed := (rs_sealed s)[rnet_rb_seal_index offset slot := row]\<rparr>"

definition credit :: "RNetRbSession \<Rightarrow> nat \<Rightarrow> nat \<Rightarrow> RNetRbSession" where
  "credit s offset slot =
     s\<lparr>rs_peer_seal_mask := (rs_peer_seal_mask s)[slot := rs_peer_seal_mask s ! slot OR push_bit offset 1]\<rparr>"

definition rnet_rb_fill_local_row ::
  "get_input_row \<Rightarrow> RNetRbSession \<Rightarrow> u32 \<Rightarrow> nat \<Rightarrow> nat \<Rightarrow> RNetRbSession" where
  "rnet_rb_fill_local_row gir s tick offset slot =
     (let cleared = put_row s offset slot (zero_frame\<lparr>fr_tick := tick\<rparr>) in
      if of_nat slot = local_slot s then
        (case gir (int slot) tick of
           Some row \<Rightarrow> put_row s offset slot (row\<lparr>fr_tick := tick\<rparr>)
         | None \<Rightarrow> cleared)
      else
        (case gir (int slot) tick of
           Some row \<Rightarrow>
             if fr_is_valid row \<noteq> 0 \<and> fr_is_predicted row = 0 then
               let filled = put_row s offset slot (row\<lparr>fr_tick := tick\<rparr>) in
               if offset < 64 then credit filled offset slot else filled
             else cleared
         | None \<Rightarrow> cleared))"

text \<open>The two nested loops of sealing and extending, over the offsets \<open>a \<le> offset < b\<close>.\<close>

definition fill_offset :: "get_input_row \<Rightarrow> u32 \<Rightarrow> RNetRbSession \<Rightarrow> nat \<Rightarrow> RNetRbSession" where
  "fill_offset gir begin_tick s offset =
     foldl (\<lambda>s slot. rnet_rb_fill_local_row gir s (begin_tick + of_nat offset) offset slot) s
       [0..<unat (rc_slot_count (rs_cfg s))]"

definition fill_span :: "get_input_row \<Rightarrow> u32 \<Rightarrow> RNetRbSession \<Rightarrow> nat \<Rightarrow> nat \<Rightarrow> RNetRbSession" where
  "fill_span gir begin_tick s a b = foldl (fill_offset gir begin_tick) s [a..<b]"

definition rnet_rb_can_extend_target :: "RNetRbSession \<Rightarrow> u32 \<Rightarrow> bool" where
  "rnet_rb_can_extend_target s new_target =
     (if \<not> rs_inputs_sealed s then False
      else if rs_phase s = nRNetRbPhaseLive \<or> rs_phase s = nRNetRbPhaseCommit \<or>
              rs_phase s = nRNetRbPhaseAbort then False
      else if new_target \<le> target_tick s then True
      else if new_target < rs_seal_base_tick s then False
      else if new_target - rs_seal_base_tick s \<ge> rc_seal_max_span (rs_cfg s) then False
      else True)"

definition verify_to_replay :: "RNetRbSession \<Rightarrow> RNetRbSession" where
  "verify_to_replay s =
     (if rs_phase s = nRNetRbPhaseVerify then s\<lparr>rs_phase := nRNetRbPhaseReplay\<rparr> else s)"

definition rnet_rb_extend_target ::
  "get_input_row \<Rightarrow> RNetRbSession \<Rightarrow> u32 \<Rightarrow> bool \<times> RNetRbSession" where
  "rnet_rb_extend_target gir s new_target =
     (if \<not> rnet_rb_can_extend_target s new_target then (False, s)
      else if new_target \<le> target_tick s then (True, verify_to_replay s)
      else
        let new_span = new_target - rs_seal_base_tick s + 1;
            s' = fill_span gir (rs_seal_base_tick s) s (unat (rs_sealed_span s)) (unat new_span) in
        (True, verify_to_replay (s'\<lparr>rs_sealed_span := new_span,
           rs_corr := (rs_corr s')\<lparr>co_target_tick := new_target\<rparr>\<rparr>)))"

definition rnet_rb_commit_promote_sealed :: "RNetRbSession \<Rightarrow> RNetRbSession" where
  "rnet_rb_commit_promote_sealed s =
     (if target_tick s > rs_resolved_through s then s\<lparr>rs_resolved_through := target_tick s\<rparr> else s)"

definition rnet_rb_enter_tip_hold :: "RNetRbSession \<Rightarrow> bool \<times> RNetRbSession" where
  "rnet_rb_enter_tip_hold s =
     (if rs_phase s \<noteq> nRNetRbPhaseVerify \<or> \<not> rs_inputs_sealed s then (False, s)
      else (True, (rnet_rb_commit_promote_sealed s)\<lparr>rs_phase := nRNetRbPhaseTipHold\<rparr>))"

text \<open>One iteration of the re-signing loop.\<close>

definition resign_offset ::
  "get_input_row \<Rightarrow> nat \<Rightarrow> u32 \<Rightarrow> u32 \<Rightarrow> RNetRbSession \<Rightarrow> nat \<Rightarrow> RNetRbSession" where
  "resign_offset gir slot from_tick to_tick s offset =
     (let tick = rs_seal_base_tick s + of_nat offset in
      if tick < from_tick \<or> tick > to_tick then s
      else (case gir (int slot) tick of
        None \<Rightarrow> s
      | Some row \<Rightarrow>
          if of_nat slot \<noteq> local_slot s \<and> (fr_is_valid row = 0 \<or> fr_is_predicted row \<noteq> 0) then s
          else
            let s' = put_row s offset slot (row\<lparr>fr_tick := tick\<rparr>) in
            if fr_is_valid row \<noteq> 0 \<and> (of_nat slot = local_slot s \<or> fr_is_predicted row = 0)
            then credit s' offset slot else s'))"

definition rnet_rb_resign_slot_range ::
  "get_input_row \<Rightarrow> RNetRbSession \<Rightarrow> int \<Rightarrow> u32 \<Rightarrow> u32 \<Rightarrow> bool \<times> RNetRbSession" where
  "rnet_rb_resign_slot_range gir s slot from_tick to_tick =
     (if \<not> rs_inputs_sealed s \<or> \<not> rnet_rb_slot_valid slot then (False, s)
      else if to_tick < from_tick then (False, s)
      else (True, foldl (resign_offset gir (nat slot) from_tick to_tick) s
              [0..<unat (rs_sealed_span s)]))"

definition rnet_rb_set_phase :: "RNetRbSession \<Rightarrow> RNetRbPhase \<Rightarrow> RNetRbSession" where
  "rnet_rb_set_phase s phase =
     (let s' = s\<lparr>rs_phase := phase\<rparr> in
      if phase = nRNetRbPhaseCommit \<or> phase = nRNetRbPhaseAbort then
        if target_tick s' > rs_resolved_through s' then s'\<lparr>rs_resolved_through := target_tick s'\<rparr> else s'
      else s')"

definition rnet_rb_decide_stick_replace ::
  "RNetRbSession \<Rightarrow> RNetInputContractFrame \<Rightarrow> RNetInputContractFrame \<Rightarrow> bool \<Rightarrow> RNetInputContractDecision" where
  "rnet_rb_decide_stick_replace s published wire completed_sim =
     rnet_input_contract_stick_replace_decide published wire completed_sim
       rnet_input_contract_params_init_defaults (Some (vt_stick_gates (rs_vt s)))"

definition rnet_rb_seal_inputs :: "get_input_row \<Rightarrow> RNetRbSession \<Rightarrow> u32 \<Rightarrow> u32 \<Rightarrow> RNetRbSession" where
  "rnet_rb_seal_inputs gir s begin_tick target =
     (let s0 = s\<lparr>rs_inputs_sealed := False, rs_sealed_span := 0, rs_peer_seal_mask := replicate 8 0\<rparr> in
      if target < begin_tick \<or> target - begin_tick \<ge> rc_seal_max_span (rs_cfg s) then s0
      else
        let span = target - begin_tick + 1;
            s1 = fill_span gir begin_tick (s0\<lparr>rs_seal_base_tick := begin_tick\<rparr>) 0 (unat span) in
        s1\<lparr>rs_sealed_span := span, rs_inputs_sealed := True,
           rs_corr := (rs_corr s1)\<lparr>co_target_tick := target\<rparr>\<rparr>)"

definition rnet_rb_inputs_sealed :: "RNetRbSession \<Rightarrow> bool" where
  "rnet_rb_inputs_sealed s = rs_inputs_sealed s"

definition rnet_rb_tick_in_sealed_span :: "RNetRbSession \<Rightarrow> u32 \<Rightarrow> bool" where
  "rnet_rb_tick_in_sealed_span s tick =
     (if \<not> rs_inputs_sealed s then False
      else tick \<ge> rs_seal_base_tick s \<and> tick - rs_seal_base_tick s < rs_sealed_span s)"

definition rnet_rb_get_sealed_frame :: "RNetRbSession \<Rightarrow> int \<Rightarrow> u32 \<Rightarrow> RNetRbFrame option" where
  "rnet_rb_get_sealed_frame s slot tick =
     (if \<not> rnet_rb_tick_in_sealed_span s tick \<or> \<not> rnet_rb_slot_valid slot then None
      else
        let out = rs_sealed s ! rnet_rb_seal_index (unat (tick - rs_seal_base_tick s)) (nat slot) in
        if fr_is_valid out \<noteq> 0 then Some out else None)"

definition rnet_rb_get_seal_span :: "RNetRbSession \<Rightarrow> u32" where
  "rnet_rb_get_seal_span s = rs_sealed_span s"

definition rnet_rb_get_seal_base_tick :: "RNetRbSession \<Rightarrow> u32" where
  "rnet_rb_get_seal_base_tick s = rs_seal_base_tick s"

section \<open>Exchange of sealed rows\<close>

text \<open>The row loop of \<open>rnet_rb_apply_peer_seal_rows\<close>, from offset \<open>offset\<close> on.\<close>

fun apply_rows :: "RNetRbSession \<Rightarrow> nat \<Rightarrow> u32 \<Rightarrow> RNetRbFrame list \<Rightarrow> RNetRbSession" where
  "apply_rows s slot offset [] = s"
| "apply_rows s slot offset (row # rows) =
     (if offset \<ge> rs_sealed_span s then s
      else if fr_is_valid row = 0 then apply_rows s slot (offset + 1) rows
      else
        let o' = unat offset; dst = rs_sealed s ! rnet_rb_seal_index o' slot in
        if fr_is_predicted row \<noteq> 0 \<and> fr_is_valid dst \<noteq> 0 \<and> fr_is_predicted dst = 0
        then apply_rows (credit s o' slot) slot (offset + 1) rows
        else apply_rows (credit (put_row s o' slot (row\<lparr>fr_tick := rs_seal_base_tick s + offset\<rparr>)) o' slot)
               slot (offset + 1) rows)"

definition rnet_rb_apply_peer_seal_rows ::
  "get_input_row \<Rightarrow> RNetRbSession \<Rightarrow> u32 \<Rightarrow> u32 \<Rightarrow> u32 \<Rightarrow> int \<Rightarrow> u32 \<Rightarrow> RNetRbFrame list
   \<Rightarrow> bool \<times> RNetRbSession" where
  "rnet_rb_apply_peer_seal_rows gir s epoch_id mismatch_tick target slot row_begin rows =
     (if \<not> rnet_rb_inputs_sealed s \<or> \<not> rnet_rb_slot_valid slot then (False, s)
      else if epoch_id \<noteq> co_epoch_id (rs_corr s) \<or> mismatch_tick \<noteq> rs_seal_base_tick s then (False, s)
      else if target < target_tick s then (False, s)
      else
        let (ok, s') = (if target > target_tick s then rnet_rb_extend_target gir s target else (True, s)) in
        if \<not> ok then (False, s')
        else (True, apply_rows s' (nat slot) row_begin rows))"

definition rnet_rb_seat_row_authoritative :: "RNetRbSession \<Rightarrow> int \<Rightarrow> u32 \<Rightarrow> bool" where
  "rnet_rb_seat_row_authoritative s slot tick =
     (if \<not> rnet_rb_tick_in_sealed_span s tick \<or> \<not> rnet_rb_slot_valid slot then False
      else
        let offset = unat (tick - rs_seal_base_tick s);
            row = rs_sealed s ! rnet_rb_seal_index offset (nat slot) in
        if of_int slot = local_slot s then fr_is_valid row \<noteq> 0
        else if offset < 64 \<and> rs_peer_seal_mask s ! nat slot AND push_bit offset 1 \<noteq> 0 then True
        else fr_is_valid row \<noteq> 0 \<and> fr_is_predicted row = 0)"

definition rnet_rb_peer_seal_rows_complete :: "RNetRbSession \<Rightarrow> int \<Rightarrow> bool" where
  "rnet_rb_peer_seal_rows_complete s slot =
     (if \<not> rnet_rb_inputs_sealed s \<or> \<not> rnet_rb_slot_valid slot then False
      else
        let want = (if rs_sealed_span s \<ge> 64 then NOT 0
                    else push_bit (unat (rs_sealed_span s)) 1 - 1) in
        rs_peer_seal_mask s ! nat slot AND want = want)"

definition rnet_rb_expected_peer_mask :: "RNetRbSession \<Rightarrow> u32" where
  "rnet_rb_expected_peer_mask s =
     (let n = rc_slot_count (rs_cfg s); n = (if n = 0 \<or> n > 8 then 8 else n);
          m = (if n \<ge> 32 then 0xffffffff else push_bit (unat n) 1 - 1);
          m = (if rc_occupied_mask (rs_cfg s) \<noteq> 0 then m AND rc_occupied_mask (rs_cfg s) else m) in
      if local_slot s < n then m AND NOT (push_bit (unat (local_slot s)) 1) else m)"

fun seats_complete :: "RNetRbSession \<Rightarrow> u32 \<Rightarrow> nat list \<Rightarrow> bool" where
  "seats_complete s want [] = True"
| "seats_complete s want (slot # slots) =
     (if want AND push_bit slot 1 = 0 then seats_complete s want slots
      else if \<not> rnet_rb_peer_seal_rows_complete s (int slot) then False
      else seats_complete s want slots)"

definition rnet_rb_all_peer_seal_rows_complete :: "RNetRbSession \<Rightarrow> bool" where
  "rnet_rb_all_peer_seal_rows_complete s =
     (if \<not> rnet_rb_inputs_sealed s then False
      else seats_complete s (rnet_rb_expected_peer_mask s) [0..<8])"

definition rnet_rb_export_seal_rows_chunk ::
  "RNetRbSession \<Rightarrow> int \<Rightarrow> u32 \<Rightarrow> u32 \<Rightarrow> RNetRbFrame list option" where
  "rnet_rb_export_seal_rows_chunk s slot row_begin max_rows =
     (if \<not> rnet_rb_inputs_sealed s \<or> \<not> rnet_rb_slot_valid slot then None
      else if row_begin \<ge> rs_sealed_span s then Some []
      else
        let n = rs_sealed_span s - row_begin; n = (if n > max_rows then max_rows else n) in
        Some (map (\<lambda>i. rs_sealed s ! rnet_rb_seal_index (unat (row_begin + of_nat i)) (nat slot))
                [0..<unat n]))"

section \<open>Frontier, resolution and events\<close>

definition rnet_rb_resolved_through :: "RNetRbSession \<Rightarrow> u32" where
  "rnet_rb_resolved_through s = rs_resolved_through s"

definition rnet_rb_set_peer_convergence :: "RNetRbSession \<Rightarrow> u32 \<Rightarrow> RNetRbSession" where
  "rnet_rb_set_peer_convergence s peer_target =
     (if peer_target > rs_resolved_through s then s\<lparr>rs_resolved_through := peer_target\<rparr> else s)"

definition rnet_rb_demote_resolved_through :: "RNetRbSession \<Rightarrow> u32 \<Rightarrow> RNetRbSession" where
  "rnet_rb_demote_resolved_through s tick =
     (if tick < rs_resolved_through s then s\<lparr>rs_resolved_through := tick\<rparr> else s)"

definition rnet_rb_on_post_match :: "RNetRbSession \<Rightarrow> RNetRbSession" where
  "rnet_rb_on_post_match s = rnet_rb_set_phase (rnet_rb_commit_promote_sealed s) nRNetRbPhaseCommit"

definition rnet_rb_on_post_diverge :: "RNetRbSession \<Rightarrow> RNetRbSession" where
  "rnet_rb_on_post_diverge s = rnet_rb_set_phase s nRNetRbPhaseVerify"

definition rnet_rb_peer_post_tip_ok :: "u32 \<Rightarrow> u32 \<Rightarrow> bool" where
  "rnet_rb_peer_post_tip_ok peer_target episode_tip \<longleftrightarrow> peer_target = episode_tip"

definition rnet_rb_enqueue_event :: "RNetRbSession \<Rightarrow> RNetRbEvent \<Rightarrow> RNetRbSession" where
  "rnet_rb_enqueue_event s event =
     (let nxt = (rs_event_tail s + 1) mod 8 in
      if nxt = rs_event_head s then s
      else s\<lparr>rs_events := (rs_events s)[rs_event_tail s := event], rs_event_tail := nxt\<rparr>)"

definition rnet_rb_drain_next_event :: "RNetRbSession \<Rightarrow> (RNetRbEvent \<times> RNetRbSession) option" where
  "rnet_rb_drain_next_event s =
     (if rs_event_head s = rs_event_tail s then None
      else Some (rs_events s ! rs_event_head s, s\<lparr>rs_event_head := (rs_event_head s + 1) mod 8\<rparr>))"

definition rnet_rb_has_pending_events :: "RNetRbSession \<Rightarrow> bool" where
  "rnet_rb_has_pending_events s \<longleftrightarrow> rs_event_head s \<noteq> rs_event_tail s"

end
