(* ===== verification/RNet_Seal.thy ===== *)
theory RNet_Seal
  imports RNet_Rollback
begin

text \<open>
  Invariant and properties of the rollback core: every operation keeps the sealed table
  well-formed, so no index or shift leaves its range; complete seats have a row for every tick;
  the exchange of rows never replaces a confirmed row by a prediction; the frontier only moves
  down when it is demoted; the event queue is a \<open>bounded_fifo\<close>.
\<close>

section \<open>Table updates\<close>

definition row_at :: "RNetRbSession \<Rightarrow> nat \<Rightarrow> nat \<Rightarrow> RNetRbFrame" where
  "row_at s offset slot = rs_sealed s ! rnet_rb_seal_index offset slot"

definition credited :: "RNetRbSession \<Rightarrow> nat \<Rightarrow> nat \<Rightarrow> bool" where
  "credited s offset slot \<longleftrightarrow> bit (rs_peer_seal_mask s ! slot) offset"

text \<open>\<open>s'\<close> differs from \<open>s\<close> in the table and the masks only, and their sizes are kept.\<close>

definition table_upd :: "RNetRbSession \<Rightarrow> RNetRbSession \<Rightarrow> bool" where
  "table_upd s s' \<longleftrightarrow>
     s' = s\<lparr>rs_sealed := rs_sealed s', rs_peer_seal_mask := rs_peer_seal_mask s'\<rparr> \<and>
     length (rs_sealed s') = length (rs_sealed s) \<and>
     length (rs_peer_seal_mask s') = length (rs_peer_seal_mask s)"

lemma table_upd_fields:
  assumes "table_upd s s'"
  shows "rs_cfg s' = rs_cfg s" "rs_vt s' = rs_vt s" "rs_phase s' = rs_phase s" "rs_corr s' = rs_corr s"
    "rs_sealed_span s' = rs_sealed_span s" "rs_seal_base_tick s' = rs_seal_base_tick s"
    "rs_inputs_sealed s' = rs_inputs_sealed s" "rs_resolved_through s' = rs_resolved_through s"
    "rs_events s' = rs_events s" "rs_event_head s' = rs_event_head s" "rs_event_tail s' = rs_event_tail s"
    "length (rs_sealed s') = length (rs_sealed s)"
    "length (rs_peer_seal_mask s') = length (rs_peer_seal_mask s)"
  using assms by (cases s; cases s'; simp add: table_upd_def)+

lemma table_upd_refl [simp]: "table_upd s s"
  by (simp add: table_upd_def)

lemma table_upd_trans [trans]: "table_upd s s' \<Longrightarrow> table_upd s' s'' \<Longrightarrow> table_upd s s''"
  by (cases s; cases s'; cases s''; simp add: table_upd_def)

lemma table_upd_put [simp]: "table_upd s (put_row s offset slot row)"
  by (simp add: table_upd_def put_row_def)

lemma table_upd_credit [simp]: "table_upd s (credit s offset slot)"
  by (simp add: table_upd_def credit_def)

lemma table_upd_credit_put [simp]: "table_upd s (credit (put_row s offset slot row) offset slot)"
  by (rule table_upd_trans [OF table_upd_put table_upd_credit])

lemma table_upd_foldl:
  "(\<And>s x. table_upd s (f s x)) \<Longrightarrow> table_upd s (foldl f s xs)"
  by (induction xs arbitrary: s) (auto intro: table_upd_trans)

text \<open>The size of table and masks, for a configuration with \<open>n\<close> table rows.\<close>

definition table_size :: "RNetRbSession \<Rightarrow> nat \<Rightarrow> bool" where
  "table_size s n \<longleftrightarrow> length (rs_sealed s) = n * 8 \<and> length (rs_peer_seal_mask s) = 8 \<and> n \<le> 64"

lemma table_size_upd: "table_upd s s' \<Longrightarrow> table_size s' n = table_size s n"
  by (simp add: table_size_def table_upd_fields)

lemma seal_index_inj:
  "k < 8 \<Longrightarrow> k' < 8 \<Longrightarrow> rnet_rb_seal_index i k = rnet_rb_seal_index j k' \<longleftrightarrow> i = j \<and> k = k'"
  by (auto simp: rnet_rb_seal_index_def) presburger+

lemma seal_index_range: "i < n \<Longrightarrow> k < 8 \<Longrightarrow> rnet_rb_seal_index i k < n * 8"
  by (simp add: rnet_rb_seal_index_def)

lemma row_at_put:
  "table_size s n \<Longrightarrow> i < n \<Longrightarrow> k < 8 \<Longrightarrow> k' < 8 \<Longrightarrow>
     row_at (put_row s i k row) j k' = (if j = i \<and> k' = k then row else row_at s j k')"
  by (simp add: row_at_def put_row_def table_size_def nth_list_update seal_index_range
        seal_index_inj eq_commute)

lemma row_at_credit [simp]: "row_at (credit s i k) = row_at s"
  by (simp add: row_at_def credit_def fun_eq_iff)

lemma credited_put [simp]: "credited (put_row s i k row) = credited s"
  by (simp add: credited_def put_row_def fun_eq_iff)

lemma credited_credit:
  "table_size s n \<Longrightarrow> i < n \<Longrightarrow> k < 8 \<Longrightarrow>
     credited (credit s i k) j k' \<longleftrightarrow> credited s j k' \<or> j = i \<and> k' = k"
  by (auto simp: credited_def credit_def table_size_def nth_list_update)

section \<open>Filling rows from the host's history\<close>

definition filled_row :: "get_input_row \<Rightarrow> u32 \<Rightarrow> u32 \<Rightarrow> nat \<Rightarrow> RNetRbFrame" where
  "filled_row gir loc tick slot = (case gir (int slot) tick of
     None \<Rightarrow> zero_frame\<lparr>fr_tick := tick\<rparr>
   | Some row \<Rightarrow> if of_nat slot = loc \<or> fr_is_valid row \<noteq> 0 \<and> fr_is_predicted row = 0
                 then row\<lparr>fr_tick := tick\<rparr> else zero_frame\<lparr>fr_tick := tick\<rparr>)"

definition fill_credits :: "get_input_row \<Rightarrow> u32 \<Rightarrow> u32 \<Rightarrow> nat \<Rightarrow> bool" where
  "fill_credits gir loc tick slot \<longleftrightarrow> of_nat slot \<noteq> loc \<and>
     (\<exists>row. gir (int slot) tick = Some row \<and> fr_is_valid row \<noteq> 0 \<and> fr_is_predicted row = 0)"

lemma fill_local_row_eq:
  "offset < 64 \<Longrightarrow> rnet_rb_fill_local_row gir s tick offset slot =
     (let s' = put_row s offset slot (filled_row gir (local_slot s) tick slot) in
      if fill_credits gir (local_slot s) tick slot then credit s' offset slot else s')"
  by (auto simp: rnet_rb_fill_local_row_def filled_row_def fill_credits_def Let_def split: option.splits)

lemma table_upd_fill_local [simp]: "table_upd s (rnet_rb_fill_local_row gir s tick offset slot)"
  by (auto simp: rnet_rb_fill_local_row_def Let_def split: option.splits)

lemma table_upd_fill_offset [simp]: "table_upd s (fill_offset gir b s offset)"
  unfolding fill_offset_def by (rule table_upd_foldl) simp

lemma table_upd_fill_span [simp]: "table_upd s (fill_span gir b s i j)"
  unfolding fill_span_def by (rule table_upd_foldl) simp

lemma filled_row_tick [simp]: "fr_tick (filled_row gir loc tick slot) = tick"
  by (simp add: filled_row_def split: option.splits)

lemma fill_credits_valid: "fill_credits gir loc tick slot \<Longrightarrow> fr_is_valid (filled_row gir loc tick slot) \<noteq> 0"
  by (auto simp: fill_credits_def filled_row_def)

lemma fill_one:
  assumes "table_size s n" "offset < n" "slot < 8" "k < 8"
  shows "row_at (rnet_rb_fill_local_row gir s tick offset slot) j k =
      (if j = offset \<and> k = slot then filled_row gir (local_slot s) tick slot else row_at s j k)"
    and "credited (rnet_rb_fill_local_row gir s tick offset slot) j k \<longleftrightarrow>
      credited s j k \<or> j = offset \<and> k = slot \<and> fill_credits gir (local_slot s) tick slot"
proof -
  have o: "offset < 64" using assms by (simp add: table_size_def)
  have sp: "table_size (put_row s offset slot r) n" for r
    using assms(1) table_size_upd [OF table_upd_put] by simp
  show "row_at (rnet_rb_fill_local_row gir s tick offset slot) j k =
      (if j = offset \<and> k = slot then filled_row gir (local_slot s) tick slot else row_at s j k)"
    using assms by (simp add: fill_local_row_eq [OF o] Let_def row_at_put)
  show "credited (rnet_rb_fill_local_row gir s tick offset slot) j k \<longleftrightarrow>
      credited s j k \<or> j = offset \<and> k = slot \<and> fill_credits gir (local_slot s) tick slot"
    using assms by (auto simp: fill_local_row_eq [OF o] Let_def credited_credit [OF sp])
qed

lemma fill_slots:
  assumes "table_size s n" "offset < n" "m \<le> 8" "k < 8"
  shows "row_at (foldl (\<lambda>s slot. rnet_rb_fill_local_row gir s tick offset slot) s [0..<m]) j k =
      (if j = offset \<and> k < m then filled_row gir (local_slot s) tick k else row_at s j k)"
    and "credited (foldl (\<lambda>s slot. rnet_rb_fill_local_row gir s tick offset slot) s [0..<m]) j k \<longleftrightarrow>
      credited s j k \<or> j = offset \<and> k < m \<and> fill_credits gir (local_slot s) tick k"
  using assms(3)
proof (induction m)
  case (Suc m)
  let ?s = "foldl (\<lambda>s slot. rnet_rb_fill_local_row gir s tick offset slot) s [0..<m]"
  have u: "table_upd s ?s" by (rule table_upd_foldl) simp
  have sz: "table_size ?s n" using assms(1) table_size_upd [OF u] by simp
  {
    case 1
    then show ?case using Suc.IH(1) fill_one(1) [OF sz assms(2) _ assms(4), of m]
      by (auto simp: table_upd_fields [OF u])
  next
    case 2
    then show ?case using Suc.IH(2) fill_one(2) [OF sz assms(2) _ assms(4), of m]
      by (auto simp: table_upd_fields [OF u] less_Suc_eq)
  }
qed simp_all

lemma fill_span_spec:
  assumes "table_size s n" "j \<le> n" "k < 8" "unat (rc_slot_count (rs_cfg s)) \<le> 8"
  shows "row_at (fill_span gir b s i j) o' k =
      (if i \<le> o' \<and> o' < j \<and> k < unat (rc_slot_count (rs_cfg s))
       then filled_row gir (local_slot s) (b + of_nat o') k else row_at s o' k)"
    and "credited (fill_span gir b s i j) o' k \<longleftrightarrow> credited s o' k \<or>
      i \<le> o' \<and> o' < j \<and> k < unat (rc_slot_count (rs_cfg s)) \<and>
      fill_credits gir (local_slot s) (b + of_nat o') k"
  using assms(2)
proof (induction j)
  case (Suc j)
  let ?s = "fill_span gir b s i j"
  have u: "table_upd s ?s" by simp
  have sz: "table_size ?s n" using assms(1) table_size_upd [OF u] by simp
  have un: "fill_span gir b s i (Suc j) = (if i \<le> j then fill_offset gir b ?s j else ?s)"
    by (simp add: fill_span_def)
  {
    case 1
    then show ?case using Suc.IH(1) fill_slots(1) [OF sz _ assms(4,3)] assms(4)
      by (auto simp: un fill_offset_def table_upd_fields [OF u] less_Suc_eq)
  next
    case 2
    then show ?case using Suc.IH(2) fill_slots(2) [OF sz _ assms(4,3)] assms(4)
      by (auto simp: un fill_offset_def table_upd_fields [OF u] less_Suc_eq)
  }
qed (simp_all add: fill_span_def)

section \<open>The invariant\<close>

abbreviation seats :: "RNetRbSession \<Rightarrow> nat" where
  "seats s \<equiv> unat (rc_slot_count (rs_cfg s))"

abbreviation span :: "RNetRbSession \<Rightarrow> nat" where
  "span s \<equiv> unat (rs_sealed_span s)"

definition cfg_ok :: "RNetRbConfig \<Rightarrow> bool" where
  "cfg_ok c \<longleftrightarrow> 1 \<le> unat (rc_seal_max_span c) \<and> unat (rc_seal_max_span c) \<le> 64 \<and>
     1 \<le> unat (rc_slot_count c) \<and> unat (rc_slot_count c) \<le> 8 \<and> rc_local_slot c \<le> rc_slot_count c"

definition queue_ok :: "RNetRbSession \<Rightarrow> bool" where
  "queue_ok s \<longleftrightarrow> length (rs_events s) = 8 \<and> rs_event_head s < 8 \<and> rs_event_tail s < 8"

text \<open>
  The sealed table: rows are credited only inside the span; the rows of the active seats carry
  the ticks of the span; a credited row of a seat that is not local is valid.
\<close>

definition rows_ok :: "RNetRbSession \<Rightarrow> bool" where
  "rows_ok s \<longleftrightarrow>
     (\<forall>j. \<forall>k < 8. credited s j k \<longrightarrow> j < span s) \<and>
     (\<forall>j < span s. \<forall>k < seats s. fr_tick (row_at s j k) = rs_seal_base_tick s + of_nat j) \<and>
     (\<forall>j. \<forall>k < 8. credited s j k \<and> of_nat k \<noteq> local_slot s \<longrightarrow> fr_is_valid (row_at s j k) \<noteq> 0)"

definition seal_ok :: "RNetRbSession \<Rightarrow> bool" where
  "seal_ok s \<longleftrightarrow> span s \<le> unat (rc_seal_max_span (rs_cfg s)) \<and>
     (if rs_inputs_sealed s
      then 1 \<le> span s \<and> unat (target_tick s) + 1 = unat (rs_seal_base_tick s) + span s
      else span s = 0)"

definition rb_inv :: "RNetRbSession \<Rightarrow> bool" where
  "rb_inv s \<longleftrightarrow> cfg_ok (rs_cfg s) \<and> table_size s (unat (rc_seal_max_span (rs_cfg s))) \<and>
     queue_ok s \<and> seal_ok s \<and> rows_ok s"

lemma credited_empty: "rs_peer_seal_mask s = replicate 8 0 \<Longrightarrow> k < 8 \<Longrightarrow> \<not> credited s j k"
  by (simp add: credited_def)

lemma rb_inv_cleared:
  assumes "cfg_ok (rs_cfg s)" "table_size s (unat (rc_seal_max_span (rs_cfg s)))" "queue_ok s"
    "rs_peer_seal_mask s = replicate 8 0" "rs_sealed_span s = 0" "\<not> rs_inputs_sealed s"
  shows "rb_inv s"
  using assms by (simp add: rb_inv_def seal_ok_def rows_ok_def credited_empty)

lemma clamp_config_ok:
  assumes "clamp_config c = Some c'"
  shows "cfg_ok c'"
proof -
  let ?n = "if rc_slot_count c = 0 then 2 else rc_slot_count c"
  let ?m = "if ?n > 8 then 8 else ?n"
  let ?x = "if rc_seal_max_span c = 0 \<or> rc_seal_max_span c > 64 then 64 else rc_seal_max_span c"
  have l: "rc_local_slot c \<le> ?m"
  proof (rule ccontr)
    assume "\<not> rc_local_slot c \<le> ?m"
    then have "?m < rc_local_slot c" by (simp only: not_le)
    with assms show False by (simp only: clamp_config_def Let_def if_True) simp
  qed
  then have "\<not> ?m < rc_local_slot c" by (simp only: not_less)
  with assms obtain r sl d where "c' = c\<lparr>rc_seal_max_span := ?x, rc_slot_count := ?m,
      rc_tip_runway := r, rc_tip_seal_slack := sl, rc_light_tip_max_depth := d\<rparr>"
    by (simp only: clamp_config_def Let_def if_False option.inject) blast
  then have c': "rc_seal_max_span c' = ?x" "rc_slot_count c' = ?m" "rc_local_slot c' = rc_local_slot c"
    by simp_all
  have "1 \<le> unat ?x \<and> unat ?x \<le> 64"
    by (auto simp: word_less_nat_alt unat_gt_0 Suc_le_eq)
  moreover have "1 \<le> unat ?m \<and> unat ?m \<le> 8"
    by (auto simp: word_less_nat_alt unat_gt_0 Suc_le_eq)
  ultimately show ?thesis using l unfolding cfg_ok_def c' by blast
qed

lemma rb_inv_create:
  assumes "rnet_rb_create cfg vt = Some s"
  shows "rb_inv s"
proof -
  from assms obtain c where c: "clamp_config cfg = Some c" and s: "s = rnet_rb_session_reset
      \<lparr>rs_cfg = c, rs_vt = vt, rs_phase = nRNetRbPhaseLive, rs_corr = zero_correction,
       rs_sealed = replicate (unat (rc_seal_max_span c) * 8) zero_frame, rs_sealed_span = 0,
       rs_seal_base_tick = 0, rs_inputs_sealed = False, rs_peer_seal_mask = replicate 8 0,
       rs_resolved_through = 0, rs_events = replicate 8 zero_event, rs_event_head = 0,
       rs_event_tail = 0\<rparr>"
    by (auto simp: rnet_rb_create_def split: if_splits option.splits)
  from clamp_config_ok [OF c] show ?thesis unfolding s
    by (intro rb_inv_cleared)
      (simp_all add: rnet_rb_session_reset_def table_size_def queue_ok_def cfg_ok_def)
qed

lemma rb_invD:
  assumes "rb_inv s"
  shows "cfg_ok (rs_cfg s)" "table_size s (unat (rc_seal_max_span (rs_cfg s)))" "queue_ok s"
    "span s \<le> unat (rc_seal_max_span (rs_cfg s))" "unat (rc_seal_max_span (rs_cfg s)) \<le> 64"
    "seats s \<le> 8" "rows_ok s" "seal_ok s"
  using assms by (auto simp: rb_inv_def cfg_ok_def seal_ok_def)

text \<open>Operations that only move the phase, the frontier or the correction leave the table alone.\<close>

lemma rb_inv_frame:
  assumes "rb_inv s" "rs_cfg s' = rs_cfg s" "rs_sealed s' = rs_sealed s"
    "rs_sealed_span s' = rs_sealed_span s" "rs_seal_base_tick s' = rs_seal_base_tick s"
    "rs_inputs_sealed s' = rs_inputs_sealed s" "rs_peer_seal_mask s' = rs_peer_seal_mask s"
    "target_tick s' = target_tick s" "queue_ok s'"
  shows "rb_inv s'"
proof -
  have "table_size s' n = table_size s n" "seal_ok s' = seal_ok s" for n
    using assms by (simp_all add: table_size_def seal_ok_def)
  moreover have "row_at s' = row_at s" "credited s' = credited s"
    using assms by (simp_all add: row_at_def credited_def fun_eq_iff)
  then have "rows_ok s' = rows_ok s" using assms by (simp add: rows_ok_def)
  ultimately show ?thesis using assms by (simp add: rb_inv_def)
qed

lemma rb_inv_reset: "rb_inv s \<Longrightarrow> rb_inv (rnet_rb_session_reset s)"
  by (rule rb_inv_cleared)
     (simp_all add: rb_inv_def rnet_rb_session_reset_def table_size_def queue_ok_def)

lemma rb_inv_begin: "rb_inv s \<Longrightarrow> rb_inv (rnet_rb_begin_episode s corr)"
  by (rule rb_inv_cleared)
     (simp_all add: rb_inv_def rnet_rb_begin_episode_def table_size_def queue_ok_def)

lemma rb_inv_phase:
  assumes "rb_inv s"
  shows "rb_inv (s\<lparr>rs_phase := p\<rparr>)" "rb_inv (s\<lparr>rs_resolved_through := t\<rparr>)"
  by (rule rb_inv_frame [OF assms]; use rb_invD(3) [OF assms] in \<open>simp add: queue_ok_def\<close>)+

lemma rb_inv_simple:
  assumes "rb_inv s"
  shows "rb_inv (rnet_rb_set_phase s p)" "rb_inv (rnet_rb_commit_promote_sealed s)"
    "rb_inv (snd (rnet_rb_enter_tip_hold s))" "rb_inv (rnet_rb_set_peer_convergence s t)"
    "rb_inv (rnet_rb_demote_resolved_through s t)" "rb_inv (verify_to_replay s)"
  using assms
  by (simp_all add: rb_inv_phase rnet_rb_set_phase_def Let_def rnet_rb_commit_promote_sealed_def
        rnet_rb_enter_tip_hold_def rnet_rb_set_peer_convergence_def
        rnet_rb_demote_resolved_through_def verify_to_replay_def)

lemma rb_inv_enqueue:
  assumes "rb_inv s"
  shows "rb_inv (rnet_rb_enqueue_event s e)"
  by (rule rb_inv_frame [OF assms];
      use rb_invD(3) [OF assms] in \<open>simp add: rnet_rb_enqueue_event_def Let_def queue_ok_def\<close>)

lemma rb_inv_drain:
  assumes "rb_inv s" "rnet_rb_drain_next_event s = Some (e', s')"
  shows "rb_inv s'"
proof -
  from assms(2) have "s' = s\<lparr>rs_event_head := (rs_event_head s + 1) mod 8\<rparr>"
    by (simp add: rnet_rb_drain_next_event_def split: if_splits)
  with rb_invD(3) [OF assms(1)] show ?thesis
    by (intro rb_inv_frame [OF assms(1)]) (simp_all add: queue_ok_def)
qed

text \<open>Writing or crediting one row inside the span.\<close>

lemma rb_inv_table:
  assumes "rb_inv s" "table_upd s s'" "rows_ok s'"
  shows "rb_inv s'"
proof -
  note f = table_upd_fields [OF assms(2)]
  have "seal_ok s' = seal_ok s" "queue_ok s' = queue_ok s" by (simp_all add: seal_ok_def queue_ok_def f)
  with assms show ?thesis by (simp add: rb_inv_def table_size_upd [OF assms(2)] f)
qed

lemma rb_inv_put:
  assumes "rb_inv s" "j < span s" "k < 8" "fr_tick row = rs_seal_base_tick s + of_nat j"
    "fr_is_valid row \<noteq> 0 \<or> of_nat k = local_slot s"
  shows "rb_inv (put_row s j k row)"
proof -
  note inv = rb_invD [OF assms(1)]
  have at: "row_at (put_row s j k row) j' k' = (if j' = j \<and> k' = k then row else row_at s j' k')"
    if "k' < 8" for j' k'
    using row_at_put [OF inv(2)] assms(2,3) inv(4) that by simp
  have "rows_ok (put_row s j k row)"
    using inv(6,7) assms(4,5) unfolding rows_ok_def table_upd_fields [OF table_upd_put]
    by (auto simp: at)
  with assms(1) show ?thesis by (rule rb_inv_table [OF _ table_upd_put])
qed

lemma rb_inv_credit:
  assumes "rb_inv s" "j < span s" "k < 8"
    "fr_is_valid (row_at s j k) \<noteq> 0 \<or> of_nat k = local_slot s"
  shows "rb_inv (credit s j k)"
proof -
  note inv = rb_invD [OF assms(1)]
  have cr: "credited (credit s j k) j' k' \<longleftrightarrow> credited s j' k' \<or> j' = j \<and> k' = k" for j' k'
    using credited_credit [OF inv(2)] assms(2,3) inv(4) by simp
  have "rows_ok (credit s j k)"
    using inv(7) assms(2,4) unfolding rows_ok_def table_upd_fields [OF table_upd_credit] cr row_at_credit
    by blast
  with assms(1) show ?thesis by (rule rb_inv_table [OF _ table_upd_credit])
qed

lemma rb_inv_put_credit:
  assumes "rb_inv s" "j < span s" "k < 8" "fr_tick row = rs_seal_base_tick s + of_nat j" "fr_is_valid row \<noteq> 0"
  shows "rb_inv (credit (put_row s j k row) j k)"
proof (rule rb_inv_credit)
  show "rb_inv (put_row s j k row)" using assms by (intro rb_inv_put) auto
  have "row_at (put_row s j k row) j k = row"
    using row_at_put [OF rb_invD(2) [OF assms(1)], of j k k row j] assms rb_invD(4) [OF assms(1)] by simp
  then show "fr_is_valid (row_at (put_row s j k row) j k) \<noteq> 0 \<or> of_nat k = local_slot (put_row s j k row)"
    using assms(5) by simp
qed (use assms in \<open>simp_all add: table_upd_fields [OF table_upd_put]\<close>)

lemma table_upd_resign_offset [simp]: "table_upd s (resign_offset gir slot a b s j)"
  by (simp add: resign_offset_def Let_def split: option.splits)

lemma table_upd_resign [simp]: "table_upd s (foldl (resign_offset gir slot a b) s xs)"
  by (rule table_upd_foldl) simp

lemma rb_inv_resign_offset:
  assumes "rb_inv s" "j < span s" "k < 8"
  shows "rb_inv (resign_offset gir k a b s j)"
  using assms
  by (auto simp: resign_offset_def Let_def rb_inv_put rb_inv_put_credit split: option.splits)

lemma rb_inv_resign: "rb_inv s \<Longrightarrow> rb_inv (snd (rnet_rb_resign_slot_range gir s slot a b))"
proof -
  assume inv: "rb_inv s"
  show ?thesis
  proof (cases "rs_inputs_sealed s \<and> rnet_rb_slot_valid slot \<and> a \<le> b")
    case True
    then have k: "nat slot < 8" by (auto simp: rnet_rb_slot_valid_def)
    have "rb_inv (foldl (resign_offset gir (nat slot) a b) s xs)" if "\<forall>j \<in> set xs. j < span s" for xs
      using inv that
    proof (induction xs arbitrary: s)
      case (Cons j js)
      then show ?case
        using table_upd_fields [OF table_upd_resign_offset]
        by (simp add: rb_inv_resign_offset [OF _ _ k])
    qed simp
    with True inv show ?thesis by (simp add: rnet_rb_resign_slot_range_def)
  next
    case False
    with inv show ?thesis by (auto simp: rnet_rb_resign_slot_range_def)
  qed
qed

lemma table_upd_apply [simp]: "table_upd s (apply_rows s slot offset rows)"
proof (induction rows arbitrary: s offset)
  case (Cons row rows)
  show ?case
    by (simp add: Let_def Cons.IH table_upd_trans [OF table_upd_credit Cons.IH]
          table_upd_trans [OF table_upd_credit_put Cons.IH])
qed simp

lemma rb_inv_apply_rows:
  assumes "k < 8"
  shows "rb_inv s \<Longrightarrow> rb_inv (apply_rows s k offset rows)"
proof (induction rows arbitrary: s offset)
  case (Cons row rows)
  show ?case
  proof (cases "offset \<ge> rs_sealed_span s \<or> fr_is_valid row = 0")
    case True
    with Cons show ?thesis by auto
  next
    case False
    then have o: "unat offset < span s" by (simp add: word_less_nat_alt not_le)
    from False Cons.prems o assms
    have "rb_inv (credit (put_row s (unat offset) k (row\<lparr>fr_tick := rs_seal_base_tick s + offset\<rparr>)) (unat offset) k)"
      by (intro rb_inv_put_credit) simp_all
    moreover have "rb_inv (credit s (unat offset) k)"
      if "fr_is_valid (rs_sealed s ! rnet_rb_seal_index (unat offset) k) \<noteq> 0"
      using Cons.prems o assms that by (intro rb_inv_credit) (simp_all add: row_at_def)
    ultimately show ?thesis using False by (simp add: Let_def Cons.IH)
  qed
qed simp

lemma span_arith:
  assumes "b \<le> (t :: u32)" "t - b < m" "unat m \<le> 64"
  shows "unat (t - b + 1) = Suc (unat t - unat b)" "Suc (unat t - unat b) \<le> unat m"
proof -
  have d: "unat (t - b) = unat t - unat b" using assms(1) by (simp add: unat_sub)
  then have "unat t - unat b < unat m" using assms(2) by (simp add: word_less_nat_alt)
  then show "Suc (unat t - unat b) \<le> unat m" by simp
  with d assms(3) show "unat (t - b + 1) = Suc (unat t - unat b)"
    by (simp add: unat_word_ariths take_bit_nat_eq_self)
qed

text \<open>Growing the span from its current end up to \<open>j\<close>.\<close>

lemma rows_ok_fill:
  assumes sz: "table_size s n" and j: "unat sp \<le> n" "span s \<le> unat sp" and k8: "seats s \<le> 8" and r: "rows_ok s"
    and s': "s' = fill_span gir (rs_seal_base_tick s) s (span s) (unat sp)"
  shows "rows_ok (s'\<lparr>rs_sealed_span := sp, rs_inputs_sealed := v, rs_corr := c\<rparr>)"
proof -
  let ?b = "rs_seal_base_tick s"
  let ?t = "s'\<lparr>rs_sealed_span := sp, rs_inputs_sealed := v, rs_corr := c\<rparr>"
  have u: "table_upd s s'" unfolding s' by simp
  note f = table_upd_fields [OF u]
  have at: "row_at ?t i k = (if span s \<le> i \<and> i < unat sp \<and> k < seats s
      then filled_row gir (local_slot s) (?b + of_nat i) k else row_at s i k)" if "k < 8" for i k
    using fill_span_spec(1) [OF sz j(1) that k8] by (simp add: s' row_at_def)
  have cr: "credited ?t i k \<longleftrightarrow> credited s i k \<or> span s \<le> i \<and> i < unat sp \<and> k < seats s \<and>
      fill_credits gir (local_slot s) (?b + of_nat i) k" if "k < 8" for i k
    using fill_span_spec(2) [OF sz j(1) that k8] by (simp add: s' credited_def)
  have g: "rs_sealed_span ?t = sp" "rs_seal_base_tick ?t = ?b" "seats ?t = seats s" "local_slot ?t = local_slot s"
    by (simp_all add: f)
  show ?thesis
    unfolding rows_ok_def g
  proof (intro conjI allI impI)
    fix i k assume "k < 8" "credited ?t i k"
    with cr consider "credited s i k" | "i < unat sp" by blast
    then show "i < unat sp"
    proof cases
      case 1
      with r \<open>k < 8\<close> have "i < span s" by (auto simp: rows_ok_def)
      with j(2) show ?thesis by simp
    qed
  next
    fix i k assume "i < unat sp" "k < seats s"
    then show "fr_tick (row_at ?t i k) = ?b + of_nat i" using at r k8 by (auto simp: rows_ok_def)
  next
    fix i k assume k: "k < 8" and h: "credited ?t i k \<and> of_nat k \<noteq> local_slot s"
    consider "credited s i k" | "span s \<le> i" "i < unat sp" "k < seats s"
        "fill_credits gir (local_slot s) (?b + of_nat i) k"
      using h cr [OF k] by blast
    then show "fr_is_valid (row_at ?t i k) \<noteq> 0"
    proof cases
      case 1
      with r k have "i < span s" "fr_is_valid (row_at s i k) \<noteq> 0" using h by (auto simp: rows_ok_def)
      then show ?thesis by (simp add: at [OF k])
    next
      case 2
      then show ?thesis by (simp add: at [OF k] fill_credits_valid)
    qed
  qed
qed

lemma rb_inv_seal_inputs:
  assumes inv: "rb_inv s"
  shows "rb_inv (rnet_rb_seal_inputs gir s b t)"
proof -
  note i = rb_invD [OF inv]
  let ?s0 = "s\<lparr>rs_inputs_sealed := False, rs_sealed_span := 0, rs_peer_seal_mask := replicate 8 0\<rparr>"
  let ?m = "rc_seal_max_span (rs_cfg s)"
  let ?sb = "?s0\<lparr>rs_seal_base_tick := b\<rparr>"
  have s0: "rb_inv ?s0" "rb_inv ?sb"
    using i by (auto intro!: rb_inv_cleared simp: table_size_def queue_ok_def)
  show ?thesis
  proof (cases "t < b \<or> t - b \<ge> ?m")
    case True
    then show ?thesis using s0 by (auto simp: rnet_rb_seal_inputs_def Let_def)
  next
    case False
    let ?s1 = "fill_span gir b ?sb 0 (unat (t - b + 1))"
    let ?s2 = "?s1\<lparr>rs_sealed_span := t - b + 1, rs_inputs_sealed := True,
        rs_corr := (rs_corr ?s1)\<lparr>co_target_tick := t\<rparr>\<rparr>"
    from False have le: "b \<le> t" "t - b < ?m" by (simp_all add: not_le not_less)
    note arith = span_arith [OF le i(5)] le(1) [unfolded word_le_nat_alt]
    have "table_upd ?sb ?s1" by simp
    note f = table_upd_fields [OF this]
    have "rows_ok ?s2"
      by (rule rows_ok_fill [OF rb_invD(2) [OF s0(2)]])
        (use arith i(6) rb_invD(7) [OF s0(2)] in simp_all)
    moreover have "seal_ok ?s2" "queue_ok ?s2" "table_size ?s2 (unat ?m)"
      using arith i f by (simp_all add: seal_ok_def queue_ok_def table_size_def)
    ultimately have "rb_inv ?s2" using i(1) f by (simp add: rb_inv_def)
    moreover have "rnet_rb_seal_inputs gir s b t = ?s2"
      using False by (simp add: rnet_rb_seal_inputs_def Let_def)
    ultimately show ?thesis by simp
  qed
qed

lemma rb_inv_extend:
  assumes inv: "rb_inv s"
  shows "rb_inv (snd (rnet_rb_extend_target gir s t))"
proof (cases "rnet_rb_can_extend_target s t \<and> t > target_tick s")
  case False
  with inv show ?thesis by (auto simp: rnet_rb_extend_target_def rb_inv_simple not_less)
next
  case True
  note i = rb_invD [OF inv]
  let ?b = "rs_seal_base_tick s" and ?m = "rc_seal_max_span (rs_cfg s)"
  let ?s1 = "fill_span gir ?b s (span s) (unat (t - ?b + 1))"
  let ?s2 = "?s1\<lparr>rs_sealed_span := t - ?b + 1, rs_inputs_sealed := True,
      rs_corr := (rs_corr ?s1)\<lparr>co_target_tick := t\<rparr>\<rparr>"
  have "table_upd s ?s1" by simp
  note f = table_upd_fields [OF this]
  from True have c: "rs_inputs_sealed s" "?b \<le> t" "t - ?b < ?m" "\<not> t \<le> target_tick s"
    by (auto simp: rnet_rb_can_extend_target_def not_le not_less split: if_splits)
  note arith = span_arith [OF c(2,3) i(5)] c(2) [unfolded word_le_nat_alt]
  have grow: "span s \<le> unat (t - ?b + 1)"
    using i(8) c(1,4) arith unfolding seal_ok_def word_le_nat_alt by simp linarith
  have "rows_ok ?s2"
    by (rule rows_ok_fill [OF i(2) _ grow i(6,7) refl]) (use arith in simp)
  moreover have "seal_ok ?s2" "queue_ok ?s2" "table_size ?s2 (unat ?m)"
    using arith i f by (simp_all add: seal_ok_def queue_ok_def table_size_def)
  ultimately have "rb_inv ?s2" using i(1) f by (simp add: rb_inv_def)
  moreover have "?s1\<lparr>rs_sealed_span := t - ?b + 1, rs_corr := (rs_corr ?s1)\<lparr>co_target_tick := t\<rparr>\<rparr> = ?s2"
    using c(1) f(7) by (cases ?s1) simp
  ultimately show ?thesis
    using True c(4) rb_inv_simple(6) by (simp add: rnet_rb_extend_target_def Let_def)
qed

lemma rb_inv_apply:
  assumes inv: "rb_inv s"
  shows "rb_inv (snd (rnet_rb_apply_peer_seal_rows gir s ep mm t slot row_begin rows))"
proof -
  let ?e = "if t > target_tick s then rnet_rb_extend_target gir s t else (True, s)"
  have e: "rb_inv (snd ?e)" using inv rb_inv_extend by simp
  have k: "nat slot < 8" if "rnet_rb_slot_valid slot" using that by (auto simp: rnet_rb_slot_valid_def)
  show ?thesis
  proof (cases ?e)
    case (Pair ok s')
    with e inv k show ?thesis
      by (auto simp: rnet_rb_apply_peer_seal_rows_def Let_def rb_inv_apply_rows)
  qed
qed

section \<open>Sequences of operations\<close>

text \<open>
  Every operation that changes the session; the demotion of the frontier is kept apart, because it
  is the only one that lowers it.
\<close>

datatype rb_op =
    Begin RNetRbCorrection | Seal get_input_row u32 u32 | Extend get_input_row u32
  | Resign get_input_row int u32 u32 | ApplyPeer get_input_row u32 u32 u32 int u32 "RNetRbFrame list"
  | SetPhase RNetRbPhase | EnterTipHold | Converge u32 | PostMatch | PostDiverge | CommitPromote
  | SessionReset | Enqueue RNetRbEvent | Drain

fun rb_step :: "RNetRbSession \<Rightarrow> rb_op \<Rightarrow> RNetRbSession" where
  "rb_step s (Begin c) = rnet_rb_begin_episode s c"
| "rb_step s (Seal gir b t) = rnet_rb_seal_inputs gir s b t"
| "rb_step s (Extend gir t) = snd (rnet_rb_extend_target gir s t)"
| "rb_step s (Resign gir slot a b) = snd (rnet_rb_resign_slot_range gir s slot a b)"
| "rb_step s (ApplyPeer gir ep mm t slot rb rows) = snd (rnet_rb_apply_peer_seal_rows gir s ep mm t slot rb rows)"
| "rb_step s (SetPhase p) = rnet_rb_set_phase s p"
| "rb_step s EnterTipHold = snd (rnet_rb_enter_tip_hold s)"
| "rb_step s (Converge t) = rnet_rb_set_peer_convergence s t"
| "rb_step s PostMatch = rnet_rb_on_post_match s"
| "rb_step s PostDiverge = rnet_rb_on_post_diverge s"
| "rb_step s CommitPromote = rnet_rb_commit_promote_sealed s"
| "rb_step s SessionReset = rnet_rb_session_reset s"
| "rb_step s (Enqueue e) = rnet_rb_enqueue_event s e"
| "rb_step s Drain = (case rnet_rb_drain_next_event s of None \<Rightarrow> s | Some (e, s') \<Rightarrow> s')"

fun rb_step_demote :: "RNetRbSession \<Rightarrow> rb_op + u32 \<Rightarrow> RNetRbSession" where
  "rb_step_demote s (Inl opn) = rb_step s opn"
| "rb_step_demote s (Inr t) = rnet_rb_demote_resolved_through s t"

lemma rb_inv_step: "rb_inv s \<Longrightarrow> rb_inv (rb_step s opn)"
  by (cases opn) (auto simp: rb_inv_begin rb_inv_seal_inputs rb_inv_extend rb_inv_resign rb_inv_apply
      rb_inv_simple rb_inv_reset rb_inv_enqueue rnet_rb_on_post_match_def rnet_rb_on_post_diverge_def
      intro: rb_inv_drain split: option.splits)

lemma resolved_extend [simp]: "rs_resolved_through (snd (rnet_rb_extend_target gir s t)) = rs_resolved_through s"
  using table_upd_fields(8) [OF table_upd_fill_span]
  by (simp add: rnet_rb_extend_target_def verify_to_replay_def Let_def)

lemma resolved_apply [simp]:
  "rs_resolved_through (snd (rnet_rb_apply_peer_seal_rows gir s ep mm t slot rb rows)) = rs_resolved_through s"
proof (cases "if t > target_tick s then rnet_rb_extend_target gir s t else (True, s)")
  case (Pair ok s')
  have "rs_resolved_through (snd (if t > target_tick s then rnet_rb_extend_target gir s t else (True, s))) =
      rs_resolved_through s" by simp
  with Pair have "rs_resolved_through s' = rs_resolved_through s" by simp
  with Pair table_upd_fields(8) [OF table_upd_apply] show ?thesis
    by (simp add: rnet_rb_apply_peer_seal_rows_def Let_def)
qed

lemma resolved_seal [simp]: "rs_resolved_through (rnet_rb_seal_inputs gir s b t) = rs_resolved_through s"
  using table_upd_fields(8) [OF table_upd_fill_span] by (simp add: rnet_rb_seal_inputs_def Let_def)

lemma resolved_resign [simp]:
  "rs_resolved_through (snd (rnet_rb_resign_slot_range gir s slot a b)) = rs_resolved_through s"
  using table_upd_fields(8) [OF table_upd_resign]
  by (simp add: rnet_rb_resign_slot_range_def)

lemma resolved_step: "rs_resolved_through s \<le> rs_resolved_through (rb_step s opn)"
  by (cases opn)
     (auto simp: rnet_rb_begin_episode_def rnet_rb_set_phase_def rnet_rb_enter_tip_hold_def
        rnet_rb_commit_promote_sealed_def rnet_rb_set_peer_convergence_def rnet_rb_on_post_match_def
        rnet_rb_on_post_diverge_def rnet_rb_session_reset_def rnet_rb_enqueue_event_def
        rnet_rb_drain_next_event_def Let_def)

interpretation rb_run: monotone_system rb_inv rb_step rs_resolved_through
  by unfold_locales (rule rb_inv_step, assumption, rule resolved_step)

interpretation rb_all: op_system rb_inv rb_step_demote
proof
  fix s opn assume "rb_inv s"
  then show "rb_inv (rb_step_demote s opn)"
    by (cases opn) (auto simp: rb_inv_step rb_inv_simple)
qed

section \<open>The event queue\<close>

definition pending :: "RNetRbSession \<Rightarrow> RNetRbEvent list" where
  "pending s = map (\<lambda>i. rs_events s ! ((rs_event_head s + i) mod 8))
     [0..<(rs_event_tail s + 8 - rs_event_head s) mod 8]"

text \<open>Modular arithmetic of the eight queue slots, with the wrap-around as a case distinction.\<close>

lemma mod8: "x < 16 \<Longrightarrow> x mod 8 = (if x < 8 then x else x - 8)" for x :: nat
  by (simp add: le_mod_geq)

lemma queue_dist: "h < 8 \<Longrightarrow> t < 8 \<Longrightarrow> (t + 8 - h) mod 8 = (if h \<le> t then t - h else t + 8 - h)" for h t :: nat
  by (auto simp: mod8)

lemma queue_next: "t < 8 \<Longrightarrow> (t + 1) mod 8 = (if t = 7 then 0 else t + 1)" for t :: nat
  by (auto simp: mod8)

lemma queue_room:
  "h < 8 \<Longrightarrow> t < 8 \<Longrightarrow> (t + 1) mod 8 \<noteq> h \<longleftrightarrow> (t + 8 - h) mod 8 < (7 :: nat)" for h t :: nat
  by (simp only: queue_dist queue_next) auto

lemma queue_grow:
  fixes h :: nat
  assumes "h < 8" "t < 8" "(t + 1) mod 8 \<noteq> h"
  shows "((t + 1) mod 8 + 8 - h) mod 8 = Suc ((t + 8 - h) mod 8)" "(h + (t + 8 - h) mod 8) mod 8 = t"
proof -
  have n: "(t + 1) mod 8 < 8" by simp
  show "((t + 1) mod 8 + 8 - h) mod 8 = Suc ((t + 8 - h) mod 8)"
    using assms unfolding queue_dist [OF assms(1,2)] queue_dist [OF assms(1) n] queue_next [OF assms(2)]
    by (auto simp: mod8)
  show "(h + (t + 8 - h) mod 8) mod 8 = t"
    using assms(1,2) unfolding queue_dist [OF assms(1,2)] by (auto simp: mod8)
qed

lemma queue_shrink:
  fixes h :: nat
  assumes "h < 8" "t < 8" "h \<noteq> t"
  shows "(t + 8 - h) mod 8 = Suc ((t + 8 - (h + 1) mod 8) mod 8)"
proof -
  have n: "(h + 1) mod 8 < 8" by simp
  show ?thesis
    using assms unfolding queue_dist [OF assms(1,2)] queue_dist [OF n assms(2)] queue_next [OF assms(1)]
    by (auto simp: mod8)
qed

lemma queue_old:
  fixes h :: nat
  assumes "h < 8" "t < 8" "i < (t + 8 - h) mod 8"
  shows "(h + i) mod 8 \<noteq> t"
  using assms unfolding queue_dist [OF assms(1,2)] by (auto simp: mod8 split: if_splits)

lemma pending_enqueue:
  assumes "queue_ok s"
  shows "pending (rnet_rb_enqueue_event s e) =
    (if length (pending s) < 7 then pending s @ [e] else pending s)"
proof (cases "(rs_event_tail s + 1) mod 8 = rs_event_head s")
  case True
  with assms have "\<not> length (pending s) < 7"
    using queue_room [of "rs_event_head s" "rs_event_tail s"] by (simp add: pending_def queue_ok_def)
  with True show ?thesis by (simp add: rnet_rb_enqueue_event_def Let_def)
next
  case False
  let ?h = "rs_event_head s" and ?t = "rs_event_tail s"
  have b: "?h < 8" "?t < 8" "length (rs_events s) = 8" using assms by (auto simp: queue_ok_def)
  from False b have "length (pending s) < 7"
    using queue_room [of ?h ?t] by (simp add: pending_def)
  moreover have "map (\<lambda>i. (rs_events s)[?t := e] ! ((?h + i) mod 8)) [0..<(?t + 8 - ?h) mod 8] = pending s"
    unfolding pending_def by (rule map_cong) (use queue_old [OF b(1,2)] in fastforce)+
  ultimately show ?thesis
    using False queue_grow [OF b(1,2)] b
    by (simp add: rnet_rb_enqueue_event_def Let_def pending_def)
qed

lemma pending_drain:
  assumes "queue_ok s"
  shows "rnet_rb_drain_next_event s = None \<longleftrightarrow> pending s = []"
    and "rnet_rb_drain_next_event s = Some (e, s') \<Longrightarrow> pending s = e # pending s' \<and> queue_ok s'"
proof -
  let ?h = "rs_event_head s" and ?t = "rs_event_tail s"
  have b: "?h < 8" "?t < 8" "length (rs_events s) = 8" using assms by (auto simp: queue_ok_def)
  show "rnet_rb_drain_next_event s = None \<longleftrightarrow> pending s = []"
    using b queue_shrink [OF b(1,2)] by (auto simp: rnet_rb_drain_next_event_def pending_def)
  assume "rnet_rb_drain_next_event s = Some (e, s')"
  then have d: "?h \<noteq> ?t" "e = rs_events s ! ?h" "s' = s\<lparr>rs_event_head := (?h + 1) mod 8\<rparr>"
    by (auto simp: rnet_rb_drain_next_event_def split: if_splits)
  let ?n = "(?t + 8 - (?h + 1) mod 8) mod 8"
  have "pending s = map (\<lambda>i. rs_events s ! ((?h + i) mod 8)) [0..<Suc ?n]"
    unfolding pending_def queue_shrink [OF b(1,2) d(1)] ..
  also have "\<dots> = rs_events s ! (?h mod 8) # map (\<lambda>i. rs_events s ! ((?h + Suc i) mod 8)) [0..<?n]"
    by (simp del: upt_Suc add: upt_conv_Cons map_Suc_upt [symmetric] comp_def)
  also have "\<dots> = e # pending s'"
    using b by (simp add: d pending_def mod_simps)
  finally show "pending s = e # pending s' \<and> queue_ok s'"
    using b by (simp add: d queue_ok_def)
qed

interpretation rb_queue: bounded_fifo queue_ok pending 7 rnet_rb_enqueue_event rnet_rb_drain_next_event
proof
  fix s e assume q: "queue_ok s"
  show "queue_ok (rnet_rb_enqueue_event s e)"
    using q by (simp add: queue_ok_def rnet_rb_enqueue_event_def Let_def)
  have "(rs_event_tail s + 8 - rs_event_head s) mod 8 < 8" by simp
  then show "length (pending s) \<le> 7" by (simp add: pending_def)
qed (use pending_enqueue pending_drain in auto)

end
