(* ===== verification/RNet_Episode.thy ===== *)
theory RNet_Episode
  imports RNet_Seal
begin

text \<open>
  What the rollback core promises over whole sequences of operations: bounds of the sealed table,
  replayability of complete seats, safety of confirmed rows, transfer of a seat's rows from one
  peer to another, extension of the target, the frontier, and the event queue.
\<close>

section \<open>Reading the table by tick\<close>

abbreviation started :: "RNetRbSession \<Rightarrow> bool" where
  "started s \<equiv> (\<exists>cfg vt s0 opns. rnet_rb_create cfg vt = Some s0 \<and> s = foldl rb_step_demote s0 opns)"

lemma started_inv: "started s \<Longrightarrow> rb_inv s"
  using rb_all.run_inv rb_inv_create by blast

text \<open>The offset of a tick of the span.\<close>

definition offset_of :: "RNetRbSession \<Rightarrow> u32 \<Rightarrow> nat" where
  "offset_of s t = unat (t - rs_seal_base_tick s)"

lemma in_span_iff:
  assumes "rb_inv s"
  shows "rnet_rb_tick_in_sealed_span s t \<longleftrightarrow>
    rnet_rb_inputs_sealed s \<and> rs_seal_base_tick s \<le> t \<and> t \<le> target_tick s"
proof (cases "rs_inputs_sealed s \<and> rs_seal_base_tick s \<le> t")
  case True
  then have d: "unat (t - rs_seal_base_tick s) = unat t - unat (rs_seal_base_tick s)"
    "unat (rs_seal_base_tick s) \<le> unat t"
    by (simp_all add: unat_sub word_le_nat_alt)
  with True rb_invD(8) [OF assms] have "t - rs_seal_base_tick s < rs_sealed_span s \<longleftrightarrow> t \<le> target_tick s"
    unfolding seal_ok_def word_less_nat_alt word_le_nat_alt by simp linarith
  with True show ?thesis by (simp add: rnet_rb_tick_in_sealed_span_def rnet_rb_inputs_sealed_def)
next
  case False
  then show ?thesis by (auto simp: rnet_rb_tick_in_sealed_span_def rnet_rb_inputs_sealed_def)
qed

lemma in_span_offset:
  "rnet_rb_tick_in_sealed_span s t \<Longrightarrow> offset_of s t < span s \<and> rs_seal_base_tick s + of_nat (offset_of s t) = t"
  by (auto simp: rnet_rb_tick_in_sealed_span_def offset_of_def word_less_nat_alt split: if_splits)

lemma get_sealed_frame_eq:
  "rnet_rb_get_sealed_frame s slot t =
     (if rnet_rb_tick_in_sealed_span s t \<and> rnet_rb_slot_valid slot \<and>
         fr_is_valid (row_at s (offset_of s t) (nat slot)) \<noteq> 0
      then Some (row_at s (offset_of s t) (nat slot)) else None)"
  by (simp add: rnet_rb_get_sealed_frame_def row_at_def offset_of_def Let_def)

section \<open>Complete seats\<close>

lemma span_mask_bit:
  assumes "unat sp \<le> 64"
  shows "bit (if sp \<ge> 64 then NOT 0 else push_bit (unat sp) 1 - 1 :: u64) j \<longleftrightarrow> j < unat (sp :: u32)"
proof (cases "sp \<ge> 64")
  case True
  with assms have "unat sp = 64" by (simp add: word_le_nat_alt)
  with True show ?thesis by (simp add: bit_simps)
next
  case False
  then have "unat sp < 64" by (simp add: word_le_nat_alt)
  with False show ?thesis using low_mask_bit [of "unat sp", where 'a = 64] by simp
qed

lemma complete_iff:
  assumes "rb_inv s"
  shows "rnet_rb_peer_seal_rows_complete s slot \<longleftrightarrow>
    rnet_rb_inputs_sealed s \<and> rnet_rb_slot_valid slot \<and> (\<forall>j < span s. credited s j (nat slot))"
proof -
  have "span s \<le> 64" using rb_invD(4,5) [OF assms] by simp
  from span_mask_bit [OF this] show ?thesis
    by (auto simp: rnet_rb_peer_seal_rows_complete_def Let_def mask_contains credited_def)
qed

lemma seats_complete_iff:
  "seats_complete s want ks \<longleftrightarrow> (\<forall>k \<in> set ks. bit want k \<longrightarrow> rnet_rb_peer_seal_rows_complete s (int k))"
  by (induction ks) auto

lemma expected_mask_bit:
  assumes "rb_inv s"
  shows "bit (rnet_rb_expected_peer_mask s) k \<longleftrightarrow> k < seats s \<and> of_nat k \<noteq> local_slot s \<and>
    (rc_occupied_mask (rs_cfg s) = 0 \<or> bit (rc_occupied_mask (rs_cfg s)) k)"
proof -
  let ?n = "rc_slot_count (rs_cfg s)"
  have n: "1 \<le> unat ?n" "unat ?n \<le> 8" using rb_invD(1) [OF assms] by (auto simp: cfg_ok_def)
  then have n': "\<not> (?n = 0 \<or> ?n > 8)" "\<not> ?n \<ge> 32" by (auto simp: word_less_nat_alt word_le_nat_alt)
  have loc: "unat (local_slot s) \<le> unat ?n" using rb_invD(1) [OF assms] by (auto simp: cfg_ok_def word_le_nat_alt)
  have eq: "of_nat k = local_slot s \<longleftrightarrow> k = unat (local_slot s)" if "k < 8"
    using that by (auto simp: word_unat_eq_iff unat_of_nat take_bit_nat_eq_self)
  have low: "bit (push_bit (unat ?n) 1 - 1 :: u32) k \<longleftrightarrow> k < unat ?n"
    using low_mask_bit [of "unat ?n", where 'a = 32] n by simp
  show ?thesis
  proof (cases "k < unat ?n")
    case True
    with n have k: "k < 8" by simp
    then have "bit (NOT (2 ^ m) :: u32) k \<longleftrightarrow> k \<noteq> m" for m by (auto simp: bit_simps)
    with k True low eq n' loc show ?thesis
      unfolding rnet_rb_expected_peer_mask_def Let_def
      by (auto simp: bit_and_iff word_less_nat_alt)
  next
    case False
    with low n' show ?thesis
      unfolding rnet_rb_expected_peer_mask_def Let_def by (auto simp: bit_and_iff)
  qed
qed

section \<open>The effect of peer rows\<close>

definition confirmed :: "RNetRbFrame \<Rightarrow> bool" where
  "confirmed row \<longleftrightarrow> fr_is_valid row \<noteq> 0 \<and> fr_is_predicted row = 0"

text \<open>What a received row does to the row it addresses.\<close>

definition merge_row :: "u32 \<Rightarrow> RNetRbFrame \<Rightarrow> RNetRbFrame \<Rightarrow> RNetRbFrame" where
  "merge_row t dst row = (if fr_is_valid row = 0 \<or> fr_is_predicted row \<noteq> 0 \<and> confirmed dst
     then dst else row\<lparr>fr_tick := t\<rparr>)"

lemma merge_row_confirmed: "confirmed dst \<Longrightarrow> confirmed (merge_row t dst row)"
  by (auto simp: merge_row_def confirmed_def)

text \<open>One iteration of the row loop that stays inside the span.\<close>

definition apply_row :: "RNetRbSession \<Rightarrow> nat \<Rightarrow> u32 \<Rightarrow> RNetRbFrame \<Rightarrow> RNetRbSession" where
  "apply_row s k off row =
     (if fr_is_valid row = 0 then s
      else if fr_is_predicted row \<noteq> 0 \<and> confirmed (row_at s (unat off) k) then credit s (unat off) k
      else credit (put_row s (unat off) k (row\<lparr>fr_tick := rs_seal_base_tick s + off\<rparr>)) (unat off) k)"

lemma apply_rows_step:
  "off < rs_sealed_span s \<Longrightarrow> apply_rows s k off (row # rows) = apply_rows (apply_row s k off row) k (off + 1) rows"
  by (simp add: apply_row_def Let_def row_at_def confirmed_def)

lemma apply_row_upd: "table_upd s (apply_row s k off row)"
  by (simp add: apply_row_def)

lemma apply_row_spec:
  assumes inv: "rb_inv s" and k: "k < 8" and off: "off < rs_sealed_span s"
  shows "rb_inv (apply_row s k off row)"
    and "k' < 8 \<Longrightarrow> row_at (apply_row s k off row) j k' =
      (if j = unat off \<and> k' = k then merge_row (rs_seal_base_tick s + off) (row_at s j k) row else row_at s j k')"
    and "credited (apply_row s k off row) j k' \<longleftrightarrow> credited s j k' \<or> j = unat off \<and> k' = k \<and> fr_is_valid row \<noteq> 0"
    and "unat (off + 1) = Suc (unat off)"
proof -
  note i = rb_invD [OF inv]
  from off have o: "unat off < span s" "unat off < unat (rc_seal_max_span (rs_cfg s))"
    using i(4) by (simp_all add: word_less_nat_alt)
  have sz: "table_size (put_row s (unat off) k r) (unat (rc_seal_max_span (rs_cfg s)))" for r
    using i(2) table_size_upd [OF table_upd_put] by simp
  have "rb_inv (credit s (unat off) k)" if "confirmed (row_at s (unat off) k)"
    using rb_inv_credit [OF inv o(1) k] that by (simp add: confirmed_def)
  moreover have "rb_inv (credit (put_row s (unat off) k (row\<lparr>fr_tick := rs_seal_base_tick s + off\<rparr>)) (unat off) k)"
    if "fr_is_valid row \<noteq> 0"
    using rb_inv_put_credit [OF inv o(1) k] that by simp
  ultimately show "rb_inv (apply_row s k off row)" using inv by (simp add: apply_row_def)
  show "row_at (apply_row s k off row) j k' =
      (if j = unat off \<and> k' = k then merge_row (rs_seal_base_tick s + off) (row_at s j k) row else row_at s j k')"
    if "k' < 8"
    using row_at_put [OF i(2) o(2) k that] by (auto simp: apply_row_def merge_row_def)
  show "credited (apply_row s k off row) j k' \<longleftrightarrow> credited s j k' \<or> j = unat off \<and> k' = k \<and> fr_is_valid row \<noteq> 0"
    using credited_credit [OF i(2) o(2) k] credited_credit [OF sz o(2) k] by (simp add: apply_row_def)
  show "unat (off + 1) = Suc (unat off)"
    using o(1) i(4,5) by (simp add: unat_word_ariths take_bit_nat_eq_self)
qed

lemma apply_rows_spec:
  assumes "rb_inv s" "k < 8" "k' < 8" "j < span s"
  shows "row_at (apply_rows s k off rows) j k' =
      (if k' = k \<and> unat off \<le> j \<and> j < unat off + length rows
       then merge_row (rs_seal_base_tick s + of_nat j) (row_at s j k) (rows ! (j - unat off))
       else row_at s j k')"
    and "credited (apply_rows s k off rows) j k' \<longleftrightarrow> credited s j k' \<or>
      k' = k \<and> unat off \<le> j \<and> j < unat off + length rows \<and> fr_is_valid (rows ! (j - unat off)) \<noteq> 0"
  using assms
proof (induction rows arbitrary: s off)
  case (Cons row rows)
  {
    case 1
    show ?case
    proof (cases "off < rs_sealed_span s")
      case True
      note sp = apply_row_spec [OF 1(1,2) True]
      note f = table_upd_fields(5,6) [OF apply_row_upd [of s k off row]]
      have "j < span (apply_row s k off row)" using 1(4) by (simp add: f)
      note IH = Cons.IH(1) [OF sp(1) 1(2,3) this, of "off + 1"]
      show ?thesis unfolding apply_rows_step [OF True] IH f sp(4)
        using 1(3) by (auto simp: sp(2) nth_Cons' Suc_diff_le)
    qed (use 1 in \<open>simp add: word_less_nat_alt word_le_nat_alt\<close>)
  next
    case 2
    show ?case
    proof (cases "off < rs_sealed_span s")
      case True
      note sp = apply_row_spec [OF 2(1,2) True]
      note f = table_upd_fields(5,6) [OF apply_row_upd [of s k off row]]
      have "j < span (apply_row s k off row)" using 2(4) by (simp add: f)
      note IH = Cons.IH(2) [OF sp(1) 2(2,3) this, of "off + 1"]
      show ?thesis unfolding apply_rows_step [OF True] IH f sp(4)
        using 2(3) by (auto simp: sp(3) nth_Cons' Suc_diff_le)
    qed (use 2 in \<open>simp add: word_less_nat_alt word_le_nat_alt\<close>)
  }
qed auto

section \<open>Extension\<close>

lemma extend_fields:
  assumes "rb_inv s" "rnet_rb_can_extend_target s t"
  shows "rs_seal_base_tick (snd (rnet_rb_extend_target gir s t)) = rs_seal_base_tick s"
    "rs_inputs_sealed (snd (rnet_rb_extend_target gir s t))"
    "target_tick (snd (rnet_rb_extend_target gir s t)) = max (target_tick s) t"
    "rs_cfg (snd (rnet_rb_extend_target gir s t)) = rs_cfg s"
    "co_epoch_id (rs_corr (snd (rnet_rb_extend_target gir s t))) = co_epoch_id (rs_corr s)"
proof -
  have "rs_inputs_sealed s" using assms(2) by (simp add: rnet_rb_can_extend_target_def split: if_splits)
  moreover have "table_upd s (fill_span gir (rs_seal_base_tick s) s a b)" for a b by simp
  note f = table_upd_fields [OF this]
  ultimately show "rs_seal_base_tick (snd (rnet_rb_extend_target gir s t)) = rs_seal_base_tick s"
    "rs_inputs_sealed (snd (rnet_rb_extend_target gir s t))"
    "target_tick (snd (rnet_rb_extend_target gir s t)) = max (target_tick s) t"
    "rs_cfg (snd (rnet_rb_extend_target gir s t)) = rs_cfg s"
    "co_epoch_id (rs_corr (snd (rnet_rb_extend_target gir s t))) = co_epoch_id (rs_corr s)"
    using assms(2) f
    by (auto simp: rnet_rb_extend_target_def Let_def verify_to_replay_def max_def)
qed

lemma row_at_verify [simp]:
  "row_at (verify_to_replay s) = row_at s" "credited (verify_to_replay s) = credited s"
  by (simp_all add: verify_to_replay_def row_at_def credited_def fun_eq_iff)

lemma extend_keeps:
  assumes "rb_inv s" "j < span s" "k < 8"
  shows "row_at (snd (rnet_rb_extend_target gir s t)) j k = row_at s j k"
    "credited (snd (rnet_rb_extend_target gir s t)) j k = credited s j k"
proof -
  note i = rb_invD [OF assms(1)]
  let ?b = "rs_seal_base_tick s" and ?m = "rc_seal_max_span (rs_cfg s)"
  have "row_at (fill_span gir ?b s (span s) (unat (t - ?b + 1))) j k = row_at s j k \<and>
      credited (fill_span gir ?b s (span s) (unat (t - ?b + 1))) j k = credited s j k"
    if "rnet_rb_can_extend_target s t" "\<not> t \<le> target_tick s"
  proof -
    from that have "?b \<le> t" "t - ?b < ?m"
      by (auto simp: rnet_rb_can_extend_target_def not_le not_less split: if_splits)
    from span_arith [OF this i(5)] have "unat (t - ?b + 1) \<le> unat ?m" by simp
    from fill_span_spec [OF i(2) this assms(3) i(6)] assms(2) show ?thesis by simp
  qed
  then show "row_at (snd (rnet_rb_extend_target gir s t)) j k = row_at s j k"
    "credited (snd (rnet_rb_extend_target gir s t)) j k = credited s j k"
    by (auto simp: rnet_rb_extend_target_def Let_def row_at_def credited_def verify_to_replay_def)
qed

lemma span_mono:
  assumes "rb_inv s" "rb_inv s'" "rs_inputs_sealed s" "rs_inputs_sealed s'"
    "rs_seal_base_tick s' = rs_seal_base_tick s" "target_tick s \<le> target_tick s'"
  shows "span s \<le> span s'"
  using rb_invD(8) [OF assms(1)] rb_invD(8) [OF assms(2)] assms(3-6)
  unfolding seal_ok_def word_le_nat_alt by simp

section \<open>Confirmed rows\<close>

lemma resign_confirmed:
  assumes "rb_inv s" "k < 8" "k' < 8" "of_nat k \<noteq> local_slot s" "confirmed (row_at s j k)"
    "\<forall>i \<in> set xs. i < span s"
  shows "confirmed (row_at (foldl (resign_offset gir k' a b) s xs) j k)"
  using assms
proof (induction xs arbitrary: s)
  case (Cons i xs)
  let ?s1 = "resign_offset gir k' a b s i"
  note f = table_upd_fields [OF table_upd_resign_offset [of s gir k' a b i]]
  have i: "i < unat (rc_seal_max_span (rs_cfg s))" using Cons.prems(6) rb_invD(4) [OF Cons.prems(1)] by simp
  have "confirmed (row_at ?s1 j k)"
    using Cons.prems(2-5) row_at_put [OF rb_invD(2) [OF Cons.prems(1)] i Cons.prems(3,2)]
    by (auto simp: resign_offset_def Let_def confirmed_def split: option.splits)
  with Cons.IH [of ?s1] Cons.prems show ?case
    by (simp add: rb_inv_resign_offset f)
qed simp

lemma apply_cases:
  assumes "rb_inv s"
  obtains (same) "snd (rnet_rb_apply_peer_seal_rows gir s ep mm t slot rb rows) = s"
  | (applied) s1 where "snd (rnet_rb_apply_peer_seal_rows gir s ep mm t slot rb rows) = apply_rows s1 (nat slot) rb rows"
      "rnet_rb_slot_valid slot" "rs_inputs_sealed s"
      "s1 = s \<or> rnet_rb_can_extend_target s t \<and> s1 = snd (rnet_rb_extend_target gir s t)"
proof -
  have nc: "snd (rnet_rb_extend_target gir s t) = s" if "\<not> fst (rnet_rb_extend_target gir s t)"
    using that by (auto simp: rnet_rb_extend_target_def Let_def split: if_splits)
  have c: "rnet_rb_can_extend_target s t" if "fst (rnet_rb_extend_target gir s t)"
    using that by (auto simp: rnet_rb_extend_target_def split: if_splits)
  let ?r = "rnet_rb_apply_peer_seal_rows gir s ep mm t slot rb rows"
  obtain ok s1 where e: "(if target_tick s < t then rnet_rb_extend_target gir s t else (True, s)) = (ok, s1)"
    by fastforce
  show thesis
  proof (cases "rs_inputs_sealed s \<and> rnet_rb_slot_valid slot \<and> ep = co_epoch_id (rs_corr s) \<and>
      mm = rs_seal_base_tick s \<and> \<not> t < target_tick s")
    case False
    then have "snd ?r = s" unfolding rnet_rb_apply_peer_seal_rows_def rnet_rb_inputs_sealed_def by auto
    then show thesis by (rule same)
  next
    case True
    then have r: "?r = (if \<not> ok then (False, s1) else (True, apply_rows s1 (nat slot) rb rows))"
      unfolding rnet_rb_apply_peer_seal_rows_def rnet_rb_inputs_sealed_def e by simp
    have s1: "s1 = s \<or> ok \<and> rnet_rb_can_extend_target s t \<and> s1 = snd (rnet_rb_extend_target gir s t)"
      using e nc c by (auto split: if_splits)
    show thesis
    proof (cases ok)
      case True
      with s1 r \<open>rs_inputs_sealed s \<and> _\<close> show thesis by (intro applied [of s1]) auto
    next
      case False
      with s1 r show thesis by (intro same) auto
    qed
  qed
qed

lemma apply_confirmed:
  assumes "rb_inv s" "k < 8" "j < span s" "confirmed (row_at s j k)"
  shows "confirmed (row_at (snd (rnet_rb_apply_peer_seal_rows gir s ep mm t slot rb rows)) j k)"
proof (cases rule: apply_cases [OF assms(1), of gir ep mm t slot rb rows, case_names same applied])
  case (applied s1)
  have k': "nat slot < 8" using applied(2) by (auto simp: rnet_rb_slot_valid_def)
  have s1: "rb_inv s1" "row_at s1 j k = row_at s j k"
    using applied(4) assms(1) rb_inv_extend extend_keeps(1) [OF assms(1,3,2)] by auto
  have "span s \<le> span s1"
    using applied(3,4) span_mono [OF assms(1) s1(1)] extend_fields [OF assms(1)] by auto
  with assms(3) have "j < span s1" by simp
  from apply_rows_spec(1) [OF s1(1) k' assms(2) this, of rb rows] s1(2) assms(4) show ?thesis
    by (auto simp: applied(1) merge_row_confirmed)
qed (use assms in simp)

section \<open>Transfer of a seat's rows\<close>

text \<open>One \<^verbatim>\<open>SEAL_ROWS\<close> chunk: exported by one session and applied by another, 24 rows at most.\<close>

definition send_chunk :: "get_input_row \<Rightarrow> RNetRbSession \<Rightarrow> int \<Rightarrow> RNetRbSession \<Rightarrow> u32 \<Rightarrow> RNetRbSession" where
  "send_chunk gir s1 slot s2 off =
     (case rnet_rb_export_seal_rows_chunk s1 slot off 24 of
        None \<Rightarrow> s2
      | Some rows \<Rightarrow> snd (rnet_rb_apply_peer_seal_rows gir s2 (rnet_rb_get_epoch_id s1)
          (rnet_rb_get_seal_base_tick s1) (rnet_rb_get_target_tick s1) slot off rows))"

definition send_all :: "get_input_row \<Rightarrow> RNetRbSession \<Rightarrow> int \<Rightarrow> RNetRbSession \<Rightarrow> RNetRbSession" where
  "send_all gir s1 slot s2 = foldl (send_chunk gir s1 slot) s2 [0, 24, 48]"

text \<open>Both sessions have sealed the same episode.\<close>

definition same_episode :: "RNetRbSession \<Rightarrow> RNetRbSession \<Rightarrow> bool" where
  "same_episode s1 s2 \<longleftrightarrow> rnet_rb_inputs_sealed s1 \<and> rnet_rb_inputs_sealed s2 \<and>
     rnet_rb_get_epoch_id s1 = rnet_rb_get_epoch_id s2 \<and>
     rnet_rb_get_seal_base_tick s1 = rnet_rb_get_seal_base_tick s2 \<and>
     rnet_rb_get_target_tick s1 = rnet_rb_get_target_tick s2"

lemma same_episode_upd: "table_upd s2 s2' \<Longrightarrow> same_episode s1 s2' = same_episode s1 s2"
  by (simp add: same_episode_def rnet_rb_inputs_sealed_def rnet_rb_get_epoch_id_def
        rnet_rb_get_seal_base_tick_def rnet_rb_get_target_tick_def table_upd_fields)

lemma same_episode_span:
  assumes "rb_inv s1" "rb_inv s2" "same_episode s1 s2"
  shows "span s2 = span s1" "rs_seal_base_tick s2 = rs_seal_base_tick s1"
proof -
  have "rs_inputs_sealed s1" "rs_inputs_sealed s2" "rs_seal_base_tick s2 = rs_seal_base_tick s1"
    "target_tick s2 = target_tick s1"
    using assms(3) by (simp_all add: same_episode_def rnet_rb_inputs_sealed_def
        rnet_rb_get_seal_base_tick_def rnet_rb_get_target_tick_def)
  then show "span s2 = span s1" "rs_seal_base_tick s2 = rs_seal_base_tick s1"
    using span_mono [OF assms(1,2)] span_mono [OF assms(2,1)] by simp_all
qed

lemma export_rows:
  assumes "rb_inv s" "rnet_rb_inputs_sealed s" "rnet_rb_slot_valid slot"
  obtains rows where "rnet_rb_export_seal_rows_chunk s slot off 24 = Some rows"
    "length rows = min 24 (span s - unat off)"
    "\<And>i. i < length rows \<Longrightarrow> rows ! i = row_at s (unat off + i) (nat slot)"
proof (cases "off \<ge> rs_sealed_span s")
  case True
  then show thesis using that [of "[]"] assms
    by (simp add: rnet_rb_export_seal_rows_chunk_def word_le_nat_alt)
next
  case False
  let ?n = "rs_sealed_span s - off"
  let ?m = "if ?n > 24 then 24 else ?n"
  have n: "unat ?n = span s - unat off" using False by (simp add: unat_sub)
  then have m: "unat ?m = min 24 (span s - unat off)" by (auto simp: word_less_nat_alt min_def)
  let ?rows = "map (\<lambda>i. rs_sealed s ! rnet_rb_seal_index (unat (off + of_nat i)) (nat slot)) [0..<unat ?m]"
  have "rnet_rb_export_seal_rows_chunk s slot off 24 = Some ?rows"
    using assms False by (simp add: rnet_rb_export_seal_rows_chunk_def Let_def)
  moreover have "?rows ! i = row_at s (unat off + i) (nat slot)" if "i < length ?rows" for i
  proof -
    from that m have "i < 24" "i < span s - unat off" by simp_all
    moreover from this(2) have "unat off + i < 64"
      using rb_invD(4,5) [OF assms(1)] by linarith
    ultimately have "i < 24" "unat off + i < 2 ^ 32" by simp_all
    then have "unat (off + of_nat i) = unat off + i"
      by (simp add: unat_word_ariths unat_of_nat take_bit_nat_eq_self)
    with that show ?thesis by (simp add: row_at_def)
  qed
  ultimately show thesis using that m by (metis length_map length_upt minus_nat.diff_0)
qed

lemma send_chunk_spec:
  assumes inv: "rb_inv s1" "rb_inv s2" and ep: "same_episode s1 s2" and sv: "rnet_rb_slot_valid slot"
  shows "rb_inv (send_chunk gir s1 slot s2 off)" "same_episode s1 (send_chunk gir s1 slot s2 off)"
    and "j < span s1 \<Longrightarrow> row_at (send_chunk gir s1 slot s2 off) j (nat slot) =
      (if unat off \<le> j \<and> j < unat off + 24
       then merge_row (rs_seal_base_tick s1 + of_nat j) (row_at s2 j (nat slot)) (row_at s1 j (nat slot))
       else row_at s2 j (nat slot))"
    and "j < span s1 \<Longrightarrow> credited (send_chunk gir s1 slot s2 off) j (nat slot) \<longleftrightarrow> credited s2 j (nat slot) \<or>
      unat off \<le> j \<and> j < unat off + 24 \<and> fr_is_valid (row_at s1 j (nat slot)) \<noteq> 0"
proof -
  let ?k = "nat slot"
  have k: "?k < 8" using sv by (auto simp: rnet_rb_slot_valid_def)
  have sealed: "rnet_rb_inputs_sealed s1" using ep by (simp add: same_episode_def)
  from export_rows [OF inv(1) sealed sv] obtain rows where
    ex: "rnet_rb_export_seal_rows_chunk s1 slot off 24 = Some rows"
    and len: "length rows = min 24 (span s1 - unat off)"
    and nth: "\<And>i. i < length rows \<Longrightarrow> rows ! i = row_at s1 (unat off + i) ?k" by metis
  have e: "send_chunk gir s1 slot s2 off = apply_rows s2 ?k off rows"
    using ep sv by (simp add: send_chunk_def ex same_episode_def rnet_rb_apply_peer_seal_rows_def
        rnet_rb_get_epoch_id_def rnet_rb_get_seal_base_tick_def rnet_rb_get_target_tick_def)
  note sp = same_episode_span [OF inv ep]
  show "rb_inv (send_chunk gir s1 slot s2 off)" unfolding e by (rule rb_inv_apply_rows [OF k inv(2)])
  show "same_episode s1 (send_chunk gir s1 slot s2 off)"
    unfolding e same_episode_upd [OF table_upd_apply] by (rule ep)
  have r: "unat off \<le> j \<and> j < unat off + length rows \<longleftrightarrow> unat off \<le> j \<and> j < unat off + 24"
    if "j < span s1" for j using that by (auto simp: len)
  have nj: "rows ! (j - unat off) = row_at s1 j ?k" if "unat off \<le> j" "j < unat off + length rows" for j
    using nth [of "j - unat off"] that by simp
  show "row_at (send_chunk gir s1 slot s2 off) j ?k =
      (if unat off \<le> j \<and> j < unat off + 24
       then merge_row (rs_seal_base_tick s1 + of_nat j) (row_at s2 j ?k) (row_at s1 j ?k)
       else row_at s2 j ?k)" if "j < span s1"
    using that apply_rows_spec(1) [OF inv(2) k k, of j off rows] nj [of j] r [of j] unfolding e sp by auto
  show "credited (send_chunk gir s1 slot s2 off) j ?k \<longleftrightarrow> credited s2 j ?k \<or>
      unat off \<le> j \<and> j < unat off + 24 \<and> fr_is_valid (row_at s1 j ?k) \<noteq> 0" if "j < span s1"
    using that apply_rows_spec(2) [OF inv(2) k k, of j off rows] nj [of j] r [of j] unfolding e sp by auto
qed

lemma send_all_spec:
  assumes inv: "rb_inv s1" "rb_inv s2" and ep: "same_episode s1 s2" and sv: "rnet_rb_slot_valid slot"
  shows "rb_inv (send_all gir s1 slot s2)" "same_episode s1 (send_all gir s1 slot s2)"
    and "j < span s1 \<Longrightarrow> row_at (send_all gir s1 slot s2) j (nat slot) =
      merge_row (rs_seal_base_tick s1 + of_nat j) (row_at s2 j (nat slot)) (row_at s1 j (nat slot))"
    and "j < span s1 \<Longrightarrow> credited (send_all gir s1 slot s2) j (nat slot) \<longleftrightarrow>
      credited s2 j (nat slot) \<or> fr_is_valid (row_at s1 j (nat slot)) \<noteq> 0"
proof -
  let ?a = "send_chunk gir s1 slot s2 0"
  let ?b = "send_chunk gir s1 slot ?a 24"
  note 1 = send_chunk_spec [OF inv ep sv, where gir = gir and off = 0]
  note 2 = send_chunk_spec [OF inv(1) 1(1,2) sv, where gir = gir and off = 24]
  note 3 = send_chunk_spec [OF inv(1) 2(1,2) sv, where gir = gir and off = 48]
  have all: "send_all gir s1 slot s2 = send_chunk gir s1 slot ?b 48" by (simp add: send_all_def)
  show "rb_inv (send_all gir s1 slot s2)" "same_episode s1 (send_all gir s1 slot s2)"
    unfolding all by (rule 3(1), rule 3(2))
  have lim: "span s1 \<le> 64" using rb_invD(4,5) [OF inv(1)] by simp
  show "row_at (send_all gir s1 slot s2) j (nat slot) =
      merge_row (rs_seal_base_tick s1 + of_nat j) (row_at s2 j (nat slot)) (row_at s1 j (nat slot))"
    if "j < span s1"
    unfolding all 3(3) [OF that] 2(3) [OF that] 1(3) [OF that] using that lim by simp
  show "credited (send_all gir s1 slot s2) j (nat slot) \<longleftrightarrow>
      credited s2 j (nat slot) \<or> fr_is_valid (row_at s1 j (nat slot)) \<noteq> 0"
    if "j < span s1"
    unfolding all 3(4) [OF that] 2(4) [OF that] 1(4) [OF that] using that lim by auto
qed

section \<open>A small session for the witnesses\<close>

definition demo_gates :: RNetInputContractHostGates where
  "demo_gates = \<lparr>equal_predicted_force_rewind = None, absorb_stick_replace = None,
     protect_promote = None, block_deadband_promote = None, hash_confirm_promote = None,
     defer_predicted_correction = None\<rparr>"

definition demo_cfg :: "u32 \<Rightarrow> RNetRbConfig" where
  "demo_cfg loc = \<lparr>rc_local_slot = loc, rc_delay = 2, rc_seal_max_span = 4, rc_slot_count = 2,
     rc_tip_runway = 0, rc_tip_seal_slack = 0, rc_light_tip_max_depth = 0, rc_occupied_mask = 0\<rparr>"

definition demo_vt :: RNetRollbackVTable where
  "demo_vt = \<lparr>vt_load_state = True, vt_advance_sim = True, vt_get_input_row = True,
     vt_stick_gates = demo_gates\<rparr>"

definition demo_session :: "u32 \<Rightarrow> RNetRbSession" where
  "demo_session loc = the (rnet_rb_create (demo_cfg loc) demo_vt)"

definition demo_corr :: RNetRbCorrection where
  "demo_corr = \<lparr>co_epoch_id = 7, co_mismatch_tick = 10, co_load_tick = 10, co_target_tick = 11,
     co_slot = 1, co_initiator = 1, co_from_peer_notify = 0, co_flags = 0\<rparr>"

definition pad_row :: "u8 \<Rightarrow> u16 \<Rightarrow> RNetRbFrame" where
  "pad_row pred btn = zero_frame\<lparr>fr_buttons := btn, fr_is_predicted := pred, fr_is_valid := 1\<rparr>"

text \<open>A host history that has only rows of one seat.\<close>

definition own_rows :: "int \<Rightarrow> get_input_row" where
  "own_rows seat = (\<lambda>slot tick. if slot = seat then Some (pad_row 0 5) else None)"

definition demo_sealed :: "u32 \<Rightarrow> RNetRbSession" where
  "demo_sealed loc = foldl rb_step_demote (demo_session loc)
     [Inl (Begin demo_corr), Inl (Seal (own_rows (uint loc)) 10 11)]"

definition demo_complete :: RNetRbSession where
  "demo_complete = foldl rb_step_demote (demo_sealed 0)
     [Inl (ApplyPeer (own_rows 0) 7 10 11 1 0 [pad_row 0 9, pad_row 1 9])]"

lemma create_demo:
  assumes "loc \<le> 2"
  shows "rnet_rb_create (demo_cfg loc) demo_vt = Some (demo_session loc)"
proof -
  have "rnet_rb_create (demo_cfg loc) demo_vt \<noteq> None"
    using assms by (simp add: rnet_rb_create_def clamp_config_def demo_cfg_def demo_vt_def Let_def)
  then show ?thesis by (simp add: demo_session_def)
qed

lemma started_demo: "loc \<le> 2 \<Longrightarrow> started (demo_session loc)"
  using create_demo foldl_Nil by metis

lemma started_run: "started s \<Longrightarrow> started (foldl rb_step_demote s opns)"
  using foldl_append [of rb_step_demote] by metis

lemma started_sealed: "loc \<le> 2 \<Longrightarrow> started (demo_sealed loc)"
  unfolding demo_sealed_def by (intro started_run started_demo)

lemma started_complete: "started demo_complete"
  unfolding demo_complete_def by (intro started_run started_sealed) simp

section \<open>Properties\<close>



text \<open>
  C7. Once every expected peer seat is complete, replay never misses an input: each such seat has
  a sealed row for every tick from the base to the target, tagged with that tick, and the row is
  authoritative.
\<close>

theorem complete_seats_replayable:
  assumes "started s" "rnet_rb_all_peer_seal_rows_complete s" "bit (rnet_rb_expected_peer_mask s) k"
    "rnet_rb_get_seal_base_tick s \<le> t" "t \<le> rnet_rb_get_target_tick s"
  shows "\<exists>row. rnet_rb_get_sealed_frame s (int k) t = Some row \<and> fr_tick row = t \<and>
    rnet_rb_seat_row_authoritative s (int k) t"
proof -
  have inv: "rb_inv s" by (rule started_inv [OF assms(1)])
  note i = rb_invD [OF inv]
  from assms(3) have k: "k < seats s" "of_nat k \<noteq> local_slot s" by (simp_all add: expected_mask_bit [OF inv])
  with i(6) have k8: "k < 8" by simp
  from assms(2,3) k8 have c: "rnet_rb_inputs_sealed s" "rnet_rb_peer_seal_rows_complete s (int k)"
    by (auto simp: rnet_rb_all_peer_seal_rows_complete_def seats_complete_iff split: if_splits)
  then have cr: "credited s j k" if "j < span s" for j using that complete_iff [OF inv] by simp
  have sp: "rnet_rb_tick_in_sealed_span s t"
    using in_span_iff [OF inv] assms(4,5) c(1)
    by (simp add: rnet_rb_get_seal_base_tick_def rnet_rb_get_target_tick_def)
  note o = in_span_offset [OF sp]
  have v: "fr_is_valid (row_at s (offset_of s t) k) \<noteq> 0" "fr_tick (row_at s (offset_of s t) k) = t"
    using i(7) o cr k k8 by (auto simp: rows_ok_def)
  have o64: "offset_of s t < 64" using o i(4,5) by simp
  have sv: "rnet_rb_slot_valid (int k)" using k8 by (simp add: rnet_rb_slot_valid_def)
  have "rnet_rb_get_sealed_frame s (int k) t = Some (row_at s (offset_of s t) k)"
    using v sp sv by (simp add: get_sealed_frame_eq)
  moreover have "rnet_rb_seat_row_authoritative s (int k) t"
    using cr o sp sv k(2) o64
    by (simp add: rnet_rb_seat_row_authoritative_def Let_def offset_of_def credited_def)
  ultimately show ?thesis using v(2) by blast
qed

theorem complete_seats_replayable_witness:
  "\<exists>row. rnet_rb_get_sealed_frame demo_complete (int 1) 11 = Some row \<and> fr_tick row = 11 \<and>
    rnet_rb_seat_row_authoritative demo_complete (int 1) 11"
proof (rule complete_seats_replayable [OF started_complete])
  show "rnet_rb_all_peer_seal_rows_complete demo_complete" by code_simp
  show "bit (rnet_rb_expected_peer_mask demo_complete) 1" by code_simp
  show "rnet_rb_get_seal_base_tick demo_complete \<le> 11" by code_simp
  show "11 \<le> rnet_rb_get_target_tick demo_complete" by code_simp
qed

text \<open>
  C23. A confirmed sealed row is never lost to a prediction: whatever rows a peer sends, however
  the target is extended, and whichever rows of the host's history are signed again, the row of a
  seat and tick that was confirmed is still confirmed afterwards. (Signing again the local seat is
  the host replacing its own row and is excluded.)
\<close>

theorem confirmed_row_survives:
  assumes "started s" "rnet_rb_get_sealed_frame s slot t = Some row" "fr_is_predicted row = 0"
    and "opn = ApplyPeer gir ep mm tg slot' rb rows \<or> opn = Extend gir tg \<or>
      opn = Resign gir slot' a b \<and> of_int slot \<noteq> local_slot s"
  shows "\<exists>row'. rnet_rb_get_sealed_frame (rb_step s opn) slot t = Some row' \<and> fr_is_predicted row' = 0"
proof -
  let ?s' = "rb_step s opn"
  let ?j = "offset_of s t" and ?k = "nat slot"
  have inv: "rb_inv s" by (rule started_inv [OF assms(1)])
  have inv': "rb_inv ?s'" by (rule rb_inv_step [OF inv])
  from assms(2,3) have sp: "rnet_rb_tick_in_sealed_span s t" and sv: "rnet_rb_slot_valid slot"
    and cf: "confirmed (row_at s ?j ?k)"
    by (auto simp: get_sealed_frame_eq confirmed_def split: if_splits)
  from sv have k: "?k < 8" "of_nat ?k = (of_int slot :: u32)" by (auto simp: rnet_rb_slot_valid_def)
  have j: "?j < span s" using in_span_offset [OF sp] by simp
  have sealed: "rs_inputs_sealed s" using sp by (simp add: rnet_rb_tick_in_sealed_span_def split: if_splits)
  have "confirmed (row_at ?s' ?j ?k) \<and> rs_inputs_sealed ?s' \<and> rs_seal_base_tick ?s' = rs_seal_base_tick s \<and>
      target_tick s \<le> target_tick ?s'"
    using assms(4)
  proof (elim disjE)
    assume o: "opn = Extend gir tg"
    show ?thesis
    proof (cases "rnet_rb_can_extend_target s tg")
      case True
      then show ?thesis using extend_fields [OF inv True, of gir] extend_keeps(1) [OF inv j k(1)] cf o by simp
    next
      case False
      then show ?thesis using cf sealed o by (simp add: rnet_rb_extend_target_def)
    qed
  next
    assume o: "opn = Resign gir slot' a b \<and> of_int slot \<noteq> local_slot s"
    show ?thesis
    proof (cases "rnet_rb_slot_valid slot'")
      case True
      then have k': "nat slot' < 8" by (auto simp: rnet_rb_slot_valid_def)
      have "confirmed (row_at (foldl (resign_offset gir (nat slot') a b) s [0..<span s]) ?j ?k)"
        by (rule resign_confirmed [OF inv k(1) k' _ cf]) (use o k(2) in auto)
      with o cf sealed table_upd_fields [OF table_upd_resign] show ?thesis
        by (simp add: rnet_rb_resign_slot_range_def)
    next
      case False
      then show ?thesis using o cf sealed by (simp add: rnet_rb_resign_slot_range_def)
    qed
  next
    assume o: "opn = ApplyPeer gir ep mm tg slot' rb rows"
    have "confirmed (row_at ?s' ?j ?k)" using apply_confirmed [OF inv k(1) j cf] o by simp
    moreover have "rs_inputs_sealed ?s' \<and> rs_seal_base_tick ?s' = rs_seal_base_tick s \<and> target_tick s \<le> target_tick ?s'"
    proof (cases rule: apply_cases [OF inv, of gir ep mm tg slot' rb rows, case_names same applied])
      case same
      with o sealed show ?thesis by simp
    next
      case (applied s1)
      with o sealed extend_fields [OF inv, of tg gir] table_upd_fields [OF table_upd_apply]
      show ?thesis by auto
    qed
    ultimately show ?thesis by blast
  qed
  moreover from this in_span_iff [OF inv] in_span_iff [OF inv'] sp
  have "rnet_rb_tick_in_sealed_span ?s' t" by (auto simp: rnet_rb_inputs_sealed_def)
  ultimately show ?thesis using sv by (auto simp: get_sealed_frame_eq offset_of_def confirmed_def)
qed

theorem confirmed_row_survives_witness:
  "\<exists>row'. rnet_rb_get_sealed_frame
     (rb_step demo_complete (ApplyPeer (own_rows 0) 7 10 11 1 0 [pad_row 1 3])) 1 10 = Some row' \<and>
     fr_is_predicted row' = 0"
proof (rule confirmed_row_survives [OF started_complete])
  show "rnet_rb_get_sealed_frame demo_complete 1 10 = Some ((pad_row 0 9)\<lparr>fr_tick := 10\<rparr>)" by code_simp
  show "fr_is_predicted ((pad_row 0 9)\<lparr>fr_tick := 10\<rparr>) = 0" by code_simp
qed simp

text \<open>
  C24. Transfer of a seat between two peers that sealed the same episode: after all its rows have
  been exported in chunks of 24 and applied, the receiver has the sender's row for every tick
  where the sender has one, unless that row is only predicted and the receiver already holds a
  confirmed one, which it keeps; and if the sender has a row for every tick, the seat is complete
  on the receiver.
\<close>

theorem seal_rows_transfer:
  assumes "started s1" "started s2" "same_episode s1 s2" "0 \<le> slot" "nat slot < seats s1"
    and "s2' = send_all gir s1 slot s2"
  shows "(\<forall>t row. rnet_rb_get_sealed_frame s1 slot t = Some row \<longrightarrow>
       (case rnet_rb_get_sealed_frame s2 slot t of
          Some old \<Rightarrow> rnet_rb_get_sealed_frame s2' slot t =
            Some (if fr_is_predicted row \<noteq> 0 \<and> fr_is_predicted old = 0 then old else row)
        | None \<Rightarrow> rnet_rb_get_sealed_frame s2' slot t = Some row)) \<and>
     ((\<forall>t. rnet_rb_tick_in_sealed_span s1 t \<longrightarrow> rnet_rb_get_sealed_frame s1 slot t \<noteq> None) \<longrightarrow>
        rnet_rb_peer_seal_rows_complete s2' slot)"
proof -
  have inv: "rb_inv s1" "rb_inv s2" using started_inv assms(1,2) by blast+
  note i = rb_invD [OF inv(1)]
  from assms(4,5) i(6) have sv: "rnet_rb_slot_valid slot" and k: "nat slot < seats s1"
    by (auto simp: rnet_rb_slot_valid_def)
  note all = send_all_spec [OF inv assms(3) sv, where gir = gir, folded assms(6)]
  note sp2 = same_episode_span [OF inv assms(3)] and sp3 = same_episode_span [OF inv(1) all(1,2)]
  have tick: "rnet_rb_tick_in_sealed_span s2 t = rnet_rb_tick_in_sealed_span s1 t"
    "rnet_rb_tick_in_sealed_span s2' t = rnet_rb_tick_in_sealed_span s1 t"
    "offset_of s2 t = offset_of s1 t" "offset_of s2' t = offset_of s1 t" for t
    using sp2 sp3 assms(3) all(2)
    by (simp_all add: rnet_rb_tick_in_sealed_span_def offset_of_def same_episode_def rnet_rb_inputs_sealed_def
        word_less_nat_alt)
  have first: "case rnet_rb_get_sealed_frame s2 slot t of
          Some old \<Rightarrow> rnet_rb_get_sealed_frame s2' slot t =
            Some (if fr_is_predicted row \<noteq> 0 \<and> fr_is_predicted old = 0 then old else row)
        | None \<Rightarrow> rnet_rb_get_sealed_frame s2' slot t = Some row"
    if g: "rnet_rb_get_sealed_frame s1 slot t = Some row" for t row
  proof -
    let ?j = "offset_of s1 t"
    from g have s: "rnet_rb_tick_in_sealed_span s1 t" "row = row_at s1 ?j (nat slot)" "fr_is_valid row \<noteq> 0"
      by (auto simp: get_sealed_frame_eq split: if_splits)
    note o = in_span_offset [OF s(1)]
    have "fr_tick row = t" using i(7) o k s(2) by (auto simp: rows_ok_def)
    then have "row\<lparr>fr_tick := rs_seal_base_tick s1 + of_nat ?j\<rparr> = row" using o by (cases row) auto
    with s o sv all(3) [of ?j] show ?thesis
      by (auto simp: get_sealed_frame_eq tick merge_row_def confirmed_def split: option.splits)
  qed
  have second: "rnet_rb_peer_seal_rows_complete s2' slot"
    if full: "\<forall>t. rnet_rb_tick_in_sealed_span s1 t \<longrightarrow> rnet_rb_get_sealed_frame s1 slot t \<noteq> None"
  proof -
    have "credited s2' j (nat slot)" if j: "j < span s1" for j
    proof -
      let ?t = "rs_seal_base_tick s1 + of_nat j"
      have sealed: "rs_inputs_sealed s1" using assms(3) by (simp add: same_episode_def rnet_rb_inputs_sealed_def)
      have nj: "unat (of_nat j :: u32) = j" using j i(4,5) by (simp add: unat_of_nat take_bit_nat_eq_self)
      have "unat (target_tick s1) < 2 ^ LENGTH(32)" by (rule unsigned_less)
      moreover have "unat (target_tick s1) + 1 = unat (rs_seal_base_tick s1) + span s1"
        using i(8) sealed by (simp add: seal_ok_def)
      ultimately have "unat (rs_seal_base_tick s1) + j < 2 ^ 32" using j by simp
      then have "rs_seal_base_tick s1 \<le> ?t"
        using nj by (simp add: word_le_nat_alt unat_word_ariths take_bit_nat_eq_self)
      then have "rnet_rb_tick_in_sealed_span s1 ?t" "offset_of s1 ?t = j"
        using j nj sealed by (simp_all add: rnet_rb_tick_in_sealed_span_def offset_of_def word_less_nat_alt)
      with full [rule_format, of ?t] have "fr_is_valid (row_at s1 j (nat slot)) \<noteq> 0"
        by (auto simp: get_sealed_frame_eq split: if_splits)
      with all(4) [OF j] show ?thesis by simp
    qed
    with all(2) sv sp3 show ?thesis by (simp add: complete_iff [OF all(1)] same_episode_def)
  qed
  show ?thesis using first second by blast
qed

theorem seal_rows_transfer_witness:
  "rnet_rb_get_sealed_frame (send_all (own_rows 1) (demo_sealed 0) 0 (demo_sealed 1)) 0 10 =
     Some ((pad_row 0 5)\<lparr>fr_tick := 10\<rparr>)"
proof -
  have "same_episode (demo_sealed 0) (demo_sealed 1)" by code_simp
  moreover have "nat 0 < seats (demo_sealed 0)" by code_simp
  moreover have "rnet_rb_get_sealed_frame (demo_sealed 0) 0 10 = Some ((pad_row 0 5)\<lparr>fr_tick := 10\<rparr>)" by code_simp
  moreover have "rnet_rb_get_sealed_frame (demo_sealed 1) 0 10 = None" by code_simp
  ultimately show ?thesis
    using seal_rows_transfer [OF started_sealed [of 0] started_sealed [of 1] _ _ _ refl, of 0 "own_rows 1"]
    by force
qed

text \<open>
  Extending the target: it succeeds exactly when \<open>rnet_rb_can_extend_target\<close> says so; then
  the target is the larger of the two, the sealed ticks are exactly those from the base to it,
  and the sealed rows of the old span are untouched; otherwise the session is unchanged.
\<close>

theorem extend_target_spec:
  assumes "started s" "(ok, s') = rnet_rb_extend_target gir s tg"
  shows "ok = rnet_rb_can_extend_target s tg \<and>
    (if ok then
       rnet_rb_get_target_tick s' = max (rnet_rb_get_target_tick s) tg \<and>
       (\<forall>t. rnet_rb_tick_in_sealed_span s' t \<longleftrightarrow>
          rnet_rb_get_seal_base_tick s \<le> t \<and> t \<le> rnet_rb_get_target_tick s') \<and>
       (\<forall>t slot. rnet_rb_tick_in_sealed_span s t \<longrightarrow>
          rnet_rb_get_sealed_frame s' slot t = rnet_rb_get_sealed_frame s slot t)
     else s' = s)"
proof (cases "rnet_rb_can_extend_target s tg")
  case False
  with assms(2) show ?thesis by (simp add: rnet_rb_extend_target_def)
next
  case True
  have inv: "rb_inv s" by (rule started_inv [OF assms(1)])
  have s': "s' = snd (rnet_rb_extend_target gir s tg)" using assms(2) by (metis snd_conv)
  have ok: "ok" using assms(2) True by (auto simp: rnet_rb_extend_target_def Let_def split: if_splits)
  have inv': "rb_inv s'" unfolding s' by (rule rb_inv_extend [OF inv])
  note f = extend_fields [OF inv True, of gir, folded s']
  have sp: "rnet_rb_tick_in_sealed_span s' t \<longleftrightarrow> rs_seal_base_tick s \<le> t \<and> t \<le> max (target_tick s) tg" for t
    using in_span_iff [OF inv'] f by (simp add: rnet_rb_inputs_sealed_def)
  have "rnet_rb_get_sealed_frame s' slot t = rnet_rb_get_sealed_frame s slot t"
    if t: "rnet_rb_tick_in_sealed_span s t" for slot t
  proof (cases "rnet_rb_slot_valid slot")
    case True
    then have "nat slot < 8" by (auto simp: rnet_rb_slot_valid_def)
    moreover have "rnet_rb_tick_in_sealed_span s' t" using t sp in_span_iff [OF inv] by (auto simp: le_max_iff_disj)
    moreover have "offset_of s' t = offset_of s t" by (simp add: offset_of_def f)
    ultimately show ?thesis
      using extend_keeps(1) [OF inv, of "offset_of s t" "nat slot" gir tg, folded s'] in_span_offset [OF t] t
      by (simp add: get_sealed_frame_eq)
  qed (simp add: get_sealed_frame_eq)
  with sp f ok True show ?thesis
    by (simp add: rnet_rb_get_target_tick_def rnet_rb_get_seal_base_tick_def)
qed

theorem extend_target_spec_witness:
  "rnet_rb_get_target_tick (snd (rnet_rb_extend_target (own_rows 0) (demo_sealed 0) 13)) = 13"
proof -
  have "rnet_rb_can_extend_target (demo_sealed 0) 13" "rnet_rb_get_target_tick (demo_sealed 0) = 11"
    by code_simp+
  with extend_target_spec [OF started_sealed [of 0], where tg = 13 and gir = "own_rows 0",
      OF _ surjective_pairing [symmetric]]
  show ?thesis by simp
qed

text \<open>
  C26. The resolved-through frontier never moves down, whatever the host does, unless it demotes
  it explicitly; in particular a session reset keeps it.
\<close>

theorem frontier_monotone:
  assumes "rnet_rb_create cfg vt = Some s0" "s = foldl rb_step_demote s0 before"
  shows "rnet_rb_resolved_through s \<le> rnet_rb_resolved_through (foldl rb_step s opns)"
  using rb_run.run_mark [OF rb_all.run_inv [OF rb_inv_create [OF assms(1)]]] assms(2)
  by (simp add: rnet_rb_resolved_through_def)

theorem frontier_monotone_witness:
  "rnet_rb_resolved_through (foldl rb_step_demote (demo_session 0) [Inl (Converge 9)]) = 9 \<and>
   9 \<le> rnet_rb_resolved_through (foldl rb_step (foldl rb_step_demote (demo_session 0) [Inl (Converge 9)])
         [SessionReset, Begin demo_corr, SetPhase nRNetRbPhaseAbort])"
proof -
  have "rnet_rb_create (demo_cfg 0) demo_vt = Some (demo_session 0)" by (rule create_demo) simp
  moreover have "rnet_rb_resolved_through (foldl rb_step_demote (demo_session 0) [Inl (Converge 9)]) = 9"
    by code_simp
  ultimately show ?thesis using frontier_monotone [OF _ refl] by metis
qed

text \<open>
  C27. The event queue is first in, first out with seven places: from an empty queue, enqueueing any
  events and draining them returns the first seven, in order; the later ones are dropped.
\<close>

theorem event_queue_fifo:
  assumes "started s" "\<not> rnet_rb_has_pending_events s"
  shows "fst (rb_queue.drain n (foldl rnet_rb_enqueue_event s evs)) = take n (take 7 evs)"
proof -
  have q: "queue_ok s" using rb_invD(3) [OF started_inv [OF assms(1)]] .
  have "pending s = []" using assms(2) q by (simp add: pending_def rnet_rb_has_pending_events_def queue_ok_def)
  with rb_queue.push_all [OF q, of evs] show ?thesis by (simp add: rb_queue.drain_take)
qed

theorem event_queue_fifo_witness:
  "fst (rb_queue.drain 9 (foldl rnet_rb_enqueue_event (demo_session 0)
     (map (\<lambda>i. zero_event\<lparr>ev_slot := i\<rparr>) [0..8]))) = map (\<lambda>i. zero_event\<lparr>ev_slot := i\<rparr>) [0..6]"
proof -
  have "\<not> rnet_rb_has_pending_events (demo_session 0)" by code_simp
  moreover have "take 9 (take 7 (map (\<lambda>i. zero_event\<lparr>ev_slot := i\<rparr>) [0..8])) = map (\<lambda>i. zero_event\<lparr>ev_slot := i\<rparr>) [0..6]"
    by code_simp
  ultimately show ?thesis using event_queue_fifo [OF started_demo [of 0]] by simp
qed

text \<open>
  C28. Initiator and followers classify an episode alike: a follower that begins the episode from
  the initiator's notice recommends the light tip exactly when the initiator does, whatever its
  own frontier and configuration; and the initiator does so exactly when the tuple carries the
  flag or the span is short enough and starts at or after the initiator's frontier.
\<close>

theorem light_tip_agreed:
  assumes "co_from_peer_notify c = 0" "n \<noteq> 0" "s1' = rnet_rb_begin_episode s1 c"
    and "s2' = rnet_rb_begin_episode s2 ((rs_corr s1')\<lparr>co_from_peer_notify := n, co_initiator := 0\<rparr>)"
  shows "rnet_rb_recommend_light_tip s2' = rnet_rb_recommend_light_tip s1' \<and>
    (rnet_rb_recommend_light_tip s1' \<longleftrightarrow> bit (co_flags c) 0 \<or>
       co_load_tick c \<le> co_target_tick c \<and>
       (let depth = unat (co_target_tick c) - unat (co_load_tick c); front = rnet_rb_resolved_through s1 in
        depth \<le> unat (rnet_rb_get_light_tip_max_depth s1) \<and>
        (if front = 0 then depth \<le> 2 else front \<le> co_load_tick c)))"
proof -
  have one: "(x :: u8) AND 1 \<noteq> 0 \<longleftrightarrow> bit x 0" for x using mask_test [of x 0] by simp
  have cand: "rnet_rb_is_light_tip_candidate_ex l t r m \<longleftrightarrow> l \<le> t \<and>
      unat t - unat l \<le> unat m \<and> (if r = 0 then unat t - unat l \<le> 2 else r \<le> l)" for l t r m
    by (auto simp: rnet_rb_is_light_tip_candidate_ex_def Let_def word_less_nat_alt word_le_nat_alt unat_sub)
  show ?thesis
    using assms(1,2) unfolding assms(3,4)
    by (simp add: rnet_rb_recommend_light_tip_def rnet_rb_begin_episode_def one cand Let_def bit_or_iff
          rnet_rb_resolved_through_def rnet_rb_get_light_tip_max_depth_def) blast
qed

theorem light_tip_agreed_witness:
  "rnet_rb_recommend_light_tip (rnet_rb_begin_episode (demo_session 1)
     ((rs_corr (rnet_rb_begin_episode (demo_session 0) demo_corr))\<lparr>co_from_peer_notify := 1, co_initiator := 0\<rparr>)) =
   rnet_rb_recommend_light_tip (rnet_rb_begin_episode (demo_session 0) demo_corr)"
  using light_tip_agreed [of demo_corr 1, OF _ _ refl refl] by (simp add: demo_corr_def)

text \<open>
  Rows of a seat outside the match outlive their episode: a peer's row for seat 5 of a
  two-seat match is accepted at tick 10, and after a reset and a new seal from tick 100 on it is
  still returned, and counted as authoritative, for tick 100.
\<close>

theorem stale_inactive_row:
  "let s = foldl rb_step (demo_sealed 0)
     [ApplyPeer (own_rows 0) 7 10 11 5 0 [pad_row 0 9], SessionReset, Begin demo_corr, Seal (own_rows 0) 100 101] in
   rnet_rb_get_sealed_frame s 5 100 = Some ((pad_row 0 9)\<lparr>fr_tick := 10\<rparr>) \<and>
   rnet_rb_seat_row_authoritative s 5 100"
  by code_simp

end
