(* ===== verification/RNet_Sig_Hold.thy ===== *)
theory RNet_Sig_Hold
  imports RNet_Interfaces
begin

text \<open>
  The hold for connection signals that arrive before their agent exists
  (\<^verbatim>\<open>src/nat/rnet_sig_hold.c\<close>): eight buckets, one per sending player id, of at most 24 entries. A
  bucket's allocated array is the list of its first \<open>n\<close> entries, the only ones ever read; \<open>None\<close> is
  the unallocated bucket. A signal is an opaque value that is only copied. Allocation succeeds.
\<close>

section \<open>State and operations\<close>

record 'sig RNetSigHoldEntry =
  he_sig :: 'sig
  he_slot :: int

record 'sig RNetSigHoldBucket =
  hb_player_id :: string
  hb_e :: "'sig RNetSigHoldEntry list option"
  hb_born_ms :: u64

record 'sig RNetSigHold =
  sh_b :: "'sig RNetSigHoldBucket list"
  sh_dropped :: u32

definition zero_bucket :: "'sig RNetSigHoldBucket" where
  "zero_bucket = \<lparr>hb_player_id = '''', hb_e = None, hb_born_ms = 0\<rparr>"

definition zero_hold :: "'sig RNetSigHold" where
  "zero_hold = \<lparr>sh_b = replicate 8 zero_bucket, sh_dropped = 0\<rparr>"

text \<open>The first index, from \<open>i\<close> on, of a bucket with a property: the search loops of the source.\<close>

fun scan_buckets :: "('b \<Rightarrow> bool) \<Rightarrow> nat \<Rightarrow> 'b list \<Rightarrow> nat option" where
  "scan_buckets P i [] = None"
| "scan_buckets P i (b # bs) = (if P b then Some i else scan_buckets P (Suc i) bs)"

definition find_bucket :: "'sig RNetSigHold \<Rightarrow> string \<Rightarrow> nat option" where
  "find_bucket h pid =
     (if pid = '''' then None
      else scan_buckets (\<lambda>b. hb_e b \<noteq> None \<and> hb_player_id b = pid) 0 (sh_b h))"

definition free_bucket :: "'sig RNetSigHold \<Rightarrow> nat \<Rightarrow> 'sig RNetSigHold" where
  "free_bucket h i = h\<lparr>sh_b := (sh_b h)[i := zero_bucket]\<rparr>"

definition drop_signal :: "'sig RNetSigHold \<Rightarrow> 'sig RNetSigHold" where
  "drop_signal h = h\<lparr>sh_dropped := sh_dropped h + 1\<rparr>"

text \<open>Taking a fresh bucket for a player; the id is truncated to the 63 characters that fit.\<close>

definition open_bucket :: "'sig RNetSigHold \<Rightarrow> nat \<Rightarrow> string \<Rightarrow> u64 \<Rightarrow> 'sig RNetSigHold" where
  "open_bucket h i pid now_ms =
     h\<lparr>sh_b := (sh_b h)[i := \<lparr>hb_player_id = take 63 pid, hb_e = Some [], hb_born_ms = now_ms\<rparr>]\<rparr>"

text \<open>Appending to bucket \<open>i\<close>, unless it is full.\<close>

definition append_entry :: "'sig RNetSigHold \<Rightarrow> nat \<Rightarrow> 'sig RNetSigHoldEntry \<Rightarrow> int \<times> 'sig RNetSigHold" where
  "append_entry h i x =
     (let b = sh_b h ! i; es = the (hb_e b) in
      if length es \<ge> 24 then (-1, drop_signal h)
      else (0, h\<lparr>sh_b := (sh_b h)[i := b\<lparr>hb_e := Some (es @ [x])\<rparr>]\<rparr>))"

definition rnet_sig_hold_push ::
  "'sig RNetSigHold \<Rightarrow> string \<Rightarrow> int \<Rightarrow> 'sig \<Rightarrow> u64 \<Rightarrow> int \<times> 'sig RNetSigHold" where
  "rnet_sig_hold_push h pid slot sig now_ms =
     (if pid = '''' then (-1, h)
      else
        let x = \<lparr>he_sig = sig, he_slot = slot\<rparr> in
        case find_bucket h pid of
          Some i \<Rightarrow> append_entry h i x
        | None \<Rightarrow>
            (case scan_buckets (\<lambda>b. hb_e b = None) 0 (sh_b h) of
               None \<Rightarrow> (-1, drop_signal h)
             | Some i \<Rightarrow> append_entry (open_bucket h i pid now_ms) i x))"

definition rnet_sig_hold_count :: "'sig RNetSigHold \<Rightarrow> string \<Rightarrow> nat" where
  "rnet_sig_hold_count h pid =
     (case find_bucket h pid of None \<Rightarrow> 0 | Some i \<Rightarrow> length (the (hb_e (sh_b h ! i))))"

definition rnet_sig_hold_get :: "'sig RNetSigHold \<Rightarrow> string \<Rightarrow> int \<Rightarrow> 'sig RNetSigHoldEntry option" where
  "rnet_sig_hold_get h pid index =
     (case find_bucket h pid of
        None \<Rightarrow> None
      | Some i \<Rightarrow>
          let es = the (hb_e (sh_b h ! i)) in
          if index < 0 \<or> index \<ge> int (length es) then None else Some (es ! nat index))"

definition rnet_sig_hold_drop :: "'sig RNetSigHold \<Rightarrow> string \<Rightarrow> 'sig RNetSigHold" where
  "rnet_sig_hold_drop h pid = (case find_bucket h pid of None \<Rightarrow> h | Some i \<Rightarrow> free_bucket h i)"

definition rnet_sig_hold_clear :: "'sig RNetSigHold \<Rightarrow> 'sig RNetSigHold" where
  "rnet_sig_hold_clear h = foldl free_bucket h [0..<8]"

definition expire_bucket :: "u64 \<Rightarrow> u64 \<Rightarrow> 'sig RNetSigHold \<Rightarrow> nat \<Rightarrow> 'sig RNetSigHold" where
  "expire_bucket now_ms max_age_ms h i =
     (let b = sh_b h ! i in
      if hb_e b \<noteq> None \<and> now_ms \<ge> hb_born_ms b \<and> now_ms - hb_born_ms b > max_age_ms
      then free_bucket h i else h)"

definition rnet_sig_hold_expire :: "'sig RNetSigHold \<Rightarrow> u64 \<Rightarrow> u64 \<Rightarrow> 'sig RNetSigHold" where
  "rnet_sig_hold_expire h now_ms max_age_ms = foldl (expire_bucket now_ms max_age_ms) h [0..<8]"

section \<open>Buckets as a partial map\<close>

type_synonym 'sig held_map = "string \<rightharpoonup> 'sig RNetSigHoldEntry list \<times> u64"

definition held :: "'sig RNetSigHold \<Rightarrow> 'sig held_map" where
  "held h pid = (case find_bucket h pid of None \<Rightarrow> None
     | Some i \<Rightarrow> Some (the (hb_e (sh_b h ! i)), hb_born_ms (sh_b h ! i)))"

text \<open>Bucket \<open>i\<close> is allocated to player \<open>pid\<close> and holds \<open>es\<close>.\<close>

definition entry :: "'sig RNetSigHold \<Rightarrow> nat \<Rightarrow> string \<Rightarrow> 'sig RNetSigHoldEntry list \<Rightarrow> u64 \<Rightarrow> bool" where
  "entry h i pid es born \<longleftrightarrow> i < 8 \<and> hb_e (sh_b h ! i) = Some es \<and> hb_player_id (sh_b h ! i) = pid \<and>
     hb_born_ms (sh_b h ! i) = born"

text \<open>Allocated buckets have different, non-empty ids and at most 24 entries.\<close>

definition hold_inv :: "'sig RNetSigHold \<Rightarrow> bool" where
  "hold_inv h \<longleftrightarrow> length (sh_b h) = 8 \<and>
     (\<forall>i pid es born. entry h i pid es born \<longrightarrow> pid \<noteq> '''' \<and> length es \<le> 24) \<and>
     (\<forall>i j pid es es' born born'. entry h i pid es born \<and> entry h j pid es' born' \<longrightarrow> i = j)"

lemma entry_unique: "hold_inv h \<Longrightarrow> entry h i pid es born \<Longrightarrow> entry h j pid es' born' \<Longrightarrow> i = j"
  unfolding hold_inv_def by blast

lemma entry_wf: "hold_inv h \<Longrightarrow> entry h i pid es born \<Longrightarrow> pid \<noteq> '''' \<and> length es \<le> 24"
  unfolding hold_inv_def by blast

lemma scan_Some: "scan_buckets P i bs = Some k \<Longrightarrow> \<exists>j. k = i + j \<and> j < length bs \<and> P (bs ! j)"
proof (induction bs arbitrary: i)
  case (Cons b bs)
  show ?case
  proof (cases "P b")
    case True
    with Cons.prems show ?thesis by (intro exI [of _ 0]) simp
  next
    case False
    with Cons.prems Cons.IH [of "Suc i"] obtain j where "k = Suc i + j" "j < length bs" "P (bs ! j)" by auto
    then show ?thesis by (intro exI [of _ "Suc j"]) simp
  qed
qed simp

lemma scan_None: "scan_buckets P i bs = None \<longleftrightarrow> (\<forall>b \<in> set bs. \<not> P b)"
  by (induction bs arbitrary: i) auto

lemma find_iff:
  assumes "hold_inv h"
  shows "find_bucket h pid = Some i \<longleftrightarrow> (\<exists>es born. entry h i pid es born)"
proof -
  let ?P = "\<lambda>b. hb_e b \<noteq> None \<and> hb_player_id b = pid"
  have len: "length (sh_b h) = 8" using assms by (simp add: hold_inv_def)
  have fwd: "\<exists>es born. entry h k pid es born" if "find_bucket h pid = Some k" for k
    using that scan_Some [of ?P 0 "sh_b h" k] len by (auto simp: find_bucket_def entry_def split: if_splits)
  show ?thesis
  proof
    assume "find_bucket h pid = Some i"
    then show "\<exists>es born. entry h i pid es born" by (rule fwd)
  next
    assume r: "\<exists>es born. entry h i pid es born"
    then have "pid \<noteq> ''''" using assms unfolding hold_inv_def by blast
    moreover have "scan_buckets ?P 0 (sh_b h) \<noteq> None"
      unfolding scan_None using r len by (auto simp: entry_def)
    ultimately obtain k where k: "find_bucket h pid = Some k" by (auto simp: find_bucket_def)
    from fwd [OF k] r assms have "k = i" unfolding hold_inv_def by blast
    with k show "find_bucket h pid = Some i" by simp
  qed
qed

lemma held_iff:
  assumes "hold_inv h"
  shows "held h pid = Some (es, born) \<longleftrightarrow> (\<exists>i. entry h i pid es born)"
proof -
  have "held h pid = Some (es, born) \<longleftrightarrow> (\<exists>i. find_bucket h pid = Some i \<and>
      the (hb_e (sh_b h ! i)) = es \<and> hb_born_ms (sh_b h ! i) = born)"
    by (simp add: held_def split: option.splits)
  then show ?thesis unfolding find_iff [OF assms] entry_def
    by (simp only:) (rule iff_exI, auto)
qed

lemma held_eqI: "(\<And>es born. m = Some (es, born) \<longleftrightarrow> m' = Some (es, born)) \<Longrightarrow> m = m'"
  by (metis not_None_eq surj_pair)

text \<open>Replacing bucket \<open>i\<close> by one that is free or has an id no other bucket has.\<close>

definition set_bucket :: "'sig RNetSigHold \<Rightarrow> nat \<Rightarrow> 'sig RNetSigHoldBucket \<Rightarrow> 'sig RNetSigHold" where
  "set_bucket h i b = h\<lparr>sh_b := (sh_b h)[i := b]\<rparr>"

definition fits_at :: "'sig RNetSigHold \<Rightarrow> nat \<Rightarrow> 'sig RNetSigHoldBucket \<Rightarrow> bool" where
  "fits_at h i b \<longleftrightarrow> (\<forall>es. hb_e b = Some es \<longrightarrow> hb_player_id b \<noteq> '''' \<and> length es \<le> 24 \<and>
     (\<forall>j es' born. entry h j (hb_player_id b) es' born \<longrightarrow> j = i))"

lemma entry_set:
  "length (sh_b h) = 8 \<Longrightarrow> i < 8 \<Longrightarrow> entry (set_bucket h i b) j pid es born \<longleftrightarrow>
     (if j = i then hb_e b = Some es \<and> hb_player_id b = pid \<and> hb_born_ms b = born else entry h j pid es born)"
  by (auto simp: entry_def set_bucket_def nth_list_update)

lemma set_bucket_inv:
  assumes "hold_inv h" "i < 8" "fits_at h i b"
  shows "hold_inv (set_bucket h i b)"
proof -
  have len: "length (sh_b h) = 8" using assms(1) by (simp add: hold_inv_def)
  note ent = entry_set [OF len assms(2)]
  have "length (sh_b (set_bucket h i b)) = 8" using len by (simp add: set_bucket_def)
  moreover have "pid \<noteq> '''' \<and> length es \<le> 24" if "entry (set_bucket h i b) j pid es born" for j pid es born
    using that assms(1,3) unfolding ent hold_inv_def fits_at_def by (metis (no_types, lifting))
  moreover have "j = k" if "entry (set_bucket h i b) j pid es born" "entry (set_bucket h i b) k pid es' born'"
    for j k pid es es' born born'
    using that assms(1,3) unfolding ent hold_inv_def fits_at_def by (metis (no_types, lifting))
  ultimately show ?thesis unfolding hold_inv_def by blast
qed

lemma set_bucket_held:
  assumes "hold_inv h" "i < 8" "fits_at h i b"
  shows "held (set_bucket h i b) pid =
    (if hb_e b \<noteq> None \<and> hb_player_id b = pid then Some (the (hb_e b), hb_born_ms b)
     else if \<exists>es born. entry h i pid es born then None
     else held h pid)"
proof (rule held_eqI)
  fix es born
  have inv': "hold_inv (set_bucket h i b)" by (rule set_bucket_inv [OF assms])
  have len: "length (sh_b h) = 8" using assms(1) by (simp add: hold_inv_def)
  have uniq: "j = k" if "entry h j pid es1 born1" "entry h k pid es2 born2" for j k es1 es2 born1 born2
    using entry_unique [OF assms(1)] that by blast
  have other: "j = i" if "hb_e b = Some x" "entry h j (hb_player_id b) es2 born2" for j x es2 born2
    using assms(3) that unfolding fits_at_def by blast
  have new: "held (set_bucket h i b) pid = Some (es, born) \<longleftrightarrow>
      hb_e b = Some es \<and> hb_player_id b = pid \<and> hb_born_ms b = born \<or> (\<exists>j. j \<noteq> i \<and> entry h j pid es born)"
    unfolding held_iff [OF inv'] entry_set [OF len assms(2)] by auto
  consider (a) "hb_e b \<noteq> None \<and> hb_player_id b = pid"
    | (b) "\<not> (hb_e b \<noteq> None \<and> hb_player_id b = pid)" "\<exists>es born. entry h i pid es born"
    | (c) "\<not> (hb_e b \<noteq> None \<and> hb_player_id b = pid)" "\<not> (\<exists>es born. entry h i pid es born)" by blast
  then show "held (set_bucket h i b) pid = Some (es, born) \<longleftrightarrow>
    (if hb_e b \<noteq> None \<and> hb_player_id b = pid then Some (the (hb_e b), hb_born_ms b)
     else if \<exists>es born. entry h i pid es born then None
     else held h pid) = Some (es, born)"
  proof cases
    case a
    then show ?thesis unfolding new using other by auto
  next
    case b
    then show ?thesis unfolding new using uniq by auto
  next
    case c
    have "(\<exists>j. j \<noteq> i \<and> entry h j pid es born) \<longleftrightarrow> held h pid = Some (es, born)"
      unfolding held_iff [OF assms(1)] using c(2) by metis
    with c show ?thesis unfolding new by auto
  qed
qed

lemma no_entry_zero: "\<not> entry zero_hold i pid es born"
  by (auto simp: entry_def zero_hold_def zero_bucket_def)

lemma hold_inv_zero: "hold_inv zero_hold"
proof -
  have "length (sh_b zero_hold) = 8" by (simp add: zero_hold_def)
  then show ?thesis unfolding hold_inv_def using no_entry_zero by blast
qed

lemma entry_drop_signal [simp]: "entry (drop_signal h) = entry h"
  by (simp add: entry_def drop_signal_def fun_eq_iff)

lemma held_drop_signal [simp]: "held (drop_signal h) = held h" "hold_inv (drop_signal h) = hold_inv h"
proof -
  have "find_bucket (drop_signal h) = find_bucket h" "sh_b (drop_signal h) = sh_b h"
    by (simp_all add: find_bucket_def drop_signal_def fun_eq_iff)
  then show "held (drop_signal h) = held h" "hold_inv (drop_signal h) = hold_inv h"
    by (simp_all add: held_def hold_inv_def fun_eq_iff split: option.splits)
qed

section \<open>The abstract hold\<close>

text \<open>At most eight players, at most 24 signals each, in arrival order, with the time of the first.\<close>

definition abs_push :: "'sig held_map \<Rightarrow> string \<Rightarrow> 'sig RNetSigHoldEntry \<Rightarrow> u64 \<Rightarrow> int \<times> 'sig held_map" where
  "abs_push m pid x now = (case m pid of
     Some (es, born) \<Rightarrow> if length es < 24 then (0, m(pid \<mapsto> (es @ [x], born))) else (-1, m)
   | None \<Rightarrow> if card (dom m) < 8 then (0, m(pid \<mapsto> ([x], now))) else (-1, m))"

lemma full_iff:
  assumes "hold_inv h"
  shows "scan_buckets (\<lambda>b. hb_e b = None) 0 (sh_b h) = None \<longleftrightarrow> \<not> card (dom (held h)) < 8"
proof -
  let ?A = "{i. i < 8 \<and> hb_e (sh_b h ! i) \<noteq> None}"
  have len: "length (sh_b h) = 8" using assms by (simp add: hold_inv_def)
  have "dom (held h) = (\<lambda>i. hb_player_id (sh_b h ! i)) ` ?A"
  proof -
    have "pid \<in> dom (held h) \<longleftrightarrow> (\<exists>es born i. entry h i pid es born)" for pid
      using held_iff [OF assms] by (auto simp: dom_def)
    then show ?thesis by (intro set_eqI) (auto simp: entry_def)
  qed
  moreover have "inj_on (\<lambda>i. hb_player_id (sh_b h ! i)) ?A"
    using assms by (auto simp: hold_inv_def inj_on_def entry_def)
  ultimately have card: "card (dom (held h)) = card ?A" by (simp add: card_image)
  have "scan_buckets (\<lambda>b. hb_e b = None) 0 (sh_b h) = None \<longleftrightarrow> (\<forall>i < 8. hb_e (sh_b h ! i) \<noteq> None)"
    unfolding scan_None using len by (metis in_set_conv_nth)
  also have "\<dots> \<longleftrightarrow> ?A = {..<8}" by auto
  also have "\<dots> \<longleftrightarrow> \<not> card ?A < 8"
  proof -
    have sub: "?A \<subseteq> {..<8}" by auto
    show ?thesis
    proof
      assume "?A = {..<8}"
      then show "\<not> card ?A < 8" by (simp only: card_lessThan)
    next
      assume "\<not> card ?A < 8"
      then have "card {..<8::nat} \<le> card ?A" by (simp only: card_lessThan not_less)
      then show "?A = {..<8}" by (intro card_seteq [OF _ sub]) simp_all
    qed
  qed
  finally show ?thesis by (simp add: card)
qed

lemma append_refines:
  assumes "hold_inv h" "entry h i pid es born"
  shows "fst (append_entry h i x) = (if length es < 24 then 0 else -1)"
    and "hold_inv (snd (append_entry h i x))"
    and "held (snd (append_entry h i x)) =
      (if length es < 24 then (held h)(pid \<mapsto> (es @ [x], born)) else held h)"
proof -
  let ?b = "(sh_b h ! i)\<lparr>hb_e := Some (es @ [x])\<rparr>"
  from assms(2) have e: "i < 8" "hb_e (sh_b h ! i) = Some es" "hb_player_id (sh_b h ! i) = pid"
    "hb_born_ms (sh_b h ! i) = born" by (simp_all add: entry_def)
  have eq: "append_entry h i x = (if length es < 24 then (0, set_bucket h i ?b) else (-1, drop_signal h))"
    using e by (simp add: append_entry_def set_bucket_def Let_def)
  show "fst (append_entry h i x) = (if length es < 24 then 0 else -1)" by (simp add: eq)
  have fits: "fits_at h i ?b" if "length es < 24"
    using that e entry_wf [OF assms] entry_unique [OF assms(1) _ assms(2)] by (auto simp: fits_at_def)
  then show "hold_inv (snd (append_entry h i x))"
    using assms(1) e(1) by (simp add: eq set_bucket_inv)
  have "held (set_bucket h i ?b) = (held h)(pid \<mapsto> (es @ [x], born))" if l: "length es < 24"
  proof
    fix p
    show "held (set_bucket h i ?b) p = ((held h)(pid \<mapsto> (es @ [x], born))) p"
      unfolding set_bucket_held [OF assms(1) e(1) fits [OF l]] using e assms(2)
      by (auto simp: entry_def)
  qed
  then show "held (snd (append_entry h i x)) =
      (if length es < 24 then (held h)(pid \<mapsto> (es @ [x], born)) else held h)"
    by (simp add: eq)
qed

lemma push_refines:
  assumes inv: "hold_inv h" and pid: "pid \<noteq> ''''" "length pid < 64"
  shows "hold_inv (snd (rnet_sig_hold_push h pid slot sig now))"
    and "abs_push (held h) pid \<lparr>he_sig = sig, he_slot = slot\<rparr> now =
      (fst (rnet_sig_hold_push h pid slot sig now), held (snd (rnet_sig_hold_push h pid slot sig now)))"
proof -
  let ?x = "\<lparr>he_sig = sig, he_slot = slot\<rparr>"
  let ?p = "rnet_sig_hold_push h pid slot sig now"
  have len: "length (sh_b h) = 8" using inv by (simp add: hold_inv_def)
  have "hold_inv (snd ?p) \<and> abs_push (held h) pid ?x now = (fst ?p, held (snd ?p))"
  proof (cases "find_bucket h pid")
    case (Some i)
    then obtain es born where e: "entry h i pid es born" using find_iff [OF inv] by blast
    then have m: "held h pid = Some (es, born)" using held_iff [OF inv] by blast
    from append_refines [OF inv e, of ?x] pid Some m show ?thesis
      by (simp add: rnet_sig_hold_push_def abs_push_def)
  next
    case None
    have m: "held h pid = None" using None by (simp add: held_def)
    have none: "\<not> entry h i pid es born" for i es born using None find_iff [OF inv] by (metis option.distinct(1))
    show ?thesis
    proof (cases "scan_buckets (\<lambda>b. hb_e b = None) 0 (sh_b h)")
      case None2: None
      then have "\<not> card (dom (held h)) < 8" using full_iff [OF inv] by simp
      with None None2 m pid inv show ?thesis by (simp add: rnet_sig_hold_push_def abs_push_def)
    next
      case (Some i)
      let ?nb = "\<lparr>hb_player_id = pid, hb_e = Some [], hb_born_ms = now\<rparr>"
      let ?o = "set_bucket h i ?nb"
      from Some have c: "card (dom (held h)) < 8" using full_iff [OF inv] by (metis option.distinct(1))
      from scan_Some [OF Some] len have i: "i < 8" "hb_e (sh_b h ! i) = None" by auto
      have fits: "fits_at h i ?nb" using none pid by (simp add: fits_at_def)
      have "open_bucket h i pid now = ?o" using pid by (simp add: open_bucket_def set_bucket_def)
      then have p: "?p = append_entry ?o i ?x" using pid None Some by (simp add: rnet_sig_hold_push_def)
      have inv': "hold_inv ?o" by (rule set_bucket_inv [OF inv i(1) fits])
      have e: "entry ?o i pid [] now" using entry_set [OF len i(1)] by simp
      have "held ?o = (held h)(pid \<mapsto> ([], now))"
        by (rule ext, unfold set_bucket_held [OF inv i(1) fits]) (use i(2) in \<open>auto simp: entry_def\<close>)
      with append_refines [OF inv' e, of ?x] c m show ?thesis by (simp add: p abs_push_def)
    qed
  qed
  then show "hold_inv (snd ?p)" "abs_push (held h) pid ?x now = (fst ?p, held (snd ?p))" by auto
qed

lemma free_refines:
  assumes "hold_inv h" "i < 8"
  shows "hold_inv (free_bucket h i)"
    and "held (free_bucket h i) pid = (if \<exists>es born. entry h i pid es born then None else held h pid)"
proof -
  have f: "free_bucket h i = set_bucket h i zero_bucket" by (simp add: free_bucket_def set_bucket_def)
  have fits: "fits_at h i zero_bucket" by (simp add: fits_at_def zero_bucket_def)
  show "hold_inv (free_bucket h i)" unfolding f by (rule set_bucket_inv [OF assms fits])
  show "held (free_bucket h i) pid = (if \<exists>es born. entry h i pid es born then None else held h pid)"
    unfolding f set_bucket_held [OF assms fits] by (simp add: zero_bucket_def)
qed

lemma drop_refines:
  assumes "hold_inv h"
  shows "hold_inv (rnet_sig_hold_drop h pid)" "held (rnet_sig_hold_drop h pid) = (held h)(pid := None)"
proof -
  have "hold_inv (rnet_sig_hold_drop h pid) \<and> held (rnet_sig_hold_drop h pid) = (held h)(pid := None)"
  proof (cases "find_bucket h pid")
    case None
    then have "held h pid = None" by (simp add: held_def)
    with None assms show ?thesis by (auto simp: rnet_sig_hold_drop_def)
  next
    case (Some i)
    then obtain es born where e: "entry h i pid es born" using find_iff [OF assms] by blast
    then have i: "i < 8" "hb_player_id (sh_b h ! i) = pid" by (simp_all add: entry_def)
    have "held (free_bucket h i) p = ((held h)(pid := None)) p" for p
      unfolding free_refines(2) [OF assms i(1)] using e i(2) by (auto simp: entry_def)
    with Some free_refines(1) [OF assms i(1)] show ?thesis by (auto simp: rnet_sig_hold_drop_def)
  qed
  then show "hold_inv (rnet_sig_hold_drop h pid)" "held (rnet_sig_hold_drop h pid) = (held h)(pid := None)"
    by auto
qed

text \<open>Freeing some of the buckets, as the expiry and the clear loop do.\<close>

lemma free_some_aux:
  assumes f: "\<And>h i. f h i = (if P (sh_b h ! i) then free_bucket h i else h)"
  shows "hold_inv h \<Longrightarrow> \<forall>i \<in> set ks. i < 8 \<Longrightarrow> distinct ks \<Longrightarrow> hold_inv (foldl f h ks) \<and>
    held (foldl f h ks) pid =
      (if \<exists>i es born. i \<in> set ks \<and> P (sh_b h ! i) \<and> entry h i pid es born then None else held h pid)"
proof (induction ks arbitrary: h)
  case (Cons i ks)
  let ?h = "f h i"
  from Cons.prems have i: "i < 8" "i \<notin> set ks" by auto
  have at: "sh_b ?h ! j = sh_b h ! j" if "j \<noteq> i" for j using that by (simp add: f free_bucket_def)
  have ent: "entry ?h j = entry h j" if "j \<noteq> i" for j using at [OF that] by (simp add: entry_def fun_eq_iff)
  have h1: "hold_inv ?h" using Cons.prems free_refines(1) [OF Cons.prems(1) i(1)] by (simp add: f)
  have held1: "held ?h pid = (if P (sh_b h ! i) \<and> (\<exists>es born. entry h i pid es born) then None else held h pid)"
    using free_refines(2) [OF Cons.prems(1) i(1)] by (simp add: f)
  have rest: "(\<exists>j es born. j \<in> set ks \<and> P (sh_b ?h ! j) \<and> entry ?h j pid es born) \<longleftrightarrow>
      (\<exists>j es born. j \<in> set ks \<and> P (sh_b h ! j) \<and> entry h j pid es born)"
    using at ent i(2) by metis
  have "hold_inv (foldl f ?h ks) \<and> held (foldl f ?h ks) pid =
      (if \<exists>j es born. j \<in> set ks \<and> P (sh_b ?h ! j) \<and> entry ?h j pid es born then None else held ?h pid)"
    using Cons.IH [OF h1] Cons.prems by simp
  then show ?case unfolding rest held1 by auto
qed simp

lemmas free_some = free_some_aux [THEN conjunct1] free_some_aux [THEN conjunct2]

lemma clear_refines: 
  assumes "hold_inv h"
  shows "hold_inv (rnet_sig_hold_clear h)" "held (rnet_sig_hold_clear h) = Map.empty"
proof -
  have f: "free_bucket h i = (if True then free_bucket h i else h)" for h :: "'a RNetSigHold" and i by simp
  note fs = free_some [where f = free_bucket and P = "\<lambda>b. True" and ks = "[0..<8]", OF f assms]
  show "hold_inv (rnet_sig_hold_clear h)" unfolding rnet_sig_hold_clear_def by (rule fs(1)) auto
  have "held (rnet_sig_hold_clear h) pid = None" for pid
  proof (cases "held h pid")
    case (Some p)
    then obtain es born i where "entry h i pid es born" using held_iff [OF assms] by (metis surj_pair)
    then have "\<exists>i es born. i \<in> set [0..<8] \<and> True \<and> entry h i pid es born"
      by (metis entry_def atLeast_upt lessThan_iff)
    then show ?thesis unfolding rnet_sig_hold_clear_def using fs(2) [of pid] by simp
  next
    case None
    then show ?thesis unfolding rnet_sig_hold_clear_def using fs(2) [of pid] by simp
  qed
  then show "held (rnet_sig_hold_clear h) = Map.empty" by auto
qed

definition stale :: "u64 \<Rightarrow> u64 \<Rightarrow> u64 \<Rightarrow> bool" where
  "stale now age born \<longleftrightarrow> born \<le> now \<and> now - born > age"

lemma expire_refines:
  assumes "hold_inv h"
  shows "hold_inv (rnet_sig_hold_expire h now age)"
    "held (rnet_sig_hold_expire h now age) pid =
      (case held h pid of None \<Rightarrow> None | Some (es, born) \<Rightarrow> if stale now age born then None else Some (es, born))"
proof -
  let ?P = "\<lambda>b. hb_e b \<noteq> None \<and> stale now age (hb_born_ms b)"
  have f: "expire_bucket now age h i = (if ?P (sh_b h ! i) then free_bucket h i else h)" for h i
    by (simp add: expire_bucket_def stale_def Let_def)
  note fs = free_some [where f = "expire_bucket now age" and P = ?P and ks = "[0..<8]", OF f assms]
  show "hold_inv (rnet_sig_hold_expire h now age)" unfolding rnet_sig_hold_expire_def by (rule fs(1)) auto
  have e: "held (rnet_sig_hold_expire h now age) pid =
      (if \<exists>i es born. i \<in> set [0..<8] \<and> ?P (sh_b h ! i) \<and> entry h i pid es born then None else held h pid)"
    unfolding rnet_sig_hold_expire_def by (rule fs(2)) auto
  have "(\<exists>i es born. i \<in> set [0..<8] \<and> ?P (sh_b h ! i) \<and> entry h i pid es born) \<longleftrightarrow>
      (\<exists>es born. held h pid = Some (es, born) \<and> stale now age born)"
    unfolding held_iff [OF assms] by (auto simp: entry_def)
  with e show "held (rnet_sig_hold_expire h now age) pid =
      (case held h pid of None \<Rightarrow> None | Some (es, born) \<Rightarrow> if stale now age born then None else Some (es, born))"
    by (auto split: option.splits)
qed

section \<open>Sequences of operations\<close>

datatype 'sig hold_op = Push string int 'sig u64 | DropPeer string | ClearAll | Expire u64 u64

fun hold_step :: "'sig RNetSigHold \<Rightarrow> 'sig hold_op \<Rightarrow> 'sig RNetSigHold" where
  "hold_step h (Push pid slot sig now) = snd (rnet_sig_hold_push h pid slot sig now)"
| "hold_step h (DropPeer pid) = rnet_sig_hold_drop h pid"
| "hold_step h ClearAll = rnet_sig_hold_clear h"
| "hold_step h (Expire now age) = rnet_sig_hold_expire h now age"

fun abs_step :: "'sig held_map \<Rightarrow> 'sig hold_op \<Rightarrow> 'sig held_map" where
  "abs_step m (Push pid slot sig now) =
     (if pid = '''' then m else snd (abs_push m pid \<lparr>he_sig = sig, he_slot = slot\<rparr> now))"
| "abs_step m (DropPeer pid) = m(pid := None)"
| "abs_step m ClearAll = Map.empty"
| "abs_step m (Expire now age) = (\<lambda>pid. case m pid of None \<Rightarrow> None
     | Some (es, born) \<Rightarrow> if stale now age born then None else Some (es, born))"

fun short_id :: "'sig hold_op \<Rightarrow> bool" where
  "short_id (Push pid slot sig now) \<longleftrightarrow> length pid < 64"
| "short_id _ \<longleftrightarrow> True"

lemma step_refines:
  assumes "hold_inv h" "short_id opn"
  shows "hold_inv (hold_step h opn) \<and> held (hold_step h opn) = abs_step (held h) opn"
proof (cases opn)
  case (Push pid slot sig now)
  show ?thesis
  proof (cases "pid = ''''")
    case True
    then show ?thesis using Push assms by (simp add: rnet_sig_hold_push_def)
  next
    case False
    with push_refines [OF assms(1) False, where slot = slot and sig = sig and now = now] Push assms(2) show ?thesis by simp
  qed
next
  case (Expire now age)
  then show ?thesis using expire_refines [OF assms(1)] by auto
qed (use drop_refines [OF assms(1)] clear_refines [OF assms(1)] in simp_all)

lemma run_refines:
  "hold_inv h \<Longrightarrow> \<forall>opn \<in> set opns. short_id opn \<Longrightarrow>
     hold_inv (foldl hold_step h opns) \<and> held (foldl hold_step h opns) = foldl abs_step (held h) opns"
  by (induction opns arbitrary: h) (use step_refines in auto)

lemma held_zero: "held zero_hold = Map.empty"
  using held_iff [OF hold_inv_zero] no_entry_zero by (metis not_None_eq surj_pair)

lemma count_held: "rnet_sig_hold_count h pid = (case held h pid of None \<Rightarrow> 0 | Some (es, born) \<Rightarrow> length es)"
  by (simp add: rnet_sig_hold_count_def held_def split: option.splits)

lemma get_held:
  "rnet_sig_hold_get h pid i = (case held h pid of None \<Rightarrow> None
     | Some (es, born) \<Rightarrow> if 0 \<le> i \<and> i < int (length es) then Some (es ! nat i) else None)"
  by (simp add: rnet_sig_hold_get_def held_def Let_def split: option.splits)

section \<open>Properties\<close>

text \<open>
  C29. For player ids that fit their field, the hold implements the map its header describes: at
  most eight senders, at most 24 signals each in arrival order; a sender's push appends to its own
  list or is refused, and no operation of one sender changes what is held for another. The read
  functions return what the map says.
\<close>

theorem sig_hold_refines_map:
  assumes "\<forall>opn \<in> set opns. short_id opn" "h = foldl hold_step zero_hold opns" "m = foldl abs_step Map.empty opns"
  shows "held h = m \<and>
    (\<forall>pid slot sig now. pid \<noteq> '''' \<and> length pid < 64 \<longrightarrow>
       fst (rnet_sig_hold_push h pid slot sig now) = fst (abs_push m pid \<lparr>he_sig = sig, he_slot = slot\<rparr> now)) \<and>
    (\<forall>pid. rnet_sig_hold_count h pid = (case m pid of None \<Rightarrow> 0 | Some (es, born) \<Rightarrow> length es)) \<and>
    (\<forall>pid i. rnet_sig_hold_get h pid i = (case m pid of None \<Rightarrow> None
       | Some (es, born) \<Rightarrow> if 0 \<le> i \<and> i < int (length es) then Some (es ! nat i) else None))"
proof -
  from run_refines [OF hold_inv_zero assms(1)] have h: "hold_inv h" "held h = m"
    by (simp_all add: assms(2,3) held_zero)
  then show ?thesis using push_refines(2) [OF h(1)] by (simp add: count_held get_held)
qed

theorem sig_hold_refines_map_witness:
  "rnet_sig_hold_get (foldl hold_step zero_hold [Push ''ann'' 0 (1 :: nat) 5, Push ''bob'' 1 2 6, Push ''ann'' 0 3 7]) ''ann'' 1 =
     Some \<lparr>he_sig = 3, he_slot = 0\<rparr>"
proof -
  let ?ops = "[Push ''ann'' 0 (1 :: nat) 5, Push ''bob'' 1 2 6, Push ''ann'' 0 3 7]"
  have m: "foldl abs_step Map.empty ?ops ''ann'' = Some ([\<lparr>he_sig = 1, he_slot = 0\<rparr>, \<lparr>he_sig = 3, he_slot = 0\<rparr>], 5)"
    by (simp add: abs_push_def dom_def)
  have "\<forall>opn \<in> set ?ops. short_id opn" by simp
  from sig_hold_refines_map [OF this refl refl] m show ?thesis by simp
qed

text \<open>
  An id of 64 characters or more is stored truncated and compared in full, so its signals are
  accepted but never found again, and each one takes a bucket of its own: eight signals of one
  such sender fill the table.
\<close>

theorem long_id_lost:
  "let pid = replicate 64 (CHR ''x'');
       h = foldl hold_step zero_hold (replicate 8 (Push pid 0 (7 :: nat) 1)) in
   fst (rnet_sig_hold_push zero_hold pid 0 (7 :: nat) 1) = 0 \<and> rnet_sig_hold_count h pid = 0 \<and>
   fst (rnet_sig_hold_push h ''ann'' 0 8 2) = -1"
  by code_simp

end
