(* ===== verification/RNet_Xfer.thy ===== *)
theory RNet_Xfer
  imports RNet_Interfaces
begin

text \<open>
  Reliable blob transfer over a connectivity agent (\<^verbatim>\<open>src/lobby/rnet_ice_xfer.c\<close>, the build with ICE).
  The agent is not part of the model: its state, the clock and the datagrams it hands over are
  arguments of \<open>rnet_ice_xfer_pump\<close>, and the datagrams given to \<^verbatim>\<open>rnet_ice_agent_send\<close> are its
  second result. \<^verbatim>\<open>size_t\<close> has 64 bits. A blob is the list of its bytes; the receive buffer is the
  list of the bytes written so far, because the code writes only at its end. Whether an allocation
  of a given size succeeds is the argument \<open>alloc\<close>. The handler of a failure packet copies into an
  array of 81 bytes on the stack; \<open>None\<close> is a write outside that array.
\<close>

section \<open>Packets\<close>

definition text_bytes :: "string \<Rightarrow> bytes" where
  "text_bytes s = map of_char s"

definition XFER_MAGIC :: bytes where
  "XFER_MAGIC = text_bytes ''RNETXF1''"

definition put_u16 :: "u16 \<Rightarrow> bytes" where
  "put_u16 v = [ucast v, ucast (drop_bit 8 v)]"

definition put_u32 :: "u32 \<Rightarrow> bytes" where
  "put_u32 v = [ucast v, ucast (drop_bit 8 v), ucast (drop_bit 16 v), ucast (drop_bit 24 v)]"

definition put_u64 :: "u64 \<Rightarrow> bytes" where
  "put_u64 v = put_u32 (ucast v) @ put_u32 (ucast (drop_bit 32 v))"

definition get_u16 :: "bytes \<Rightarrow> nat \<Rightarrow> u16" where
  "get_u16 p k = ucast (p ! k) OR push_bit 8 (ucast (p ! (k + 1)))"

definition get_u32 :: "bytes \<Rightarrow> nat \<Rightarrow> u32" where
  "get_u32 p k = ucast (p ! k) OR push_bit 8 (ucast (p ! (k + 1))) OR
     push_bit 16 (ucast (p ! (k + 2))) OR push_bit 24 (ucast (p ! (k + 3)))"

definition get_u64 :: "bytes \<Rightarrow> nat \<Rightarrow> u64" where
  "get_u64 p k = ucast (get_u32 p k) OR push_bit 32 (ucast (get_u32 p (k + 4)))"

section \<open>State\<close>

datatype RNetIceState =
    RNET_ICE_STATE_IDLE | RNET_ICE_STATE_GATHERING | RNET_ICE_STATE_CONNECTING
  | RNET_ICE_STATE_CONNECTED | RNET_ICE_STATE_COMPLETED | RNET_ICE_STATE_FAILED

record XferBlob =
  xb_data :: bytes
  xb_id :: u32
  xb_unacked :: u64
  xb_next_off :: u64
  xb_last_send_ms :: u64

definition xb_len :: "XferBlob \<Rightarrow> u64" where
  "xb_len b = of_nat (length (xb_data b))"

record RNetIceXfer =
  xf_open_ms :: u64
  xf_failed :: bool
  xf_error :: bytes
  xf_next_id :: u32
  xf_send_q :: "XferBlob list"
  xf_recv_buf :: bytes
  xf_recv_total :: u64
  xf_recv_id :: u32
  xf_recv_active :: bool
  xf_ready :: "bytes list"

definition xf_recv_got :: "RNetIceXfer \<Rightarrow> u64" where
  "xf_recv_got x = of_nat (length (xf_recv_buf x))"

definition rnet_ice_xfer_open :: "u64 \<Rightarrow> RNetIceXfer" where
  "rnet_ice_xfer_open now = \<lparr>xf_open_ms = now, xf_failed = False, xf_error = [], xf_next_id = 0,
     xf_send_q = [], xf_recv_buf = [], xf_recv_total = 0, xf_recv_id = 0, xf_recv_active = False,
     xf_ready = []\<rparr>"

text \<open>The part of a byte array a C string function reads, and its copy into a 96-byte array.\<close>

definition c_str :: "bytes \<Rightarrow> bytes" where
  "c_str bs = takeWhile (\<lambda>b. b \<noteq> 0) bs"

definition fail_xfer :: "RNetIceXfer \<Rightarrow> bytes \<Rightarrow> RNetIceXfer" where
  "fail_xfer x err =
     (if xf_failed x then x
      else x\<lparr>xf_failed := True,
             xf_error := take 95 (if c_str err \<noteq> [] then c_str err else text_bytes ''transfer failed'')\<rparr>)"

section \<open>Sending\<close>

definition send_fail_pkt :: "bytes \<Rightarrow> bytes list" where
  "send_fail_pkt err =
     (let nerr = length (c_str err); nerr = (if nerr > 80 then 80 else nerr) in
      [XFER_MAGIC @ [3, of_nat nerr] @ take nerr (c_str err)])"

definition send_ack :: "u32 \<Rightarrow> u64 \<Rightarrow> bytes list" where
  "send_ack blob_id got = [XFER_MAGIC @ [2] @ put_u32 blob_id @ put_u64 got]"

definition send_data :: "XferBlob \<Rightarrow> u64 \<Rightarrow> bytes list" where
  "send_data b off =
     (if off > xb_len b then []
      else
        let n = ucast (if xb_len b - off > 1024 then 1024 else xb_len b - off) :: u16 in
        [XFER_MAGIC @ [1] @ put_u32 (xb_id b) @ put_u64 (xb_len b) @ put_u64 off @ put_u16 n @
         take (unat n) (drop (unat off) (xb_data b))])"

section \<open>Receiving\<close>

definition handle_ack :: "RNetIceXfer \<Rightarrow> u32 \<Rightarrow> u64 \<Rightarrow> RNetIceXfer" where
  "handle_ack x blob_id got =
     (case xf_send_q x of
        [] \<Rightarrow> x
      | b # q \<Rightarrow>
          if xb_id b \<noteq> blob_id then x
          else if got < xb_unacked b then x
          else
            let b = b\<lparr>xb_unacked := got\<rparr>;
                b = (if got > xb_next_off b then b\<lparr>xb_next_off := got\<rparr> else b) in
            if xb_unacked b \<ge> xb_len b then x\<lparr>xf_send_q := q\<rparr> else x\<lparr>xf_send_q := b # q\<rparr>)"

definition push_ready :: "RNetIceXfer \<Rightarrow> bytes \<Rightarrow> RNetIceXfer" where
  "push_ready x data = (if length (xf_ready x) \<ge> 4 then x else x\<lparr>xf_ready := xf_ready x @ [data]\<rparr>)"

text \<open>Starting a new inbound blob; the flag says whether the allocation succeeded.\<close>

definition begin_recv :: "(u64 \<Rightarrow> bool) \<Rightarrow> RNetIceXfer \<Rightarrow> u32 \<Rightarrow> u64 \<Rightarrow> bool \<times> RNetIceXfer" where
  "begin_recv alloc x blob_id tot =
     (if \<not> xf_recv_active x \<or> xf_recv_id x \<noteq> blob_id then
        let x = x\<lparr>xf_recv_buf := [], xf_recv_total := tot, xf_recv_id := blob_id, xf_recv_active := True\<rparr> in
        if tot > 0 \<and> \<not> alloc tot
        then (False, (fail_xfer x (text_bytes ''out of memory''))\<lparr>xf_recv_active := False\<rparr>)
        else (True, x)
      else (True, x))"

definition handle_data ::
  "(u64 \<Rightarrow> bool) \<Rightarrow> RNetIceXfer \<Rightarrow> u32 \<Rightarrow> u64 \<Rightarrow> u64 \<Rightarrow> bytes \<Rightarrow> RNetIceXfer \<times> bytes list" where
  "handle_data alloc x blob_id tot off payload =
     (if tot > 0x7fffffffffffffff then (fail_xfer x (text_bytes ''package too large''), [])
      else
        let (ok, x) = begin_recv alloc x blob_id tot in
        if \<not> ok then (x, [])
        else if off \<noteq> xf_recv_got x then (x, send_ack blob_id (xf_recv_got x))
        else if payload \<noteq> [] \<and> off + of_nat (length payload) > xf_recv_total x
          then (fail_xfer x (text_bytes ''chunk overrun''), [])
        else
          let x = x\<lparr>xf_recv_buf := xf_recv_buf x @ payload\<rparr>;
              acks = send_ack blob_id (xf_recv_got x) in
          if xf_recv_got x \<ge> xf_recv_total x
          then ((push_ready x (xf_recv_buf x))\<lparr>xf_recv_buf := [], xf_recv_active := False,
                  xf_recv_total := 0\<rparr>, acks)
          else (x, acks))"

text \<open>The failure branch: the text of the packet, copied with its terminator into 81 bytes.\<close>

definition handle_fail :: "RNetIceXfer \<Rightarrow> bytes \<Rightarrow> RNetIceXfer option" where
  "handle_fail x buf =
     (let nerr = (if length buf > 8 then unat (buf ! 8) else 0);
          nerr = (if nerr + 9 > length buf then 0 else nerr);
          err = c_str (take nerr (drop 9 buf)) in
      if nerr > 80 then None
      else Some (fail_xfer x (if err \<noteq> [] then err else text_bytes ''peer failed'')))"

definition handle_pkt :: "(u64 \<Rightarrow> bool) \<Rightarrow> RNetIceXfer \<Rightarrow> bytes \<Rightarrow> (RNetIceXfer \<times> bytes list) option" where
  "handle_pkt alloc x buf =
     (if length buf < 8 then Some (x, [])
      else if take 7 buf \<noteq> XFER_MAGIC then Some (x, [])
      else if buf ! 7 = 3 then map_option (\<lambda>x. (x, [])) (handle_fail x buf)
      else if buf ! 7 = 2 \<and> length buf \<ge> 20 then Some (handle_ack x (get_u32 buf 8) (get_u64 buf 12), [])
      else if buf ! 7 = 1 \<and> length buf \<ge> 30 then
        let n = get_u16 buf 28 in
        if 30 + unat n > length buf then Some (x, [])
        else Some (handle_data alloc x (get_u32 buf 8) (get_u64 buf 12) (get_u64 buf 20)
               (take (unat n) (drop 30 buf)))
      else Some (x, []))"

text \<open>The receive loop over the datagrams at hand; an empty one ends it.\<close>

fun recv_loop ::
  "(u64 \<Rightarrow> bool) \<Rightarrow> RNetIceXfer \<Rightarrow> bytes list \<Rightarrow> (RNetIceXfer \<times> bytes list) option" where
  "recv_loop alloc x [] = Some (x, [])"
| "recv_loop alloc x (p # ps) =
     (if p = [] then Some (x, [])
      else case handle_pkt alloc x p of
        None \<Rightarrow> None
      | Some (x, out) \<Rightarrow> map_option (\<lambda>(x, outs). (x, out @ outs)) (recv_loop alloc x ps))"

section \<open>The pump\<close>

text \<open>The size of the next data chunk.\<close>

definition next_chunk :: "XferBlob \<Rightarrow> u64" where
  "next_chunk b = (let nsend = xb_len b - xb_next_off b in if nsend > 1024 then 1024 else nsend)"

function send_window :: "u64 \<Rightarrow> XferBlob \<Rightarrow> XferBlob \<times> bytes list" where
  "send_window now b =
     (if xb_next_off b < xb_len b \<and> xb_next_off b < xb_unacked b + 16 * 1024 then
        let out = send_data b (xb_next_off b);
            b = b\<lparr>xb_next_off := xb_next_off b + next_chunk b, xb_last_send_ms := now\<rparr> in
        if xb_len b = 0 then (b, out)
        else let (b, outs) = send_window now b in (b, out @ outs)
      else (b, []))"
  by pat_completeness auto

lemma xb_len_update [simp]:
  "xb_len (b\<lparr>xb_next_off := n\<rparr>) = xb_len b" "xb_len (b\<lparr>xb_last_send_ms := t\<rparr>) = xb_len b"
  "xb_len (b\<lparr>xb_unacked := u\<rparr>) = xb_len b"
  by (simp_all add: xb_len_def)

lemma next_chunk:
  assumes "xb_next_off b < xb_len b"
  shows "unat (next_chunk b) = min 1024 (unat (xb_len b) - unat (xb_next_off b))"
    and "unat (xb_next_off b + next_chunk b) =
      unat (xb_next_off b) + min 1024 (unat (xb_len b) - unat (xb_next_off b))"
proof -
  have le: "xb_next_off b \<le> xb_len b" using assms by simp
  show n: "unat (next_chunk b) = min 1024 (unat (xb_len b) - unat (xb_next_off b))"
    using le by (auto simp: next_chunk_def Let_def word_less_nat_alt unat_sub min_def)
  have "unat (xb_next_off b) + unat (next_chunk b) \<le> unat (xb_len b)"
    using n le by (simp add: word_le_nat_alt)
  moreover have "unat (xb_len b) < 2 ^ LENGTH(64)" by (rule unsigned_less)
  ultimately have "unat (xb_next_off b) + unat (next_chunk b) < 2 ^ LENGTH(64)" by (rule le_less_trans)
  then show "unat (xb_next_off b + next_chunk b) =
      unat (xb_next_off b) + min 1024 (unat (xb_len b) - unat (xb_next_off b))"
    unfolding n [symmetric] by (simp only: unat_word_ariths mod_less)
qed

termination send_window
proof (relation "measure (\<lambda>(now, b). unat (xb_len b) - unat (xb_next_off b))", goal_cases)
  case (2 now b x xa)
  then have l: "xb_next_off b < xb_len b" by simp
  then have "unat (xb_next_off b) < unat (xb_len b)" by (simp add: word_less_nat_alt)
  with next_chunk(2) [OF l] 2 show ?case by simp
qed simp

declare send_window.simps [simp del]

text \<open>The sending half of the pump, for the blob at the head of the queue.\<close>

definition pump_send :: "u64 \<Rightarrow> RNetIceXfer \<Rightarrow> RNetIceXfer \<times> bytes list" where
  "pump_send now x =
     (case xf_send_q x of
        [] \<Rightarrow> (x, [])
      | b # q \<Rightarrow>
          if xb_unacked b \<ge> xb_len b then (x, [])
          else
            let b = (if xb_next_off b > xb_unacked b + 16 * 1024 then b\<lparr>xb_next_off := xb_unacked b\<rparr> else b);
                b = (if now - xb_last_send_ms b \<ge> 200 \<and> xb_next_off b > xb_unacked b
                     then b\<lparr>xb_next_off := xb_unacked b\<rparr> else b);
                (b, out) = send_window now b;
                (b, out) =
                  (if xb_len b = 0 \<and> xb_unacked b = 0 \<and>
                      (xb_last_send_ms b = 0 \<or> now - xb_last_send_ms b \<ge> 200)
                   then (b\<lparr>xb_last_send_ms := now\<rparr>, out @ send_data b 0) else (b, out)) in
            (x\<lparr>xf_send_q := b # q\<rparr>, out))"

definition rnet_ice_xfer_pump ::
  "(u64 \<Rightarrow> bool) \<Rightarrow> RNetIceState \<Rightarrow> u64 \<Rightarrow> bytes list \<Rightarrow> RNetIceXfer \<Rightarrow> (RNetIceXfer \<times> bytes list) option" where
  "rnet_ice_xfer_pump alloc st now inbound x =
     (if xf_failed x then Some (x, [])
      else if st = RNET_ICE_STATE_FAILED then Some (fail_xfer x (text_bytes ''ICE failed''), [])
      else if st \<noteq> RNET_ICE_STATE_CONNECTED \<and> st \<noteq> RNET_ICE_STATE_COMPLETED then
        (if now - xf_open_ms x \<ge> 25000
         then Some (fail_xfer x (text_bytes ''ICE connect timed out''), []) else Some (x, []))
      else case recv_loop alloc x inbound of
        None \<Rightarrow> None
      | Some (x, acks) \<Rightarrow>
          if xf_failed x then Some (x, acks)
          else let (x, out) = pump_send now x in Some (x, acks @ out))"

section \<open>Queue operations and queries\<close>

definition rnet_ice_xfer_queue_blob :: "RNetIceXfer \<Rightarrow> bytes \<Rightarrow> int \<times> RNetIceXfer" where
  "rnet_ice_xfer_queue_blob x data =
     (if xf_failed x then (-1, x)
      else if length (xf_send_q x) \<ge> 16 then (-1, x)
      else (0, x\<lparr>xf_next_id := xf_next_id x + 1,
                xf_send_q := xf_send_q x @ [\<lparr>xb_data = data, xb_id = xf_next_id x + 1, xb_unacked = 0,
                  xb_next_off = 0, xb_last_send_ms = 0\<rparr>]\<rparr>))"

definition rnet_ice_xfer_send_idle :: "RNetIceXfer \<Rightarrow> bool" where
  "rnet_ice_xfer_send_idle x \<longleftrightarrow> xf_send_q x = []"

definition rnet_ice_xfer_take_blob :: "RNetIceXfer \<Rightarrow> (bytes \<times> RNetIceXfer) option" where
  "rnet_ice_xfer_take_blob x =
     (case xf_ready x of [] \<Rightarrow> None | d # ds \<Rightarrow> Some (d, x\<lparr>xf_ready := ds\<rparr>))"

definition rnet_ice_xfer_progress :: "RNetIceXfer \<Rightarrow> int" where
  "rnet_ice_xfer_progress x =
     (if xf_failed x then -2
      else if xf_recv_active x \<and> xf_recv_total x > 0
        then sint (ucast (xf_recv_got x * 100 div xf_recv_total x) :: u32)
      else case xf_send_q x of
        b # q \<Rightarrow> if xb_len b > 0 then sint (ucast (xb_unacked b * 100 div xb_len b) :: u32) else 0
      | [] \<Rightarrow> if xf_ready x \<noteq> [] then 0 else -1)"

definition rnet_ice_xfer_failed :: "RNetIceXfer \<Rightarrow> bytes option" where
  "rnet_ice_xfer_failed x = (if xf_failed x then Some (xf_error x) else None)"

definition rnet_ice_xfer_fail :: "RNetIceXfer \<Rightarrow> bytes \<Rightarrow> RNetIceXfer \<times> bytes list" where
  "rnet_ice_xfer_fail x err = (let x = fail_xfer x err in (x, send_fail_pkt (xf_error x)))"

end
