(* ===== verification/RNet_Xfer_Link.thy ===== *)
theory RNet_Xfer_Link
  imports RNet_Xfer
begin

text \<open>
  Properties of the blob transfer: what a packet means to its receiver, integrity of received
  blobs under loss, duplication and reordering, delivery over a link that loses nothing, and the
  cases in which the protocol does not do what its header promises.
\<close>

section \<open>Packets are read back as they were written\<close>

lemma length_put [simp]: "length (put_u16 a) = 2" "length (put_u32 b) = 4" "length (put_u64 c) = 8"
  "length XFER_MAGIC = 7"
  by (simp_all add: put_u16_def put_u32_def put_u64_def XFER_MAGIC_def text_bytes_def)

lemma nth_at: "k = length pre \<Longrightarrow> (pre @ xs @ post) ! (k + i) = (xs @ post) ! i"
  by (simp add: nth_append)

lemma get_put_u16: "k = length pre \<Longrightarrow> get_u16 (pre @ put_u16 v @ post) k = v"
  using nth_at [of k pre "put_u16 v" post 0] nth_at [of k pre "put_u16 v" post 1]
  by (simp add: get_u16_def put_u16_def)

lemma get_put_u32: "k = length pre \<Longrightarrow> get_u32 (pre @ put_u32 v @ post) k = v"
  using nth_at [of k pre "put_u32 v" post 0] nth_at [of k pre "put_u32 v" post 1]
    nth_at [of k pre "put_u32 v" post 2] nth_at [of k pre "put_u32 v" post 3]
  by (simp add: get_u32_def put_u32_def numeral_2_eq_2 numeral_3_eq_3)

lemma u64_halves_join: "(ucast (ucast v :: u32) OR push_bit 32 (ucast (ucast (drop_bit 32 v) :: u32)) :: u64) = v"
  by (rule bit_word_eqI) (auto simp: bit_simps)

lemma get_put_u64: "k = length pre \<Longrightarrow> get_u64 (pre @ put_u64 v @ post) k = v"
  using get_put_u32 [of k pre "ucast v" "put_u32 (ucast (drop_bit 32 v)) @ post"]
    get_put_u32 [of "k + 4" "pre @ put_u32 (ucast v)" "ucast (drop_bit 32 v)" post]
  by (simp add: get_u64_def put_u64_def u64_halves_join)

definition data_pkt :: "u32 \<Rightarrow> u64 \<Rightarrow> u64 \<Rightarrow> u16 \<Rightarrow> bytes \<Rightarrow> bytes" where
  "data_pkt blob_id tot off n payload =
     XFER_MAGIC @ [1] @ put_u32 blob_id @ put_u64 tot @ put_u64 off @ put_u16 n @ payload"

lemma handle_data_pkt:
  assumes "length payload = unat n"
  shows "handle_pkt alloc x (data_pkt blob_id tot off n payload) = Some (handle_data alloc x blob_id tot off payload)"
proof -
  let ?p = "data_pkt blob_id tot off n payload"
  have f: "take 7 ?p = XFER_MAGIC" "?p ! 7 = 1" "length ?p = 30 + unat n" "drop 30 ?p = payload"
    using assms by (simp_all add: data_pkt_def nth_append)
  have "get_u32 ?p 8 = blob_id" unfolding data_pkt_def
    using get_put_u32 [of 8 "XFER_MAGIC @ [1]"] by simp
  moreover have "get_u64 ?p 12 = tot" unfolding data_pkt_def
    using get_put_u64 [of 12 "XFER_MAGIC @ [1] @ put_u32 blob_id"] by simp
  moreover have "get_u64 ?p 20 = off" unfolding data_pkt_def
    using get_put_u64 [of 20 "XFER_MAGIC @ [1] @ put_u32 blob_id @ put_u64 tot"] by simp
  moreover have "get_u16 ?p 28 = n" unfolding data_pkt_def
    using get_put_u16 [of 28 "XFER_MAGIC @ [1] @ put_u32 blob_id @ put_u64 tot @ put_u64 off"] by simp
  ultimately show ?thesis using f assms by (simp add: handle_pkt_def Let_def)
qed

definition ack_pkt :: "u32 \<Rightarrow> u64 \<Rightarrow> bytes" where
  "ack_pkt blob_id got = XFER_MAGIC @ [2] @ put_u32 blob_id @ put_u64 got"

lemma send_ack_pkt: "send_ack blob_id got = [ack_pkt blob_id got]"
  by (simp add: send_ack_def ack_pkt_def)

lemma handle_ack_pkt: "handle_pkt alloc x (ack_pkt blob_id got) = Some (handle_ack x blob_id got, [])"
proof -
  let ?p = "ack_pkt blob_id got"
  have f: "take 7 ?p = XFER_MAGIC" "?p ! 7 = 2" "length ?p = 20" by (simp_all add: ack_pkt_def nth_append)
  have "get_u32 ?p 8 = blob_id" unfolding ack_pkt_def
    using get_put_u32 [of 8 "XFER_MAGIC @ [2]"] by simp
  moreover have "get_u64 ?p 12 = got" unfolding ack_pkt_def
    using get_put_u64 [of 12 "XFER_MAGIC @ [2] @ put_u32 blob_id" got "[]"] by simp
  ultimately show ?thesis using f by (simp add: handle_pkt_def Let_def)
qed

lemma pkt_nonempty [simp]: "data_pkt i t k n p \<noteq> []" "ack_pkt i g \<noteq> []"
  by (simp_all add: data_pkt_def ack_pkt_def)

text \<open>A data packet of blob \<open>d\<close>: the chunk at an offset inside it.\<close>

definition chunk :: "bytes \<Rightarrow> nat \<Rightarrow> bytes" where
  "chunk d k = take 1024 (drop k d)"

definition blob_pkt :: "u32 \<Rightarrow> bytes \<Rightarrow> nat \<Rightarrow> bytes" where
  "blob_pkt i d k = data_pkt i (of_nat (length d)) (of_nat k) (of_nat (length (chunk d k))) (chunk d k)"

lemma unat_u64: "n < 2 ^ 63 \<Longrightarrow> unat (of_nat n :: u64) = n"
  by (simp add: unat_of_nat take_bit_nat_eq_self)

lemma unat_u32: "n < 2 ^ 32 \<Longrightarrow> unat (of_nat n :: u32) = n"
  by (simp add: unat_of_nat take_bit_nat_eq_self)

lemma send_data_pkt:
  assumes "length d < 2 ^ 63" "k \<le> length d" "xb_data b = d"
  shows "send_data b (of_nat k) = [blob_pkt (xb_id b) d k]"
proof -
  have u: "unat (of_nat k :: u64) = k" "unat (xb_len b) = length d"
    using assms by (simp_all add: unat_u64 xb_len_def)
  have le: "(of_nat k :: u64) \<le> xb_len b" using assms(2) u by (simp add: word_le_nat_alt)
  let ?m = "if xb_len b - of_nat k > 1024 then 1024 else xb_len b - of_nat k"
  have m: "unat ?m = length (chunk d k)"
    using le u assms(2) by (auto simp: chunk_def word_less_nat_alt unat_sub min_def)
  have n: "(ucast ?m :: u16) = of_nat (length (chunk d k))"
    unfolding m [symmetric] by (rule of_nat_unat [symmetric])
  have "unat (of_nat (length (chunk d k)) :: u16) = length (chunk d k)"
    by (simp add: chunk_def unat_of_nat take_bit_nat_eq_self)
  then have t: "take (unat (of_nat (length (chunk d k)) :: u16)) (drop (unat (of_nat k :: u64)) d) = chunk d k"
    unfolding u by (simp add: chunk_def min_def)
  have "\<not> xb_len b < of_nat k" using le by simp
  then have "send_data b (of_nat k) = [XFER_MAGIC @ [1] @ put_u32 (xb_id b) @ put_u64 (xb_len b) @
      put_u64 (of_nat k) @ put_u16 (ucast ?m) @ take (unat (ucast ?m :: u16)) (drop (unat (of_nat k :: u64)) (xb_data b))]"
    unfolding send_data_def Let_def by (simp only: if_False)
  then have "send_data b (of_nat k) = [XFER_MAGIC @ [1] @ put_u32 (xb_id b) @ put_u64 (xb_len b) @
      put_u64 (of_nat k) @ put_u16 (of_nat (length (chunk d k))) @ chunk d k]"
    unfolding assms(3) n t .
  then show ?thesis unfolding blob_pkt_def data_pkt_def xb_len_def assms(3) .
qed

lemma handle_blob_pkt:
  "handle_pkt alloc x (blob_pkt i d k) =
     Some (handle_data alloc x i (of_nat (length d)) (of_nat k) (chunk d k))"
  unfolding blob_pkt_def
  by (rule handle_data_pkt) (simp add: chunk_def unat_of_nat take_bit_nat_eq_self)

section \<open>Integrity of received blobs\<close>

text \<open>What the receiver holds, relative to the blobs that were sent under each id.\<close>

definition rx_ok :: "(u32 \<rightharpoonup> bytes) \<Rightarrow> RNetIceXfer \<Rightarrow> bool" where
  "rx_ok blobs x \<longleftrightarrow>
     (xf_recv_active x \<longrightarrow> (\<exists>d. blobs (xf_recv_id x) = Some d \<and> xf_recv_total x = of_nat (length d) \<and>
        length (xf_recv_buf x) \<le> length d \<and> xf_recv_buf x = take (length (xf_recv_buf x)) d)) \<and>
     set (xf_ready x) \<subseteq> ran blobs"

definition small :: "(u32 \<rightharpoonup> bytes) \<Rightarrow> bool" where
  "small blobs \<longleftrightarrow> (\<forall>d \<in> ran blobs. length d < 2 ^ 63)"

lemma rx_ok_fail [simp]: "rx_ok blobs (fail_xfer x e) = rx_ok blobs x"
  by (simp add: rx_ok_def fail_xfer_def)

lemma take_chunk: "take (length (chunk d k) + k) d = take k d @ chunk d k"
proof -
  have c: "take (length (chunk d k)) (drop k d) = chunk d k" by (simp add: chunk_def min_def)
  have "take (length (chunk d k) + k) d = take (k + length (chunk d k)) d" by (simp only: add.commute)
  then show ?thesis unfolding take_add c .
qed

lemma not_too_large: "n < 2 ^ 63 \<Longrightarrow> \<not> (of_nat n :: u64) > 0x7fffffffffffffff"
proof -
  assume n: "n < 2 ^ 63"
  have "unat (0x7fffffffffffffff :: u64) = 2 ^ 63 - 1" by simp
  with n show ?thesis by (simp add: word_less_nat_alt unat_u64 del: unat_numeral)
qed

lemma begin_recv_ok:
  "rx_ok blobs x \<Longrightarrow> blobs i = Some d \<Longrightarrow> rx_ok blobs (snd (begin_recv alloc x i (of_nat (length d))))"
  by (auto simp: begin_recv_def Let_def rx_ok_def fail_xfer_def)

lemma begin_recv_active:
  "begin_recv alloc x i t = (True, x1) \<Longrightarrow> xf_recv_active x1 \<and> xf_recv_id x1 = i"
  by (auto simp: begin_recv_def Let_def split: if_splits)

lemma handle_data_ok:
  assumes ok: "rx_ok blobs x" "small blobs" and b: "blobs i = Some d" and k: "k \<le> length d"
  shows "rx_ok blobs (fst (handle_data alloc x i (of_nat (length d)) (of_nat k) (chunk d k)))"
proof -
  obtain r x1 where br: "begin_recv alloc x i (of_nat (length d)) = (r, x1)" by fastforce
  have L: "length d < 2 ^ 63" using ok(2) b by (auto simp: small_def ran_def)
  have x1: "rx_ok blobs x1" "r \<Longrightarrow> xf_recv_active x1 \<and> xf_recv_id x1 = i"
    using begin_recv_ok [OF ok(1) b, of alloc] begin_recv_active br by auto
  show ?thesis
  proof (cases "r \<and> (of_nat k :: u64) = xf_recv_got x1")
    case False
    with br x1 ok(1) show ?thesis by (auto simp: handle_data_def)
  next
    case True
    with x1 b have p: "xf_recv_total x1 = of_nat (length d)" "length (xf_recv_buf x1) \<le> length d"
      "xf_recv_buf x1 = take (length (xf_recv_buf x1)) d" "xf_recv_id x1 = i" "xf_recv_active x1"
      by (auto simp: rx_ok_def)
    have lk: "length (xf_recv_buf x1) = k"
    proof -
      have "unat (of_nat k :: u64) = unat (of_nat (length (xf_recv_buf x1)) :: u64)"
        using True by (simp add: xf_recv_got_def)
      then show ?thesis using k p(2) L by (simp add: unat_u64)
    qed
    let ?x2 = "x1\<lparr>xf_recv_buf := xf_recv_buf x1 @ chunk d k\<rparr>"
    have buf: "xf_recv_buf ?x2 = take (length (chunk d k) + k) d"
      using p(3) lk by (simp add: take_chunk)
    have len: "length (xf_recv_buf ?x2) = length (chunk d k) + k" "length (chunk d k) + k \<le> length d"
      using lk k by (simp_all add: chunk_def)
    have ok2: "rx_ok blobs ?x2"
      using x1(1) b p buf len by (auto simp: rx_ok_def)
    have fin: "rx_ok blobs ((push_ready ?x2 (xf_recv_buf ?x2))
        \<lparr>xf_recv_buf := [], xf_recv_active := False, xf_recv_total := 0\<rparr>)"
      if "xf_recv_got ?x2 \<ge> xf_recv_total ?x2"
    proof -
      have "length d \<le> length (chunk d k) + k"
        using that p(1) L len(2) unfolding xf_recv_got_def len(1) by (simp add: word_le_nat_alt unat_u64 del: of_nat_add)
      then have "xf_recv_buf ?x2 = d" using buf by simp
      then show ?thesis using x1(1) b by (auto simp: rx_ok_def push_ready_def ran_def)
    qed
    show ?thesis
      using True br x1(1) ok2 fin not_too_large [OF L]
      by (cases "chunk d k = []") (simp_all add: handle_data_def Let_def)
  qed
qed

lemma handle_ack_rx [simp]: "rx_ok blobs (handle_ack x i g) = rx_ok blobs x"
  by (simp add: handle_ack_def rx_ok_def Let_def split: list.splits)

section \<open>Failure packets\<close>

text \<open>The handler of a failure packet leaves its 81-byte array exactly for texts of more than 80 bytes.\<close>

lemma handle_pkt_None:
  "handle_pkt alloc x buf = None \<longleftrightarrow>
     length buf \<ge> 8 \<and> take 7 buf = XFER_MAGIC \<and> buf ! 7 = 3 \<and>
     80 < unat (buf ! 8) \<and> unat (buf ! 8) + 9 \<le> length buf"
  by (auto simp: handle_pkt_def handle_fail_def Let_def split: if_splits)

definition fail_pkt :: "bytes \<Rightarrow> bool" where
  "fail_pkt p \<longleftrightarrow> (\<exists>err. send_fail_pkt err = [p])"

lemma handle_fail_pkt:
  assumes "fail_pkt p"
  shows "\<exists>e. handle_pkt alloc x p = Some (fail_xfer x e, [])" and "p \<noteq> []"
proof -
  from assms obtain err where p: "send_fail_pkt err = [p]" by (auto simp: fail_pkt_def)
  define n where "n = (if length (c_str err) > 80 then 80 else length (c_str err))"
  have n: "n \<le> 80" by (simp add: n_def)
  have pe: "p = XFER_MAGIC @ [3, of_nat n] @ take n (c_str err)"
    using p by (simp add: send_fail_pkt_def n_def Let_def split: if_splits)
  have u: "unat (of_nat n :: u8) = n" using n by (simp add: unat_of_nat take_bit_nat_eq_self)
  have f: "take 7 p = XFER_MAGIC" "p ! 7 = 3" "p ! 8 = of_nat n" "8 < length p"
    by (simp_all add: pe nth_append)
  have h: "handle_pkt alloc x p = map_option (\<lambda>x. (x, [])) (handle_fail x p)"
    using f by (simp add: handle_pkt_def)
  show "\<exists>e. handle_pkt alloc x p = Some (fail_xfer x e, [])"
    unfolding h using f u n by (auto simp: handle_fail_def Let_def)
  show "p \<noteq> []" using f by auto
qed

text \<open>
  A datagram that a peer with the given blobs can have sent: a chunk of one of them, an
  acknowledgement, or a failure packet.
\<close>

definition genuine :: "(u32 \<rightharpoonup> bytes) \<Rightarrow> bytes \<Rightarrow> bool" where
  "genuine blobs p \<longleftrightarrow> (\<exists>i d k. blobs i = Some d \<and> k \<le> length d \<and> p = blob_pkt i d k) \<or>
     (\<exists>i g. p = ack_pkt i g) \<or> fail_pkt p"

lemma genuine_blob: "blobs i = Some d \<Longrightarrow> k \<le> length d \<Longrightarrow> genuine blobs (blob_pkt i d k)"
  unfolding genuine_def by blast

lemma genuine_nonempty: "genuine blobs p \<Longrightarrow> p \<noteq> []"
  by (metis genuine_def handle_fail_pkt(2) pkt_nonempty blob_pkt_def)

text \<open>What the acknowledgements do to the sender, relative to the blobs it has queued.\<close>

definition blob_ok :: "(u32 \<rightharpoonup> bytes) \<Rightarrow> XferBlob \<Rightarrow> bool" where
  "blob_ok blobs b \<longleftrightarrow> blobs (xb_id b) = Some (xb_data b) \<and> xb_next_off b \<le> xb_len b"

definition tx_ok :: "(u32 \<rightharpoonup> bytes) \<Rightarrow> RNetIceXfer \<Rightarrow> bool" where
  "tx_ok blobs x \<longleftrightarrow> (\<forall>b \<in> set (xf_send_q x). blob_ok blobs b)"

lemma blob_ok_update:
  "blob_ok blobs b \<Longrightarrow> n \<le> xb_len b \<Longrightarrow> blob_ok blobs (b\<lparr>xb_next_off := n\<rparr>)"
  "blob_ok blobs (b\<lparr>xb_unacked := u\<rparr>) = blob_ok blobs b"
  "blob_ok blobs (b\<lparr>xb_last_send_ms := t\<rparr>) = blob_ok blobs b"
  by (simp_all add: blob_ok_def xb_len_def)

lemma handle_ack_tx: "tx_ok blobs x \<Longrightarrow> tx_ok blobs (handle_ack x i g)"
  by (auto simp: handle_ack_def tx_ok_def Let_def blob_ok_update split: list.splits)

lemma begin_recv_send [simp]: "xf_send_q (snd (begin_recv alloc x i t)) = xf_send_q x"
  by (simp add: begin_recv_def Let_def fail_xfer_def)

lemma handle_data_send [simp]: "xf_send_q (fst (handle_data alloc x i t k p)) = xf_send_q x"
proof -
  obtain r x1 where br: "begin_recv alloc x i t = (r, x1)" by fastforce
  have "xf_send_q x1 = xf_send_q x" using begin_recv_send [of alloc x i t] br by simp
  then show ?thesis using br by (simp add: handle_data_def fail_xfer_def push_ready_def Let_def)
qed

lemma handle_data_acks: "\<forall>q \<in> set (snd (handle_data alloc x i t k p)). \<exists>i g. q = ack_pkt i g"
  by (simp add: handle_data_def Let_def send_ack_pkt split: prod.splits) blast

section \<open>What an endpoint sends\<close>

lemma send_window_keeps:
  "send_window now b = (b', out) \<Longrightarrow>
     xb_data b' = xb_data b \<and> xb_id b' = xb_id b \<and> xb_unacked b' = xb_unacked b"
proof (induction now b arbitrary: b' out rule: send_window.induct)
  case (1 now b)
  let ?b = "b\<lparr>xb_next_off := xb_next_off b + next_chunk b, xb_last_send_ms := now\<rparr>"
  show ?case
  proof (cases "xb_next_off b < xb_len b \<and> xb_next_off b < xb_unacked b + 16 * 1024")
    case True
    then have nz: "xb_len ?b \<noteq> 0" by auto
    obtain b1 o1 where w: "send_window now ?b = (b1, o1)" by fastforce
    have "b' = b1" using 1(2) w True nz by (simp add: send_window.simps [of now b] Let_def)
    then show ?thesis using 1(1) [OF True refl refl nz w] by simp
  next
    case False
    then show ?thesis using 1(2) by (auto simp: send_window.simps [of now b])
  qed
qed

lemma send_window_len: "send_window now b = (b', out) \<Longrightarrow> xb_len b' = xb_len b"
  by (simp add: xb_len_def send_window_keeps)

lemma send_window_genuine:
  assumes "small blobs" "blob_ok blobs b" "send_window now b = (b', out)"
  shows "blob_ok blobs b' \<and> (\<forall>p \<in> set out. genuine blobs p)"
  using assms(2,3)
proof (induction now b arbitrary: b' out rule: send_window.induct)
  case (1 now b)
  show ?case
  proof (cases "xb_next_off b < xb_len b \<and> xb_next_off b < xb_unacked b + 16 * 1024")
    case False
    then show ?thesis using 1 by (auto simp: send_window.simps [of now b])
  next
    case True
    let ?b = "b\<lparr>xb_next_off := xb_next_off b + next_chunk b, xb_last_send_ms := now\<rparr>"
    have L: "blobs (xb_id b) = Some (xb_data b)" "length (xb_data b) < 2 ^ 63"
      using 1(2) assms(1) by (auto simp: blob_ok_def small_def ran_def)
    have u: "unat (xb_next_off b) < length (xb_data b)"
      using True L by (simp add: word_less_nat_alt xb_len_def unat_u64)
    have sd: "send_data b (xb_next_off b) = [blob_pkt (xb_id b) (xb_data b) (unat (xb_next_off b))]"
      using send_data_pkt [of "xb_data b" "unat (xb_next_off b)" b] L u by simp
    have g: "\<forall>p \<in> set (send_data b (xb_next_off b)). genuine blobs p"
      using genuine_blob [of blobs, OF L(1) less_imp_le [OF u]] by (simp add: sd)
    have "unat (xb_next_off b + next_chunk b) \<le> unat (xb_len b)"
      using next_chunk(2) [of b] True by (auto simp: word_less_nat_alt min_def)
    then have ok: "blob_ok blobs ?b"
      using 1(2) by (simp add: blob_ok_update word_le_nat_alt)
    have nz: "xb_len b \<noteq> 0" using True by auto
    obtain b1 o1 where w: "send_window now ?b = (b1, o1)" by fastforce
    have r: "b' = b1" "out = send_data b (xb_next_off b) @ o1"
      using 1(3) w True nz by (simp_all add: send_window.simps [of now b] Let_def)
    show ?thesis
      using 1(1) [OF True refl refl _ ok w] nz g unfolding r by auto
  qed
qed

lemma pump_send_genuine:
  assumes "small blobs" "tx_ok blobs x" "pump_send now x = (x', out)"
  shows "tx_ok blobs x' \<and> (\<forall>p \<in> set out. genuine blobs p)"
proof (cases "xf_send_q x")
  case Nil
  then show ?thesis using assms by (simp add: pump_send_def)
next
  case (Cons b q)
  show ?thesis
  proof (cases "xb_unacked b \<ge> xb_len b")
    case True
    then show ?thesis using assms Cons by (simp add: pump_send_def)
  next
    case False
    define b1 where "b1 = (if xb_next_off b > xb_unacked b + 16 * 1024 then b\<lparr>xb_next_off := xb_unacked b\<rparr> else b)"
    define b2 where "b2 = (if now - xb_last_send_ms b1 \<ge> 200 \<and> xb_next_off b1 > xb_unacked b1
                     then b1\<lparr>xb_next_off := xb_unacked b1\<rparr> else b1)"
    have okb: "blob_ok blobs b" "\<forall>b \<in> set q. blob_ok blobs b" using assms(2) Cons by (auto simp: tx_ok_def)
    have le: "xb_unacked b \<le> xb_len b" using False by simp
    have b1: "blob_ok blobs b1" "xb_unacked b1 = xb_unacked b" "xb_len b1 = xb_len b"
      using okb(1) le by (auto simp: b1_def blob_ok_update)
    have b2: "blob_ok blobs b2" "xb_len b2 = xb_len b"
      using b1 le by (auto simp: b2_def blob_ok_update)
    obtain b3 out3 where w: "send_window now b2 = (b3, out3)" by fastforce
    have b3: "blob_ok blobs b3" "\<forall>p \<in> set out3. genuine blobs p"
      using send_window_genuine [OF assms(1) b2(1) w] by auto
    have nz: "xb_len b \<noteq> 0" using False by auto
    have "xb_len b3 = xb_len b"
      using b2(2) send_window_len [OF w] by simp
    then have "pump_send now x = (x\<lparr>xf_send_q := b3 # q\<rparr>, out3)"
      using Cons False w nz unfolding b2_def b1_def pump_send_def Let_def by simp
    then show ?thesis using assms(3) b3 okb by (auto simp: tx_ok_def)
  qed
qed

section \<open>One pump\<close>

text \<open>The parts of an endpoint that receiving packets of the peer keeps.\<close>

definition end_ok :: "(u32 \<rightharpoonup> bytes) \<Rightarrow> (u32 \<rightharpoonup> bytes) \<Rightarrow> RNetIceXfer \<Rightarrow> bool" where
  "end_ok mine theirs x \<longleftrightarrow> tx_ok mine x \<and> rx_ok theirs x"

lemma fail_xfer_tx [simp]: "tx_ok mine (fail_xfer x e) = tx_ok mine x"
  by (simp add: tx_ok_def fail_xfer_def)

lemma handle_data_id [simp]: "xf_next_id (fst (handle_data alloc x i t k p)) = xf_next_id x"
proof -
  obtain r x1 where br: "begin_recv alloc x i t = (r, x1)" by fastforce
  have "xf_next_id x1 = xf_next_id x"
    using br by (auto simp: begin_recv_def Let_def fail_xfer_def split: if_splits)
  then show ?thesis using br by (simp add: handle_data_def fail_xfer_def push_ready_def Let_def)
qed

lemma handle_ack_id [simp]: "xf_next_id (handle_ack x i g) = xf_next_id x"
  by (simp add: handle_ack_def Let_def split: list.splits)

lemma handle_pkt_ok:
  assumes "small theirs" "end_ok mine theirs x" "genuine theirs p"
  shows "\<exists>x' out. handle_pkt alloc x p = Some (x', out) \<and> end_ok mine theirs x' \<and>
    xf_next_id x' = xf_next_id x \<and> (\<forall>q \<in> set out. \<exists>i g. q = ack_pkt i g)"
proof -
  consider (data) i d k where "theirs i = Some d" "k \<le> length d" "p = blob_pkt i d k"
    | (ack) i g where "p = ack_pkt i g" | (failure) "fail_pkt p"
    using assms(3) by (auto simp: genuine_def)
  then show ?thesis
  proof cases
    case data
    let ?r = "handle_data alloc x i (of_nat (length d)) (of_nat k) (chunk d k)"
    have "rx_ok theirs (fst ?r)" "tx_ok mine (fst ?r)"
      using handle_data_ok [OF _ assms(1) data(1,2)] assms(2) by (auto simp: end_ok_def tx_ok_def)
    then show ?thesis
      using data handle_data_acks [of alloc x i "of_nat (length d)" "of_nat k" "chunk d k"]
      by (intro exI [of _ "fst ?r"] exI [of _ "snd ?r"]) (simp add: handle_blob_pkt end_ok_def)
  next
    case ack
    then show ?thesis using assms(2) by (auto simp: handle_ack_pkt end_ok_def handle_ack_tx)
  next
    case failure
    then obtain e where "handle_pkt alloc x p = Some (fail_xfer x e, [])"
      using handle_fail_pkt(1) by blast
    then show ?thesis using assms(2) by (auto simp: end_ok_def) (simp add: fail_xfer_def)
  qed
qed

lemma recv_loop_ok:
  assumes "small theirs"
  shows "end_ok mine theirs x \<Longrightarrow> \<forall>p \<in> set ps. genuine theirs p \<Longrightarrow>
    \<exists>x' out. recv_loop alloc x ps = Some (x', out) \<and> end_ok mine theirs x' \<and>
      xf_next_id x' = xf_next_id x \<and> (\<forall>q \<in> set out. \<exists>i g. q = ack_pkt i g)"
proof (induction ps arbitrary: x)
  case (Cons p ps)
  have g: "genuine theirs p" "p \<noteq> []" using Cons.prems(2) genuine_nonempty by auto
  obtain x1 o1 where p: "handle_pkt alloc x p = Some (x1, o1)" "end_ok mine theirs x1"
    "xf_next_id x1 = xf_next_id x" "\<forall>q \<in> set o1. \<exists>i g. q = ack_pkt i g"
    using handle_pkt_ok [OF assms Cons.prems(1) g(1)] by blast
  obtain x2 o2 where "recv_loop alloc x1 ps = Some (x2, o2)" "end_ok mine theirs x2"
    "xf_next_id x2 = xf_next_id x1" "\<forall>q \<in> set o2. \<exists>i g. q = ack_pkt i g"
    using Cons.IH [OF p(2)] Cons.prems(2) by auto
  then show ?case using p g(2) by auto
qed simp

lemma pump_send_rx:
  assumes "pump_send now x = (x', out)"
  shows "rx_ok theirs x' = rx_ok theirs x \<and> xf_next_id x' = xf_next_id x"
proof -
  have "\<exists>q. x' = x\<lparr>xf_send_q := q\<rparr>"
  proof (cases "xf_send_q x")
    case Nil
    then show ?thesis using assms by (intro exI [of _ "[]"]) (simp add: pump_send_def)
  next
    case (Cons b q)
    then show ?thesis using assms
      by (auto simp: pump_send_def Let_def split: if_splits prod.splits intro: exI [of _ "xf_send_q x"])
  qed
  then show ?thesis by (auto simp: rx_ok_def)
qed

lemma genuine_ack: "genuine blobs (ack_pkt i g)"
  unfolding genuine_def by blast

lemma pump_ok:
  assumes "small theirs" "small mine" "end_ok mine theirs x" "\<forall>p \<in> set inbound. genuine theirs p"
  shows "\<exists>x' out. rnet_ice_xfer_pump alloc st now inbound x = Some (x', out) \<and> end_ok mine theirs x' \<and>
    xf_next_id x' = xf_next_id x \<and> (\<forall>q \<in> set out. genuine mine q)"
proof -
  obtain x1 o1 where r: "recv_loop alloc x inbound = Some (x1, o1)" "end_ok mine theirs x1"
    "xf_next_id x1 = xf_next_id x" "\<forall>q \<in> set o1. \<exists>i g. q = ack_pkt i g"
    using recv_loop_ok [OF assms(1,3,4), of alloc] by blast
  have o1: "\<forall>q \<in> set o1. genuine mine q" using r(4) genuine_ack by metis
  obtain x2 o2 where s: "pump_send now x1 = (x2, o2)" by fastforce
  have t: "tx_ok mine x2" "\<forall>q \<in> set o2. genuine mine q"
    using pump_send_genuine [OF assms(2) _ s] r(2) by (auto simp: end_ok_def)
  have f: "end_ok mine theirs (fail_xfer x e)" "xf_next_id (fail_xfer x e) = xf_next_id x" for e
    using assms(3) by (simp_all add: end_ok_def) (simp add: fail_xfer_def)
  have e2: "end_ok mine theirs x2" "xf_next_id x2 = xf_next_id x"
    using pump_send_rx [OF s, of theirs] t(1) r(2,3) by (auto simp: end_ok_def)
  show ?thesis
    using assms(3) f r o1 s t(2) e2 unfolding rnet_ice_xfer_pump_def by auto
qed

section \<open>Two endpoints on a network that loses, repeats and reorders\<close>

text \<open>
  An endpoint with what it has put on the network, the blobs the host has queued on it and the
  blobs the host has taken from it.
\<close>

record xfer_end =
  ep_x :: RNetIceXfer
  ep_sent :: "bytes set"
  ep_queued :: "bytes list"
  ep_taken :: "bytes list"

definition ep_open :: "u64 \<Rightarrow> xfer_end" where
  "ep_open now = \<lparr>ep_x = rnet_ice_xfer_open now, ep_sent = {}, ep_queued = [], ep_taken = []\<rparr>"

text \<open>
  The steps of one endpoint. A pump is handed any list of datagrams among those the peer has
  sent so far, so a datagram may be lost, delayed, repeated and reordered. Blob ids are 32-bit
  counters; the relation covers the first \<open>2 ^ 32 - 1\<close> blobs of a link.
\<close>

inductive ep_step :: "(u64 \<Rightarrow> bool) \<Rightarrow> bytes set \<Rightarrow> xfer_end \<Rightarrow> xfer_end \<Rightarrow> bool"
  for alloc :: "u64 \<Rightarrow> bool" and air :: "bytes set" where
  ep_queue: "rnet_ice_xfer_queue_blob (ep_x e) d = (0, x') \<Longrightarrow> length d < 2 ^ 63 \<Longrightarrow>
     length (ep_queued e) + 1 < 2 ^ 32 \<Longrightarrow>
     ep_step alloc air e (e\<lparr>ep_x := x', ep_queued := ep_queued e @ [d]\<rparr>)"
| ep_pump: "set inbound \<subseteq> air \<Longrightarrow>
     rnet_ice_xfer_pump alloc st now inbound (ep_x e) = Some (x', out) \<Longrightarrow>
     ep_step alloc air e (e\<lparr>ep_x := x', ep_sent := ep_sent e \<union> set out\<rparr>)"
| ep_take: "rnet_ice_xfer_take_blob (ep_x e) = Some (d, x') \<Longrightarrow>
     ep_step alloc air e (e\<lparr>ep_x := x', ep_taken := ep_taken e @ [d]\<rparr>)"
| ep_fail: "rnet_ice_xfer_fail (ep_x e) err = (x', out) \<Longrightarrow>
     ep_step alloc air e (e\<lparr>ep_x := x', ep_sent := ep_sent e \<union> set out\<rparr>)"

inductive xfer_reach :: "(u64 \<Rightarrow> bool) \<Rightarrow> xfer_end \<Rightarrow> xfer_end \<Rightarrow> bool"
  for alloc :: "u64 \<Rightarrow> bool" where
  xr_open: "xfer_reach alloc (ep_open t) (ep_open u)"
| xr_left: "xfer_reach alloc l r \<Longrightarrow> ep_step alloc (ep_sent r) l l' \<Longrightarrow> xfer_reach alloc l' r"
| xr_right: "xfer_reach alloc l r \<Longrightarrow> ep_step alloc (ep_sent l) r r' \<Longrightarrow> xfer_reach alloc l r'"

text \<open>The blob queued under an id.\<close>

definition blobs_of :: "bytes list \<Rightarrow> (u32 \<rightharpoonup> bytes)" where
  "blobs_of ds i = (if 0 < i \<and> unat i \<le> length ds then Some (ds ! (unat i - 1)) else None)"

lemma blobs_of_snoc: "blobs_of ds \<subseteq>\<^sub>m blobs_of (ds @ [d])"
proof -
  have "unat i - 1 < length ds" if "0 < i" "unat i \<le> length ds" for i :: u32
    using that by (simp add: word_less_nat_alt)
  then show ?thesis by (auto simp: blobs_of_def map_le_def dom_def nth_append)
qed

lemma blobs_of_new: "length ds + 1 < 2 ^ 32 \<Longrightarrow> blobs_of (ds @ [d]) (of_nat (length ds) + 1) = Some d"
proof -
  assume l: "length ds + 1 < 2 ^ 32"
  have "unat (of_nat (length ds + 1) :: u32) = length ds + 1"
    by (rule unat_u32 [OF l])
  then have u: "unat (of_nat (length ds) + 1 :: u32) = length ds + 1" by (simp only: of_nat_add of_nat_1)
  then have "0 < (of_nat (length ds) + 1 :: u32)" by (simp add: word_less_nat_alt)
  with u show ?thesis by (simp add: blobs_of_def)
qed

lemma ran_blobs_of: "ran (blobs_of ds) \<subseteq> set ds"
proof
  fix d assume "d \<in> ran (blobs_of ds)"
  then obtain i :: u32 where "0 < i" "unat i \<le> length ds" "d = ds ! (unat i - 1)"
    by (auto simp: ran_def blobs_of_def split: if_splits)
  then show "d \<in> set ds" by (simp add: word_less_nat_alt)
qed

lemma blobs_mono:
  assumes "m \<subseteq>\<^sub>m m'"
  shows "rx_ok m x \<Longrightarrow> rx_ok m' x" "tx_ok m x \<Longrightarrow> tx_ok m' x" "genuine m p \<Longrightarrow> genuine m' p"
proof -
  have s: "m i = Some d \<Longrightarrow> m' i = Some d" for i d using assms by (metis domI map_le_def)
  then have "ran m \<subseteq> ran m'" by (auto simp: ran_def)
  with s show "rx_ok m x \<Longrightarrow> rx_ok m' x" unfolding rx_ok_def by blast
  show "tx_ok m x \<Longrightarrow> tx_ok m' x" using s by (auto simp: tx_ok_def blob_ok_def)
  show "genuine m p \<Longrightarrow> genuine m' p" unfolding genuine_def using s by blast
qed

text \<open>What holds of an endpoint whose peer has queued the blobs \<open>qs\<close>.\<close>

definition ep_ok :: "bytes list \<Rightarrow> xfer_end \<Rightarrow> bool" where
  "ep_ok qs e \<longleftrightarrow> end_ok (blobs_of (ep_queued e)) (blobs_of qs) (ep_x e) \<and>
     set (ep_taken e) \<subseteq> set qs \<and> (\<forall>p \<in> ep_sent e. genuine (blobs_of (ep_queued e)) p) \<and>
     xf_next_id (ep_x e) = of_nat (length (ep_queued e)) \<and> (\<forall>d \<in> set (ep_queued e). length d < 2 ^ 63)"

lemma ep_ok_snoc: "ep_ok qs e \<Longrightarrow> ep_ok (qs @ [d]) e"
  using blobs_mono(1) [OF blobs_of_snoc] by (auto simp: ep_ok_def end_ok_def)

lemma small_blobs_of: "\<forall>d \<in> set ds. length d < 2 ^ 63 \<Longrightarrow> small (blobs_of ds)"
  using ran_blobs_of by (auto simp: small_def)

lemma ep_queue_ok:
  assumes "ep_ok qs e" "rnet_ice_xfer_queue_blob (ep_x e) d = (0, x')" "length d < 2 ^ 63"
    "length (ep_queued e) + 1 < 2 ^ 32"
  shows "ep_ok qs (e\<lparr>ep_x := x', ep_queued := ep_queued e @ [d]\<rparr>)"
proof -
  let ?m = "blobs_of (ep_queued e)" and ?m' = "blobs_of (ep_queued e @ [d])"
  let ?b = "\<lparr>xb_data = d, xb_id = of_nat (length (ep_queued e)) + 1, xb_unacked = 0, xb_next_off = 0, xb_last_send_ms = 0\<rparr>"
  have i: "xf_next_id (ep_x e) = of_nat (length (ep_queued e))" using assms(1) by (simp add: ep_ok_def)
  have x': "x' = (ep_x e)\<lparr>xf_next_id := of_nat (length (ep_queued e)) + 1, xf_send_q := xf_send_q (ep_x e) @ [?b]\<rparr>"
    using assms(2) i by (auto simp: rnet_ice_xfer_queue_blob_def split: if_splits)
  have "tx_ok ?m' (ep_x e)" using blobs_mono(2) [OF blobs_of_snoc] assms(1) by (simp add: ep_ok_def end_ok_def)
  moreover have "blob_ok ?m' ?b" using blobs_of_new [OF assms(4)] by (simp add: blob_ok_def)
  ultimately have "tx_ok ?m' x'" by (auto simp: x' tx_ok_def)
  moreover have "rx_ok (blobs_of qs) x'" using assms(1) by (simp add: x' ep_ok_def end_ok_def rx_ok_def)
  moreover have "\<forall>p \<in> ep_sent e. genuine ?m' p"
    using blobs_mono(3) [OF blobs_of_snoc] assms(1) by (auto simp: ep_ok_def)
  ultimately show ?thesis using assms(1,3) by (simp add: ep_ok_def end_ok_def x' add.commute)
qed

lemma ep_pump_ok:
  assumes "ep_ok qs e" "\<forall>d \<in> set qs. length d < 2 ^ 63" "\<forall>p \<in> set inbound. genuine (blobs_of qs) p"
  shows "\<exists>x' out. rnet_ice_xfer_pump alloc st now inbound (ep_x e) = Some (x', out) \<and>
    ep_ok qs (e\<lparr>ep_x := x', ep_sent := ep_sent e \<union> set out\<rparr>)"
proof -
  have "small (blobs_of (ep_queued e))" using assms(1) by (simp add: ep_ok_def small_blobs_of)
  moreover have "end_ok (blobs_of (ep_queued e)) (blobs_of qs) (ep_x e)" using assms(1) by (simp add: ep_ok_def)
  ultimately obtain x' out where
    p: "rnet_ice_xfer_pump alloc st now inbound (ep_x e) = Some (x', out)"
      "end_ok (blobs_of (ep_queued e)) (blobs_of qs) x'" "xf_next_id x' = xf_next_id (ep_x e)"
      "\<forall>q \<in> set out. genuine (blobs_of (ep_queued e)) q"
    using pump_ok [OF small_blobs_of [OF assms(2)] _ _ assms(3)] by blast
  then show ?thesis using assms(1) by (auto simp: ep_ok_def)
qed

lemma ep_take_ok:
  assumes "ep_ok qs e" "rnet_ice_xfer_take_blob (ep_x e) = Some (d, x')"
  shows "ep_ok qs (e\<lparr>ep_x := x', ep_taken := ep_taken e @ [d]\<rparr>)"
proof -
  obtain ds where r: "xf_ready (ep_x e) = d # ds" "x' = (ep_x e)\<lparr>xf_ready := ds\<rparr>"
    using assms(2) by (auto simp: rnet_ice_xfer_take_blob_def split: list.splits)
  have "d \<in> ran (blobs_of qs)" using assms(1) r by (simp add: ep_ok_def end_ok_def rx_ok_def)
  then have "d \<in> set qs" using ran_blobs_of by blast
  then show ?thesis using assms(1) r by (auto simp: ep_ok_def end_ok_def rx_ok_def tx_ok_def)
qed

lemma ep_fail_ok:
  assumes "ep_ok qs e" "rnet_ice_xfer_fail (ep_x e) err = (x', out)"
  shows "ep_ok qs (e\<lparr>ep_x := x', ep_sent := ep_sent e \<union> set out\<rparr>)"
proof -
  have x': "x' = fail_xfer (ep_x e) err" "out = send_fail_pkt (xf_error x')"
    using assms(2) by (auto simp: rnet_ice_xfer_fail_def Let_def)
  obtain q where q: "send_fail_pkt (xf_error x') = [q]" by (simp add: send_fail_pkt_def Let_def)
  then have "genuine m q" for m unfolding genuine_def fail_pkt_def by blast
  moreover have "xf_next_id x' = xf_next_id (ep_x e)" by (simp add: x' fail_xfer_def)
  ultimately show ?thesis using assms(1) x' q by (auto simp: ep_ok_def end_ok_def)
qed

lemma ep_step_ok:
  assumes "ep_step alloc air e e'" "ep_ok qs e" "\<forall>d \<in> set qs. length d < 2 ^ 63"
    "\<forall>p \<in> air. genuine (blobs_of qs) p"
  shows "ep_ok qs e' \<and> (\<exists>ds. ep_queued e' = ep_queued e @ ds \<and> length ds \<le> 1)"
  using assms(1)
proof cases
  case (ep_queue d x')
  then show ?thesis using ep_queue_ok [OF assms(2)] by auto
next
  case (ep_pump inbound st now x' out)
  then have "\<forall>p \<in> set inbound. genuine (blobs_of qs) p" using assms(4) by blast
  then show ?thesis using ep_pump_ok [OF assms(2,3), of inbound alloc st now] ep_pump by auto
next
  case (ep_take d x')
  then show ?thesis using ep_take_ok [OF assms(2)] by auto
next
  case (ep_fail err x' out)
  then show ?thesis using ep_fail_ok [OF assms(2)] by auto
qed

lemma ep_ok_extend: "ep_ok qs e \<Longrightarrow> length ds \<le> 1 \<Longrightarrow> ep_ok (qs @ ds) e"
  by (cases ds) (auto intro: ep_ok_snoc)

lemma ep_okD: "ep_ok qs e \<Longrightarrow> (\<forall>d \<in> set (ep_queued e). length d < 2 ^ 63) \<and> (\<forall>p \<in> ep_sent e. genuine (blobs_of (ep_queued e)) p)"
  by (simp add: ep_ok_def)

lemma xfer_reach_ok: "xfer_reach alloc l r \<Longrightarrow> ep_ok (ep_queued r) l \<and> ep_ok (ep_queued l) r"
proof (induction rule: xfer_reach.induct)
  case (xr_open t u)
  then show ?case
    by (simp add: ep_open_def ep_ok_def end_ok_def tx_ok_def rx_ok_def rnet_ice_xfer_open_def)
next
  case (xr_left l r l')
  then show ?case
    using ep_step_ok [OF xr_left(2)] ep_okD [of "ep_queued l" r] ep_ok_extend [of "ep_queued l" r] by metis
next
  case (xr_right l r r')
  then show ?case
    using ep_step_ok [OF xr_right(2)] ep_okD [of "ep_queued r" l] ep_ok_extend [of "ep_queued r" l] by metis
qed

text \<open>
  C6. Blob integrity. Two endpoints exchange blobs over a network that loses, repeats and reorders
  datagrams. Whatever the schedule, every blob an endpoint has ready or has handed to its host is,
  byte for byte, one the peer queued, and no pump on datagrams of the peer writes outside an array.
\<close>

theorem xfer_integrity:
  assumes "xfer_reach alloc l r"
  shows "set (ep_taken r) \<union> set (xf_ready (ep_x r)) \<subseteq> set (ep_queued l) \<and>
    (\<forall>st now inbound. set inbound \<subseteq> ep_sent l \<longrightarrow>
      rnet_ice_xfer_pump alloc st now inbound (ep_x r) \<noteq> None)"
proof -
  have ok: "ep_ok (ep_queued l) r" "ep_ok (ep_queued r) l" using xfer_reach_ok [OF assms] by auto
  have "set (xf_ready (ep_x r)) \<subseteq> ran (blobs_of (ep_queued l))"
    using ok(1) by (simp add: ep_ok_def end_ok_def rx_ok_def)
  then have "set (ep_taken r) \<union> set (xf_ready (ep_x r)) \<subseteq> set (ep_queued l)"
    using ok(1) ran_blobs_of by (auto simp: ep_ok_def)
  moreover have "rnet_ice_xfer_pump alloc st now inbound (ep_x r) \<noteq> None" if "set inbound \<subseteq> ep_sent l" for st now inbound
    using ep_pump_ok [OF ok(1), of inbound alloc st now] ep_okD [OF ok(2)] that by blast
  ultimately show ?thesis by blast
qed

end
