(* ===== verification/RNet_Xfer_Run.thy ===== *)
theory RNet_Xfer_Run
  imports RNet_Xfer_Link
begin

text \<open>
  Runs of the blob transfer between two endpoints that are pumped in turn over a link that loses
  nothing: a queued blob arrives and the sender becomes idle; and the run in which one lost
  acknowledgement is never repaired.
\<close>

section \<open>The packets of one window\<close>

lemma blob_pkt_nonempty [simp]: "blob_pkt i d k \<noteq> []"
  by (simp add: blob_pkt_def)

text \<open>Offsets of the chunks sent from \<open>k\<close> on while below the window limit, and the offset after them.\<close>

function woffs :: "nat \<Rightarrow> nat \<Rightarrow> nat \<Rightarrow> nat list" where
  "woffs L lim k = (if k < L \<and> k < lim then k # woffs L lim (min L (k + 1024)) else [])"
  by pat_completeness auto
termination by (relation "measure (\<lambda>(L, lim, k). L - k)") auto

function wend :: "nat \<Rightarrow> nat \<Rightarrow> nat \<Rightarrow> nat" where
  "wend L lim k = (if k < L \<and> k < lim then wend L lim (min L (k + 1024)) else k)"
  by pat_completeness auto
termination by (relation "measure (\<lambda>(L, lim, k). L - k)") auto

declare woffs.simps [simp del] wend.simps [simp del]

lemma wend_bounds: "k \<le> L \<Longrightarrow> k \<le> wend L lim k \<and> wend L lim k \<le> L \<and> min L lim \<le> wend L lim k"
proof (induction L lim k rule: wend.induct)
  case (1 L lim k)
  show ?case
  proof (cases "k < L \<and> k < lim")
    case True
    then show ?thesis using 1 by (auto simp: wend.simps [of L lim k])
  next
    case False
    then show ?thesis using 1(2) by (auto simp: wend.simps [of L lim k])
  qed
qed

lemma wend_same: "wend L lim k = k \<Longrightarrow> k \<le> L \<Longrightarrow> woffs L lim k = []"
  using wend_bounds [of "min L (k + 1024)" L lim]
  by (auto simp: woffs.simps [of L lim k] wend.simps [of L lim k] split: if_splits)

lemma window_limit: "u < 2 ^ 63 \<Longrightarrow> unat (of_nat u + 16384 :: u64) = u + 16384"
proof -
  assume "u < 2 ^ 63"
  then have "u + 16384 < 2 ^ 64" by simp
  moreover have "n < 2 ^ 64 \<Longrightarrow> unat (of_nat n :: u64) = n" for n
    by (simp add: unat_of_nat take_bit_nat_eq_self)
  ultimately have "unat (of_nat (u + 16384) :: u64) = u + 16384" by blast
  then show ?thesis by (simp only: of_nat_add of_nat_numeral)
qed

lemma send_window_offs:
  assumes "length d < 2 ^ 63" "xb_data b = d" "xb_unacked b = of_nat u" "u \<le> length d"
    "xb_next_off b = of_nat k" "k \<le> length d"
  shows "\<exists>t. send_window now b = (b\<lparr>xb_next_off := of_nat (wend (length d) (u + 16384) k), xb_last_send_ms := t\<rparr>,
    map (blob_pkt (xb_id b) d) (woffs (length d) (u + 16384) k))"
  using assms
proof (induction "length d" "u + 16384" k arbitrary: b rule: wend.induct)
  case (1 k)
  let ?L = "length d"
  have ul: "unat (xb_len b) = ?L" "unat (xb_next_off b) = k"
    using 1(2-7) by (simp_all add: xb_len_def unat_u64)
  have "u < 2 ^ 63" using 1(2,5) by simp
  then have c: "xb_next_off b < xb_len b \<and> xb_next_off b < xb_unacked b + 16 * 1024 \<longleftrightarrow> k < ?L \<and> k < u + 16384"
    using ul 1(4) by (simp add: word_less_nat_alt window_limit)
  show ?case
  proof (cases "k < ?L \<and> k < u + 16384")
    case True
    let ?b = "b\<lparr>xb_next_off := xb_next_off b + next_chunk b, xb_last_send_ms := now\<rparr>"
    have nz: "xb_len ?b \<noteq> 0" using True ul(1) by auto
    have "unat (xb_next_off b + next_chunk b) = min ?L (k + 1024)"
      using next_chunk(2) [of b] True c ul by auto
    then have "of_nat (unat (xb_next_off b + next_chunk b)) = (of_nat (min ?L (k + 1024)) :: u64)"
      by (simp only:)
    then have no: "xb_next_off ?b = of_nat (min ?L (k + 1024))" by (simp del: of_nat_add)
    obtain t where w: "send_window now ?b =
        (?b\<lparr>xb_next_off := of_nat (wend ?L (u + 16384) (min ?L (k + 1024))), xb_last_send_ms := t\<rparr>,
         map (blob_pkt (xb_id b) d) (woffs ?L (u + 16384) (min ?L (k + 1024))))"
      using 1(1) [of ?b, OF True 1(2)] 1(3-6) no by auto
    have sd: "send_data b (xb_next_off b) = [blob_pkt (xb_id b) d k]"
      using send_data_pkt [OF 1(2,7,3)] 1(6) by simp
    have "send_window now b = (fst (send_window now ?b), [blob_pkt (xb_id b) d k] @ snd (send_window now ?b))"
      unfolding send_window.simps [of now b] Let_def sd using True c nz by (simp add: split_beta)
    then show ?thesis using True w by (intro exI [of _ t])
        (simp add: woffs.simps [of ?L _ k] wend.simps [of ?L _ k])
  next
    case False
    then have "send_window now b = (b, [])" using c by (subst send_window.simps) (simp only: if_False)
    moreover have "woffs ?L (u + 16384) k = []" "wend ?L (u + 16384) k = k"
      using False by (auto simp: woffs.simps [of ?L _ k] wend.simps [of ?L _ k])
    ultimately show ?thesis using 1(6) by (intro exI [of _ "xb_last_send_ms b"]) simp
  qed
qed

section \<open>Receiving a window\<close>

text \<open>The receiver when it has the first \<open>k\<close> bytes of the blob, and after it has got further.\<close>

definition recv_at :: "u32 \<Rightarrow> bytes \<Rightarrow> nat \<Rightarrow> RNetIceXfer \<Rightarrow> bool" where
  "recv_at i d k x \<longleftrightarrow>
     (k = 0 \<and> \<not> xf_recv_active x) \<or>
     (xf_recv_active x \<and> xf_recv_id x = i \<and> xf_recv_total x = of_nat (length d) \<and> xf_recv_buf x = take k d)"

definition rx_adv :: "u32 \<Rightarrow> bytes \<Rightarrow> nat \<Rightarrow> RNetIceXfer \<Rightarrow> RNetIceXfer" where
  "rx_adv i d k x =
     (if k < length d
      then x\<lparr>xf_recv_buf := take k d, xf_recv_total := of_nat (length d), xf_recv_id := i, xf_recv_active := True\<rparr>
      else push_ready (x\<lparr>xf_recv_buf := [], xf_recv_total := 0, xf_recv_id := i, xf_recv_active := False\<rparr>) d)"

lemma rx_adv_at: "k < length d \<Longrightarrow> recv_at i d k (rx_adv i d k x)"
  by (simp add: recv_at_def rx_adv_def)

lemma rx_adv_adv: "k < length d \<Longrightarrow> rx_adv i d k' (rx_adv i d k x) = rx_adv i d k' x"
  by (simp add: rx_adv_def push_ready_def)

lemma chunk_length: "k \<le> length d \<Longrightarrow> length (chunk d k) + k = min (length d) (k + 1024)"
  by (simp add: chunk_def)

lemma begin_recv_at:
  assumes "recv_at i d k x" "\<And>n. alloc n"
  shows "begin_recv alloc x i (of_nat (length d)) =
    (True, x\<lparr>xf_recv_buf := take k d, xf_recv_total := of_nat (length d), xf_recv_id := i, xf_recv_active := True\<rparr>)"
  using assms by (auto simp: recv_at_def begin_recv_def Let_def)

lemma data_step:
  assumes "recv_at i d k x" "k < length d" "length d < 2 ^ 63" "\<And>n. alloc n"
  shows "handle_pkt alloc x (blob_pkt i d k) =
    Some (rx_adv i d (min (length d) (k + 1024)) x, [ack_pkt i (of_nat (min (length d) (k + 1024)))])"
proof -
  define m where "m = min (length d) (k + 1024)"
  let ?x = "x\<lparr>xf_recv_buf := take k d, xf_recv_total := of_nat (length d), xf_recv_id := i, xf_recv_active := True\<rparr>"
  have got: "xf_recv_got ?x = of_nat k" using assms(2) by (simp add: xf_recv_got_def min_def)
  have c: "chunk d k \<noteq> []" "length (chunk d k) + k = m"
    using assms(2) chunk_length [of k d] by (auto simp: chunk_def m_def)
  have t: "take k d @ chunk d k = take m d" using take_chunk [of d k] c(2) by simp
  have m: "m \<le> length d" "m < 2 ^ 63" using assms(3) by (auto simp: m_def)
  have e: "(of_nat k + of_nat (length (chunk d k)) :: u64) = of_nat m" unfolding c(2) [symmetric] by simp
  have le: "\<not> (of_nat m :: u64) > of_nat (length d)" using m assms(3) by (simp add: word_less_nat_alt unat_u64)
  have ge: "(of_nat m :: u64) \<ge> of_nat (length d) \<longleftrightarrow> \<not> m < length d"
    using m assms(3) by (simp add: word_le_nat_alt unat_u64 not_less)
  have got': "xf_recv_got (?x\<lparr>xf_recv_buf := take m d\<rparr>) = of_nat m"
    using m(1) by (simp add: xf_recv_got_def min_def)
  have "handle_pkt alloc x (blob_pkt i d k) = Some (rx_adv i d m x, [ack_pkt i (of_nat m)])"
  proof (cases "m < length d")
    case True
    then show ?thesis
      unfolding handle_blob_pkt handle_data_def begin_recv_at [OF assms(1,4)] Let_def prod.case
      using not_too_large [OF assms(3)] got got' c(1) t e le ge
      by (simp add: send_ack_pkt rx_adv_def)
  next
    case False
    then have "take m d = d" using m(1) by simp
    then show ?thesis
      unfolding handle_blob_pkt handle_data_def begin_recv_at [OF assms(1,4)] Let_def prod.case
      using not_too_large [OF assms(3)] got got' c(1) t e le ge False
      by (simp add: send_ack_pkt rx_adv_def push_ready_def)
  qed
  then show ?thesis by (simp only: m_def)
qed

lemma data_window:
  assumes "recv_at i d k x" "k < length d" "k < lim" "length d < 2 ^ 63" "\<And>n. alloc n"
  shows "recv_loop alloc x (map (blob_pkt i d) (woffs (length d) lim k)) =
    Some (rx_adv i d (wend (length d) lim k) x,
      map (\<lambda>k. ack_pkt i (of_nat (min (length d) (k + 1024)))) (woffs (length d) lim k))"
  using assms(1-3)
proof (induction "length d" lim k arbitrary: x rule: wend.induct)
  case (1 lim k)
  let ?L = "length d" and ?k' = "min (length d) (k + 1024)"
  have w: "woffs ?L lim k = k # woffs ?L lim ?k'" "wend ?L lim k = wend ?L lim ?k'"
    using 1(3,4) by (simp_all add: woffs.simps [of ?L lim k] wend.simps [of ?L lim k])
  have p: "handle_pkt alloc x (blob_pkt i d k) = Some (rx_adv i d ?k' x, [ack_pkt i (of_nat ?k')])"
    by (rule data_step [OF 1(2,3) assms(4,5)])
  show ?case
  proof (cases "?k' < ?L \<and> ?k' < lim")
    case True
    then have "recv_loop alloc (rx_adv i d ?k' x) (map (blob_pkt i d) (woffs ?L lim ?k')) =
        Some (rx_adv i d (wend ?L lim ?k') x, map (\<lambda>k. ack_pkt i (of_nat (min ?L (k + 1024)))) (woffs ?L lim ?k'))"
      using 1(1) [OF _ rx_adv_at] 1(3,4) rx_adv_adv by auto
    then show ?thesis using p unfolding w by simp
  next
    case False
    then have "woffs ?L lim ?k' = []" "wend ?L lim ?k' = ?k'"
      by (auto simp: woffs.simps [of ?L lim ?k'] wend.simps [of ?L lim ?k'])
    then show ?thesis using p unfolding w by simp
  qed
qed

section \<open>Acknowledging a window\<close>

lemma ack_step:
  assumes "xf_send_q x = b # q" "xb_id b = i" "xb_data b = d" "length d < 2 ^ 63"
    "xb_unacked b = of_nat u" "u \<le> g" "xb_next_off b = of_nat e" "g \<le> e" "e \<le> length d"
  shows "handle_pkt alloc x (ack_pkt i (of_nat g)) =
    Some (x\<lparr>xf_send_q := (if g < length d then b\<lparr>xb_unacked := of_nat g\<rparr> # q else q)\<rparr>, [])"
proof -
  have s: "u < 2 ^ 63" "g < 2 ^ 63" "e < 2 ^ 63" using assms by auto
  have "\<not> (of_nat g :: u64) < of_nat u" "\<not> (of_nat e :: u64) < of_nat g"
    "of_nat (length d) \<le> (of_nat g :: u64) \<longleftrightarrow> \<not> g < length d"
    using s assms(4,6,8) by (simp_all add: word_less_nat_alt word_le_nat_alt unat_u64 not_less)
  then show ?thesis using assms by (simp add: handle_ack_pkt handle_ack_def Let_def xb_len_def)
qed

lemma ack_window:
  assumes "xf_send_q x = b # q" "xb_id b = i" "xb_data b = d" "length d < 2 ^ 63"
    "xb_unacked b = of_nat u" "u \<le> k" "k < length d" "k < lim"
    "xb_next_off b = of_nat (wend (length d) lim k)"
  shows "recv_loop alloc x (map (\<lambda>k. ack_pkt i (of_nat (min (length d) (k + 1024)))) (woffs (length d) lim k)) =
    Some (x\<lparr>xf_send_q := (if wend (length d) lim k < length d
       then b\<lparr>xb_unacked := of_nat (wend (length d) lim k)\<rparr> # q else q)\<rparr>, [])"
  using assms
proof (induction "length d" lim k arbitrary: x b u rule: wend.induct)
  case (1 lim k)
  let ?L = "length d" and ?k' = "min (length d) (k + 1024)" and ?e = "wend (length d) lim k"
  have w: "woffs ?L lim k = k # woffs ?L lim ?k'" "?e = wend ?L lim ?k'"
    using 1(8,9) by (simp_all add: woffs.simps [of ?L lim k] wend.simps [of ?L lim k])
  have e: "?k' \<le> ?e" "?e \<le> ?L" using wend_bounds [of ?k' ?L lim] w(2) by auto
  let ?x = "x\<lparr>xf_send_q := (if ?k' < ?L then b\<lparr>xb_unacked := of_nat ?k'\<rparr> # q else q)\<rparr>"
  have p: "handle_pkt alloc x (ack_pkt i (of_nat ?k')) = Some (?x, [])"
    using 1(7,8) e by (intro ack_step [OF 1(2-6) _ 1(10)]) auto
  show ?case
  proof (cases "?k' < ?L \<and> ?k' < lim")
    case True
    let ?b = "b\<lparr>xb_unacked := of_nat ?k'\<rparr>"
    have xq: "xf_send_q ?x = ?b # q" using True by simp
    have "recv_loop alloc ?x (map (\<lambda>k. ack_pkt i (of_nat (min ?L (k + 1024)))) (woffs ?L lim ?k')) =
      Some (?x\<lparr>xf_send_q := (if wend ?L lim ?k' < ?L then ?b\<lparr>xb_unacked := of_nat (wend ?L lim ?k')\<rparr> # q else q)\<rparr>, [])"
      using 1(3,4,10) w(2) True by (intro 1(1) [OF conjI [OF 1(8,9)] xq _ _ 1(5) _ order_refl]) simp_all
    then have "recv_loop alloc ?x (map (\<lambda>k. ack_pkt i (of_nat (min ?L (k + 1024)))) (woffs ?L lim ?k')) =
      Some (x\<lparr>xf_send_q := (if ?e < ?L then b\<lparr>xb_unacked := of_nat ?e\<rparr> # q else q)\<rparr>, [])"
      unfolding w(2) by simp
    then show ?thesis using p unfolding w(1) by simp
  next
    case False
    then have "woffs ?L lim ?k' = []" "?e = ?k'"
      unfolding w(2) by (auto simp: woffs.simps [of ?L lim ?k'] wend.simps [of ?L lim ?k'])
    then show ?thesis using p unfolding w(1) by simp
  qed
qed

section \<open>Rounds over a lossless link\<close>

text \<open>
  One round: the sender is pumped with the receiver's datagrams of the previous round, then the
  receiver with what the sender has just sent.
\<close>

fun link_round :: "(u64 \<Rightarrow> bool) \<Rightarrow> u64 \<Rightarrow> RNetIceXfer \<times> RNetIceXfer \<times> bytes list \<Rightarrow>
    (RNetIceXfer \<times> RNetIceXfer \<times> bytes list) option" where
  "link_round alloc now (a, b, acks) =
     (case rnet_ice_xfer_pump alloc RNET_ICE_STATE_CONNECTED now acks a of
        None \<Rightarrow> None
      | Some (a, data) \<Rightarrow>
          map_option (\<lambda>(b, acks). (a, b, acks)) (rnet_ice_xfer_pump alloc RNET_ICE_STATE_CONNECTED now data b))"

fun link_run :: "(u64 \<Rightarrow> bool) \<Rightarrow> u64 list \<Rightarrow> RNetIceXfer \<times> RNetIceXfer \<times> bytes list \<Rightarrow>
    (RNetIceXfer \<times> RNetIceXfer \<times> bytes list) option" where
  "link_run alloc [] s = Some s"
| "link_run alloc (t # ts) s = (case link_round alloc t s of None \<Rightarrow> None | Some s \<Rightarrow> link_run alloc ts s)"

text \<open>The sender goes on where it was, or back to the first unacknowledged byte.\<close>

lemma pump_send_window:
  assumes "xf_send_q a = b # q" "xb_data b = d" "length d < 2 ^ 63" "u < length d" "k \<le> length d"
    "xb_unacked b = of_nat u" "xb_next_off b = of_nat k"
  shows "\<exists>t k'. (k' = k \<or> k' = u) \<and> pump_send now a =
    (a\<lparr>xf_send_q := b\<lparr>xb_next_off := of_nat (wend (length d) (u + 16384) k'), xb_last_send_ms := t\<rparr> # q\<rparr>,
     map (blob_pkt (xb_id b) d) (woffs (length d) (u + 16384) k'))"
proof -
  define b1 where "b1 = (if xb_next_off b > xb_unacked b + 16 * 1024 then b\<lparr>xb_next_off := xb_unacked b\<rparr> else b)"
  define b2 where "b2 = (if now - xb_last_send_ms b1 \<ge> 200 \<and> xb_next_off b1 > xb_unacked b1
                     then b1\<lparr>xb_next_off := xb_unacked b1\<rparr> else b1)"
  obtain k' where k': "k' = k \<or> k' = u" "b2 = b\<lparr>xb_next_off := of_nat k'\<rparr>"
  proof (cases "b2 = b")
    case True
    then have "b2 = b\<lparr>xb_next_off := of_nat k\<rparr>" using assms(7) by simp
    then show ?thesis using that [of k] by simp
  next
    case False
    then have "b2 = b\<lparr>xb_next_off := of_nat u\<rparr>" using assms(6) by (auto simp: b2_def b1_def split: if_splits)
    then show ?thesis using that [of u] by simp
  qed
  have b2: "xb_data b2 = d" "xb_unacked b2 = of_nat u" "xb_next_off b2 = of_nat k'" "xb_id b2 = xb_id b"
    using k'(2) assms(2,6) by simp_all
  have "k' \<le> length d" using k'(1) assms(4,5) by auto
  then obtain t where w: "send_window now b2 =
      (b2\<lparr>xb_next_off := of_nat (wend (length d) (u + 16384) k'), xb_last_send_ms := t\<rparr>,
       map (blob_pkt (xb_id b) d) (woffs (length d) (u + 16384) k'))"
    using send_window_offs [OF assms(3) b2(1,2) _ b2(3)] assms(4) b2(4) by fastforce
  have s: "u < 2 ^ 63" using assms(3,4) by simp
  have lt: "\<not> xb_unacked b \<ge> xb_len b" "xb_len b \<noteq> 0"
    using assms(2-4,6) s by (simp_all add: xb_len_def word_le_nat_alt unat_u64) (metis unat_u64 assms(3) not_less0 unat_0)
  have "pump_send now a = (a\<lparr>xf_send_q := fst (send_window now b2) # q\<rparr>, snd (send_window now b2))"
    using assms(1) lt w k'(2) unfolding b2_def b1_def pump_send_def Let_def by simp
  then show ?thesis using k'(1) unfolding w by (intro exI [of _ t] exI [of _ k']) (simp add: k'(2))
qed

text \<open>
  A run between two rounds: the sender, once it has read the acknowledgements in flight, has the
  first \<open>k\<close> bytes acknowledged and nothing else in flight, and the receiver has these bytes.
\<close>

definition sender_at :: "(u64 \<Rightarrow> bool) \<Rightarrow> u32 \<Rightarrow> bytes \<Rightarrow> nat \<Rightarrow> RNetIceXfer \<Rightarrow> bytes list \<Rightarrow> bool" where
  "sender_at alloc i d k a acks \<longleftrightarrow> \<not> xf_failed a \<and> (\<exists>a' b. recv_loop alloc a acks = Some (a', []) \<and>
     \<not> xf_failed a' \<and> xf_send_q a' = [b] \<and> xb_id b = i \<and> xb_data b = d \<and>
     xb_unacked b = of_nat k \<and> xb_next_off b = of_nat k)"

definition sender_finished :: "(u64 \<Rightarrow> bool) \<Rightarrow> RNetIceXfer \<Rightarrow> bytes list \<Rightarrow> bool" where
  "sender_finished alloc a acks \<longleftrightarrow> \<not> xf_failed a \<and>
     (\<exists>a'. recv_loop alloc a acks = Some (a', []) \<and> \<not> xf_failed a' \<and> xf_send_q a' = [])"

definition receiver_base :: "bytes list \<Rightarrow> RNetIceXfer \<Rightarrow> bool" where
  "receiver_base rs b \<longleftrightarrow> \<not> xf_failed b \<and> xf_send_q b = [] \<and> xf_ready b = rs"

lemma pump_connected:
  assumes "\<not> xf_failed x" "recv_loop alloc x inbound = Some (x', acks)" "\<not> xf_failed x'"
  shows "rnet_ice_xfer_pump alloc RNET_ICE_STATE_CONNECTED now inbound x =
    Some (fst (pump_send now x'), acks @ snd (pump_send now x'))"
  using assms by (simp add: rnet_ice_xfer_pump_def split_beta)

lemma receiver_round:
  assumes "receiver_base rs b" "recv_loop alloc b data = Some (b', acks)" "\<not> xf_failed b'" "xf_send_q b' = []"
  shows "rnet_ice_xfer_pump alloc RNET_ICE_STATE_CONNECTED now data b = Some (b', acks)"
  using pump_connected [OF _ assms(2,3), of now] assms(1,4) by (simp add: receiver_base_def pump_send_def)

lemma rx_adv_base:
  assumes "receiver_base rs b" "length rs < 4"
  shows "receiver_base (if k < length d then rs else rs @ [d]) (rx_adv i d k b)"
  using assms by (simp add: receiver_base_def rx_adv_def push_ready_def)

lemma round_step:
  assumes "sender_at alloc i d k a acks" "k < length d" "length d < 2 ^ 63" "\<And>n. alloc n"
    "receiver_base rs b" "length rs < 4" "recv_at i d k b"
  shows "\<exists>a' acks'. let e = wend (length d) (k + 16384) k in
    link_round alloc now (a, b, acks) = Some (a', rx_adv i d e b, acks') \<and>
    (if e < length d then sender_at alloc i d e a' acks' else sender_finished alloc a' acks')"
proof -
  let ?L = "length d" and ?e = "wend (length d) (k + 16384) k" and ?w = "woffs (length d) (k + 16384) k"
  let ?acks = "map (\<lambda>k. ack_pkt i (of_nat (min ?L (k + 1024)))) ?w"
  obtain a1 b1 where a1: "recv_loop alloc a acks = Some (a1, [])" "\<not> xf_failed a1" "xf_send_q a1 = [b1]"
    "xb_id b1 = i" "xb_data b1 = d" "xb_unacked b1 = of_nat k" "xb_next_off b1 = of_nat k"
    using assms(1) by (auto simp: sender_at_def)
  obtain t where s: "pump_send now a1 =
      (a1\<lparr>xf_send_q := [b1\<lparr>xb_next_off := of_nat ?e, xb_last_send_ms := t\<rparr>]\<rparr>, map (blob_pkt i d) ?w)"
    using pump_send_window [OF a1(3,5) assms(3,2) less_imp_le [OF assms(2)] a1(6,7), of now] a1(4) by auto
  let ?b2 = "b1\<lparr>xb_next_off := of_nat ?e, xb_last_send_ms := t\<rparr>"
  let ?a2 = "a1\<lparr>xf_send_q := [?b2]\<rparr>"
  have pa: "rnet_ice_xfer_pump alloc RNET_ICE_STATE_CONNECTED now acks a = Some (?a2, map (blob_pkt i d) ?w)"
    using pump_connected [OF _ a1(1,2), of now] assms(1) s by (simp add: sender_at_def)
  have kl: "k < k + 16384" by simp
  have base: "receiver_base (if ?e < ?L then rs else rs @ [d]) (rx_adv i d ?e b)"
    by (rule rx_adv_base [OF assms(5,6)])
  have pb: "rnet_ice_xfer_pump alloc RNET_ICE_STATE_CONNECTED now (map (blob_pkt i d) ?w) b =
      Some (rx_adv i d ?e b, ?acks)"
    using base by (intro receiver_round [OF assms(5) data_window [OF assms(7,2) kl assms(3,4)]])
      (simp_all add: receiver_base_def)
  have "recv_loop alloc ?a2 ?acks =
      Some (?a2\<lparr>xf_send_q := (if ?e < ?L then [?b2\<lparr>xb_unacked := of_nat ?e\<rparr>] else [])\<rparr>, [])"
    using a1(4,5,6) assms(2,3) by (intro ack_window [where u = k]) simp_all
  then have "if ?e < ?L then sender_at alloc i d ?e ?a2 ?acks else sender_finished alloc ?a2 ?acks"
    using a1(2,4,5) by (simp add: sender_at_def sender_finished_def)
  with pa pb show ?thesis unfolding Let_def by (intro exI [of _ ?a2] exI [of _ ?acks]) simp
qed

lemma finished_run:
  "sender_finished alloc a acks \<Longrightarrow> receiver_base rs b \<Longrightarrow> ts \<noteq> [] \<Longrightarrow>
     \<exists>a'. link_run alloc ts (a, b, acks) = Some (a', b, []) \<and> \<not> xf_failed a' \<and> xf_send_q a' = []"
proof (induction ts arbitrary: a acks)
  case (Cons t ts)
  obtain a1 where a1: "recv_loop alloc a acks = Some (a1, [])" "\<not> xf_failed a1" "xf_send_q a1 = []"
    using Cons.prems(1) by (auto simp: sender_finished_def)
  have "rnet_ice_xfer_pump alloc RNET_ICE_STATE_CONNECTED t acks a = Some (a1, [])"
    using pump_connected [OF _ a1(1,2), of t] Cons.prems(1) a1(3) by (simp add: sender_finished_def pump_send_def)
  moreover have "rnet_ice_xfer_pump alloc RNET_ICE_STATE_CONNECTED t [] b = Some (b, [])"
    using Cons.prems(2) by (intro receiver_round [OF Cons.prems(2)]) (simp_all add: receiver_base_def)
  ultimately have r: "link_run alloc (t # ts) (a, b, acks) = link_run alloc ts (a1, b, [])" by simp
  show ?case
  proof (cases ts)
    case Nil
    then show ?thesis unfolding r using a1 by simp
  next
    case (Cons u us)
    have "sender_finished alloc a1 []" using a1 by (simp add: sender_finished_def)
    from Cons.IH [OF this Cons.prems(2)] Cons show ?thesis unfolding r by simp
  qed
qed simp

lemma rounds_left:
  assumes "k < (L::nat)" "e \<le> L" "min L (k + 16384) \<le> e"
  shows "e < L \<Longrightarrow> (L - e) div 16384 + 1 \<le> (L - k) div 16384"
proof -
  assume "e < L"
  then have "k + 16384 \<le> e" using assms by auto
  then have "L - e + 16384 \<le> L - k" using \<open>e < L\<close> by simp
  then have "(L - e + 16384) div 16384 \<le> (L - k) div 16384" by (rule div_le_mono)
  then show ?thesis by simp
qed

lemma delivery:
  assumes "length d < 2 ^ 63" "\<And>n. alloc n" "length rs < 4"
  shows "sender_at alloc i d k a acks \<Longrightarrow> k < length d \<Longrightarrow> receiver_base rs b \<Longrightarrow> recv_at i d k b \<Longrightarrow>
    length ts \<ge> (length d - k) div 16384 + 2 \<Longrightarrow>
    \<exists>a' b'. link_run alloc ts (a, b, acks) = Some (a', b', []) \<and> \<not> xf_failed a' \<and> xf_send_q a' = [] \<and>
      receiver_base (rs @ [d]) b'"
proof (induction ts arbitrary: k a b acks)
  case (Cons t ts)
  let ?e = "wend (length d) (k + 16384) k"
  have e: "?e \<le> length d" "min (length d) (k + 16384) \<le> ?e" "k \<le> ?e"
    using wend_bounds [of k "length d" "k + 16384"] Cons.prems(2) by auto
  obtain a' acks' where r: "link_round alloc t (a, b, acks) = Some (a', rx_adv i d ?e b, acks')"
    "if ?e < length d then sender_at alloc i d ?e a' acks' else sender_finished alloc a' acks'"
    using round_step [OF Cons.prems(1,2) assms(1,2) Cons.prems(3) assms(3) Cons.prems(4), of t]
    by (auto simp: Let_def)
  have run: "link_run alloc (t # ts) (a, b, acks) = link_run alloc ts (a', rx_adv i d ?e b, acks')"
    using r(1) by simp
  have base: "receiver_base (if ?e < length d then rs else rs @ [d]) (rx_adv i d ?e b)"
    by (rule rx_adv_base [OF Cons.prems(3) assms(3)])
  show ?case
  proof (cases "?e < length d")
    case True
    have "(length d - ?e) div 16384 + 1 \<le> (length d - k) div 16384"
      using rounds_left [OF Cons.prems(2) e(1,2)] True by simp
    then have "(length d - ?e) div 16384 + 2 \<le> length ts" using Cons.prems(5) by simp
    then show ?thesis
      unfolding run using Cons.IH [OF _ True _ rx_adv_at [OF True]] r(2) base True by simp
  next
    case False
    have "ts \<noteq> []" using Cons.prems(5) by auto
    then show ?thesis
      unfolding run using finished_run [of alloc a' acks' "rs @ [d]" "rx_adv i d ?e b" ts] r(2) base False by auto
  qed
qed simp

text \<open>The endpoints at the start: a blob queued on a fresh sender, and a fresh receiver.\<close>

lemma queue_blob_open:
  "rnet_ice_xfer_queue_blob (rnet_ice_xfer_open t) d = (0, (rnet_ice_xfer_open t)\<lparr>xf_next_id := 1,
     xf_send_q := [\<lparr>xb_data = d, xb_id = 1, xb_unacked = 0, xb_next_off = 0, xb_last_send_ms = 0\<rparr>]\<rparr>)"
  by (simp add: rnet_ice_xfer_queue_blob_def rnet_ice_xfer_open_def)

lemma start_at:
  "sender_at alloc 1 d 0 (snd (rnet_ice_xfer_queue_blob (rnet_ice_xfer_open t) d)) []"
  "receiver_base [] (rnet_ice_xfer_open t)" "recv_at 1 d 0 (rnet_ice_xfer_open t)"
  unfolding queue_blob_open
  by (simp_all add: sender_at_def receiver_base_def recv_at_def rnet_ice_xfer_open_def)

text \<open>
  C30. Delivery of a single blob. A blob of at least one byte queued on a fresh endpoint arrives whole
  at a fresh peer over a connected link that loses nothing, when every allocation succeeds and
  whatever the clock reads: after one round per sixteen
  chunks of 1024 bytes, and one more for the last acknowledgements, the peer has exactly that blob
  ready and the sender is idle.
\<close>

theorem xfer_delivers:
  assumes "0 < length d" "length d < 2 ^ 63" "\<And>n. alloc n" "length d div 16384 + 2 \<le> length ts"
  shows "\<exists>a b. link_run alloc ts
      (snd (rnet_ice_xfer_queue_blob (rnet_ice_xfer_open t) d), rnet_ice_xfer_open u, []) = Some (a, b, []) \<and>
    rnet_ice_xfer_send_idle a \<and> rnet_ice_xfer_failed a = None \<and> xf_ready b = [d]"
proof -
  have "\<exists>a' b'. link_run alloc ts
      (snd (rnet_ice_xfer_queue_blob (rnet_ice_xfer_open t) d), rnet_ice_xfer_open u, []) = Some (a', b', []) \<and>
      \<not> xf_failed a' \<and> xf_send_q a' = [] \<and> receiver_base ([] @ [d]) b'"
    using assms by (intro delivery [OF assms(2,3) _ start_at(1) _ start_at(2,3)]) auto
  then show ?thesis
    by (auto simp: receiver_base_def rnet_ice_xfer_send_idle_def rnet_ice_xfer_failed_def)
qed

lemma xfer_delivers_witness:
  "\<exists>a b. link_run (\<lambda>n. True) [5, 10, 15, 20] (snd (rnet_ice_xfer_queue_blob (rnet_ice_xfer_open 0) (replicate 40000 7)),
      rnet_ice_xfer_open 3, []) = Some (a, b, []) \<and>
    rnet_ice_xfer_send_idle a \<and> rnet_ice_xfer_failed a = None \<and> xf_ready b = [replicate 40000 7]"
  by (rule xfer_delivers) simp_all

section \<open>A lost acknowledgement\<close>

text \<open>
  The receiver has completed the blob and forgotten it; the sender has had only the first \<open>u\<close>
  bytes acknowledged.
\<close>

definition stalled_sender :: "(u64 \<Rightarrow> bool) \<Rightarrow> bytes \<Rightarrow> nat \<Rightarrow> RNetIceXfer \<Rightarrow> bytes list \<Rightarrow> bool" where
  "stalled_sender alloc d u a acks \<longleftrightarrow> \<not> xf_failed a \<and> xf_send_q a \<noteq> [] \<and>
     (\<exists>a' b k. recv_loop alloc a acks = Some (a', []) \<and> \<not> xf_failed a' \<and> xf_send_q a' = [b] \<and> xb_id b = 1 \<and>
       xb_data b = d \<and> xb_unacked b = of_nat u \<and> xb_next_off b = of_nat k \<and> u \<le> k \<and> k \<le> length d)"

definition stalled_receiver :: "bytes \<Rightarrow> RNetIceXfer \<Rightarrow> bool" where
  "stalled_receiver d b \<longleftrightarrow> \<not> xf_failed b \<and> xf_send_q b = [] \<and> xf_ready b = [d] \<and>
     (xf_recv_active b \<longrightarrow> xf_recv_id b = 1 \<and> xf_recv_total b = of_nat (length d) \<and> xf_recv_buf b = [])"

lemma stalled_data:
  assumes "length d < 2 ^ 63" "\<And>n. alloc n"
  shows "stalled_receiver d b \<Longrightarrow> \<forall>k \<in> set ks. 0 < k \<and> k \<le> length d \<Longrightarrow>
    \<exists>b'. recv_loop alloc b (map (blob_pkt 1 d) ks) = Some (b', map (\<lambda>k. ack_pkt 1 0) ks) \<and> stalled_receiver d b'"
proof (induction ks arbitrary: b)
  case (Cons k ks)
  let ?b = "b\<lparr>xf_recv_buf := [], xf_recv_total := of_nat (length d), xf_recv_id := 1, xf_recv_active := True\<rparr>"
  have "recv_at 1 d 0 b" using Cons.prems(1) by (auto simp: stalled_receiver_def recv_at_def)
  then have br: "begin_recv alloc b 1 (of_nat (length d)) = (True, ?b)"
    using begin_recv_at [of 1 d 0 b alloc] assms(2) by simp
  have k: "0 < k" "k < 2 ^ 63" using Cons.prems(2) assms(1) by auto
  then have nz: "(of_nat k :: u64) \<noteq> 0" by (metis unat_u64 unat_0 less_irrefl)
  have h: "handle_pkt alloc b (blob_pkt 1 d k) = Some (?b, [ack_pkt 1 0])"
    unfolding handle_blob_pkt handle_data_def br
    using not_too_large [OF assms(1)] nz by (simp add: xf_recv_got_def send_ack_pkt)
  have "stalled_receiver d ?b" using Cons.prems(1) by (simp add: stalled_receiver_def)
  then obtain b' where "recv_loop alloc ?b (map (blob_pkt 1 d) ks) = Some (b', map (\<lambda>k. ack_pkt 1 0) ks)"
    "stalled_receiver d b'" using Cons.IH [of ?b] Cons.prems(2) by auto
  then show ?case using h by simp
qed simp

lemma stalled_acks:
  assumes "xf_send_q a = [b]" "xb_unacked b = of_nat u" "0 < u" "u < 2 ^ 63"
  shows "recv_loop alloc a (map (\<lambda>k. ack_pkt 1 0) ks) = Some (a, [])"
proof -
  have "(0 :: u64) < of_nat u" using assms(3,4) by (simp add: word_less_nat_alt unat_u64)
  then have "handle_pkt alloc a (ack_pkt 1 0) = Some (a, [])"
    using assms(1,2) by (simp add: handle_ack_pkt handle_ack_def)
  then show ?thesis by (induction ks) simp_all
qed

lemma woffs_ge: "\<forall>j \<in> set (woffs L lim k). k \<le> j \<and> j < L"
proof (induction L lim k rule: woffs.induct)
  case (1 L lim k)
  then show ?case by (subst woffs.simps) fastforce
qed

lemma stalled_round:
  assumes "length d < 2 ^ 63" "\<And>n. alloc n" "0 < u" "u < length d"
    "stalled_sender alloc d u a acks" "stalled_receiver d b"
  shows "\<exists>a' b' acks'. link_round alloc now (a, b, acks) = Some (a', b', acks') \<and>
    stalled_sender alloc d u a' acks' \<and> stalled_receiver d b'"
proof -
  obtain a1 b1 k where a1: "recv_loop alloc a acks = Some (a1, [])" "\<not> xf_failed a1" "xf_send_q a1 = [b1]"
    "xb_id b1 = 1" "xb_data b1 = d" "xb_unacked b1 = of_nat u" "xb_next_off b1 = of_nat k" "u \<le> k" "k \<le> length d"
    using assms(5) by (auto simp: stalled_sender_def)
  obtain t k' where k': "k' = k \<or> k' = u" and s: "pump_send now a1 =
      (a1\<lparr>xf_send_q := [b1\<lparr>xb_next_off := of_nat (wend (length d) (u + 16384) k'), xb_last_send_ms := t\<rparr>]\<rparr>,
       map (blob_pkt 1 d) (woffs (length d) (u + 16384) k'))"
    using pump_send_window [OF a1(3,5) assms(1,4) a1(9,6,7), of now] a1(4) by auto
  let ?w = "woffs (length d) (u + 16384) k'" and ?e = "wend (length d) (u + 16384) k'"
  let ?a2 = "a1\<lparr>xf_send_q := [b1\<lparr>xb_next_off := of_nat ?e, xb_last_send_ms := t\<rparr>]\<rparr>"
  have pa: "rnet_ice_xfer_pump alloc RNET_ICE_STATE_CONNECTED now acks a = Some (?a2, map (blob_pkt 1 d) ?w)"
    using pump_connected [OF _ a1(1,2), of now] assms(5) s by (simp add: stalled_sender_def)
  have ku: "u \<le> k'" "k' \<le> length d" using k' a1(8,9) assms(4) by auto
  have ws: "\<forall>j \<in> set ?w. 0 < j \<and> j \<le> length d" using woffs_ge [of "length d" "u + 16384" k'] ku(1) assms(3) by auto
  obtain b' where b': "recv_loop alloc b (map (blob_pkt 1 d) ?w) = Some (b', map (\<lambda>k. ack_pkt 1 0) ?w)"
    "stalled_receiver d b'" using stalled_data [of d alloc, OF assms(1,2,6) ws] by auto
  have "rnet_ice_xfer_pump alloc RNET_ICE_STATE_CONNECTED now (map (blob_pkt 1 d) ?w) b =
      Some (b', map (\<lambda>k. ack_pkt 1 0) ?w)"
    using b' assms(6) by (intro receiver_round [where rs = "[d]"]) (auto simp: stalled_receiver_def receiver_base_def)
  with pa have "link_round alloc now (a, b, acks) = Some (?a2, b', map (\<lambda>k. ack_pkt 1 0) ?w)" by simp
  moreover have "stalled_sender alloc d u ?a2 (map (\<lambda>k. ack_pkt 1 0) ?w)"
  proof -
    have "u < 2 ^ 63" using assms(1,4) by simp
    then have "recv_loop alloc ?a2 (map (\<lambda>k. ack_pkt 1 0) ?w) = Some (?a2, [])"
      using a1(6) assms(3)
      by (intro stalled_acks [where b = "b1\<lparr>xb_next_off := of_nat ?e, xb_last_send_ms := t\<rparr>" and u = u]) simp_all
    moreover have "u \<le> ?e" "?e \<le> length d" using wend_bounds [OF ku(2), of "u + 16384"] ku(1) by auto
    ultimately show ?thesis using a1(2,4,5,6) unfolding stalled_sender_def by auto
  qed
  ultimately show ?thesis using b'(2) by blast
qed

lemma stalled_run:
  assumes "length d < 2 ^ 63" "\<And>n. alloc n" "0 < u" "u < length d"
  shows "stalled_sender alloc d u a acks \<Longrightarrow> stalled_receiver d b \<Longrightarrow>
    \<exists>a' b' acks'. link_run alloc ts (a, b, acks) = Some (a', b', acks') \<and>
      stalled_sender alloc d u a' acks' \<and> stalled_receiver d b'"
proof (induction ts arbitrary: a b acks)
  case (Cons t ts)
  obtain a1 b1 acks1 where "link_round alloc t (a, b, acks) = Some (a1, b1, acks1)"
    "stalled_sender alloc d u a1 acks1" "stalled_receiver d b1"
    using stalled_round [of d alloc, OF assms Cons.prems, of t] by blast
  with Cons.IH show ?case by fastforce
qed simp

text \<open>The first round of a blob that fits one window.\<close>

lemma first_round:
  assumes "1024 < length d" "length d \<le> 16384" "\<And>n. alloc n"
  shows "\<exists>a b. link_round alloc now
      (snd (rnet_ice_xfer_queue_blob (rnet_ice_xfer_open t) d), rnet_ice_xfer_open u, []) =
        Some (a, b, map (\<lambda>k. ack_pkt 1 (of_nat (min (length d) (k + 1024)))) (woffs (length d) 16384 0)) \<and>
      receiver_base [d] b \<and> \<not> xf_recv_active b \<and> \<not> xf_failed a \<and>
      (\<exists>b1. xf_send_q a = [b1] \<and> xb_id b1 = 1 \<and> xb_data b1 = d \<and> xb_unacked b1 = of_nat 0 \<and>
         xb_next_off b1 = of_nat (length d))"
proof -
  let ?a0 = "snd (rnet_ice_xfer_queue_blob (rnet_ice_xfer_open t) d)" and ?b0 = "rnet_ice_xfer_open u"
  let ?L = "length d" and ?bl = "\<lparr>xb_data = d, xb_id = 1, xb_unacked = 0, xb_next_off = 0, xb_last_send_ms = 0\<rparr>"
  let ?w = "woffs (length d) (0 + 16384) 0"
  let ?acks = "map (\<lambda>k. ack_pkt 1 (of_nat (min ?L (k + 1024)))) ?w"
  have L: "?L < 2 ^ 63" "0 < ?L" using assms(1,2) by auto
  have e: "wend ?L (0 + 16384) 0 = ?L" using wend_bounds [of 0 ?L "0 + 16384"] assms(2) by simp
  have q0: "xf_send_q ?a0 = [?bl]" "\<not> xf_failed ?a0"
    unfolding queue_blob_open by (simp_all add: rnet_ice_xfer_open_def)
  obtain tm where s: "pump_send now ?a0 = (?a0\<lparr>xf_send_q := [?bl\<lparr>xb_next_off := of_nat ?L, xb_last_send_ms := tm\<rparr>]\<rparr>,
      map (blob_pkt 1 d) ?w)"
    using pump_send_window [OF q0(1) _ L, of 0 now] e by auto
  have rl: "recv_loop alloc ?b0 (map (blob_pkt 1 d) ?w) = Some (rx_adv 1 d ?L ?b0, ?acks)"
    using data_window [of 1 d 0 ?b0 "0 + 16384" alloc, OF start_at(3) L(2) _ L(1) assms(3)] e by simp
  have base: "receiver_base [d] (rx_adv 1 d ?L ?b0)"
    using rx_adv_base [OF start_at(2), of ?L d 1] by simp
  have "link_round alloc now (?a0, ?b0, []) =
      Some (?a0\<lparr>xf_send_q := [?bl\<lparr>xb_next_off := of_nat ?L, xb_last_send_ms := tm\<rparr>]\<rparr>, rx_adv 1 d ?L ?b0, ?acks)"
    using pump_connected [of ?a0 alloc "[]" ?a0 "[]" now] q0(2) s
      receiver_round [OF start_at(2) rl, of now] base by (simp add: receiver_base_def)
  then show ?thesis using base q0(2)
    by (intro exI conjI) (assumption | simp add: rx_adv_def push_ready_def)+
qed

text \<open>Acknowledgements of part of the blob, in any order and any number: the highest one counts.\<close>

lemma acks_partial:
  assumes "length d < 2 ^ 63" "e \<le> length d"
  shows "xf_send_q x = [b] \<Longrightarrow> xb_id b = 1 \<Longrightarrow> xb_data b = d \<Longrightarrow> xb_unacked b = of_nat u \<Longrightarrow> u \<le> e \<Longrightarrow>
    xb_next_off b = of_nat e \<Longrightarrow> \<forall>g \<in> set gs. g < length d \<and> g \<le> e \<Longrightarrow>
    recv_loop alloc x (map (\<lambda>g. ack_pkt 1 (of_nat g)) gs) =
      Some (x\<lparr>xf_send_q := [b\<lparr>xb_unacked := of_nat (foldl max u gs)\<rparr>]\<rparr>, [])"
proof (induction gs arbitrary: x b u)
  case (Cons g gs)
  have ne: "ack_pkt 1 (of_nat g) \<noteq> []" by (simp add: ack_pkt_def)
  show ?case
  proof (cases "u \<le> g")
    case True
    have "handle_pkt alloc x (ack_pkt 1 (of_nat g)) = Some (x\<lparr>xf_send_q := [b\<lparr>xb_unacked := of_nat g\<rparr>]\<rparr>, [])"
      using ack_step [of x b "[]" 1 d u g e alloc] Cons.prems assms True by simp
    then show ?thesis
      using Cons.IH [of "x\<lparr>xf_send_q := [b\<lparr>xb_unacked := of_nat g\<rparr>]\<rparr>" "b\<lparr>xb_unacked := of_nat g\<rparr>" g] Cons.prems True ne
      by (simp add: max_def)
  next
    case False
    have "(of_nat g :: u64) < of_nat u"
      using False Cons.prems(5) assms by (simp add: word_less_nat_alt unat_u64)
    then have "handle_pkt alloc x (ack_pkt 1 (of_nat g)) = Some (x, [])"
      using Cons.prems by (simp add: handle_ack_pkt handle_ack_def)
    then show ?thesis using Cons.IH [of x b u] Cons.prems False ne by (simp add: max_def)
  qed
qed simp

lemma butlast_woffs: "k \<in> set (butlast (woffs L lim k0)) \<Longrightarrow> k + 1024 < L"
proof (induction L lim k0 rule: woffs.induct)
  case (1 L lim k0)
  show ?case
  proof (cases "k0 < L \<and> k0 < lim")
    case True
    then have w: "woffs L lim k0 = k0 # woffs L lim (min L (k0 + 1024))" by (subst woffs.simps) simp
    have "woffs L lim (min L (k0 + 1024)) \<noteq> [] \<Longrightarrow> k0 + 1024 < L"
      by (subst (asm) woffs.simps) (simp split: if_splits)
    then show ?thesis using 1 True unfolding w by (auto split: if_splits)
  next
    case False
    then have "woffs L lim k0 = []" by (subst woffs.simps) simp
    then show ?thesis using 1(2) by simp
  qed
qed

lemma list_preimage: "set ys \<subseteq> f ` A \<Longrightarrow> \<exists>xs. set xs \<subseteq> A \<and> ys = map f xs"
proof (induction ys)
  case (Cons y ys)
  then obtain x xs where "x \<in> A" "y = f x" "set xs \<subseteq> A" "ys = map f xs" by auto
  then show ?case by (intro exI [of _ "x # xs"]) simp
qed simp

lemma foldl_max: "\<forall>g \<in> set gs. 0 < g \<and> g < L \<Longrightarrow> gs \<noteq> [] \<Longrightarrow> u < (L :: nat) \<Longrightarrow> 0 < foldl max u gs \<and> foldl max u gs < L"
proof (induction gs arbitrary: u)
  case (Cons g gs)
  then show ?case by (cases "gs = []") auto
qed simp

text \<open>
  C31. A blob of more than one chunk that fits one window, 1025 to 16384 bytes, arrives in the first
  round. If the last of its acknowledgements is lost, and of the others at least one gets back, in
  any order and any number of times, then the sender is never idle again although no datagram is
  lost from then on: the receiver, which has forgotten the blob, answers every retransmission with
  an acknowledgement of 0 bytes, and the sender ignores it.
\<close>

theorem lost_ack_stalls:
  assumes "1024 < length d" "length d \<le> 16384" "\<And>n. alloc n"
  shows "\<exists>a b acks. link_round alloc now
      (snd (rnet_ice_xfer_queue_blob (rnet_ice_xfer_open t) d), rnet_ice_xfer_open u, []) = Some (a, b, acks) \<and>
    butlast acks \<noteq> [] \<and> xf_ready b = [d] \<and>
    (\<forall>got ts. got \<noteq> [] \<and> set got \<subseteq> set (butlast acks) \<longrightarrow>
      (\<exists>a' b' acks'. link_run alloc ts (a, b, got) = Some (a', b', acks') \<and>
        \<not> rnet_ice_xfer_send_idle a' \<and> rnet_ice_xfer_failed a' = None))"
proof -
  let ?w = "woffs (length d) 16384 0"
  let ?ack = "\<lambda>k. ack_pkt 1 (of_nat (min (length d) (k + 1024)))"
  obtain a b b1 where r: "link_round alloc now
      (snd (rnet_ice_xfer_queue_blob (rnet_ice_xfer_open t) d), rnet_ice_xfer_open u, []) = Some (a, b, map ?ack ?w)"
    and b: "receiver_base [d] b" "\<not> xf_recv_active b" and a: "\<not> xf_failed a" "xf_send_q a = [b1]"
      "xb_id b1 = 1" "xb_data b1 = d" "xb_unacked b1 = of_nat 0" "xb_next_off b1 = of_nat (length d)"
    using first_round [of d alloc, OF assms] by blast
  have L: "length d < 2 ^ 63" using assms(2) by simp
  have w2: "?w = 0 # 1024 # woffs (length d) 16384 (min (length d) 2048)"
    using assms(1) by (subst woffs.simps, subst woffs.simps) (auto simp: min_def)
  have nonempty: "butlast (map ?ack ?w) \<noteq> []" unfolding w2 by simp
  have stall: "\<exists>a' b' acks'. link_run alloc ts (a, b, got) = Some (a', b', acks') \<and>
      \<not> rnet_ice_xfer_send_idle a' \<and> rnet_ice_xfer_failed a' = None"
    if got: "got \<noteq> []" "set got \<subseteq> set (butlast (map ?ack ?w))" for got ts
  proof -
    have "set got \<subseteq> ?ack ` set (butlast ?w)" using got(2) by (simp add: map_butlast [symmetric])
    then obtain ks where ks: "set ks \<subseteq> set (butlast ?w)" "got = map ?ack ks"
      using list_preimage [of got ?ack] by blast
    let ?gs = "map (\<lambda>k. k + 1024) ks"
    have gs: "\<forall>g \<in> set ?gs. 0 < g \<and> g < length d" "?gs \<noteq> []" using ks got(1) butlast_woffs by auto
    then have "\<forall>k \<in> set ks. min (length d) (k + 1024) = k + 1024" by auto
    then have map: "got = map (\<lambda>g. ack_pkt 1 (of_nat g)) ?gs" using ks(2) by auto
    let ?u = "foldl max 0 ?gs"
    have "0 < length d" using assms(1) by linarith
    from foldl_max [OF gs this] have u: "0 < ?u" "?u < length d" by blast+
    have "recv_loop alloc a got = Some (a\<lparr>xf_send_q := [b1\<lparr>xb_unacked := of_nat ?u\<rparr>]\<rparr>, [])"
      unfolding map by (rule acks_partial [OF L order_refl a(2-5) _ a(6)]) (use gs(1) less_imp_le in auto)
    then have "stalled_sender alloc d ?u a got" unfolding stalled_sender_def using a u(2) by auto
    moreover have "stalled_receiver d b" using b by (simp add: stalled_receiver_def receiver_base_def)
    ultimately show ?thesis
      using stalled_run [of d alloc, OF L assms(3) u, of a got b ts]
      by (auto simp: stalled_sender_def rnet_ice_xfer_send_idle_def rnet_ice_xfer_failed_def)
  qed
  have ready: "xf_ready b = [d]" using b(1) by (simp add: receiver_base_def)
  show ?thesis
    by (rule exI [of _ a], rule exI [of _ b], rule exI [of _ "map ?ack ?w"])
      (use r nonempty ready stall in blast)
qed

lemma lost_ack_stalls_witness:
  "\<exists>a b acks. link_round (\<lambda>n. True) 5
      (snd (rnet_ice_xfer_queue_blob (rnet_ice_xfer_open 0) (replicate 2000 7)), rnet_ice_xfer_open 0, []) = Some (a, b, acks) \<and>
    butlast acks \<noteq> [] \<and> xf_ready b = [replicate 2000 7] \<and>
    (\<forall>got ts. got \<noteq> [] \<and> set got \<subseteq> set (butlast acks) \<longrightarrow>
      (\<exists>a' b' acks'. link_run (\<lambda>n. True) ts (a, b, got) = Some (a', b', acks') \<and>
        \<not> rnet_ice_xfer_send_idle a' \<and> rnet_ice_xfer_failed a' = None))"
  by (rule lost_ack_stalls) simp_all

section \<open>Blobs that are never sent\<close>

text \<open>
  An empty blob is accepted into the queue and stays at its head for good: without datagrams
  from the peer no pump sends anything or changes the state, because the test for a blob that is
  already acknowledged holds of it from the start.
\<close>

theorem empty_blob_never_sent:
  assumes "st = RNET_ICE_STATE_CONNECTED \<or> st = RNET_ICE_STATE_COMPLETED"
  shows "fst (rnet_ice_xfer_queue_blob (rnet_ice_xfer_open t) []) = 0 \<and>
    rnet_ice_xfer_pump alloc st now [] (snd (rnet_ice_xfer_queue_blob (rnet_ice_xfer_open t) [])) =
      Some (snd (rnet_ice_xfer_queue_blob (rnet_ice_xfer_open t) []), []) \<and>
    \<not> rnet_ice_xfer_send_idle (snd (rnet_ice_xfer_queue_blob (rnet_ice_xfer_open t) []))"
  using assms unfolding queue_blob_open
  by (auto simp: rnet_ice_xfer_pump_def pump_send_def xb_len_def rnet_ice_xfer_open_def rnet_ice_xfer_send_idle_def)

lemma empty_blob_never_sent_witness:
  "rnet_ice_xfer_pump (\<lambda>n. True) RNET_ICE_STATE_CONNECTED 1000 []
      (snd (rnet_ice_xfer_queue_blob (rnet_ice_xfer_open 0) [])) =
    Some (snd (rnet_ice_xfer_queue_blob (rnet_ice_xfer_open 0) []), [])"
  using empty_blob_never_sent [of RNET_ICE_STATE_CONNECTED 0 "\<lambda>n. True" 1000] by simp

section \<open>Failure packets\<close>

text \<open>
  C32. The handler of a failure packet writes outside its 81-byte array exactly for a packet that
  announces and carries a text of more than 80 bytes. The sender never builds such a packet, the
  receiver does not check for it.
\<close>

theorem fail_packet_overflow:
  "(rnet_ice_xfer_pump alloc RNET_ICE_STATE_CONNECTED now [buf] (rnet_ice_xfer_open t) = None) \<longleftrightarrow>
     length buf \<ge> 8 \<and> take 7 buf = XFER_MAGIC \<and> buf ! 7 = 3 \<and>
     80 < unat (buf ! 8) \<and> unat (buf ! 8) + 9 \<le> length buf"
  unfolding handle_pkt_None [of alloc "rnet_ice_xfer_open t", symmetric] rnet_ice_xfer_pump_def
  by (auto simp: rnet_ice_xfer_open_def handle_pkt_def split: option.splits prod.splits)

section \<open>A run of the two-endpoint network\<close>

lemma xfer_reach_delivers:
  assumes "1024 < length d" "length d \<le> 16384" "\<And>n. alloc n"
  shows "\<exists>l r. xfer_reach alloc l r \<and> ep_queued l = [d] \<and> ep_taken r = [d]"
proof -
  let ?a0 = "snd (rnet_ice_xfer_queue_blob (rnet_ice_xfer_open 0) d)"
  let ?l1 = "(ep_open 0)\<lparr>ep_x := ?a0, ep_queued := [d]\<rparr>"
  obtain a b acks where r: "link_round alloc 0 (?a0, rnet_ice_xfer_open 0, []) = Some (a, b, acks)"
    and b: "xf_ready b = [d]"
    using first_round [of d alloc, OF assms, of 0 0 0] by (auto simp: receiver_base_def)
  obtain data where p: "rnet_ice_xfer_pump alloc RNET_ICE_STATE_CONNECTED 0 [] ?a0 = Some (a, data)"
    "rnet_ice_xfer_pump alloc RNET_ICE_STATE_CONNECTED 0 data (rnet_ice_xfer_open 0) = Some (b, acks)"
    using r by (auto split: option.splits)
  have "ep_step alloc {} (ep_open 0) ?l1"
    using ep_queue [of "ep_open 0" d ?a0 alloc "{}"] assms(2) queue_blob_open [of 0 d] by (simp add: ep_open_def)
  then have "xfer_reach alloc ?l1 (ep_open 0)"
    using xr_left [OF xr_open, of alloc 0 0 ?l1] by (simp add: ep_open_def)
  then have 2: "xfer_reach alloc (?l1\<lparr>ep_x := a, ep_sent := set data\<rparr>) (ep_open 0)"
    using xr_left ep_pump [of "[]" _ alloc RNET_ICE_STATE_CONNECTED 0 ?l1 a data] p(1) by (simp add: ep_open_def)
  let ?l2 = "?l1\<lparr>ep_x := a, ep_sent := set data\<rparr>"
  let ?r1 = "(ep_open 0)\<lparr>ep_x := b, ep_sent := set acks\<rparr>"
  have "ep_step alloc (ep_sent ?l2) (ep_open 0) ?r1"
    using ep_pump [of data "set data" alloc RNET_ICE_STATE_CONNECTED 0 "ep_open 0" b acks] p(2) by (simp add: ep_open_def)
  then have 3: "xfer_reach alloc ?l2 ?r1" by (rule xr_right [OF 2])
  have "ep_step alloc (ep_sent ?l2) ?r1 (?r1\<lparr>ep_x := b\<lparr>xf_ready := []\<rparr>, ep_taken := [d]\<rparr>)"
    using ep_take [of ?r1 d "b\<lparr>xf_ready := []\<rparr>" alloc "ep_sent ?l2"] b
    by (simp add: rnet_ice_xfer_take_blob_def ep_open_def)
  then show ?thesis using xr_right [OF 3] by fastforce
qed

lemma xfer_integrity_witness:
  "\<exists>l r. xfer_reach (\<lambda>n. True) l r \<and> ep_taken r = [replicate 2000 7] \<and>
     set (ep_taken r) \<union> set (xf_ready (ep_x r)) \<subseteq> set (ep_queued l)"
  using xfer_reach_delivers [of "replicate 2000 7" "\<lambda>n. True"] xfer_integrity [of "\<lambda>n. True"] by fastforce

end
