(* ===== verification/Spec2Isabelle.thy ===== *)
theory Spec2Isabelle
  imports RNet_Delay RNet_Session_Safe RNet_State_Sound RNet_Integrity RNet_Input RNet_Quorum RNet_Hash_Confirm
    RNet_Episode RNet_Sig_Hold RNet_Xfer_Run
begin

text \<open>
  Verification of recomp-net, a C library that keeps two to eight copies of a game in step over a
  network. All paths below are relative to \<^verbatim>\<open>src/\<close>.

  \<^bold>\<open>The program.\<close> A \<^emph>\<open>session\<close> (\<^verbatim>\<open>src/session/rnet_session.c\<close>) owns a seat in a match. The host program
  calls it once per frame: \<^verbatim>\<open>rnet_session_pump\<close> receives and sends datagrams,
  \<^verbatim>\<open>rnet_session_try_admit\<close> asks for the input rows of a tick, \<^verbatim>\<open>rnet_session_advance\<close> moves on. Datagrams
  are built and parsed by the \<^emph>\<open>protocol\<close> (\<^verbatim>\<open>src/protocol/rnet_protocol.c\<close>). Input rows wait in \<^emph>\<open>rings\<close>
  (\<^verbatim>\<open>src/input/rnet_rings.c\<close>); a tick is admitted when every seat's row is there and every seat has
  confirmed a hash of all rows. The session also carries blobs of state between seats in chunks,
  agrees on a startup profile, and queues the control messages of \<^emph>\<open>rollback\<close>. In rollback a host
  predicts missing rows (\<^verbatim>\<open>src/input/rnet_input_hist.c\<close>), decides whether a late row changes the past
  (\<^verbatim>\<open>src/input/rnet_input_contract.c\<close>), and if so replays an episode whose rows are sealed and exchanged
  (\<^verbatim>\<open>src/rollback/rnet_rollback.c\<close>), collects the peers' answers (\<^verbatim>\<open>src/rollback/rnet_rb_quorum.c\<close>) and
  compares state digests (\<^verbatim>\<open>src/rollback/rnet_hash_confirm.c\<close>). Before a match, packages travel over a
  connectivity agent (\<^verbatim>\<open>src/lobby/rnet_ice_xfer.c\<close>) and early signals are held
  (\<^verbatim>\<open>src/nat/rnet_sig_hold.c\<close>).

  \<^bold>\<open>Conventions.\<close> A struct is a record with the fields of the C struct (prefixed), an array a list whose
  length is part of an invariant, an \<^verbatim>\<open>rnet_u8/u16/u32/u64\<close> a word of that width, an enum a datatype. A
  function that changes a struct returns the new record; a status or out parameter is part of the
  result. NULL is \<open>None\<close>. Reads outside a datagram are \<open>OutOfBounds\<close>; in the session, a loop that does not
  end is \<open>Inl Hangs\<close> and an array of seats indexed out of range by a seat number of a packet or of the
  configuration is \<open>Inl OutOfRange\<close>. \<^verbatim>\<open>malloc\<close> is a predicate \<open>alloc\<close> on sizes where its failure is handled.
  The clock is a field or an argument and stands still during one call. Sending appends to an outbox;
  receiving takes a list of datagrams and the former contents of the receive buffer. Logging is left
  out.

  \<^bold>\<open>Library.\<close> \<open>RNet_Prelude\<close>: integer types, arrays and byte lemmas. \<open>RNet_Interfaces\<close>: the contracts the
  components share, as locales: \<open>op_system\<close> (an invariant every operation keeps), \<open>monotone_system\<close> (a
  measure that never falls), \<open>tick_ring\<close> (a ring addressed by ticks holds exactly the newest entry per
  slot) and \<open>bounded_fifo\<close> (a ring buffer is a bounded list). They are interpreted in \<open>RNet_Input\<close>,
  \<open>RNet_History\<close>, \<open>RNet_Hash_Confirm\<close>, \<open>RNet_Seal\<close> and \<open>RNet_Ctrl\<close>.

  \<^bold>\<open>Protocol.\<close> \<open>RNet_Wire\<close> has every \<^verbatim>\<open>rnet_proto_encode_*\<close> function, \<^verbatim>\<open>finish_packet\<close>, the checksum and the
  epoch tag; \<open>RNet_Decode\<close> has \<^verbatim>\<open>rnet_proto_decode\<close>, one reader per case of its switch, with
  \<^verbatim>\<open>(size_t)(end - c)\<close> as the C code computes it. \<open>RNet_Decode_Safe\<close>: no read outside a datagram of at
  least fourteen bytes, and exactly which shorter ones are over-read. \<open>RNet_Decode_Shape\<close>: the lengths
  inside a decoded packet. \<open>RNet_Codec\<close> and \<open>RNet_Integrity\<close>: decoding inverts encoding for all kinds, every
  message within its limits fits a datagram, one changed byte is always rejected, and the mod-set
  texts that are sent but never accepted.

  \<^bold>\<open>Input.\<close> \<open>RNet_Input\<close> models \<^verbatim>\<open>config.h\<close>, \<^verbatim>\<open>input.h\<close> and the rings: a ring holds exactly the last 128
  stored ticks. \<open>RNet_Contract\<close> models the replace decision and characterises when a row is kept or
  rewound. \<open>RNet_History\<close>: prediction repeats the nearest earlier row.

  \<^bold>\<open>Rollback.\<close> \<open>RNet_Quorum\<close>: a quorum is a map from seats to replies, and its digest view compares them
  rightly. \<open>RNet_Hash_Confirm\<close>: a tick counts as confirmed exactly when all digests up to it agree, except
  over healed gaps, which are characterised. \<open>RNet_Rollback\<close> has every function of the episode core;
  \<open>RNet_Seal\<close> its invariant; \<open>RNet_Episode\<close> what it promises: table bounds, complete seats can be replayed,
  confirmed rows survive, rows transfer between peers, the frontier is monotone, events are a FIFO.

  \<^bold>\<open>Session.\<close> \<open>RNet_Session_State\<close> has \<^verbatim>\<open>struct RNetSession\<close> and its creation. \<open>RNet_Ctrl\<close>: the rollback control
  queues and mod-set slots, with their senders and takers; the queues are well-formed rings, implement
  lists with merging of repeats, and lose nothing uncounted. \<open>RNet_Profiles\<close>: startup profiles; agreement
  is common knowledge of the best common profile. \<open>RNet_State_Xfer\<close>: the chunked state transfer and the
  hash probe; \<open>RNet_State_Net\<close> and \<open>RNet_State_Sound\<close> put a sender and its receivers on a network that
  loses, repeats and reorders datagrams and show that what arrives is what was sent. \<open>RNet_Session\<close>: the
  packet handlers of \<^verbatim>\<open>handle_decoded\<close>, the pump on a LAN transport, bootstrap, bundles, confirmation,
  admission, the delay and resynchronisation; \<open>RNet_Session_Query\<close>: liveness and statistics.
  \<open>RNet_Frames\<close>: which fields each group of operations can change. \<open>RNet_Bundle\<close>: which rows a bundle sends
  and the one tick on which its loop never ends. \<open>RNet_Lockstep\<close>: \<open>session_step\<close>, one rule per call of the
  host, and the invariant of the session's tables. \<open>RNet_Session_Safe\<close>: the pump of a reachable session
  never indexes out of range, and the observer of a full room does. \<open>RNet_Admit\<close>: an admitted tick is
  agreed. \<open>RNet_Delay\<close>: a raised delay stalls the plain lockstep loop; a START packet that never returns.

  \<^bold>\<open>Transfers outside a session.\<close> \<open>RNet_Xfer\<close> models the blob transfer over an agent, whose state, clock and
  datagrams are arguments; \<open>RNet_Xfer_Link\<close>: received blobs are those queued; \<open>RNet_Xfer_Run\<close>: delivery of a
  blob on a lossless link, and the lost acknowledgement that is never repaired. \<open>RNet_Sig_Hold\<close>: the
  hold is a bounded map for ids that fit their field.

  \<^bold>\<open>Loops.\<close> Loops over arrays are structural recursions; counting loops are functions with a measure. The
  one loop that can run forever, that of \<^verbatim>\<open>send_input_bundle\<close>, is \<open>bundle_loop\<close>, a partial function into
  \<open>option\<close>; \<open>bundle_hangs_iff\<close> says exactly when it is \<open>None\<close>. \<^verbatim>\<open>rnet_session_prepare_local_tip\<close> ends unless its
  bound is the largest tick, which its model tests. The receive loops are bounded by the guards of the
  code, 64 or 512 datagrams.

  \<^bold>\<open>Not modelled.\<close> Sockets, clocks, threads and the ICE agent with the session calls that drive it
  (operating system and third-party code); the lobby client, WebSocket, authentication and chat
  (dialogues with services); LAN discovery and rooms; the frame scheduler (pacing heuristics on
  wall-clock measurements) and the rollback driver (orchestration of host callbacks around the modelled
  rollback parts). Indexes of the state-transfer and profile arrays of a session are guarded in the models
  as in the code but are not trap-checked. A pointer argument that the C code tests for NULL at its entry
  is taken to be valid.
\<close>

end
